(* ===== verification/Prelude.thy ===== *)
theory Prelude
  imports Main "HOL-Library.Word" "HOL-Library.AList"
begin

text \<open>
  Shared vocabulary of the praeco-rs development.

  \<^item> Machine integers (\<open>u8\<close> \<dots> \<open>u128\<close>, \<open>usize\<close> on a 64-bit target) are words.
  \<^item> Rust's \<open>Result\<close> is the datatype \<open>result\<close> with the constructors \<open>Ok\<close> and \<open>Err\<close>.
  \<^item> A Rust \<open>str\<close> is its sequence of UTF-8 bytes, a list of HOL characters (a HOL character is
    one byte), so that \<open>as_bytes\<close> is the identity and \<open>len\<close> is \<^const>\<open>length\<close>. The standard
    library's string functions that the code calls (\<open>contains\<close>, \<open>starts_with\<close>, \<open>ends_with\<close>,
    \<open>split\<close>, \<open>split_once\<close>, \<open>trim\<close>, ASCII case mapping, \<open>parse\<close> to an unsigned integer) are
    defined here.
  \<^item> A \<open>DashMap\<close> or \<open>HashMap\<close> is an association list with distinct keys; the locale
    \<open>keyed_map\<close> states what its clients rely on.
\<close>

unbundle bit_operations_syntax

named_theorems str_simps \<open>evaluation of the string functions\<close>
named_theorems dm_simps \<open>laws of the concurrent map\<close>

type_synonym u8 = "8 word"
type_synonym u16 = "16 word"
type_synonym u32 = "32 word"
type_synonym u64 = "64 word"
type_synonym u128 = "128 word"
type_synonym usize = "64 word"

text \<open>\<open>std::time\<close>: instants and durations in nanoseconds.\<close>

type_synonym Instant = nat
type_synonym Duration = nat

abbreviation secs :: "nat \<Rightarrow> Duration" where
  "secs n \<equiv> n * 1000000000"

section \<open>Results\<close>

datatype ('t, 'e) result = Ok 't | Err 'e

fun is_ok :: "('t, 'e) result \<Rightarrow> bool" where
  "is_ok (Ok _) = True"
| "is_ok (Err _) = False"

lemma is_ok_iff: "is_ok r \<longleftrightarrow> (\<exists>v. r = Ok v)"
  by (cases r) auto

section \<open>Strings\<close>

abbreviation byte_of :: "char \<Rightarrow> nat" where
  "byte_of c \<equiv> of_char c"

definition is_ascii :: "string \<Rightarrow> bool" where
  "is_ascii s = list_all (\<lambda>c. byte_of c < 128) s"

fun starts_with :: "string \<Rightarrow> string \<Rightarrow> bool" where
  "starts_with [] s = True"
| "starts_with (p # ps) [] = False"
| "starts_with (p # ps) (c # s) = (p = c \<and> starts_with ps s)"

definition ends_with :: "string \<Rightarrow> string \<Rightarrow> bool" where
  "ends_with p s = starts_with (rev p) (rev s)"

fun str_contains :: "string \<Rightarrow> string \<Rightarrow> bool" where
  "str_contains p [] = (p = [])"
| "str_contains p (c # s) = (starts_with p (c # s) \<or> str_contains p s)"

definition strip_prefix :: "string \<Rightarrow> string \<Rightarrow> string option" where
  "strip_prefix p s = (if starts_with p s then Some (drop (length p) s) else None)"

fun split_on :: "char \<Rightarrow> string \<Rightarrow> string list" where
  "split_on d [] = [[]]"
| "split_on d (c # s) =
     (if c = d then [] # split_on d s
      else (case split_on d s of [] \<Rightarrow> [[c]] | w # ws \<Rightarrow> (c # w) # ws))"

fun split_once :: "char \<Rightarrow> string \<Rightarrow> (string \<times> string) option" where
  "split_once d [] = None"
| "split_once d (c # s) =
     (if c = d then Some ([], s)
      else map_option (\<lambda>(a, b). (c # a, b)) (split_once d s))"

definition to_ascii_lower :: "char \<Rightarrow> char" where
  "to_ascii_lower c = (if 65 \<le> byte_of c \<and> byte_of c \<le> 90 then char_of (byte_of c + 32) else c)"

definition to_ascii_upper :: "char \<Rightarrow> char" where
  "to_ascii_upper c = (if 97 \<le> byte_of c \<and> byte_of c \<le> 122 then char_of (byte_of c - 32) else c)"

definition to_ascii_lowercase :: "string \<Rightarrow> string" where
  "to_ascii_lowercase s = map to_ascii_lower s"

definition to_ascii_uppercase :: "string \<Rightarrow> string" where
  "to_ascii_uppercase s = map to_ascii_upper s"

definition is_ascii_digit :: "char \<Rightarrow> bool" where
  "is_ascii_digit c = (48 \<le> byte_of c \<and> byte_of c \<le> 57)"

text \<open>
  \<open>str::trim\<close> removes the characters with the Unicode property \<open>White_Space\<close>. On UTF-8 bytes the
  function below gives the width of such a character at the front of the string, 0 if there is
  none; \<open>ws_width_rev\<close> does the same on the reversed string.
\<close>

definition is_ascii_ws :: "char \<Rightarrow> bool" where
  "is_ascii_ws c = (byte_of c = 32 \<or> 9 \<le> byte_of c \<and> byte_of c \<le> 13)"

definition is_wide_ws :: "nat \<Rightarrow> nat \<Rightarrow> nat \<Rightarrow> bool" where
  "is_wide_ws a b c =
     (a = 0xE1 \<and> b = 0x9A \<and> c = 0x80
      \<or> a = 0xE2 \<and> b = 0x80 \<and> (0x80 \<le> c \<and> c \<le> 0x8A \<or> c = 0xA8 \<or> c = 0xA9 \<or> c = 0xAF)
      \<or> a = 0xE2 \<and> b = 0x81 \<and> c = 0x9F
      \<or> a = 0xE3 \<and> b = 0x80 \<and> c = 0x80)"

fun ws_width :: "string \<Rightarrow> nat" where
  "ws_width [] = 0"
| "ws_width (a # s) =
     (if is_ascii_ws a then 1
      else (case s of
        [] \<Rightarrow> 0
      | b # t \<Rightarrow>
          (if byte_of a = 0xC2 \<and> (byte_of b = 0x85 \<or> byte_of b = 0xA0) then 2
           else (case t of
             [] \<Rightarrow> 0
           | c # _ \<Rightarrow> (if is_wide_ws (byte_of a) (byte_of b) (byte_of c) then 3 else 0)))))"

fun ws_width_rev :: "string \<Rightarrow> nat" where
  "ws_width_rev [] = 0"
| "ws_width_rev (a # s) =
     (if is_ascii_ws a then 1
      else (case s of
        [] \<Rightarrow> 0
      | b # t \<Rightarrow>
          (if byte_of b = 0xC2 \<and> (byte_of a = 0x85 \<or> byte_of a = 0xA0) then 2
           else (case t of
             [] \<Rightarrow> 0
           | c # _ \<Rightarrow> (if is_wide_ws (byte_of c) (byte_of b) (byte_of a) then 3 else 0)))))"

function trim_start :: "string \<Rightarrow> string" where
  "trim_start s = (if ws_width s = 0 then s else trim_start (drop (ws_width s) s))"
  by pat_completeness auto
termination
proof (relation "measure length")
  fix s :: string
  assume "ws_width s \<noteq> 0"
  then show "(drop (ws_width s) s, s) \<in> measure length" by (cases s) auto
qed auto

function trim_start_rev :: "string \<Rightarrow> string" where
  "trim_start_rev s = (if ws_width_rev s = 0 then s else trim_start_rev (drop (ws_width_rev s) s))"
  by pat_completeness auto
termination
proof (relation "measure length")
  fix s :: string
  assume "ws_width_rev s \<noteq> 0"
  then show "(drop (ws_width_rev s) s, s) \<in> measure length" by (cases s) auto
qed auto

declare trim_start.simps [simp del] trim_start_rev.simps [simp del]

definition trim :: "string \<Rightarrow> string" where
  "trim s = rev (trim_start_rev (rev (trim_start s)))"

text \<open>
  \<open>str::parse\<close> to an unsigned integer below \<open>bound\<close>: an optional \<open>+\<close>, at least one decimal
  digit, and no overflow.
\<close>

fun dec_value :: "nat \<Rightarrow> string \<Rightarrow> nat option" where
  "dec_value acc [] = Some acc"
| "dec_value acc (c # s) =
     (if is_ascii_digit c then dec_value (10 * acc + (byte_of c - 48)) s else None)"

definition parse_unsigned :: "nat \<Rightarrow> string \<Rightarrow> nat option" where
  "parse_unsigned bound s =
     (let digits = (case s of c # t \<Rightarrow> (if c = CHR ''+'' then t else s) | [] \<Rightarrow> s)
      in if digits = [] then None
         else (case dec_value 0 digits of
           None \<Rightarrow> None
         | Some n \<Rightarrow> (if n < bound then Some n else None)))"

subsection \<open>Facts about strings\<close>

lemma starts_with_iff: "starts_with p s \<longleftrightarrow> (\<exists>t. s = p @ t)"
  by (induction p s rule: starts_with.induct) auto

lemma ends_with_iff: "ends_with p s \<longleftrightarrow> (\<exists>t. s = t @ p)"
  unfolding ends_with_def starts_with_iff
  by (metis rev_append rev_rev_ident)

lemma str_contains_iff: "str_contains p s \<longleftrightarrow> (\<exists>a b. s = a @ p @ b)"
proof (induction s)
  case Nil
  then show ?case by auto
next
  case (Cons c s)
  show ?case
  proof
    assume "str_contains p (c # s)"
    then consider "starts_with p (c # s)" | "str_contains p s" by auto
    then show "\<exists>a b. c # s = a @ p @ b"
    proof cases
      case 1
      then show ?thesis by (auto simp: starts_with_iff intro: exI [of _ "[]"])
    next
      case 2
      then obtain a b where "s = a @ p @ b" using Cons.IH by auto
      then have "c # s = (c # a) @ p @ b" by simp
      then show ?thesis by blast
    qed
  next
    assume "\<exists>a b. c # s = a @ p @ b"
    then obtain a b where eq: "c # s = a @ p @ b" by auto
    show "str_contains p (c # s)"
    proof (cases a)
      case Nil
      with eq have "starts_with p (c # s)" by (auto simp: starts_with_iff)
      then show ?thesis by simp
    next
      case (Cons x a')
      with eq have "s = a' @ p @ b" by simp
      with Cons.IH show ?thesis by auto
    qed
  qed
qed

lemma str_contains_single [simp]: "str_contains [c] s \<longleftrightarrow> c \<in> set s"
  by (induction s) auto

lemma str_contains_append1: "str_contains p s \<Longrightarrow> str_contains p (t @ s)"
  unfolding str_contains_iff by (metis append.assoc)

lemma str_contains_append2: "str_contains p s \<Longrightarrow> str_contains p (s @ t)"
  unfolding str_contains_iff by (metis append.assoc)

lemma split_on_nonempty [simp]: "split_on d s \<noteq> []"
  by (induction s) (auto split: list.splits)

lemma split_on_no_delim: "w \<in> set (split_on d s) \<Longrightarrow> d \<notin> set w"
  by (induction s arbitrary: w) (auto split: list.splits if_splits)

lemma split_on_subset: "w \<in> set (split_on d s) \<Longrightarrow> set w \<subseteq> set s"
  by (induction s arbitrary: w) (fastforce split: list.splits if_splits)+

lemma split_on_id: "d \<notin> set w \<Longrightarrow> split_on d w = [w]"
  by (induction w) auto

lemma split_on_append: "d \<notin> set w \<Longrightarrow> split_on d (w @ d # s) = w # split_on d s"
  by (induction w) auto

lemma to_ascii_lower_fix: "\<not> (65 \<le> byte_of c \<and> byte_of c \<le> 90) \<Longrightarrow> to_ascii_lower c = c"
  by (auto simp: to_ascii_lower_def)

lemma byte_of_bound [simp]: "byte_of c < 256"
  by (metis (no_types) nat_of_char_less_256)

section \<open>Concurrent maps\<close>

text \<open>
  The code keeps its shared tables in \<open>DashMap\<close>s. The model uses an association list: \<open>get\<close> is
  \<^const>\<open>map_of\<close>, \<open>insert\<close> overwrites, \<open>remove\<close> deletes, \<open>retain\<close> filters, and \<open>len\<close> counts the
  entries, which are distinct by their keys.
\<close>

type_synonym ('k, 'v) dashmap = "('k \<times> 'v) list"

definition dm_wf :: "('k, 'v) dashmap \<Rightarrow> bool" where
  "dm_wf m = distinct (map fst m)"

definition dm_get :: "('k, 'v) dashmap \<Rightarrow> 'k \<Rightarrow> 'v option" where
  "dm_get m k = map_of m k"

definition dm_insert :: "'k \<Rightarrow> 'v \<Rightarrow> ('k, 'v) dashmap \<Rightarrow> ('k, 'v) dashmap" where
  "dm_insert k v m = AList.update k v m"

definition dm_remove :: "'k \<Rightarrow> ('k, 'v) dashmap \<Rightarrow> ('k, 'v) dashmap" where
  "dm_remove k m = AList.delete k m"

definition dm_retain :: "('k \<Rightarrow> 'v \<Rightarrow> bool) \<Rightarrow> ('k, 'v) dashmap \<Rightarrow> ('k, 'v) dashmap" where
  "dm_retain P m = filter (\<lambda>(k, v). P k v) m"

definition dm_len :: "('k, 'v) dashmap \<Rightarrow> nat" where
  "dm_len m = length m"

definition dm_contains_key :: "('k, 'v) dashmap \<Rightarrow> 'k \<Rightarrow> bool" where
  "dm_contains_key m k = (dm_get m k \<noteq> None)"

locale keyed_map =
  fixes get :: "'m \<Rightarrow> 'k \<Rightarrow> 'v option"
    and insert_at :: "'k \<Rightarrow> 'v \<Rightarrow> 'm \<Rightarrow> 'm"
    and remove_at :: "'k \<Rightarrow> 'm \<Rightarrow> 'm"
    and retain :: "('k \<Rightarrow> 'v \<Rightarrow> bool) \<Rightarrow> 'm \<Rightarrow> 'm"
    and len :: "'m \<Rightarrow> nat"
    and wf :: "'m \<Rightarrow> bool"
  assumes get_insert: "get (insert_at k v m) k' = (if k' = k then Some v else get m k')"
    and get_remove: "wf m \<Longrightarrow> get (remove_at k m) k' = (if k' = k then None else get m k')"
    and get_retain: "wf m \<Longrightarrow> get (retain P m) k =
      (case get m k of None \<Rightarrow> None | Some v \<Rightarrow> (if P k v then Some v else None))"
    and wf_insert: "wf m \<Longrightarrow> wf (insert_at k v m)"
    and wf_remove: "wf m \<Longrightarrow> wf (remove_at k m)"
    and wf_retain: "wf m \<Longrightarrow> wf (retain P m)"
    and len_insert: "wf m \<Longrightarrow> len (insert_at k v m) = (if get m k = None then Suc (len m) else len m)"
    and len_remove: "wf m \<Longrightarrow> len (remove_at k m) = (if get m k = None then len m else len m - 1)"
    and len_retain: "len (retain P m) \<le> len m"
begin

text \<open>The capacity discipline of every bounded table of the program.\<close>

lemma insert_bounded:
  assumes "wf m" and "len m \<le> bound" and "len m < bound \<or> get m k \<noteq> None"
  shows "len (insert_at k v m) \<le> bound"
  using assms by (auto simp: len_insert)

lemma retain_bounded: "len m \<le> bound \<Longrightarrow> len (retain P m) \<le> bound"
  using len_retain le_trans by blast

lemma remove_bounded: "wf m \<Longrightarrow> len m \<le> bound \<Longrightarrow> len (remove_at k m) \<le> bound"
  by (auto simp: len_remove)

lemma get_retain_keeps: "wf m \<Longrightarrow> get m k = Some v \<Longrightarrow> P k v \<Longrightarrow> get (retain P m) k = Some v"
  by (simp add: get_retain)

lemma get_retain_SomeD: "wf m \<Longrightarrow> get (retain P m) k = Some v \<Longrightarrow> get m k = Some v \<and> P k v"
  by (auto simp: get_retain split: option.splits if_splits)

end

lemma map_of_filter_distinct:
  "distinct (map fst m) \<Longrightarrow> map_of (filter (\<lambda>(k, v). P k v) m) k =
     (case map_of m k of None \<Rightarrow> None | Some v \<Rightarrow> (if P k v then Some v else None))"
proof (induction m)
  case Nil
  then show ?case by simp
next
  case (Cons x m)
  obtain a b where x: "x = (a, b)" by (cases x)
  have "map_of (filter (\<lambda>(k, v). P k v) m) a = None" and "map_of m a = None"
    using Cons.prems x by (force simp: map_of_eq_None_iff)+
  then show ?case using Cons x by (auto split: option.splits)
qed

lemma length_update_alist:
  "distinct (map fst m) \<Longrightarrow>
     length (AList.update k v m) = (if map_of m k = None then Suc (length m) else length m)"
  by (induction m) (auto split: if_splits)

lemma length_delete_alist:
  "distinct (map fst m) \<Longrightarrow>
     length (AList.delete k m) = (if map_of m k = None then length m else length m - 1)"
proof (induction m)
  case Nil
  then show ?case by simp
next
  case (Cons x m)
  obtain a b where x: "x = (a, b)" by (cases x)
  show ?case
  proof (cases "k = a")
    case True
    with Cons.prems x have "k \<notin> fst ` set m" by auto
    then have "AList.delete k m = m" by (rule delete_id)
    with True x show ?thesis by (simp add: AList.delete_eq)
  next
    case False
    have "map_of m k \<noteq> None \<Longrightarrow> 0 < length m" by (cases m) auto
    with Cons x False show ?thesis by (auto split: if_splits)
  qed
qed

interpretation dm: keyed_map dm_get dm_insert dm_remove dm_retain dm_len dm_wf
proof (unfold_locales, goal_cases)
  case (1 k v m k')
  then show ?case by (simp add: dm_get_def dm_insert_def update_conv')
next
  case (2 m k k')
  then show ?case by (simp add: dm_get_def dm_remove_def delete_conv')
next
  case (3 m P k)
  then show ?case by (simp add: dm_wf_def dm_get_def dm_retain_def map_of_filter_distinct)
next
  case (4 m k v)
  then show ?case by (simp add: dm_wf_def dm_insert_def distinct_update)
next
  case (5 m k)
  then show ?case by (simp add: dm_wf_def dm_remove_def distinct_delete)
next
  case (6 m P)
  then show ?case by (auto simp: dm_wf_def dm_retain_def intro: distinct_map_filter)
next
  case (7 m k v)
  then show ?case 
    unfolding dm_wf_def dm_len_def dm_get_def dm_insert_def by (rule length_update_alist)
next
  case (8 m k)
  then show ?case
    unfolding dm_wf_def dm_len_def dm_get_def dm_remove_def by (rule length_delete_alist)
next
  case (9 P m)
  then show ?case by (simp add: dm_len_def dm_retain_def)
qed

lemma dm_wf_empty [simp]: "dm_wf []"
  by (simp add: dm_wf_def)

lemma dm_get_empty [simp]: "dm_get [] k = None"
  by (simp add: dm_get_def)

lemma dm_len_empty [simp]: "dm_len [] = 0"
  by (simp add: dm_len_def)

lemma dm_all_none: "(\<And>k. dm_get m k = None) \<Longrightarrow> m = []"
proof -
  assume "\<And>k. dm_get m k = None"
  then have "map_of m = Map.empty" by (simp add: dm_get_def fun_eq_iff)
  then show ?thesis by simp
qed

lemmas dm_laws [dm_simps] =
  dm.get_insert dm.get_remove dm.get_retain dm.wf_insert dm.wf_remove dm.wf_retain
  dm.len_insert dm.len_remove

lemmas dm_exec = dm_get_def dm_insert_def dm_remove_def dm_retain_def dm_len_def
  dm_contains_key_def dm_wf_def

section \<open>Machine integers\<close>

lemma unat_suc_lt:
  fixes c m :: "'a::len word"
  assumes "c < m"
  shows "unat (c + 1) = Suc (unat c)"
proof -
  from assms have "Suc (unat c) \<le> unat m" by (simp add: word_less_nat_alt)
  also have "unat m < 2 ^ LENGTH('a)" by (rule unsigned_less)
  finally show ?thesis by (simp add: unat_word_ariths)
qed

lemma unat_pred:
  fixes c :: "'a::len word"
  assumes "unat c = Suc n"
  shows "unat (c - 1) = n"
proof -
  have "c \<noteq> 0" using assms by auto
  then show ?thesis using assms by (simp add: unat_minus_one)
qed

text \<open>\<open>to_be_bytes\<close> and \<open>from_be_bytes\<close> of the integer types.\<close>

fun to_be_bytes :: "nat \<Rightarrow> 'a::len word \<Rightarrow> u8 list" where
  "to_be_bytes 0 w = []"
| "to_be_bytes (Suc n) w = to_be_bytes n (drop_bit 8 w) @ [ucast w]"

definition from_be_bytes :: "u8 list \<Rightarrow> 'a::len word" where
  "from_be_bytes bs = foldl (\<lambda>acc b. push_bit 8 acc OR ucast b) 0 bs"

lemma length_to_be_bytes [simp]: "length (to_be_bytes n w) = n"
  by (induction n arbitrary: w) auto

lemma from_be_bytes_snoc: "from_be_bytes (bs @ [b]) = push_bit 8 (from_be_bytes bs) OR ucast b"
  by (simp add: from_be_bytes_def)

lemma from_to_be_bytes_take: "from_be_bytes (to_be_bytes n w) = take_bit (8 * n) w"
proof (induction n arbitrary: w)
  case 0
  then show ?case by (simp add: from_be_bytes_def)
next
  case (Suc n)
  show ?case
    unfolding to_be_bytes.simps from_be_bytes_snoc Suc
    by (rule bit_word_eqI) (auto simp: bit_simps)
qed

lemma from_to_be_bytes:
  fixes w :: "'a::len word"
  assumes "LENGTH('a) \<le> 8 * n"
  shows "from_be_bytes (to_be_bytes n w) = w"
  using assms by (simp add: from_to_be_bytes_take take_bit_word_eq_self)

section \<open>Counting\<close>

text \<open>The number of list elements with a property; the counters of the program are compared with it.\<close>

definition cnt :: "('a \<Rightarrow> bool) \<Rightarrow> 'a list \<Rightarrow> nat" where
  "cnt P xs = length (filter P xs)"

lemma cnt_simps [simp]: "cnt P [] = 0" "cnt P (x # xs) = of_bool (P x) + cnt P xs"
  "cnt P (xs @ ys) = cnt P xs + cnt P ys"
  by (simp_all add: cnt_def)

lemma cnt_le_length: "cnt P xs \<le> length xs"
  by (simp add: cnt_def)

lemma cnt_mono: "(\<And>x. P x \<Longrightarrow> Q x) \<Longrightarrow> cnt P xs \<le> cnt Q xs"
  by (induction xs) (auto simp: le_SucI)

lemma cnt_update:
  "i < length xs \<Longrightarrow> cnt P (xs[i := x]) + of_bool (P (xs ! i)) = cnt P xs + of_bool (P x)"
proof (induction xs arbitrary: i)
  case (Cons y ys)
  then show ?case by (cases i) auto
qed simp

lemma cnt_less_length: "i < length xs \<Longrightarrow> \<not> P (xs ! i) \<Longrightarrow> cnt P xs < length xs"
  by (auto simp: cnt_def intro!: length_filter_less [of "xs ! i"])

lemma cnt_pos: "i < length xs \<Longrightarrow> P (xs ! i) \<Longrightarrow> 0 < cnt P xs"
  by (auto simp: cnt_def filter_empty_conv intro!: bexI [of _ "xs ! i"])

lemma find_None: "find P xs = None \<longleftrightarrow> \<not> list_ex P xs"
  by (induction xs) auto

lemma find_SomeD: "find P xs = Some x \<Longrightarrow> x \<in> set xs \<and> P x"
  by (induction xs) (auto split: if_splits)

lemma result_bind_Ok: "(case r of Ok a \<Rightarrow> f a | Err e \<Rightarrow> Err e) = Ok v \<longleftrightarrow> (\<exists>a. r = Ok a \<and> f a = Ok v)"
  by (cases r) auto

lemma list_all2_mem2: "list_all2 P xs ys \<Longrightarrow> y \<in> set ys \<Longrightarrow> \<exists>x \<in> set xs. P x y"
  by (induction rule: list_all2_induct) auto

lemma list_all2_mem1: "list_all2 P xs ys \<Longrightarrow> x \<in> set xs \<Longrightarrow> \<exists>y \<in> set ys. P x y"
  by (induction rule: list_all2_induct) auto

end
