(* ===== verification/Net_Addr.thy ===== *)
theory Net_Addr
  imports Prelude
begin

text \<open>
  IP addresses: \<open>std::net::IpAddr\<close> with the parts of the standard library the code uses, the
  canonicalisation of client addresses of \<open>common/src/lib.rs\<close>, and the relay server's own version of
  it. An \<open>Ipv4Addr\<close> is its 32 bits and an \<open>Ipv6Addr\<close> its 128 bits, both in network order.
\<close>

type_synonym Ipv4Addr = u32
type_synonym Ipv6Addr = u128

datatype IpAddr = V4 Ipv4Addr | V6 Ipv6Addr

definition segment :: "nat \<Rightarrow> Ipv6Addr \<Rightarrow> u16" where
  "segment i v = ucast (drop_bit (112 - 16 * i) v)"

definition ipv6_new :: "u16 \<Rightarrow> u16 \<Rightarrow> u16 \<Rightarrow> u16 \<Rightarrow> u16 \<Rightarrow> u16 \<Rightarrow> u16 \<Rightarrow> u16 \<Rightarrow> Ipv6Addr" where
  "ipv6_new a b c d e f g h =
     push_bit 112 (ucast a) OR push_bit 96 (ucast b) OR push_bit 80 (ucast c) OR
     push_bit 64 (ucast d) OR push_bit 48 (ucast e) OR push_bit 32 (ucast f) OR
     push_bit 16 (ucast g) OR ucast h"

text \<open>\<open>Ipv6Addr::to_ipv4_mapped\<close>: the ten leading octets are 0 and the next two are \<open>0xff\<close>.\<close>

definition to_ipv4_mapped :: "Ipv6Addr \<Rightarrow> Ipv4Addr option" where
  "to_ipv4_mapped v = (if drop_bit 32 v = 0xFFFF then Some (ucast v) else None)"

text \<open>\<open>Ipv4Addr::to_ipv6_mapped\<close>.\<close>

definition to_ipv6_mapped :: "Ipv4Addr \<Rightarrow> Ipv6Addr" where
  "to_ipv6_mapped v = push_bit 32 0xFFFF OR ucast v"

definition v6_is_loopback :: "Ipv6Addr \<Rightarrow> bool" where
  "v6_is_loopback v = (v = 1)"

fun is_unspecified :: "IpAddr \<Rightarrow> bool" where
  "is_unspecified (V4 v) = (v = 0)"
| "is_unspecified (V6 v) = (v = 0)"

section \<open>Canonical client addresses\<close>

fun canonical_client_ip :: "IpAddr \<Rightarrow> IpAddr" where
  "canonical_client_ip (V4 v4) = V4 v4"
| "canonical_client_ip (V6 v6) =
     (case to_ipv4_mapped v6 of
        Some mapped_v4 \<Rightarrow> V4 mapped_v4
      | None \<Rightarrow>
          (if v6_is_loopback v6 \<or> is_unspecified (V6 v6) then V6 v6
           else V6 (ipv6_new (segment 0 v6) (segment 1 v6) (segment 2 v6) (segment 3 v6) 0 0 0 0)))"

text \<open>\<open>canonicalize_ip\<close> of the relay server.\<close>

fun canonicalize_ip :: "IpAddr \<Rightarrow> IpAddr" where
  "canonicalize_ip (V4 v4) = V4 v4"
| "canonicalize_ip (V6 v6) =
     (case to_ipv4_mapped v6 of
        Some v4 \<Rightarrow> V4 v4
      | None \<Rightarrow> V6 (ipv6_new (segment 0 v6) (segment 1 v6) (segment 2 v6) (segment 3 v6) 0 0 0 0))"

fun unwrap_ipv4_mapped :: "IpAddr \<Rightarrow> IpAddr" where
  "unwrap_ipv4_mapped (V4 v4) = V4 v4"
| "unwrap_ipv4_mapped (V6 v6) =
     (case to_ipv4_mapped v6 of Some mapped_v4 \<Rightarrow> V4 mapped_v4 | None \<Rightarrow> V6 v6)"

section \<open>Lemmas\<close>

lemma prefix64_mask:
  "ipv6_new (segment 0 v) (segment 1 v) (segment 2 v) (segment 3 v) 0 0 0 0 = v AND NOT (mask 64)"
proof (rule bit_word_eqI)
  fix n assume "n < LENGTH(128)"
  then consider "n < 64" | "64 \<le> n" "n < 80" | "80 \<le> n" "n < 96" | "96 \<le> n" "n < 112" | "112 \<le> n" "n < 128"
    by fastforce
  then show "bit (ipv6_new (segment 0 v) (segment 1 v) (segment 2 v) (segment 3 v) 0 0 0 0) n =
      bit (v AND NOT (mask 64)) n"
    by cases (auto simp: ipv6_new_def segment_def bit_simps)
qed

lemma ffff_mask: "(0xFFFF :: 'a::len word) = mask 16"
  by (simp add: mask_eq_exp_minus_1)

lemma to_ipv4_mapped_of_mapped [simp]: "to_ipv4_mapped (to_ipv6_mapped v) = Some v"
proof -
  have "drop_bit 32 (to_ipv6_mapped v) = (0xFFFF :: 128 word)"
    unfolding to_ipv6_mapped_def ffff_mask
    by (rule bit_word_eqI) (auto simp: bit_simps dest: bit_imp_le_length)
  moreover have "ucast (to_ipv6_mapped v) = v"
    unfolding to_ipv6_mapped_def ffff_mask
    by (rule bit_word_eqI) (auto simp: bit_simps)
  ultimately show ?thesis by (simp add: to_ipv4_mapped_def)
qed

lemma to_ipv4_mapped_SomeD:
  assumes "to_ipv4_mapped v = Some w"
  shows "v = to_ipv6_mapped w"
proof -
  from assms have hi: "drop_bit 32 v = mask 16" and w: "w = ucast v"
    by (auto simp: to_ipv4_mapped_def ffff_mask split: if_splits)
  show ?thesis
  proof (rule bit_word_eqI)
    fix n assume n: "n < LENGTH(128)"
    show "bit v n = bit (to_ipv6_mapped w) n"
    proof (cases "n < 32")
      case True
      then show ?thesis unfolding to_ipv6_mapped_def ffff_mask by (auto simp: w bit_simps)
    next
      case False
      have "bit v n = bit (drop_bit 32 v) (n - 32)"
        using False by (simp add: bit_simps)
      then show ?thesis using False n unfolding to_ipv6_mapped_def ffff_mask
        by (auto simp: hi bit_simps dest: bit_imp_le_length)
    qed
  qed
qed

lemma mapped_low_half:
  assumes "to_ipv4_mapped v \<noteq> None"
  shows "drop_bit 64 v = 0"
proof -
  from assms have low: "drop_bit 32 v = 0xFFFF" by (simp add: to_ipv4_mapped_def split: if_splits)
  have "drop_bit 64 v = drop_bit 32 (drop_bit 32 v)" by simp
  also have "\<dots> = 0" unfolding low by simp
  finally show ?thesis .
qed

lemma masked_not_mapped [simp]: "to_ipv4_mapped (v AND NOT (mask 64)) = None"
proof -
  have "\<not> bit (drop_bit 32 (v AND NOT (mask 64))) 0" by (simp add: bit_simps)
  moreover have "bit (0xFFFF :: 128 word) 0" by simp
  ultimately have "drop_bit 32 (v AND NOT (mask 64)) \<noteq> (0xFFFF :: 128 word)" by metis
  then show ?thesis by (simp add: to_ipv4_mapped_def)
qed

lemma canonical_client_ip_v6:
  "to_ipv4_mapped v = None \<Longrightarrow> v \<noteq> 1 \<Longrightarrow> v \<noteq> 0 \<Longrightarrow>
     canonical_client_ip (V6 v) = V6 (v AND NOT (mask 64))"
  using prefix64_mask by (auto simp: v6_is_loopback_def)

lemma masked_not_loopback: "v AND NOT (mask 64) \<noteq> (1 :: 128 word)"
proof
  assume eq: "v AND NOT (mask 64) = (1 :: 128 word)"
  have "\<not> bit (v AND NOT (mask 64)) 0" by (simp add: bit_simps)
  with eq show False by simp
qed

lemma canonical_client_ip_masked:
  "canonical_client_ip (V6 (v AND NOT (mask 64))) = V6 (v AND NOT (mask 64))"
proof (cases "v AND NOT (mask 64) = 0")
  case True
  then show ?thesis by (simp add: to_ipv4_mapped_def)
next
  case False
  have "(v AND NOT (mask 64)) AND NOT (mask 64) = v AND NOT (mask 64)"
    by (simp add: and.assoc)
  with False show ?thesis
    using canonical_client_ip_v6 [of "v AND NOT (mask 64)"] masked_not_loopback by simp
qed

lemma canonical_client_ip_cases:
  obtains v4 where "canonical_client_ip ip = V4 v4"
  | "canonical_client_ip ip = ip" and "ip = V6 0 \<or> ip = V6 1"
  | v where "ip = V6 v" and "canonical_client_ip ip = V6 (v AND NOT (mask 64))"
proof (cases ip)
  case (V4 v4)
  then show ?thesis using that(1) by simp
next
  case (V6 v)
  show ?thesis
  proof (cases "to_ipv4_mapped v = None \<and> v \<noteq> 1 \<and> v \<noteq> 0")
    case True
    then show ?thesis using that(3) V6 canonical_client_ip_v6 by simp
  next
    case False
    show ?thesis
    proof (cases "to_ipv4_mapped v")
      case None
      with False V6 show ?thesis using that(2) by (auto simp: v6_is_loopback_def)
    next
      case (Some w)
      with V6 show ?thesis using that(1) by simp
    qed
  qed
qed

lemma canonical_client_ip_twice: "canonical_client_ip (canonical_client_ip ip) = canonical_client_ip ip"
proof (cases ip rule: canonical_client_ip_cases)
  case (1 v4)
  then show ?thesis by simp
next
  case 2
  then show ?thesis by simp
next
  case (3 v)
  then show ?thesis by (simp only: canonical_client_ip_masked)
qed

text \<open>canonicalising a client address twice is the same as canonicalising it once, so the key a
  guard stores and the key it later releases are the same table entry.\<close>

theorem canonical_client_ip_idem: "canonical_client_ip (canonical_client_ip ip) = canonical_client_ip ip"
  by (rule canonical_client_ip_twice)

text \<open>two IPv6 clients in the same /64 network (other than \<open>::/64\<close>) get the same canonical
  address, so a /64 allocation cannot be used to multiply per-client limits.\<close>

theorem canonical_client_ip_same_64:
  assumes "drop_bit 64 v = drop_bit 64 (w :: Ipv6Addr)" and "drop_bit 64 v \<noteq> 0"
  shows "canonical_client_ip (V6 v) = canonical_client_ip (V6 w)"
proof -
  have high: "canonical_client_ip (V6 u) = V6 (u AND NOT (mask 64))" if "drop_bit 64 u \<noteq> 0" for u
  proof (rule canonical_client_ip_v6)
    show "to_ipv4_mapped u = None" using that mapped_low_half [of u] by blast
  qed (use that in auto)
  have mask: "u AND NOT (mask 64) = push_bit 64 (drop_bit 64 u)" for u :: Ipv6Addr
    by (rule bit_word_eqI) (auto simp: bit_simps)
  from assms have "drop_bit 64 w \<noteq> 0" by simp
  from high [OF this] high [OF assms(2)] assms(1) show ?thesis by (simp only: mask)
qed

theorem canonical_client_ip_same_64_witness:
  "canonical_client_ip (V6 0x20010DB8ABCD00120000000000000001) =
   canonical_client_ip (V6 0x20010DB8ABCD0012FFFFFFFFFFFFFFFF)"
  by (rule canonical_client_ip_same_64) simp_all

end
