(* ===== verification/Http.thy ===== *)
theory Http
  imports Prelude Net_Addr
begin

text \<open>
  The data every component of the gateway passes around: socket addresses, URIs, header maps,
  request extensions, requests, responses, body streams, the error type of the server
  (\<open>server/src/error.rs\<close>) and the per-server counters (\<open>server/src/configuration.rs\<close>,
  \<open>ServerMetrics\<close>).

  A middleware service either hands the (possibly rewritten) request to the inner service or
  answers by itself. The sources write this as a two-constructor future, \<open>Allowed\<close> and
  \<open>Blocked\<close>; the model keeps it as the datatype \<open>gate\<close>.

  A body is the finite sequence of the frames its \<open>poll_frame\<close> yields before \<open>None\<close>.
\<close>

section \<open>Addresses and URIs\<close>

datatype SocketAddr =
    SocketV4 Ipv4Addr u16
  | SocketV6 Ipv6Addr u16 u32 u32   \<comment> \<open>address, port, flow information, scope id\<close>

fun socket_ip :: "SocketAddr \<Rightarrow> IpAddr" where
  "socket_ip (SocketV4 a _) = V4 a"
| "socket_ip (SocketV6 a _ _ _) = V6 a"

record Uri =
  uri_scheme :: "string option"
  uri_authority :: "string option"
  uri_path :: string
  uri_query :: "string option"

section \<open>Headers\<close>

text \<open>
  \<open>http::HeaderMap\<close> is a multi-map from lower-case names to values: \<open>get\<close> returns the first
  value, \<open>insert\<close> replaces all values of a name, \<open>remove\<close> drops all of them.
\<close>

type_synonym HeaderMap = "(string \<times> string) list"

definition hm_get :: "string \<Rightarrow> HeaderMap \<Rightarrow> string option" where
  "hm_get n h = map_of h n"

definition hm_get_all :: "string \<Rightarrow> HeaderMap \<Rightarrow> string list" where
  "hm_get_all n h = map snd (filter (\<lambda>(k, _). k = n) h)"

definition hm_contains_key :: "string \<Rightarrow> HeaderMap \<Rightarrow> bool" where
  "hm_contains_key n h = list_ex (\<lambda>(k, _). k = n) h"

definition hm_remove :: "string \<Rightarrow> HeaderMap \<Rightarrow> HeaderMap" where
  "hm_remove n h = filter (\<lambda>(k, _). k \<noteq> n) h"

definition hm_insert :: "string \<Rightarrow> string \<Rightarrow> HeaderMap \<Rightarrow> HeaderMap" where
  "hm_insert n v h = hm_remove n h @ [(n, v)]"

definition hm_append :: "string \<Rightarrow> string \<Rightarrow> HeaderMap \<Rightarrow> HeaderMap" where
  "hm_append n v h = h @ [(n, v)]"

text \<open>\<open>HeaderValue::to_str\<close> succeeds on visible ASCII, space and tab.\<close>

definition is_visible_ascii :: "string \<Rightarrow> bool" where
  "is_visible_ascii v = list_all (\<lambda>c. 32 \<le> byte_of c \<and> byte_of c < 127 \<or> byte_of c = 9) v"

section \<open>Identity\<close>

datatype UserRole = UserRole string

definition guest :: UserRole where
  "guest = UserRole ''Guest''"

record Claims =
  claim_sub :: string
  claim_iss :: string
  claim_aud :: "string option"
  claim_exp :: usize
  claim_oids :: "string list"
  claim_jti :: "string option"

record Extensions =
  ext_socket_addr :: "SocketAddr option"
  ext_claims :: "Claims option"
  ext_client_pem :: "string option"
  ext_client_san :: "string option"
  ext_client_oids :: "string list option"
  ext_roles_shared :: "UserRole list option"   \<comment> \<open>\<open>Arc<RoleVec<6>>\<close>\<close>
  ext_roles_inline :: "UserRole list option"   \<comment> \<open>\<open>RoleVec<6>\<close>\<close>
  ext_roles_legacy :: "UserRole list option"   \<comment> \<open>\<open>Arc<Vec<UserRole>>\<close>\<close>
  ext_trace_id :: "string option"

section \<open>Bodies, requests and responses\<close>

datatype SrvError =
    Hyper string
  | HyperUtil string
  | PayloadTooLarge usize usize
  | DecompressionLimitExceeded usize
  | ClientAborted string
  | Other string

datatype Frame = Data "u8 list" | Trailers HeaderMap

type_synonym SrvBody = "(Frame, SrvError) result list"

definition full_body :: "string \<Rightarrow> SrvBody" where
  "full_body s = (if s = [] then [] else [Ok (Data (map of_char s))])"

fun frame_bytes :: "(Frame, SrvError) result \<Rightarrow> u8 list" where
  "frame_bytes (Ok (Data d)) = d"
| "frame_bytes _ = []"

definition body_bytes :: "SrvBody \<Rightarrow> u8 list" where
  "body_bytes b = concat (map frame_bytes b)"

definition body_errors :: "SrvBody \<Rightarrow> SrvBody" where
  "body_errors b = filter (\<lambda>f. \<not> is_ok f) b"

record Request =
  req_method :: string
  req_uri :: Uri
  req_headers :: HeaderMap
  req_ext :: Extensions
  req_body :: SrvBody

record Response =
  resp_status :: nat
  resp_headers :: HeaderMap
  resp_body :: SrvBody

datatype gate = Allowed Request | Blocked Response

section \<open>Counters\<close>

record ServerMetrics =
  total_requests :: u64
  blocked_ip_filter :: u64
  blocked_inspection :: u64
  blocked_auth_rbac :: u64
  rate_limited :: u64

definition ServerMetrics_default :: ServerMetrics where
  "ServerMetrics_default =
     \<lparr> total_requests = 0, blocked_ip_filter = 0, blocked_inspection = 0, blocked_auth_rbac = 0,
       rate_limited = 0 \<rparr>"

type_synonym MetricsRegistry = "(string, ServerMetrics) dashmap"

definition for_server :: "string \<Rightarrow> MetricsRegistry \<Rightarrow> ServerMetrics" where
  "for_server server_name reg =
     (case dm_get reg server_name of Some existing \<Rightarrow> existing | None \<Rightarrow> ServerMetrics_default)"

definition inc_total_requests :: "string \<Rightarrow> MetricsRegistry \<Rightarrow> MetricsRegistry" where
  "inc_total_requests n reg =
     dm_insert n (for_server n reg \<lparr> total_requests := total_requests (for_server n reg) + 1 \<rparr>) reg"

definition inc_blocked_ip_filter :: "string \<Rightarrow> MetricsRegistry \<Rightarrow> MetricsRegistry" where
  "inc_blocked_ip_filter n reg =
     dm_insert n (for_server n reg \<lparr> blocked_ip_filter := blocked_ip_filter (for_server n reg) + 1 \<rparr>) reg"

definition inc_blocked_inspection :: "string \<Rightarrow> MetricsRegistry \<Rightarrow> MetricsRegistry" where
  "inc_blocked_inspection n reg =
     dm_insert n (for_server n reg \<lparr> blocked_inspection := blocked_inspection (for_server n reg) + 1 \<rparr>) reg"

definition inc_blocked_auth_rbac :: "string \<Rightarrow> MetricsRegistry \<Rightarrow> MetricsRegistry" where
  "inc_blocked_auth_rbac n reg =
     dm_insert n (for_server n reg \<lparr> blocked_auth_rbac := blocked_auth_rbac (for_server n reg) + 1 \<rparr>) reg"

definition inc_rate_limited :: "string \<Rightarrow> MetricsRegistry \<Rightarrow> MetricsRegistry" where
  "inc_rate_limited n reg =
     dm_insert n (for_server n reg \<lparr> rate_limited := rate_limited (for_server n reg) + 1 \<rparr>) reg"

section \<open>Lemmas\<close>

lemma hm_get_remove: "hm_get m (hm_remove n h) = (if m = n then None else hm_get m h)"
  by (induction h) (auto simp: hm_get_def hm_remove_def)

lemma hm_get_append: "hm_get m (h1 @ h2) = (case hm_get m h1 of Some v \<Rightarrow> Some v | None \<Rightarrow> hm_get m h2)"
  by (simp add: hm_get_def map_add_def split: option.splits)

lemma hm_get_insert: "hm_get m (hm_insert n v h) = (if m = n then Some v else hm_get m h)"
  unfolding hm_insert_def hm_get_append hm_get_remove
  by (auto simp: hm_get_def split: option.splits)

lemma hm_contains_key_get: "hm_contains_key n h \<longleftrightarrow> hm_get n h \<noteq> None"
  by (induction h) (auto simp: hm_contains_key_def hm_get_def)

lemma hm_get_all_remove: "hm_get_all m (hm_remove n h) = (if m = n then [] else hm_get_all m h)"
  by (induction h) (auto simp: hm_get_all_def hm_remove_def)

lemma hm_get_all_insert: "hm_get_all m (hm_insert n v h) = (if m = n then [v] else hm_get_all m h)"
proof -
  have "hm_get_all m (hm_insert n v h) = hm_get_all m (hm_remove n h) @ (if m = n then [v] else [])"
    by (auto simp: hm_get_all_def hm_insert_def)
  then show ?thesis by (simp add: hm_get_all_remove)
qed

lemma body_simps [simp]:
  "body_bytes [] = []" "body_bytes (f # b) = frame_bytes f @ body_bytes b"
  "body_errors [] = []" "body_errors (f # b) = (if is_ok f then body_errors b else f # body_errors b)"
  "body_bytes (b @ c) = body_bytes b @ body_bytes c"
  by (simp_all add: body_bytes_def body_errors_def)

lemmas hm_simps = hm_get_remove hm_get_insert hm_get_all_remove hm_get_all_insert hm_contains_key_get

lemma for_server_inc [simp]:
  "for_server n (dm_insert n m reg) = m"
  by (simp add: for_server_def dm.get_insert)

text \<open>A request used in examples.\<close>

definition demo_request :: "string \<Rightarrow> string \<Rightarrow> Request" where
  "demo_request meth path =
     \<lparr> req_method = meth,
       req_uri = \<lparr> uri_scheme = None, uri_authority = None, uri_path = path, uri_query = Some ''page=1'' \<rparr>,
       req_headers = [],
       req_ext = \<lparr> ext_socket_addr = None, ext_claims = None, ext_client_pem = None, ext_client_san = None,
                   ext_client_oids = None,
                   ext_roles_shared = None, ext_roles_inline = None, ext_roles_legacy = None, ext_trace_id = None \<rparr>,
       req_body = [] \<rparr>"

end
