(* ===== verification/Path_Sanitizer.thy ===== *)
theory Path_Sanitizer
  imports Http
begin

text \<open>
  The path sanitizer (\<open>server/src/middleware/path_sanitizer.rs\<close>): the first gate every request
  passes, and a function the router calls again before it matches a route.

  \<open>sanitize_and_normalize_path\<close> rejects forbidden bytes and escapes, checks the percent
  encoding, normalises every segment and drops empty and dot segments. The model follows the
  code's checks in their order. \<open>normalize_segment\<close> indexes two bytes past a \<open>%\<close> without a
  bounds check; the model returns \<open>IndexOutOfBounds\<close> there, which stands for the panic, and a
  theorem shows that the caller never reaches it.

  The parsers of the \<open>http\<close> crate are parameters: \<open>parse_pq\<close> for \<open>PathAndQuery\<close> and \<open>from_parts\<close>
  for \<open>Uri::from_parts\<close>.
\<close>

datatype PathSanitizeError =
    IllegalNullByte
  | IllegalEncodedSlash
  | IllegalBackslash
  | PathTraversal
  | InvalidEncoding
  | DoubleEncoding
  | InvalidPath
  | UriFormatError string
  | IndexOutOfBounds

fun sanitize_error_msg :: "PathSanitizeError \<Rightarrow> string" where
  "sanitize_error_msg IllegalNullByte = ''Path contains illegal null byte''"
| "sanitize_error_msg IllegalEncodedSlash = ''Path contains illegal encoded slash (%2f)''"
| "sanitize_error_msg IllegalBackslash = ''Path contains illegal backslash''"
| "sanitize_error_msg PathTraversal = ''Path traversal attempt detected (..)''"
| "sanitize_error_msg InvalidEncoding = ''Path contains invalid percent-encoding''"
| "sanitize_error_msg DoubleEncoding = ''Path contains suspicious double-encoding''"
| "sanitize_error_msg InvalidPath = ''Path must start with '' @ [CHR 0x27, CHR ''/'', CHR 0x27]"
| "sanitize_error_msg (UriFormatError e) = ''Internal URI formatting error: '' @ e"
| "sanitize_error_msg IndexOutOfBounds = ''index out of bounds''"

section \<open>Segments\<close>

definition is_ascii_hexdigit :: "char \<Rightarrow> bool" where
  "is_ascii_hexdigit c =
     (48 \<le> byte_of c \<and> byte_of c \<le> 57 \<or> 97 \<le> byte_of c \<and> byte_of c \<le> 102
      \<or> 65 \<le> byte_of c \<and> byte_of c \<le> 70)"

definition hex_digit_to_val :: "char \<Rightarrow> (u8, PathSanitizeError) result" where
  "hex_digit_to_val b =
     (if 48 \<le> byte_of b \<and> byte_of b \<le> 57 then Ok (of_char b - 48)
      else if 97 \<le> byte_of b \<and> byte_of b \<le> 102 then Ok (of_char b - 97 + 10)
      else if 65 \<le> byte_of b \<and> byte_of b \<le> 70 then Ok (of_char b - 65 + 10)
      else Err InvalidEncoding)"

definition is_unreserved :: "u8 \<Rightarrow> bool" where
  "is_unreserved b =
     (97 \<le> b \<and> b \<le> 122 \<or> 65 \<le> b \<and> b \<le> 90 \<or> 48 \<le> b \<and> b \<le> 57
      \<or> b = 45 \<or> b = 46 \<or> b = 95 \<or> b = 126)"

text \<open>\<open>String::push (b as char)\<close>: the byte is read as a Latin-1 code point and stored as UTF-8.\<close>

definition push_byte_as_char :: "char \<Rightarrow> string" where
  "push_byte_as_char b =
     (if byte_of b < 128 then [b]
      else [char_of (192 + byte_of b div 64), char_of (128 + byte_of b mod 64)])"

fun normalize_segment :: "string \<Rightarrow> (string, PathSanitizeError) result" where
  "normalize_segment [] = Ok []"
| "normalize_segment (c # s) =
     (if c = CHR ''%'' then
        (case s of
           h1 # h2 # t \<Rightarrow>
             (case hex_digit_to_val h1 of
                Err e \<Rightarrow> Err e
              | Ok v1 \<Rightarrow>
                 (case hex_digit_to_val h2 of
                    Err e \<Rightarrow> Err e
                  | Ok v2 \<Rightarrow>
                     (let hex_val = push_bit 4 v1 OR v2;
                          piece = (if is_unreserved hex_val then [char_of (unat hex_val)]
                                   else [CHR ''%'', to_ascii_upper h1, to_ascii_upper h2])
                      in (case normalize_segment t of Err e \<Rightarrow> Err e | Ok res \<Rightarrow> Ok (piece @ res)))))
         | _ \<Rightarrow> Err IndexOutOfBounds)
      else (case normalize_segment s of Err e \<Rightarrow> Err e | Ok res \<Rightarrow> Ok (push_byte_as_char c @ res)))"

section \<open>Paths\<close>

fun percent_ok :: "string \<Rightarrow> bool" where
  "percent_ok [] = True"
| "percent_ok (c # s) =
     (if c = CHR ''%'' then
        (case s of
           h1 # h2 # t \<Rightarrow> is_ascii_hexdigit h1 \<and> is_ascii_hexdigit h2 \<and> percent_ok t
         | _ \<Rightarrow> False)
      else percent_ok s)"

fun normalize_segments :: "string list \<Rightarrow> (string list, PathSanitizeError) result" where
  "normalize_segments [] = Ok []"
| "normalize_segments (raw_segment # rest) =
     (if raw_segment = [] then normalize_segments rest
      else (case normalize_segment raw_segment of
        Err e \<Rightarrow> Err e
      | Ok seg \<Rightarrow>
          (if seg = [] \<or> seg = ''.'' then normalize_segments rest
           else if seg = ''..'' then Err PathTraversal
           else (case normalize_segments rest of Err e \<Rightarrow> Err e | Ok segs \<Rightarrow> Ok (seg # segs)))))"

definition join_segments :: "string list \<Rightarrow> string" where
  "join_segments segs = concat (map (\<lambda>seg. CHR ''/'' # seg) segs)"

definition has_double_encoding :: "string \<Rightarrow> bool" where
  "has_double_encoding lower =
     (str_contains ''%252e'' lower \<or> str_contains ''%252f'' lower
      \<or> str_contains ''%2500'' lower \<or> str_contains ''%255c'' lower)"

definition sanitize_and_normalize_path :: "string \<Rightarrow> (string, PathSanitizeError) result" where
  "sanitize_and_normalize_path raw_path =
     (if raw_path = [] then Ok ''/''
      else if \<not> starts_with ''/'' raw_path then Err InvalidPath
      else if str_contains [CHR 0x00] raw_path then Err IllegalNullByte
      else if str_contains [CHR 0x5C] raw_path then Err IllegalBackslash
      else
        (let lower = to_ascii_lowercase raw_path in
         if str_contains ''%00'' lower then Err IllegalNullByte
         else if str_contains ''%2f'' lower then Err IllegalEncodedSlash
         else if str_contains ''%5c'' lower then Err IllegalBackslash
         else if has_double_encoding lower then Err DoubleEncoding
         else if \<not> percent_ok raw_path then Err InvalidEncoding
         else
           (let has_trailing_slash =
                  length raw_path > 1 \<and> (ends_with ''/'' raw_path \<or> ends_with ''/.'' raw_path)
            in (case normalize_segments (split_on CHR ''/'' raw_path) of
                  Err e \<Rightarrow> Err e
                | Ok segs \<Rightarrow>
                    (if segs = [] then Ok ''/''
                     else Ok (join_segments segs @ (if has_trailing_slash then ''/'' else [])))))))"

section \<open>The layer\<close>

type_synonym pq_parser = "string \<Rightarrow> (string \<times> string option, string) result"
type_synonym uri_builder = "Uri \<Rightarrow> (Uri, string) result"

definition sanitize_and_normalize_uri ::
    "pq_parser \<Rightarrow> uri_builder \<Rightarrow> Uri \<Rightarrow> (Uri, PathSanitizeError) result" where
  "sanitize_and_normalize_uri parse_pq from_parts uri =
     (case sanitize_and_normalize_path (uri_path uri) of
        Err e \<Rightarrow> Err e
      | Ok canonical_path \<Rightarrow>
          (let new_pq_str = (case uri_query uri of
                 Some q \<Rightarrow> canonical_path @ ''?'' @ q
               | None \<Rightarrow> canonical_path)
           in (case parse_pq new_pq_str of
                 Err e \<Rightarrow> Err (UriFormatError e)
               | Ok (p, q) \<Rightarrow>
                   (case from_parts (uri\<lparr> uri_path := p, uri_query := q \<rparr>) of
                      Err e \<Rightarrow> Err (UriFormatError e)
                    | Ok u \<Rightarrow> Ok u))))"

definition build_bad_request_response :: "string \<Rightarrow> Response" where
  "build_bad_request_response msg =
     \<lparr> resp_status = 400, resp_headers = [(''content-type'', ''text/plain; charset=utf-8'')],
       resp_body = full_body (''Bad Request: '' @ msg @ [CHR 0x0A]) \<rparr>"

definition path_sanitizer_call ::
    "pq_parser \<Rightarrow> uri_builder \<Rightarrow> string \<Rightarrow> Request \<Rightarrow> MetricsRegistry \<Rightarrow> gate \<times> MetricsRegistry" where
  "path_sanitizer_call parse_pq from_parts server_name req reg =
     (case sanitize_and_normalize_uri parse_pq from_parts (req_uri req) of
        Ok clean_uri \<Rightarrow> (Allowed (req\<lparr> req_uri := clean_uri \<rparr>), reg)
      | Err e \<Rightarrow> (Blocked (build_bad_request_response (sanitize_error_msg e)),
                  inc_blocked_inspection server_name reg))"

section \<open>Canonical form\<close>

text \<open>
  What the gateway wants to know of a sanitized path. A segment is in normal form when each \<open>%\<close>
  starts an escape with upper-case digits of a byte that is not unreserved.
\<close>

definition is_upper_hexdigit :: "char \<Rightarrow> bool" where
  "is_upper_hexdigit c = (is_ascii_hexdigit c \<and> to_ascii_upper c = c)"

fun hex_val :: "char \<Rightarrow> char \<Rightarrow> u8" where
  "hex_val h1 h2 =
     (case (hex_digit_to_val h1, hex_digit_to_val h2) of (Ok v1, Ok v2) \<Rightarrow> push_bit 4 v1 OR v2 | _ \<Rightarrow> 0)"

fun norm_form :: "string \<Rightarrow> bool" where
  "norm_form [] = True"
| "norm_form (c # s) =
     (if c = CHR ''%'' then
        (case s of
           h1 # h2 # t \<Rightarrow> is_upper_hexdigit h1 \<and> is_upper_hexdigit h2
                           \<and> \<not> is_unreserved (hex_val h1 h2) \<and> norm_form t
         | _ \<Rightarrow> False)
      else norm_form s)"

definition no_forbidden :: "string \<Rightarrow> bool" where
  "no_forbidden s =
     (CHR 0x00 \<notin> set s \<and> CHR 0x5C \<notin> set s
      \<and> \<not> str_contains ''%00'' (to_ascii_lowercase s)
      \<and> \<not> str_contains ''%2f'' (to_ascii_lowercase s)
      \<and> \<not> str_contains ''%5c'' (to_ascii_lowercase s))"

definition canonical_segment :: "string \<Rightarrow> bool" where
  "canonical_segment s =
     (s \<noteq> [] \<and> s \<noteq> ''.'' \<and> s \<noteq> ''..'' \<and> norm_form s \<and> no_forbidden s)"

definition canonical_path :: "string \<Rightarrow> bool" where
  "canonical_path q =
     (case split_on CHR ''/'' q of
        [] \<Rightarrow> False
      | first # rest \<Rightarrow>
          first = [] \<and> rest \<noteq> [] \<and> list_all canonical_segment (butlast rest)
          \<and> (last rest = [] \<or> canonical_segment (last rest)))"

section \<open>Lemmas on characters\<close>

lemma hex_digit_to_val_Ok: "is_ascii_hexdigit h \<longleftrightarrow> (\<exists>v. hex_digit_to_val h = Ok v)"
  by (auto simp: is_ascii_hexdigit_def hex_digit_to_val_def)

lemma byte_char_of [simp]: "n < 256 \<Longrightarrow> byte_of (char_of n) = n"
  by simp

lemma of_char_u8: "(of_char c :: u8) = of_nat (byte_of c)"
  by (metis of_nat_of_char)

lemma byte_upper:
  "byte_of (to_ascii_upper c) = (if 97 \<le> byte_of c \<and> byte_of c \<le> 122 then byte_of c - 32 else byte_of c)"
  by (auto simp: to_ascii_upper_def)

lemma byte_lower:
  "byte_of (to_ascii_lower c) = (if 65 \<le> byte_of c \<and> byte_of c \<le> 90 then byte_of c + 32 else byte_of c)"
  by (auto simp: to_ascii_lower_def)

lemma char_eq_byte: "c = d \<longleftrightarrow> byte_of c = byte_of d"
  by (metis char_of_char)

lemma lower_upper [simp]: "to_ascii_lower (to_ascii_upper c) = to_ascii_lower c"
  by (auto simp: char_eq_byte byte_upper byte_lower)

lemma upper_upper [simp]: "to_ascii_upper (to_ascii_upper c) = to_ascii_upper c"
  by (auto simp: char_eq_byte byte_upper)

lemma hex_digit_upper [simp]: "hex_digit_to_val (to_ascii_upper h) = hex_digit_to_val h"
  by (auto simp: hex_digit_to_val_def byte_upper of_char_u8 of_nat_diff)

lemma hexdigit_upper [simp]: "is_ascii_hexdigit (to_ascii_upper h) = is_ascii_hexdigit h"
  by (simp add: hex_digit_to_val_Ok)

lemma upper_hexdigit_upper: "is_ascii_hexdigit h \<Longrightarrow> is_upper_hexdigit (to_ascii_upper h)"
  by (simp add: is_upper_hexdigit_def)

lemma hex_val_upper [simp]: "hex_val (to_ascii_upper h1) (to_ascii_upper h2) = hex_val h1 h2"
  by simp

lemma hexdigit_not_special:
  "is_ascii_hexdigit h \<Longrightarrow> h \<notin> {CHR ''/'', CHR ''%'', CHR ''?'', CHR ''#'', CHR 0x00, CHR 0x5C}"
  by (auto simp: is_ascii_hexdigit_def)

lemma unreserved_not_special:
  assumes "is_unreserved v"
  shows "char_of (unat v) \<notin> {CHR ''/'', CHR ''%'', CHR ''?'', CHR ''#'', CHR 0x00, CHR 0x5C}" and "unat v < 128"
proof -
  have b: "byte_of (char_of (unat v)) = unat v"
  proof -
    have "unat v < 2 ^ LENGTH(8)" by (rule unsigned_less)
    then show ?thesis by simp
  qed
  from assms have "unat v \<notin> {0, 35, 37, 47, 63, 92} \<and> unat v < 128"
    unfolding is_unreserved_def word_le_nat_alt by (elim disjE) simp_all
  then show "char_of (unat v) \<notin> {CHR ''/'', CHR ''%'', CHR ''?'', CHR ''#'', CHR 0x00, CHR 0x5C}" and "unat v < 128"
    by (simp_all add: char_eq_byte b)
qed

lemma push_byte_not_special:
  "x \<in> set (push_byte_as_char c) \<Longrightarrow> x = c \<or> 128 \<le> byte_of x"
proof -
  assume x: "x \<in> set (push_byte_as_char c)"
  have "byte_of c div 64 < 4" by (rule less_mult_imp_div_less) simp
  then have "192 + byte_of c div 64 < 256" and "128 + byte_of c mod 64 < 256" by simp_all
  with x show ?thesis by (auto simp: push_byte_as_char_def split: if_splits)
qed

lemma push_byte_ascii: "byte_of c < 128 \<Longrightarrow> push_byte_as_char c = [c]"
  by (simp add: push_byte_as_char_def)

section \<open>Lemmas on segments\<close>

lemma percent_ok_induct [consumes 1, case_names Nil Esc Chr]:
  assumes "percent_ok s" and "P []"
    and "\<And>h1 h2 t. is_ascii_hexdigit h1 \<Longrightarrow> is_ascii_hexdigit h2 \<Longrightarrow> percent_ok t \<Longrightarrow> P t \<Longrightarrow>
           P (CHR ''%'' # h1 # h2 # t)"
    and "\<And>c t. c \<noteq> CHR ''%'' \<Longrightarrow> percent_ok t \<Longrightarrow> P t \<Longrightarrow> P (c # t)"
  shows "P s"
  using assms(1)
proof (induction s rule: percent_ok.induct)
  case 1
  show ?case by (rule assms(2))
next
  case (2 c s)
  show ?case
  proof (cases "c = CHR ''%''")
    case True
    with 2(3) obtain h1 h2 t where "s = h1 # h2 # t" "is_ascii_hexdigit h1" "is_ascii_hexdigit h2" "percent_ok t"
      by (auto split: list.splits)
    with 2 True assms(3) show ?thesis by simp
  next
    case False
    with 2 assms(4) show ?thesis by simp
  qed
qed

definition esc_piece :: "char \<Rightarrow> char \<Rightarrow> string" where
  "esc_piece h1 h2 =
     (if is_unreserved (hex_val h1 h2) then [char_of (unat (hex_val h1 h2))]
      else [CHR ''%'', to_ascii_upper h1, to_ascii_upper h2])"

lemma normalize_segment_Esc:
  assumes "is_ascii_hexdigit h1" and "is_ascii_hexdigit h2"
  shows "normalize_segment (CHR ''%'' # h1 # h2 # t) =
    (case normalize_segment t of Err e \<Rightarrow> Err e | Ok r \<Rightarrow> Ok (esc_piece h1 h2 @ r))"
proof -
  obtain v1 v2 where "hex_digit_to_val h1 = Ok v1" "hex_digit_to_val h2 = Ok v2"
    using assms by (auto simp: hex_digit_to_val_Ok)
  then show ?thesis by (auto simp: esc_piece_def Let_def split: result.splits)
qed

lemma normalize_segment_Chr:
  "c \<noteq> CHR ''%'' \<Longrightarrow> normalize_segment (c # s) =
    (case normalize_segment s of Err e \<Rightarrow> Err e | Ok r \<Rightarrow> Ok (push_byte_as_char c @ r))"
  by simp

declare normalize_segment.simps(2) [simp del]

text \<open>The pieces a segment is normalised into: the facts all segment proofs use.\<close>

lemma normalize_segment_total: "percent_ok s \<Longrightarrow> \<exists>r. normalize_segment s = Ok r"
  by (induction s rule: percent_ok_induct) (auto simp: normalize_segment_Esc normalize_segment_Chr)

lemma esc_piece_special:
  assumes "is_ascii_hexdigit h1" and "is_ascii_hexdigit h2"
  shows "x \<in> set (esc_piece h1 h2) \<Longrightarrow> x \<notin> {CHR ''/'', CHR ''?'', CHR ''#'', CHR 0x00, CHR 0x5C}"
  using assms unreserved_not_special(1) [of "hex_val h1 h2"] hexdigit_not_special [of "to_ascii_upper h1"]
    hexdigit_not_special [of "to_ascii_upper h2"]
  by (auto simp: esc_piece_def split: if_splits simp del: hex_val.simps)

lemma normalize_segment_special:
  assumes "percent_ok s" and "normalize_segment s = Ok r" and "x \<in> {CHR ''/'', CHR ''?'', CHR ''#'', CHR 0x00, CHR 0x5C}"
    and "x \<in> set r"
  shows "x \<in> set s"
  using assms
proof (induction s arbitrary: r rule: percent_ok_induct)
  case (Esc h1 h2 t)
  then show ?case using esc_piece_special [OF Esc.hyps(1,2), of x]
    by (auto simp: normalize_segment_Esc split: result.splits)
next
  case (Chr c t)
  then show ?case using push_byte_not_special [of x c]
    by (auto simp: normalize_segment_Chr split: result.splits)
qed simp

lemma norm_form_append: "norm_form a \<Longrightarrow> norm_form b \<Longrightarrow> norm_form (a @ b)"
  by (induction a rule: norm_form.induct) (auto split: list.splits)

lemma norm_form_piece:
  "is_ascii_hexdigit h1 \<Longrightarrow> is_ascii_hexdigit h2 \<Longrightarrow> norm_form (esc_piece h1 h2)"
  using unreserved_not_special(1) [of "hex_val h1 h2"]
  by (auto simp: esc_piece_def upper_hexdigit_upper simp del: hex_val.simps)

lemma norm_form_plain: "CHR ''%'' \<notin> set s \<Longrightarrow> norm_form s"
  by (induction s) auto

lemma norm_form_push: "c \<noteq> CHR ''%'' \<Longrightarrow> norm_form (push_byte_as_char c)"
  using push_byte_not_special [of "CHR ''%''" c] by (intro norm_form_plain) auto

lemma normalize_segment_norm_form:
  assumes "percent_ok s" and "normalize_segment s = Ok r"
  shows "norm_form r"
  using assms
proof (induction s arbitrary: r rule: percent_ok_induct)
  case (Esc h1 h2 t)
  then show ?case
    by (auto simp: normalize_segment_Esc norm_form_append norm_form_piece split: result.splits)
next
  case (Chr c t)
  then show ?case
    by (auto simp: normalize_segment_Chr norm_form_append norm_form_push split: result.splits)
qed simp

lemma norm_form_percent_ok: "norm_form s \<Longrightarrow> percent_ok s"
  by (induction s rule: norm_form.induct) (auto simp: is_upper_hexdigit_def split: list.splits)

lemma normalize_segment_fix:
  assumes "norm_form s" and "is_ascii s"
  shows "normalize_segment s = Ok s"
  using norm_form_percent_ok [OF assms(1)] assms
proof (induction s rule: percent_ok_induct)
  case (Esc h1 h2 t)
  then show ?case
    by (auto simp: normalize_segment_Esc esc_piece_def is_upper_hexdigit_def is_ascii_def
        simp del: hex_val.simps)
next
  case (Chr c t)
  then show ?case by (auto simp: normalize_segment_Chr push_byte_ascii is_ascii_def)
qed simp

lemma is_ascii_append: "is_ascii (a @ b) \<longleftrightarrow> is_ascii a \<and> is_ascii b"
  by (simp add: is_ascii_def)

lemma is_ascii_piece:
  "is_ascii_hexdigit h1 \<Longrightarrow> is_ascii_hexdigit h2 \<Longrightarrow> is_ascii (esc_piece h1 h2)"
  using unreserved_not_special(2) [of "hex_val h1 h2"]
  by (auto simp: esc_piece_def is_ascii_def byte_upper is_ascii_hexdigit_def simp del: hex_val.simps)

lemma normalize_segment_ascii:
  assumes "percent_ok s" and "normalize_segment s = Ok r" and "is_ascii s"
  shows "is_ascii r"
  using assms
proof (induction s arbitrary: r rule: percent_ok_induct)
  case (Esc h1 h2 t)
  then have "is_ascii t" by (simp add: is_ascii_def)
  with Esc show ?case
    by (auto simp: normalize_segment_Esc is_ascii_append is_ascii_piece split: result.splits)
next
  case (Chr c t)
  then have "is_ascii t" and "byte_of c < 128" by (simp_all add: is_ascii_def)
  with Chr show ?case
    by (auto simp: normalize_segment_Chr push_byte_ascii is_ascii_def split: result.splits)
qed simp

lemma to_ascii_lowercase_append [simp]:
  "to_ascii_lowercase (a @ b) = to_ascii_lowercase a @ to_ascii_lowercase b"
  "to_ascii_lowercase (c # b) = to_ascii_lower c # to_ascii_lowercase b"
  "to_ascii_lowercase [] = []"
  by (simp_all add: to_ascii_lowercase_def)

lemma lower_percent [simp]:
  "to_ascii_lower c = CHR ''%'' \<longleftrightarrow> c = CHR ''%''"
  "CHR ''%'' = to_ascii_lower c \<longleftrightarrow> c = CHR ''%''"
  by (auto simp: char_eq_byte byte_lower)

lemma lower_slash [simp]:
  "to_ascii_lower c = CHR ''/'' \<longleftrightarrow> c = CHR ''/''"
  "CHR ''/'' = to_ascii_lower c \<longleftrightarrow> c = CHR ''/''"
  by (auto simp: char_eq_byte byte_lower)

lemma contains_skip:
  "CHR ''%'' \<notin> set w \<Longrightarrow>
     str_contains (CHR ''%'' # p) (to_ascii_lowercase (w @ s)) \<longleftrightarrow>
     str_contains (CHR ''%'' # p) (to_ascii_lowercase s)"
  by (induction w) auto

lemma normalize_segment_escapes:
  assumes "percent_ok s" and "normalize_segment s = Ok r"
    and "str_contains [CHR ''%'', a, b] (to_ascii_lowercase r)"
  shows "str_contains [CHR ''%'', a, b] (to_ascii_lowercase s)"
  using assms
proof (induction s arbitrary: r rule: percent_ok_induct)
  case (Esc h1 h2 t)
  then obtain u where u: "normalize_segment t = Ok u" and r: "r = esc_piece h1 h2 @ u"
    by (auto simp: normalize_segment_Esc split: result.splits)
  show ?case
  proof (cases "str_contains [CHR ''%'', a, b] (to_ascii_lowercase u)")
    case True
    then show ?thesis using Esc.IH [OF u] by simp
  next
    case False
    then have "\<not> is_unreserved (hex_val h1 h2)"
      using Esc.prems(2) contains_skip [of "esc_piece h1 h2" "[a, b]" u]
        unreserved_not_special(1) [of "hex_val h1 h2"]
      by (auto simp: r esc_piece_def simp del: hex_val.simps)
    moreover have "CHR ''%'' \<notin> set [to_ascii_upper h1, to_ascii_upper h2]"
      using hexdigit_not_special [of "to_ascii_upper h1"] hexdigit_not_special [of "to_ascii_upper h2"]
        Esc.hyps by auto
    ultimately show ?thesis
      using Esc.prems(2) False contains_skip [of "[to_ascii_upper h1, to_ascii_upper h2]" "[a, b]" u]
      by (auto simp: r esc_piece_def simp del: hex_val.simps)
  qed
next
  case (Chr c t)
  then obtain u where u: "normalize_segment t = Ok u" and r: "r = push_byte_as_char c @ u"
    by (auto simp: normalize_segment_Chr split: result.splits)
  have "CHR ''%'' \<notin> set (push_byte_as_char c)"
    using Chr.hyps(1) push_byte_not_special [of "CHR ''%''" c] by auto
  then have "str_contains [CHR ''%'', a, b] (to_ascii_lowercase u)"
    using Chr.prems(2) contains_skip unfolding r by blast
  then show ?case using Chr.IH [OF u] by simp
qed simp

section \<open>Lemmas on paths\<close>

lemma join_split: "concat (map (\<lambda>w. d # w) (split_on d s)) = d # s"
proof (induction s)
  case (Cons c s)
  obtain w ws where "split_on d s = w # ws" by (cases "split_on d s") auto
  with Cons show ?case by auto
qed simp

lemma split_on_infix:
  assumes "w \<in> set (split_on d s)"
  shows "\<exists>a b. s = a @ w @ b"
proof -
  from assms obtain ys zs where "split_on d s = ys @ w # zs" by (meson split_list)
  with join_split [of d s]
  have eq: "d # s = concat (map (\<lambda>w. d # w) ys) @ d # w @ concat (map (\<lambda>w. d # w) zs)" by simp
  show ?thesis
  proof (cases "concat (map (\<lambda>w. d # w) ys)")
    case Nil
    with eq show ?thesis by (metis append_Cons append_Nil list.inject)
  next
    case (Cons x xs)
    with eq have "s = (xs @ [d]) @ w @ concat (map (\<lambda>w. d # w) zs)" by simp
    then show ?thesis by blast
  qed
qed

lemma split_on_percent_ok:
  assumes "percent_ok s"
  shows "list_all percent_ok (split_on CHR ''/'' s)"
  using assms
proof (induction s rule: percent_ok_induct)
  case (Esc h1 h2 t)
  have "h1 \<noteq> CHR ''/''" "h2 \<noteq> CHR ''/''" using Esc.hyps hexdigit_not_special by auto
  moreover obtain w ws where "split_on CHR ''/'' t = w # ws" by (cases "split_on CHR ''/'' t") auto
  ultimately show ?case using Esc by simp
next
  case (Chr c t)
  obtain w ws where "split_on CHR ''/'' t = w # ws" by (cases "split_on CHR ''/'' t") auto
  with Chr show ?case by simp
qed simp

lemma no_forbidden_infix: "no_forbidden (a @ w @ b) \<Longrightarrow> no_forbidden w"
  unfolding no_forbidden_def to_ascii_lowercase_append
  using str_contains_append1 str_contains_append2 by (metis UnCI set_append)

lemma normalize_segment_no_forbidden:
  assumes "percent_ok s" and "normalize_segment s = Ok r" and "no_forbidden s"
  shows "no_forbidden r"
proof -
  note special = normalize_segment_special [OF assms(1,2)]
  note escapes = normalize_segment_escapes [OF assms(1,2)]
  from assms(3) show ?thesis unfolding no_forbidden_def
    using special [of "CHR 0x00"] special [of "CHR 0x5C"]
      escapes [of "CHR ''0''" "CHR ''0''"] escapes [of "CHR ''2''" "CHR ''f''"]
      escapes [of "CHR ''5''" "CHR ''c''"]
    by blast
qed

lemma normalize_segments_sound:
  assumes "normalize_segments ws = Ok segs"
    and "list_all percent_ok ws" and "list_all no_forbidden ws"
  shows "list_all canonical_segment segs"
  using assms
proof (induction ws arbitrary: segs rule: normalize_segments.induct)
  case (2 w ws)
  then show ?case
    by (auto split: if_splits result.splits simp: canonical_segment_def
        intro: normalize_segment_norm_form normalize_segment_no_forbidden)
qed simp

lemma normalize_segments_special:
  assumes "normalize_segments ws = Ok segs" and "list_all percent_ok ws"
    and "list_all (\<lambda>w. x \<notin> set w) ws" and "x \<in> {CHR ''/'', CHR ''?'', CHR ''#'', CHR 0x00, CHR 0x5C}"
  shows "list_all (\<lambda>w. x \<notin> set w) segs"
  using assms
proof (induction ws arbitrary: segs rule: normalize_segments.induct)
  case (2 w ws)
  then show ?case using normalize_segment_special [of w _ x]
    by (auto split: if_splits result.splits)
qed simp

lemma normalize_segments_error:
  assumes "normalize_segments ws = Err e" and "list_all percent_ok ws"
  shows "e = PathTraversal"
  using assms
proof (induction ws rule: normalize_segments.induct)
  case (2 w ws)
  then show ?case using normalize_segment_total [of w]
    by (auto split: if_splits result.splits)
qed simp

lemma split_join:
  assumes "list_all (\<lambda>w. d \<notin> set w) segs" and "d \<notin> set w"
  shows "split_on d (w @ concat (map (\<lambda>w. d # w) segs)) = w # segs"
  using assms
  by (induction segs arbitrary: w) (auto simp: split_on_id split_on_append)

lemma split_on_prefix: "d \<notin> set p \<Longrightarrow> \<exists>w ws. split_on d (p @ s) = (p @ w) # ws"
proof (induction p)
  case Nil
  then show ?case by (cases "split_on d s") auto
next
  case (Cons c p)
  then obtain w ws where "split_on d (p @ s) = (p @ w) # ws" by auto
  with Cons.prems show ?case by auto
qed

lemma contains_split:
  assumes "str_contains p s" and "d \<notin> set p"
  shows "\<exists>w \<in> set (split_on d s). str_contains p w"
proof -
  from assms(1) obtain a b where s: "s = a @ p @ b" by (auto simp: str_contains_iff)
  show ?thesis unfolding s
  proof (induction a)
    case Nil
    obtain w ws where "split_on d (p @ b) = (p @ w) # ws" using split_on_prefix [OF assms(2)] by blast
    moreover have "str_contains p (p @ w)" unfolding str_contains_iff by (metis append_Nil)
    ultimately show ?case by auto
  next
    case (Cons c a)
    obtain w ws where sp: "split_on d (a @ p @ b) = w # ws" by (cases "split_on d (a @ p @ b)") auto
    have "str_contains p w \<Longrightarrow> str_contains p (c # w)" using str_contains_append1 [of p w "[c]"] by simp
    with Cons sp show ?case by auto
  qed
qed

lemma split_on_lower: "split_on CHR ''/'' (to_ascii_lowercase s) = map to_ascii_lowercase (split_on CHR ''/'' s)"
proof (induction s)
  case (Cons c s)
  obtain w ws where "split_on CHR ''/'' s = w # ws" by (cases "split_on CHR ''/'' s") auto
  with Cons show ?case by simp
qed simp

lemma no_forbidden_split: "no_forbidden s \<longleftrightarrow> list_all no_forbidden (split_on CHR ''/'' s)"
proof
  assume "no_forbidden s"
  then show "list_all no_forbidden (split_on CHR ''/'' s)"
    unfolding list_all_iff using split_on_infix no_forbidden_infix by metis
next
  assume all: "list_all no_forbidden (split_on CHR ''/'' s)"
  have esc: "\<not> str_contains p (to_ascii_lowercase s)"
    if "CHR ''/'' \<notin> set p" and "\<And>w. no_forbidden w \<Longrightarrow> \<not> str_contains p (to_ascii_lowercase w)" for p
    using that all contains_split [of p "to_ascii_lowercase s" "CHR ''/''"]
    by (auto simp: split_on_lower list_all_iff)
  have chr: "c \<notin> set s" if "c \<noteq> CHR ''/''" and "\<And>w. no_forbidden w \<Longrightarrow> c \<notin> set w" for c
    using that all contains_split [of "[c]" s "CHR ''/''"] by (auto simp: list_all_iff)
  show "no_forbidden s" unfolding no_forbidden_def
    by (intro conjI esc chr; simp add: no_forbidden_def)
qed

lemma join_segments_append [simp]: "join_segments (a @ b) = join_segments a @ join_segments b"
  "join_segments [] = []" "join_segments (w # ws) = CHR ''/'' # w @ join_segments ws"
  by (simp_all add: join_segments_def)

lemma split_join_segments:
  "list_all (\<lambda>w. CHR ''/'' \<notin> set w) segs \<Longrightarrow> split_on CHR ''/'' (join_segments segs) = [] # segs"
  using split_join [of "CHR ''/''" segs "[]"] by (simp add: join_segments_def)

lemma canonical_join:
  assumes "list_all canonical_segment segs" and "list_all (\<lambda>w. CHR ''/'' \<notin> set w) segs" and "segs \<noteq> []"
  shows "canonical_path (join_segments segs @ (if t then ''/'' else []))"
proof (cases t)
  case True
  have "split_on CHR ''/'' (join_segments (segs @ [[]])) = [] # segs @ [[]]"
    using assms(2) by (intro split_join_segments) simp
  then show ?thesis using True assms by (simp add: canonical_path_def)
next
  case False
  have "list_all canonical_segment (butlast segs)" and "canonical_segment (last segs)"
    using assms(1,3) by (auto simp: list_all_iff dest: in_set_butlastD)
  then show ?thesis using False assms split_join_segments by (simp add: canonical_path_def)
qed

lemma canonical_pathE:
  assumes "canonical_path q"
  obtains "q = ''/''"
  | segs t where "segs \<noteq> []" and "list_all canonical_segment segs"
      and "list_all (\<lambda>w. CHR ''/'' \<notin> set w) segs" and "q = join_segments segs @ (if t then ''/'' else [])"
      and "split_on CHR ''/'' q = [] # segs @ (if t then [[]] else [])"
proof -
  from assms obtain rest where sp: "split_on CHR ''/'' q = [] # rest" and rest: "rest \<noteq> []"
    and but: "list_all canonical_segment (butlast rest)"
    and lst: "last rest = [] \<or> canonical_segment (last rest)"
    by (auto simp: canonical_path_def split: list.splits)
  have q: "q = join_segments rest"
    using join_split [of "CHR ''/''" q] sp by (simp add: join_segments_def)
  have ns: "list_all (\<lambda>w. CHR ''/'' \<notin> set w) rest"
    using sp split_on_no_delim [of _ "CHR ''/''" q] by (auto simp: list_all_iff)
  show thesis
  proof (cases "last rest = []")
    case True
    then obtain us where us: "rest = us @ [[]]" using rest by (metis append_butlast_last_id)
    show thesis
    proof (cases "us = []")
      case True
      then show thesis using that(1) q us by simp
    next
      case False
      then show thesis using that(2) [of us True] q us but ns sp by simp
    qed
  next
    case False
    with lst but have "list_all canonical_segment (butlast rest @ [last rest])" by simp
    with rest have "list_all canonical_segment rest" by simp
    then show thesis using that(2) [of rest False] q rest ns sp by simp
  qed
qed

lemma sanitize_OkE:
  assumes "sanitize_and_normalize_path p = Ok q"
  obtains "q = ''/''"
  | segs where "segs \<noteq> []" and "percent_ok p" and "no_forbidden p"
      and "normalize_segments (split_on CHR ''/'' p) = Ok segs"
      and "q = join_segments segs @
             (if length p > 1 \<and> (ends_with ''/'' p \<or> ends_with ''/.'' p) then ''/'' else [])"
  using assms that
  by (auto simp: sanitize_and_normalize_path_def Let_def no_forbidden_def
      split: if_splits result.splits)

lemma sanitize_segments:
  assumes "percent_ok p" and "no_forbidden p" and "normalize_segments (split_on CHR ''/'' p) = Ok segs"
  shows "list_all canonical_segment segs" and "list_all (\<lambda>w. CHR ''/'' \<notin> set w) segs"
proof -
  have "list_all (\<lambda>w. CHR ''/'' \<notin> set w) (split_on CHR ''/'' p)"
    using split_on_no_delim by (auto simp: list_all_iff)
  then show "list_all (\<lambda>w. CHR ''/'' \<notin> set w) segs"
    using normalize_segments_special assms(3) split_on_percent_ok [OF assms(1)] by simp
  show "list_all canonical_segment segs"
    using normalize_segments_sound assms split_on_percent_ok [OF assms(1)] no_forbidden_split by blast
qed

lemma ends_with_single: "ends_with [c] s \<longleftrightarrow> s \<noteq> [] \<and> last s = c"
  by (cases s rule: rev_cases) (auto simp: ends_with_def)

lemma join_no_trailing:
  assumes "list_all canonical_segment segs" and "list_all (\<lambda>w. CHR ''/'' \<notin> set w) segs" and "segs \<noteq> []"
  shows "\<not> ends_with ''/'' (join_segments segs)" and "\<not> ends_with ''/.'' (join_segments segs)"
proof -
  obtain us w where segs: "segs = us @ [w]" using assms(3) by (metis rev_exhaust)
  with assms have w: "w \<noteq> []" "w \<noteq> ''.''" "CHR ''/'' \<notin> set w" by (auto simp: canonical_segment_def)
  then obtain v c where v: "w = v @ [c]" by (metis rev_exhaust)
  with w show "\<not> ends_with ''/'' (join_segments segs)" by (auto simp: segs ends_with_def)
  show "\<not> ends_with ''/.'' (join_segments segs)"
  proof (cases v rule: rev_cases)
    case Nil
    with v w show ?thesis by (auto simp: segs ends_with_def)
  next
    case (snoc v' d)
    with v w show ?thesis by (auto simp: segs ends_with_def)
  qed
qed

lemma percent_ok_append: "percent_ok a \<Longrightarrow> percent_ok b \<Longrightarrow> percent_ok (a @ b)"
  by (induction a rule: percent_ok_induct) auto

lemma percent_ok_join: "list_all percent_ok segs \<Longrightarrow> percent_ok (join_segments segs)"
  by (induction segs) (auto intro: percent_ok_append)

lemma is_ascii_join: "is_ascii (join_segments segs) \<longleftrightarrow> list_all is_ascii segs"
  by (induction segs) (auto simp: is_ascii_append is_ascii_def)

lemma normalize_segments_fix:
  "list_all canonical_segment segs \<Longrightarrow> list_all is_ascii segs \<Longrightarrow>
     normalize_segments (segs @ (if t then [[]] else [])) = Ok segs"
  by (induction segs) (auto simp: normalize_segment_fix canonical_segment_def)

lemma normalize_segments_skip: "normalize_segments ([] # ws) = normalize_segments ws"
  by simp

lemma canonical_root: "canonical_path ''/''"
  by code_simp

lemma sanitize_root: "sanitize_and_normalize_path ''/'' = Ok ''/''"
  by code_simp

lemma sanitize_canonical_path:
  assumes "sanitize_and_normalize_path p = Ok q"
  shows "canonical_path q"
  using assms
proof (cases rule: sanitize_OkE)
  case 1
  then show ?thesis using canonical_root by simp
next
  case (2 segs)
  show ?thesis unfolding 2(5)
    by (rule canonical_join) (use sanitize_segments [OF 2(2,3,4)] 2(1) in simp_all)
qed

lemma normalize_segments_ascii:
  assumes "normalize_segments ws = Ok segs" and "list_all percent_ok ws" and "list_all is_ascii ws"
  shows "list_all is_ascii segs"
  using assms
proof (induction ws arbitrary: segs rule: normalize_segments.induct)
  case (2 w ws)
  then show ?case
    by (auto split: if_splits result.splits dest: normalize_segment_ascii)
qed simp

lemma split_on_ascii: "is_ascii s \<Longrightarrow> list_all is_ascii (split_on d s)"
  using split_on_subset [of _ d s] by (fastforce simp: is_ascii_def list_all_iff)

lemma sanitize_ascii:
  assumes "sanitize_and_normalize_path p = Ok q" and "is_ascii p"
  shows "is_ascii q"
  using assms(1)
proof (cases rule: sanitize_OkE)
  case 1
  then show ?thesis by (simp add: is_ascii_def)
next
  case (2 segs)
  then have "list_all is_ascii segs"
    using normalize_segments_ascii split_on_percent_ok split_on_ascii [OF assms(2)] by blast
  then show ?thesis unfolding 2(5) is_ascii_append is_ascii_join by (simp add: is_ascii_def)
qed

lemma sanitize_canonical_fix:
  assumes "canonical_path q" and "is_ascii q" and "\<not> has_double_encoding (to_ascii_lowercase q)"
  shows "sanitize_and_normalize_path q = Ok q"
  using assms(1)
proof (cases rule: canonical_pathE)
  case 1
  then show ?thesis using sanitize_root by simp
next
  case (2 segs t)
  have slash: "list_all percent_ok segs" and nf: "list_all no_forbidden segs"
    using 2(2) norm_form_percent_ok by (auto simp: list_all_iff canonical_segment_def)
  have pct: "percent_ok q" unfolding 2(4) using slash by (auto intro: percent_ok_append percent_ok_join)
  have "no_forbidden []" by code_simp
  with nf have "list_all no_forbidden (split_on CHR ''/'' q)" unfolding 2(5) by simp
  then have nofb: "no_forbidden q" using no_forbidden_split by blast
  have asc: "list_all is_ascii segs" using assms(2) unfolding 2(4) is_ascii_append is_ascii_join by simp
  have norm: "normalize_segments (split_on CHR ''/'' q) = Ok segs"
    unfolding 2(5) normalize_segments_skip using normalize_segments_fix [OF 2(2) asc] .
  have len: "length q > 1" using 2(1,2,4) by (cases segs) (auto simp: canonical_segment_def)
  have trail: "ends_with ''/'' q \<or> ends_with ''/.'' q \<longleftrightarrow> t"
    using join_no_trailing [OF 2(2,3,1)] unfolding 2(4) by (auto simp: ends_with_single)
  have first: "q \<noteq> []" "starts_with ''/'' q" using 2(1,4) by (cases segs; auto)+
  show ?thesis
    using pct nofb assms(3) norm len trail first 2(1,4)
    by (auto simp: sanitize_and_normalize_path_def Let_def no_forbidden_def)
qed

lemma canonical_no_forbidden:
  assumes "canonical_path q"
  shows "no_forbidden q"
  using assms
proof (cases rule: canonical_pathE)
  case 1
  then show ?thesis by (simp add: no_forbidden_def)
next
  case (2 segs t)
  have "no_forbidden []" by code_simp
  with 2(2) have "list_all no_forbidden (split_on CHR ''/'' q)"
    unfolding 2(5) by (auto simp: list_all_iff canonical_segment_def)
  then show ?thesis using no_forbidden_split by blast
qed

lemma join_segments_mem: "x \<in> set (join_segments segs) \<Longrightarrow> x = CHR ''/'' \<or> (\<exists>w \<in> set segs. x \<in> set w)"
  by (induction segs) auto

lemma sanitize_no_delimiter:
  assumes "sanitize_and_normalize_path p = Ok q" and "x \<notin> set p" and "x \<in> {CHR ''?'', CHR ''#''}"
  shows "x \<notin> set q"
  using assms(1)
proof (cases rule: sanitize_OkE)
  case 1
  then show ?thesis using assms(3) by auto
next
  case (2 segs)
  have "list_all (\<lambda>w. x \<notin> set w) (split_on CHR ''/'' p)"
    using split_on_subset [of _ "CHR ''/''" p] assms(2) by (auto simp: list_all_iff)
  then have "list_all (\<lambda>w. x \<notin> set w) segs"
    using normalize_segments_special [OF 2(4)] split_on_percent_ok [OF 2(2)] assms(3) by blast
  then show ?thesis unfolding 2(5) using assms(3) by (auto simp: list_all_iff dest: join_segments_mem)
qed

lemma canonical_starts_with: "canonical_path q \<Longrightarrow> starts_with ''/'' q"
proof (erule canonical_pathE)
  fix segs t assume "segs \<noteq> []" and "q = join_segments segs @ (if t then ''/'' else [])"
  then show ?thesis by (cases segs) auto
qed simp

text \<open>C20: a path the sanitizer lets through is canonical: it starts with a slash, has no empty,
  \<open>.\<close> or \<open>..\<close> segment, no NUL, no backslash, none of the escapes \<open>%00\<close>, \<open>%2f\<close>, \<open>%5c\<close> in any case, and
  every remaining escape has upper-case digits and stands for a byte that is not unreserved. This
  holds for every input string.\<close>

theorem sanitize_canonical:
  assumes "sanitize_and_normalize_path p = Ok q"
  shows "canonical_path q \<and> no_forbidden q"
proof
  show can: "canonical_path q" using assms by (rule sanitize_canonical_path)
  then show "no_forbidden q" by (rule canonical_no_forbidden)
qed

theorem sanitize_canonical_witness:
  "sanitize_and_normalize_path ''//api/./%7euser/%c3%a9/'' = Ok ''/api/~user/%C3%A9/''
   \<and> canonical_path ''/api/~user/%C3%A9/''"
proof -
  have "sanitize_and_normalize_path ''//api/./%7euser/%c3%a9/'' = Ok ''/api/~user/%C3%A9/''" by code_simp
  with sanitize_canonical [OF this] show ?thesis by simp
qed

text \<open>the unchecked indexing of \<open>normalize_segment\<close> is never out of bounds: the sanitizer ends on
  every input with a path or with one of the errors that stand for a violated rule.\<close>

theorem sanitize_no_panic:
  "sanitize_and_normalize_path p \<noteq> Err IndexOutOfBounds \<and> sanitize_and_normalize_path p \<noteq> Err (UriFormatError m)"
proof -
  have "e = PathTraversal" if "percent_ok p" "normalize_segments (split_on CHR ''/'' p) = Err e" for e
    using that normalize_segments_error split_on_percent_ok by blast
  then show ?thesis
    by (auto simp: sanitize_and_normalize_path_def Let_def split: result.splits) 
qed

text \<open>sanitizing is idempotent on ASCII paths: the router's second pass leaves the path that the
  first pass produced alone, provided that path does not read as doubly encoded.\<close>

theorem sanitize_idempotent:
  assumes "sanitize_and_normalize_path p = Ok q" and "is_ascii p"
    and "\<not> has_double_encoding (to_ascii_lowercase q)"
  shows "sanitize_and_normalize_path q = Ok q"
  using sanitize_canonical_fix sanitize_canonical_path [OF assms(1)] sanitize_ascii [OF assms(1,2)] assms(3)
  by blast

theorem sanitize_idempotent_witness:
  "sanitize_and_normalize_path ''/a%2d/./b%20c'' = Ok ''/a-/b%20c''
   \<and> sanitize_and_normalize_path ''/a-/b%20c'' = Ok ''/a-/b%20c''"
proof -
  have once: "sanitize_and_normalize_path ''/a%2d/./b%20c'' = Ok ''/a-/b%20c''" by code_simp
  have "is_ascii ''/a%2d/./b%20c''" by code_simp
  moreover have "\<not> has_double_encoding (to_ascii_lowercase ''/a-/b%20c'')" by code_simp
  ultimately show ?thesis using once sanitize_idempotent [OF once] by simp
qed

text \<open>the check for double encoding looks at the raw path only. Escaping the digits of the inner
  escape hides it: the sanitizer itself then produces the doubly encoded dot segment that it rejects
  when it is sent directly, and the router's second pass over the same request fails.\<close>

theorem sanitize_double_encoding_gap:
  "sanitize_and_normalize_path ''/%252e%252e/x'' = Err DoubleEncoding
   \<and> sanitize_and_normalize_path ''/%25%32%65%25%32%65/x'' = Ok ''/%252e%252e/x''"
  by code_simp

text \<open>bytes above 127 are pushed as Latin-1 characters, so the two bytes of a UTF-8 character come
  out as four, and a second pass mangles them again.\<close>

theorem sanitize_non_ascii_mangled:
  "sanitize_and_normalize_path [CHR ''/'', CHR 0xC3, CHR 0xA9] =
     Ok [CHR ''/'', CHR 0xC3, CHR 0x83, CHR 0xC2, CHR 0xA9]
   \<and> sanitize_and_normalize_path [CHR ''/'', CHR 0xC3, CHR 0x83, CHR 0xC2, CHR 0xA9] \<noteq>
       Ok [CHR ''/'', CHR 0xC3, CHR 0x83, CHR 0xC2, CHR 0xA9]"
  by code_simp

text \<open>the layer as a whole. With the \<open>http\<close> parser cutting a path-and-query string at its \<open>?\<close> and
  \<open>Uri::from_parts\<close> returning the parts it was given, a request that passes the layer has a canonical
  path, and its query, method, headers, extensions and body are those of the incoming request; a
  request that does not pass gets a 400 and is counted, and nothing else happens.\<close>

theorem path_sanitizer_call_spec:
  assumes parse: "\<And>p q r. starts_with ''/'' p \<Longrightarrow> set p \<inter> {CHR ''?'', CHR ''#''} = {} \<Longrightarrow>
        CHR ''#'' \<notin> set (case q of None \<Rightarrow> [] | Some s \<Rightarrow> s) \<Longrightarrow>
        parse_pq (p @ (case q of None \<Rightarrow> [] | Some s \<Rightarrow> CHR ''?'' # s)) = Ok r \<Longrightarrow> r = (p, q)"
    and parts: "\<And>u v. from_parts u = Ok v \<Longrightarrow> v = u"
    and uri: "set (uri_path (req_uri req)) \<inter> {CHR ''?'', CHR ''#''} = {}"
      "CHR ''#'' \<notin> set (case uri_query (req_uri req) of None \<Rightarrow> [] | Some s \<Rightarrow> s)"
  shows "case path_sanitizer_call parse_pq from_parts name req reg of
      (Allowed req', reg') \<Rightarrow>
        canonical_path (uri_path (req_uri req')) \<and> reg' = reg
        \<and> req' = req\<lparr> req_uri := (req_uri req)\<lparr> uri_path := uri_path (req_uri req') \<rparr> \<rparr>
    | (Blocked resp, reg') \<Rightarrow> resp_status resp = 400 \<and> reg' = inc_blocked_inspection name reg"
proof (cases "sanitize_and_normalize_uri parse_pq from_parts (req_uri req)")
  case (Err e)
  then show ?thesis by (simp add: path_sanitizer_call_def build_bad_request_response_def)
next
  case (Ok u)
  let ?uri = "req_uri req"
  obtain q where q: "sanitize_and_normalize_path (uri_path ?uri) = Ok q"
    using Ok by (auto simp: sanitize_and_normalize_uri_def split: result.splits)
  have can: "canonical_path q" by (rule sanitize_canonical_path [OF q])
  have "set q \<inter> {CHR ''?'', CHR ''#''} = {}" using sanitize_no_delimiter [OF q] uri(1) by auto
  note parsed = parse [OF canonical_starts_with [OF can] this uri(2)]
  obtain p' q' where "parse_pq (q @ (case uri_query ?uri of None \<Rightarrow> [] | Some s \<Rightarrow> CHR ''?'' # s)) = Ok (p', q')"
    and fp: "from_parts (?uri\<lparr> uri_path := p', uri_query := q' \<rparr>) = Ok u"
    using Ok q by (auto simp: sanitize_and_normalize_uri_def Let_def split: result.splits option.splits)
  with parsed parts [OF fp] have "u = ?uri\<lparr> uri_path := q \<rparr>" by auto
  then show ?thesis using Ok can by (simp add: path_sanitizer_call_def)
qed

definition split_pq :: pq_parser where
  "split_pq s = (case split_once CHR ''?'' s of None \<Rightarrow> Ok (s, None) | Some (p, q) \<Rightarrow> Ok (p, Some q))"

lemma split_pq_law:
  "set p \<inter> {CHR ''?'', CHR ''#''} = {} \<Longrightarrow>
     split_pq (p @ (case q of None \<Rightarrow> [] | Some s \<Rightarrow> CHR ''?'' # s)) = Ok r \<Longrightarrow> r = (p, q)"
proof -
  assume p: "set p \<inter> {CHR ''?'', CHR ''#''} = {}"
    and r: "split_pq (p @ (case q of None \<Rightarrow> [] | Some s \<Rightarrow> CHR ''?'' # s)) = Ok r"
  from p have "CHR ''?'' \<notin> set p" by auto
  then have "split_once CHR ''?'' p = None" and "split_once CHR ''?'' (p @ CHR ''?'' # s) = Some (p, s)" for s
    by (induction p) auto
  with r show ?thesis by (auto simp: split_pq_def split: option.splits)
qed

theorem path_sanitizer_call_spec_witness:
  "path_sanitizer_call split_pq Ok ''s'' (demo_request ''GET'' ''/a/./b'') [] =
     (Allowed (demo_request ''GET'' ''/a/b''), [])
   \<and> canonical_path ''/a/b''"
proof -
  have ok: "path_sanitizer_call split_pq Ok ''s'' (demo_request ''GET'' ''/a/./b'') [] =
     (Allowed (demo_request ''GET'' ''/a/b''), [])" by code_simp
  have "case path_sanitizer_call split_pq Ok ''s'' (demo_request ''GET'' ''/a/./b'') [] of
      (Allowed req', reg') \<Rightarrow>
        canonical_path (uri_path (req_uri req')) \<and> reg' = []
        \<and> req' = (demo_request ''GET'' ''/a/./b'')
             \<lparr> req_uri := (req_uri (demo_request ''GET'' ''/a/./b''))\<lparr> uri_path := uri_path (req_uri req') \<rparr> \<rparr>
    | (Blocked resp, reg') \<Rightarrow> resp_status resp = 400 \<and> reg' = inc_blocked_inspection ''s'' []"
    by (rule path_sanitizer_call_spec, rule split_pq_law) (simp_all add: demo_request_def)
  then show ?thesis using ok by (simp add: demo_request_def)
qed

end
