(* ===== verification/Proxy_Protocol.thy ===== *)
theory Proxy_Protocol
  imports Http
begin

text \<open>
  PROXY protocol version 2 (\<open>common/src/proxy_protocol.rs\<close>): the relay writes a header with the
  client's address in front of a tunnelled connection, the gateway reads it back, and a stream
  wrapper replays bytes that were already read.

  An asynchronous reader is the list of the bytes it yields before the end of the stream;
  \<open>read_exact\<close> takes its bytes or fails at the end of the stream. What a reader promises its
  clients is the locale \<open>byte_stream\<close>, provided by the plain stream and by \<open>PrefixedStream\<close>.
\<close>

section \<open>Big-endian bytes\<close>

definition v4_octets :: "Ipv4Addr \<Rightarrow> u8 list" where
  "v4_octets a = to_be_bytes 4 a"

definition v6_octets :: "Ipv6Addr \<Rightarrow> u8 list" where
  "v6_octets a = to_be_bytes 16 a"

section \<open>Encoder\<close>

definition PROXY_V2_MAGIC :: "u8 list" where
  "PROXY_V2_MAGIC = [0x0D, 0x0A, 0x0D, 0x0A, 0x00, 0x0D, 0x0A, 0x51, 0x55, 0x49, 0x54, 0x0A]"

datatype ProxyProtocolError =
    Io string
  | InvalidMagic "u8 list"
  | UnsupportedVersion u8
  | ProxyPayloadTooLarge nat
  | TruncatedPayload nat nat   \<comment> \<open>expected, got\<close>

fun socket_port :: "SocketAddr \<Rightarrow> u16" where
  "socket_port (SocketV4 _ p) = p"
| "socket_port (SocketV6 _ p _ _) = p"

fun ip_to_v6 :: "IpAddr \<Rightarrow> Ipv6Addr" where
  "ip_to_v6 (V4 v4) = to_ipv6_mapped v4"
| "ip_to_v6 (V6 v6) = v6"

fun encode_proxy_v2 :: "SocketAddr \<Rightarrow> SocketAddr \<Rightarrow> u8 list" where
  "encode_proxy_v2 (SocketV4 s sp) (SocketV4 d dp) =
     PROXY_V2_MAGIC @ [0x21, 0x11] @ to_be_bytes 2 (12 :: u16)
     @ v4_octets s @ v4_octets d @ to_be_bytes 2 sp @ to_be_bytes 2 dp"
| "encode_proxy_v2 (SocketV6 s sp _ _) (SocketV6 d dp _ _) =
     PROXY_V2_MAGIC @ [0x21, 0x21] @ to_be_bytes 2 (36 :: u16)
     @ v6_octets s @ v6_octets d @ to_be_bytes 2 sp @ to_be_bytes 2 dp"
| "encode_proxy_v2 s d =
     PROXY_V2_MAGIC @ [0x21, 0x21] @ to_be_bytes 2 (36 :: u16)
     @ v6_octets (ip_to_v6 (socket_ip s)) @ v6_octets (ip_to_v6 (socket_ip d))
     @ to_be_bytes 2 (socket_port s) @ to_be_bytes 2 (socket_port d)"

section \<open>Decoder\<close>

definition read_exact :: "nat \<Rightarrow> u8 list \<Rightarrow> (u8 list, ProxyProtocolError) result \<times> u8 list" where
  "read_exact n r = (if n \<le> length r then (Ok (take n r), drop n r) else (Err (Io ''unexpected end of file''), []))"

definition parse_proxy_payload :: "u8 \<Rightarrow> u8 list \<Rightarrow> (SocketAddr option, ProxyProtocolError) result" where
  "parse_proxy_payload fam payload =
     (if fam = 1 then
        (if length payload < 12 then Err (TruncatedPayload 12 (length payload))
         else
           (let src_ip = from_be_bytes [payload ! 0, payload ! 1, payload ! 2, payload ! 3];
                src_port = from_be_bytes [payload ! 8, payload ! 9]
            in Ok (Some (SocketV4 src_ip src_port))))
      else if fam = 2 then
        (if length payload < 36 then Err (TruncatedPayload 36 (length payload))
         else
           (let src_ip = from_be_bytes (take 16 payload);
                src_port = from_be_bytes [payload ! 32, payload ! 33]
            in (case to_ipv4_mapped src_ip of
                  Some v4 \<Rightarrow> Ok (Some (SocketV4 v4 src_port))
                | None \<Rightarrow> Ok (Some (SocketV6 src_ip src_port 0 0)))))
      else Ok None)"

definition read_proxy_v2 :: "u8 list \<Rightarrow> (SocketAddr option, ProxyProtocolError) result \<times> u8 list" where
  "read_proxy_v2 reader =
     (case read_exact 16 reader of
        (Err e, r) \<Rightarrow> (Err e, r)
      | (Ok header, r) \<Rightarrow>
          (if take 12 header \<noteq> PROXY_V2_MAGIC then (Err (InvalidMagic header), r)
           else
             (let version_cmd = header ! 12;
                  version = drop_bit 4 version_cmd
              in if version \<noteq> 2 then (Err (UnsupportedVersion version), r)
                 else
                   (let cmd = version_cmd AND 0x0F;
                        fam = drop_bit 4 (header ! 13);
                        payload_len = unat (from_be_bytes [header ! 14, header ! 15] :: u16)
                    in if payload_len > 1024 then (Err (ProxyPayloadTooLarge payload_len), r)
                       else
                         (case read_exact payload_len r of
                            (Err e, r') \<Rightarrow> (Err e, r')
                          | (Ok payload, r') \<Rightarrow>
                              (if cmd = 0 then (Ok None, r')
                               else (parse_proxy_payload fam payload, r')))))))"

section \<open>Replaying streams\<close>

text \<open>One \<open>poll_read\<close> into a buffer with room for \<open>n\<close> bytes; the bytes read are returned.\<close>

definition tcp_poll_read :: "nat \<Rightarrow> u8 list \<Rightarrow> u8 list \<times> u8 list" where
  "tcp_poll_read n s = (take n s, drop n s)"

record 's PrefixedStream =
  prefix_buf :: "u8 list"
  prefix_pos :: nat
  inner_stream :: 's

definition PrefixedStream_new :: "u8 list \<Rightarrow> 's \<Rightarrow> 's PrefixedStream" where
  "PrefixedStream_new pre s = \<lparr> prefix_buf = pre, prefix_pos = 0, inner_stream = s \<rparr>"

definition prefixed_poll_read ::
    "(nat \<Rightarrow> 's \<Rightarrow> u8 list \<times> 's) \<Rightarrow> nat \<Rightarrow> 's PrefixedStream \<Rightarrow> u8 list \<times> 's PrefixedStream" where
  "prefixed_poll_read poll n ps =
     (if prefix_pos ps < length (prefix_buf ps) then
        (let bytes = take n (drop (prefix_pos ps) (prefix_buf ps))
         in (bytes, ps\<lparr> prefix_pos := prefix_pos ps + length bytes \<rparr>))
      else
        (case poll n (inner_stream ps) of
           (bytes, s') \<Rightarrow> (bytes, ps\<lparr> inner_stream := s' \<rparr>)))"

definition prefixed_remaining :: "('s \<Rightarrow> u8 list) \<Rightarrow> 's PrefixedStream \<Rightarrow> u8 list" where
  "prefixed_remaining remaining ps = drop (prefix_pos ps) (prefix_buf ps) @ remaining (inner_stream ps)"

fun reads :: "(nat \<Rightarrow> 's \<Rightarrow> u8 list \<times> 's) \<Rightarrow> nat list \<Rightarrow> 's \<Rightarrow> u8 list \<times> 's" where
  "reads poll [] s = ([], s)"
| "reads poll (n # ns) s =
     (case poll n s of (bs, s') \<Rightarrow> (case reads poll ns s' of (cs, s'') \<Rightarrow> (bs @ cs, s'')))"

locale byte_stream =
  fixes poll :: "nat \<Rightarrow> 's \<Rightarrow> u8 list \<times> 's"
    and remaining :: "'s \<Rightarrow> u8 list"
  assumes in_order: "poll n s = (bs, s') \<Longrightarrow> remaining s = bs @ remaining s'"
    and no_early_eof: "poll n s = (bs, s') \<Longrightarrow> 0 < n \<Longrightarrow> remaining s \<noteq> [] \<Longrightarrow> bs \<noteq> []"
begin

lemma reads_in_order: "reads poll ns s = (bs, s') \<Longrightarrow> remaining s = bs @ remaining s'"
proof (induction ns arbitrary: s bs)
  case (Cons n ns)
  then show ?case by (auto split: prod.splits dest: in_order)
qed simp

lemma reads_progress:
  "reads poll ns s = (bs, s') \<Longrightarrow> list_all (\<lambda>n. 0 < n) ns \<Longrightarrow>
     length bs \<ge> min (length ns) (length (remaining s))"
proof (induction ns arbitrary: s bs)
  case (Cons n ns)
  then obtain b s1 c where p: "poll n s = (b, s1)" and r: "reads poll ns s1 = (c, s')" and bs: "bs = b @ c"
    by (auto split: prod.splits)
  have ih: "length c \<ge> min (length ns) (length (remaining s1))" using Cons r by simp
  have rem: "remaining s = b @ remaining s1" by (rule in_order [OF p])
  show ?case
  proof (cases "remaining s = []")
    case False
    then have "b \<noteq> []" using no_early_eof [OF p] Cons.prems(2) by simp
    then have "length b \<ge> 1" by (cases b) auto
    then show ?thesis using ih rem bs by auto
  qed simp
qed simp

lemma reads_all:
  assumes "reads poll ns s = (bs, s')" and "list_all (\<lambda>n. 0 < n) ns" and "length (remaining s) \<le> length ns"
  shows "bs = remaining s"
  using reads_in_order [OF assms(1)] reads_progress [OF assms(1,2)] assms(3) by simp

end

interpretation tcp: byte_stream tcp_poll_read "\<lambda>s. s"
  by unfold_locales (auto simp: tcp_poll_read_def)

text \<open>A replaying stream keeps the contract of the stream it wraps.\<close>

lemma prefixed_in_order:
  assumes inner: "\<And>n s bs s'. poll n s = (bs, s') \<Longrightarrow> remaining s = bs @ remaining s'"
    and r: "prefixed_poll_read poll n ps = (bs, ps')"
  shows "prefixed_remaining remaining ps = bs @ prefixed_remaining remaining ps'"
proof (cases "prefix_pos ps < length (prefix_buf ps)")
  case True
  let ?d = "drop (prefix_pos ps) (prefix_buf ps)"
  from True r have "bs = take n ?d" and "ps' = ps\<lparr> prefix_pos := prefix_pos ps + length (take n ?d) \<rparr>"
    by (auto simp: prefixed_poll_read_def Let_def)
  moreover have "?d = take n ?d @ drop (length (take n ?d)) ?d"
    by (cases "n \<le> length ?d") (auto simp: min_def simp del: drop_drop)
  ultimately show ?thesis by (simp add: prefixed_remaining_def add.commute)
next
  case False
  with r inner show ?thesis
    by (auto simp: prefixed_poll_read_def prefixed_remaining_def split: prod.splits)
qed

interpretation prefixed: byte_stream "prefixed_poll_read tcp_poll_read" "prefixed_remaining (\<lambda>s. s)"
proof
  fix n ps bs and ps' :: "u8 list PrefixedStream"
  assume r: "prefixed_poll_read tcp_poll_read n ps = (bs, ps')"
  show "prefixed_remaining (\<lambda>s. s) ps = bs @ prefixed_remaining (\<lambda>s. s) ps'"
    by (rule prefixed_in_order [OF _ r]) (rule tcp.in_order)
  assume "0 < n" and "prefixed_remaining (\<lambda>s. s) ps \<noteq> []"
  with r show "bs \<noteq> []"
    by (auto simp: prefixed_poll_read_def prefixed_remaining_def Let_def tcp_poll_read_def
        split: if_splits)
qed

section \<open>Properties\<close>

lemma to_be_bytes_2: "to_be_bytes 2 w = [ucast (drop_bit 8 w), ucast w]"
  by (simp add: numeral_2_eq_2)

lemma from_be_port [simp]: "from_be_bytes [ucast (drop_bit 8 p), ucast p] = (p :: u16)"
  using from_to_be_bytes [of 2 p] by (simp add: to_be_bytes_2)

lemma length_octets [simp]: "length (v4_octets a) = 4" "length (v6_octets b) = 16"
  by (simp_all add: v4_octets_def v6_octets_def)

lemma from_be_v4: "from_be_bytes (v4_octets a) = a"
  unfolding v4_octets_def by (rule from_to_be_bytes) simp

lemma from_be_v6: "from_be_bytes (v6_octets a) = a"
  unfolding v6_octets_def by (rule from_to_be_bytes) simp

lemma v4_octets_list: "[v4_octets a ! 0, v4_octets a ! 1, v4_octets a ! 2, v4_octets a ! 3] = v4_octets a"
  by (simp add: v4_octets_def eval_nat_numeral)

definition header_v2 :: "u8 \<Rightarrow> u16 \<Rightarrow> u8 list" where
  "header_v2 fam len = PROXY_V2_MAGIC @ [0x21, fam] @ to_be_bytes 2 len"

lemma read_proxy_v2_header:
  assumes "length payload = unat len" and "unat len \<le> 1024"
  shows "read_proxy_v2 (header_v2 fam len @ payload @ rest) =
    (parse_proxy_payload (drop_bit 4 fam) payload, rest)"
proof -
  have "read_exact 16 (header_v2 fam len @ payload @ rest) = (Ok (header_v2 fam len), payload @ rest)"
    by (simp add: read_exact_def header_v2_def PROXY_V2_MAGIC_def to_be_bytes_2)
  moreover have "read_exact (unat len) (payload @ rest) = (Ok payload, rest)"
    using assms(1) by (simp add: read_exact_def)
  moreover have "take 12 (header_v2 fam len) = PROXY_V2_MAGIC" "header_v2 fam len ! 12 = 0x21"
    "header_v2 fam len ! 13 = fam" "from_be_bytes [header_v2 fam len ! 14, header_v2 fam len ! 15] = len"
    by (simp_all add: header_v2_def PROXY_V2_MAGIC_def to_be_bytes_2)
  ultimately show ?thesis using assms(2)
    by (simp add: read_proxy_v2_def Let_def)
qed

lemma parse_payload_v4:
  "parse_proxy_payload 1 (v4_octets s @ v4_octets d @ to_be_bytes 2 sp @ to_be_bytes 2 dp) =
     Ok (Some (SocketV4 s sp))"
  using from_be_v4 [of s] v4_octets_list [of s]
  by (simp add: parse_proxy_payload_def Let_def nth_append to_be_bytes_2 v4_octets_def)

lemma parse_payload_v6:
  "parse_proxy_payload 2 (v6_octets s @ v6_octets d @ to_be_bytes 2 sp @ to_be_bytes 2 dp) =
     (case to_ipv4_mapped s of Some v4 \<Rightarrow> Ok (Some (SocketV4 v4 sp)) | None \<Rightarrow> Ok (Some (SocketV6 s sp 0 0)))"
  using from_be_v6 [of s]
  by (simp add: parse_proxy_payload_def Let_def nth_append to_be_bytes_2 v6_octets_def)

text \<open>The address the gateway is meant to see: an IPv4-mapped address in its IPv4 form, and an IPv6
  address without flow information and scope.\<close>

fun proxied_source :: "SocketAddr \<Rightarrow> SocketAddr" where
  "proxied_source (SocketV4 a p) = SocketV4 a p"
| "proxied_source (SocketV6 a p _ _) =
     (case to_ipv4_mapped a of Some v4 \<Rightarrow> SocketV4 v4 p | None \<Rightarrow> SocketV6 a p 0 0)"

lemma encode_header_v4:
  "encode_proxy_v2 (SocketV4 s sp) (SocketV4 d dp) =
     header_v2 0x11 12 @ v4_octets s @ v4_octets d @ to_be_bytes 2 sp @ to_be_bytes 2 dp"
  by (simp add: header_v2_def)

lemma encode_header_v6:
  assumes "\<not> (\<exists>a p b q. s = SocketV4 a p \<and> d = SocketV4 b q)"
  shows "encode_proxy_v2 s d =
     header_v2 0x21 36 @ v6_octets (ip_to_v6 (socket_ip s)) @ v6_octets (ip_to_v6 (socket_ip d))
     @ to_be_bytes 2 (socket_port s) @ to_be_bytes 2 (socket_port d)"
  using assms by (cases s; cases d) (simp_all add: header_v2_def)

text \<open>C34: whatever the address families of the two ends, the gateway reads back from the relay's header
  exactly the client's address and port (an IPv4-mapped address in its IPv4 form), and the reader is
  left at the first byte after the header.\<close>

theorem proxy_v2_roundtrip:
  "read_proxy_v2 (encode_proxy_v2 src dst @ rest) = (Ok (Some (proxied_source src)), rest)"
proof (cases "\<exists>a p b q. src = SocketV4 a p \<and> dst = SocketV4 b q")
  case True
  then obtain a p b q where [simp]: "src = SocketV4 a p" "dst = SocketV4 b q" by blast
  show ?thesis
    using read_proxy_v2_header [of "v4_octets a @ v4_octets b @ to_be_bytes 2 p @ to_be_bytes 2 q" 12 "0x11" rest]
    by (simp add: encode_header_v4 parse_payload_v4 del: encode_proxy_v2.simps)
next
  case False
  show ?thesis
    unfolding encode_header_v6 [OF False]
    using read_proxy_v2_header [of "v6_octets (ip_to_v6 (socket_ip src)) @ v6_octets (ip_to_v6 (socket_ip dst))
        @ to_be_bytes 2 (socket_port src) @ to_be_bytes 2 (socket_port dst)" 36 "0x21" rest]
    by (cases src) (simp_all add: parse_payload_v6 split: option.splits)
qed

lemma read_exact_OkD: "read_exact n r = (Ok b, r') \<Longrightarrow> r = b @ r' \<and> length b = n"
  by (auto simp: read_exact_def split: if_splits)

text \<open>a header that is accepted starts with the magic and the version, and the decoder consumes
  exactly the sixteen fixed bytes and the announced payload, at most 1040 bytes in all, whatever the
  peer sends.\<close>

theorem read_proxy_v2_consumes:
  assumes "read_proxy_v2 bs = (Ok addr, rest)"
  shows "\<exists>header payload. bs = header @ payload @ rest \<and> length header = 16
     \<and> take 12 header = PROXY_V2_MAGIC \<and> drop_bit 4 (header ! 12) = 2
     \<and> length payload = unat (from_be_bytes (drop 14 header) :: u16) \<and> length payload \<le> 1024"
proof -
  obtain header r where h: "read_exact 16 bs = (Ok header, r)"
    using assms by (auto simp: read_proxy_v2_def split: prod.splits result.splits)
  then have bs: "bs = header @ r" and len: "length header = 16" by (auto dest: read_exact_OkD)
  have idx: "drop 14 header = [header ! 14, header ! 15]"
    using len by (simp add: Cons_nth_drop_Suc [symmetric])
  obtain payload where magic: "take 12 header = PROXY_V2_MAGIC" "drop_bit 4 (header ! 12) = 2"
    and pl: "unat (from_be_bytes [header ! 14, header ! 15] :: u16) \<le> 1024"
      "read_exact (unat (from_be_bytes [header ! 14, header ! 15] :: u16)) r = (Ok payload, rest)"
    using assms h by (auto simp: read_proxy_v2_def Let_def split: prod.splits result.splits if_splits)
  from read_exact_OkD [OF pl(2)] bs have "bs = header @ payload @ rest"
    and "length payload = unat (from_be_bytes (drop 14 header) :: u16)" by (simp_all add: idx)
  with magic len pl(1) show ?thesis by (metis idx)
qed

theorem read_proxy_v2_consumes_witness:
  "\<exists>header payload. encode_proxy_v2 (SocketV4 0x0A000001 80) (SocketV4 0x0A000002 443) = header @ payload @ []
     \<and> length header = 16
     \<and> take 12 header = PROXY_V2_MAGIC \<and> drop_bit 4 (header ! 12) = 2
     \<and> length payload = unat (from_be_bytes (drop 14 header) :: u16) \<and> length payload \<le> 1024"
proof (rule read_proxy_v2_consumes)
  show "read_proxy_v2 (encode_proxy_v2 (SocketV4 0x0A000001 80) (SocketV4 0x0A000002 443)) =
      (Ok (Some (SocketV4 0x0A000001 80)), [])"
    by code_simp
qed

text \<open>reading a replaying stream with any sequence of non-empty buffers, at least as many as there
  are bytes, yields the replayed prefix followed by the bytes of the wrapped stream: nothing is lost,
  reordered or repeated at the seam, and no read looks like an end of stream before the last byte.\<close>

theorem prefixed_stream_replays:
  assumes "list_all (\<lambda>n. 0 < n) ns" and "length (pre @ s) \<le> length ns"
  shows "fst (reads (prefixed_poll_read tcp_poll_read) ns (PrefixedStream_new pre s)) = pre @ s"
proof -
  obtain bs ps where r: "reads (prefixed_poll_read tcp_poll_read) ns (PrefixedStream_new pre s) = (bs, ps)"
    by (cases "reads (prefixed_poll_read tcp_poll_read) ns (PrefixedStream_new pre s)")
  have rem: "prefixed_remaining (\<lambda>s. s) (PrefixedStream_new pre s) = pre @ s"
    by (simp add: prefixed_remaining_def PrefixedStream_new_def)
  show ?thesis using prefixed.reads_all [OF r assms(1)] assms(2) rem r by simp
qed

theorem prefixed_stream_replays_witness:
  "fst (reads (prefixed_poll_read tcp_poll_read) [2, 2, 2, 2, 2] (PrefixedStream_new [1, 2, 3] [4, 5])) = [1, 2, 3, 4, 5]"
  using prefixed_stream_replays [of "[2, 2, 2, 2, 2]" "[1, 2, 3]" "[4, 5]"] by simp

end
