(* ===== verification/Conn_Tracker.thy ===== *)
theory Conn_Tracker
  imports Net_Addr
begin

text \<open>
  Connection accounting: the gateway's \<open>ConnectionTracker\<close> (\<open>server/src/connection_tracker.rs\<close>) and
  the relay's \<open>RelayConnectionTracker\<close> (\<open>relay-server/src/main.rs\<close>).

  Each operation is modelled twice over the same building blocks: as the code's function, for a
  caller that is not interrupted, and as a sequence of atomic steps of a thread, where an atomic
  step is one atomic read-modify-write of the global counter or one visit of a locked map entry.
  The locale \<open>conn_limiter\<close> states the sequential contract that both trackers keep; the step
  relations \<open>tracker_step\<close> and \<open>relay_step\<close> interleave any number of threads.
\<close>

section \<open>The gateway's tracker\<close>

datatype AcquireError =
    GlobalLimitReached usize usize       \<comment> \<open>current, max\<close>
  | IpLimitReached IpAddr u32 usize      \<comment> \<open>ip, current, max\<close>

record ConnectionTracker =
  current_connections :: usize
  max_connections :: usize
  ip_counts :: "(IpAddr, u32) dashmap"
  max_connections_per_ip :: usize

record ConnectionGuard =
  guard_ip :: "IpAddr option"

definition ConnectionTracker_new :: "usize \<Rightarrow> usize \<Rightarrow> ConnectionTracker" where
  "ConnectionTracker_new maxc maxip =
     \<lparr> current_connections = 0, max_connections = maxc, ip_counts = [], max_connections_per_ip = maxip \<rparr>"

definition global_add :: "ConnectionTracker \<Rightarrow> ConnectionTracker" where
  "global_add t = t\<lparr> current_connections := current_connections t + 1 \<rparr>"

definition global_sub :: "ConnectionTracker \<Rightarrow> ConnectionTracker" where
  "global_sub t = t\<lparr> current_connections := current_connections t - 1 \<rparr>"

text \<open>The visit of the entry of one address: \<open>entry(ip).or_insert(0)\<close>, the check, the increment.\<close>

definition ip_enter :: "IpAddr \<Rightarrow> ConnectionTracker \<Rightarrow> (unit, AcquireError) result \<times> ConnectionTracker" where
  "ip_enter ip t =
     (let entry = (case dm_get (ip_counts t) ip of Some c \<Rightarrow> c | None \<Rightarrow> 0)
      in if max_connections_per_ip t \<le> ucast entry
         then (Err (IpLimitReached ip entry (max_connections_per_ip t)),
               t\<lparr> ip_counts := dm_insert ip entry (ip_counts t) \<rparr>)
         else (Ok (), t\<lparr> ip_counts := dm_insert ip (entry + 1) (ip_counts t) \<rparr>))"

definition acquire ::
    "IpAddr option \<Rightarrow> ConnectionTracker \<Rightarrow> (ConnectionGuard, AcquireError) result \<times> ConnectionTracker" where
  "acquire raw_ip t =
     (let ip = map_option canonical_client_ip raw_ip;
          current = current_connections t;
          t1 = global_add t
      in if max_connections t \<le> current
         then (Err (GlobalLimitReached current (max_connections t)), global_sub t1)
         else (case ip of
             Some ip_addr \<Rightarrow>
               (if is_unspecified ip_addr then (Ok \<lparr> guard_ip = ip \<rparr>, t1)
                else (case ip_enter ip_addr t1 of
                    (Err e, t2) \<Rightarrow> (Err e, global_sub t2)
                  | (Ok _, t2) \<Rightarrow> (Ok \<lparr> guard_ip = ip \<rparr>, t2)))
           | None \<Rightarrow> (Ok \<lparr> guard_ip = ip \<rparr>, t1)))"

definition ip_leave :: "IpAddr option \<Rightarrow> ConnectionTracker \<Rightarrow> ConnectionTracker" where
  "ip_leave raw_ip t =
     (case map_option canonical_client_ip raw_ip of
        None \<Rightarrow> t
      | Some ip_addr \<Rightarrow>
          (if is_unspecified ip_addr then t
           else (case dm_get (ip_counts t) ip_addr of
               None \<Rightarrow> t
             | Some c \<Rightarrow>
                 (if c \<le> 1 then t\<lparr> ip_counts := dm_remove ip_addr (ip_counts t) \<rparr>
                  else t\<lparr> ip_counts := dm_insert ip_addr (c - 1) (ip_counts t) \<rparr>))))"

definition release :: "IpAddr option \<Rightarrow> ConnectionTracker \<Rightarrow> ConnectionTracker" where
  "release ip t = ip_leave ip (global_sub t)"

definition guard_drop :: "ConnectionGuard \<Rightarrow> ConnectionTracker \<Rightarrow> ConnectionTracker" where
  "guard_drop g t = release (guard_ip g) t"

definition bind_ip ::
    "IpAddr \<Rightarrow> ConnectionGuard \<Rightarrow> ConnectionTracker
     \<Rightarrow> (unit, AcquireError) result \<times> ConnectionGuard \<times> ConnectionTracker" where
  "bind_ip raw_ip g t =
     (let ip = canonical_client_ip raw_ip
      in if is_unspecified ip \<or> guard_ip g \<noteq> None then (Ok (), g, t)
         else (case ip_enter ip t of
             (Err e, t') \<Rightarrow> (Err e, g, t')
           | (Ok _, t') \<Rightarrow> (Ok (), g\<lparr> guard_ip := Some ip \<rparr>, t')))"

definition connections_for_ip :: "IpAddr \<Rightarrow> ConnectionTracker \<Rightarrow> u32" where
  "connections_for_ip ip t =
     (case dm_get (ip_counts t) (canonical_client_ip ip) of Some c \<Rightarrow> c | None \<Rightarrow> 0)"

section \<open>The relay's tracker\<close>

record RelayConnectionTracker =
  max_global :: usize
  max_per_ip :: usize
  global_count :: usize
  relay_ip_counts :: "(IpAddr, usize) dashmap"

record RelayConnectionGuard =
  relay_guard_ip :: IpAddr

definition RelayConnectionTracker_new :: "usize \<Rightarrow> usize \<Rightarrow> RelayConnectionTracker" where
  "RelayConnectionTracker_new mg mi =
     \<lparr> max_global = mg, max_per_ip = mi, global_count = 0, relay_ip_counts = [] \<rparr>"

definition relay_ip_enter :: "IpAddr \<Rightarrow> RelayConnectionTracker \<Rightarrow> (unit, string) result \<times> RelayConnectionTracker" where
  "relay_ip_enter ip t =
     (let entry = (case dm_get (relay_ip_counts t) ip of Some c \<Rightarrow> c | None \<Rightarrow> 0)
      in if max_per_ip t \<le> entry
         then (Err ''Per-IP connection limit reached'', t\<lparr> relay_ip_counts := dm_insert ip entry (relay_ip_counts t) \<rparr>)
         else (Ok (), t\<lparr> relay_ip_counts := dm_insert ip (entry + 1) (relay_ip_counts t) \<rparr>))"

definition relay_global_add :: "RelayConnectionTracker \<Rightarrow> RelayConnectionTracker" where
  "relay_global_add t = t\<lparr> global_count := global_count t + 1 \<rparr>"

definition relay_global_sub :: "RelayConnectionTracker \<Rightarrow> RelayConnectionTracker" where
  "relay_global_sub t = t\<lparr> global_count := global_count t - 1 \<rparr>"

definition relay_acquire ::
    "IpAddr \<Rightarrow> RelayConnectionTracker \<Rightarrow> (RelayConnectionGuard, string) result \<times> RelayConnectionTracker" where
  "relay_acquire raw_ip t =
     (let ip = canonicalize_ip raw_ip;
          prev_global = global_count t;
          t1 = relay_global_add t
      in if max_global t \<le> prev_global
         then (Err ''Global connection limit reached'', relay_global_sub t1)
         else (case relay_ip_enter ip t1 of
             (Err e, t2) \<Rightarrow> (Err e, relay_global_sub t2)
           | (Ok _, t2) \<Rightarrow> (Ok \<lparr> relay_guard_ip = ip \<rparr>, t2)))"

text \<open>The drop of a relay guard visits the entry twice: once to decrement it (and to see whether it
  became zero), once more to remove it.\<close>

definition relay_ip_decrement :: "IpAddr \<Rightarrow> RelayConnectionTracker \<Rightarrow> bool \<times> RelayConnectionTracker" where
  "relay_ip_decrement ip t =
     (case dm_get (relay_ip_counts t) ip of
        None \<Rightarrow> (False, t)
      | Some c \<Rightarrow>
          (let c' = (if c > 0 then c - 1 else c)
           in (c' = 0, t\<lparr> relay_ip_counts := dm_insert ip c' (relay_ip_counts t) \<rparr>)))"

definition relay_ip_remove :: "IpAddr \<Rightarrow> RelayConnectionTracker \<Rightarrow> RelayConnectionTracker" where
  "relay_ip_remove ip t = t\<lparr> relay_ip_counts := dm_remove ip (relay_ip_counts t) \<rparr>"

definition relay_guard_drop :: "RelayConnectionGuard \<Rightarrow> RelayConnectionTracker \<Rightarrow> RelayConnectionTracker" where
  "relay_guard_drop g t =
     (case relay_ip_decrement (relay_guard_ip g) (relay_global_sub t) of
        (remove_entry, t') \<Rightarrow> (if remove_entry then relay_ip_remove (relay_guard_ip g) t' else t'))"

definition current_for_ip :: "IpAddr \<Rightarrow> RelayConnectionTracker \<Rightarrow> usize" where
  "current_for_ip raw_ip t =
     (case dm_get (relay_ip_counts t) (canonicalize_ip raw_ip) of Some c \<Rightarrow> c | None \<Rightarrow> 0)"

section \<open>The sequential contract\<close>

text \<open>
  \<open>live s gs\<close> says that the tracker state \<open>s\<close> accounts for exactly the guards \<open>gs\<close>; \<open>key\<close> is the
  address a guard is charged to.
\<close>

inductive conn_session ::
    "('i \<Rightarrow> 's \<Rightarrow> ('g, 'e) result \<times> 's) \<Rightarrow> ('g \<Rightarrow> 's \<Rightarrow> 's) \<Rightarrow> 's \<Rightarrow> 's \<Rightarrow> 'g list \<Rightarrow> bool"
  for acq rel s where
  start: "conn_session acq rel s s []"
| opened: "conn_session acq rel s s1 as \<Longrightarrow> acq ip s1 = (Ok g, s2) \<Longrightarrow> conn_session acq rel s s2 (g # as)"
| refused: "conn_session acq rel s s1 as \<Longrightarrow> acq ip s1 = (Err e, s2) \<Longrightarrow> conn_session acq rel s s2 as"
| closed: "conn_session acq rel s s1 (as @ g # bs) \<Longrightarrow> conn_session acq rel s (rel g s1) (as @ bs)"

locale conn_limiter =
  fixes acq :: "'i \<Rightarrow> 's \<Rightarrow> ('g, 'e) result \<times> 's"
    and rel :: "'g \<Rightarrow> 's \<Rightarrow> 's"
    and live :: "'s \<Rightarrow> 'g list \<Rightarrow> bool"
    and key :: "'g \<Rightarrow> IpAddr option"
    and cap :: "'s \<Rightarrow> nat"
    and per :: "'s \<Rightarrow> nat"
  assumes live_acquire: "live s gs \<Longrightarrow> acq ip s = (Ok g, s') \<Longrightarrow> live s' (g # gs)"
    and live_refuse: "live s gs \<Longrightarrow> acq ip s = (Err e, s') \<Longrightarrow> live s' gs"
    and live_release: "live s (as @ g # bs) \<Longrightarrow> live (rel g s) (as @ bs)"
    and live_cap: "live s gs \<Longrightarrow> length gs \<le> cap s"
    and live_per: "live s gs \<Longrightarrow> cnt (\<lambda>g. key g = Some k) gs \<le> per s"
    and keep_acq: "acq ip s = (r, s') \<Longrightarrow> cap s' = cap s \<and> per s' = per s"
    and keep_rel: "cap (rel g s) = cap s \<and> per (rel g s) = per s"
begin

lemma session_live:
  "conn_session acq rel s s' gs \<Longrightarrow> live s [] \<Longrightarrow> live s' gs \<and> cap s' = cap s \<and> per s' = per s"
  by (induction rule: conn_session.induct)
    (auto dest: live_acquire live_refuse live_release keep_acq simp: keep_rel)

lemma session_bounded:
  assumes "conn_session acq rel s s' gs" and "live s []"
  shows "length gs \<le> cap s" and "cnt (\<lambda>g. key g = Some k) gs \<le> per s"
  using session_live [OF assms] live_cap [of s' gs] live_per [of s' gs k] by auto

end

section \<open>The gateway's tracker keeps the contract\<close>

definition ip_load :: "ConnectionTracker \<Rightarrow> IpAddr \<Rightarrow> nat" where
  "ip_load t k = (case dm_get (ip_counts t) k of Some c \<Rightarrow> unat c | None \<Rightarrow> 0)"

definition tracker_ok :: "ConnectionTracker \<Rightarrow> bool" where
  "tracker_ok t \<longleftrightarrow> dm_wf (ip_counts t) \<and> unat (max_connections_per_ip t) < 2 ^ 32
     \<and> (0 < max_connections_per_ip t \<longrightarrow> (\<forall>k c. dm_get (ip_counts t) k = Some c \<longrightarrow> c \<noteq> 0))"

definition charged :: "IpAddr option \<Rightarrow> IpAddr option" where
  "charged ip = (case ip of None \<Rightarrow> None | Some a \<Rightarrow> (if is_unspecified a then None else Some a))"

definition canonical_opt :: "IpAddr option \<Rightarrow> bool" where
  "canonical_opt ip = (case ip of None \<Rightarrow> True | Some a \<Rightarrow> canonical_client_ip a = a)"

definition tracker_live :: "ConnectionTracker \<Rightarrow> ConnectionGuard list \<Rightarrow> bool" where
  "tracker_live t gs \<longleftrightarrow> tracker_ok t \<and> unat (current_connections t) = length gs
     \<and> length gs \<le> unat (max_connections t) \<and> list_all (\<lambda>g. canonical_opt (guard_ip g)) gs
     \<and> (\<forall>k. ip_load t k = cnt (\<lambda>g. charged (guard_ip g) = Some k) gs)
     \<and> (\<forall>k. ip_load t k \<le> unat (max_connections_per_ip t))"

lemma global_simps [simp]:
  "global_sub (global_add t) = t"
  "ip_counts (global_add t) = ip_counts t" "ip_counts (global_sub t) = ip_counts t"
  "max_connections (global_add t) = max_connections t" "max_connections (global_sub t) = max_connections t"
  "max_connections_per_ip (global_add t) = max_connections_per_ip t"
  "max_connections_per_ip (global_sub t) = max_connections_per_ip t"
  "current_connections (global_add t) = current_connections t + 1"
  "current_connections (global_sub t) = current_connections t - 1"
  "ip_load (global_add t) k = ip_load t k" "ip_load (global_sub t) k = ip_load t k"
  "tracker_ok (global_add t) = tracker_ok t" "tracker_ok (global_sub t) = tracker_ok t"
  by (simp_all add: global_add_def global_sub_def ip_load_def tracker_ok_def)

lemma ip_enter_frame:
  "ip_enter ip t = (r, t') \<Longrightarrow> current_connections t' = current_connections t
     \<and> max_connections t' = max_connections t \<and> max_connections_per_ip t' = max_connections_per_ip t"
  by (auto simp: ip_enter_def Let_def split: if_splits)

lemma ucast_le_iff: "(m :: usize) \<le> ucast (c :: u32) \<longleftrightarrow> unat m \<le> unat c"
proof -
  have "unat c < 2 ^ 64" using unsigned_less [of c] by (rule less_le_trans) simp
  then have "unat (ucast c :: usize) = unat c"
    by (simp add: unsigned_ucast_eq take_bit_nat_eq_self)
  then show ?thesis by (simp add: word_le_nat_alt)
qed

lemma ip_enter_Ok:
  assumes "ip_enter ip t = (Ok u, t')" and "tracker_ok t"
  shows "tracker_ok t'" and "ip_load t ip < unat (max_connections_per_ip t)"
    and "ip_load t' k = (if k = ip then Suc (ip_load t ip) else ip_load t k)"
proof -
  let ?c = "case dm_get (ip_counts t) ip of Some c \<Rightarrow> c | None \<Rightarrow> 0"
  from assms(1) have lt: "\<not> max_connections_per_ip t \<le> ucast ?c"
    and t': "t' = t\<lparr> ip_counts := dm_insert ip (?c + 1) (ip_counts t) \<rparr>"
    by (auto simp: ip_enter_def Let_def split: if_splits)
  have load: "ip_load t ip = unat ?c" by (simp add: ip_load_def split: option.splits)
  from lt show less: "ip_load t ip < unat (max_connections_per_ip t)" unfolding load ucast_le_iff by simp
  then have "unat ?c + 1 < 2 ^ 32" using assms(2) load by (simp add: tracker_ok_def)
  then have suc: "unat (?c + 1) = unat ?c + 1" by (simp add: unat_word_ariths)
  then show "ip_load t' k = (if k = ip then Suc (ip_load t ip) else ip_load t k)"
    using load by (simp add: t' ip_load_def dm.get_insert)
  from suc have "?c + 1 \<noteq> 0" by (metis Suc_eq_plus1 nat.distinct(1) unat_0)
  then show "tracker_ok t'" using assms(2) by (auto simp: t' tracker_ok_def dm_simps)
qed

lemma ip_enter_Err:
  assumes "ip_enter ip t = (Err e, t')" and "tracker_ok t"
  shows "tracker_ok t'" and "ip_load t' k = ip_load t k"
proof -
  let ?c = "case dm_get (ip_counts t) ip of Some c \<Rightarrow> c | None \<Rightarrow> 0"
  from assms(1) have le: "max_connections_per_ip t \<le> ucast ?c"
    and t': "t' = t\<lparr> ip_counts := dm_insert ip ?c (ip_counts t) \<rparr>"
    by (auto simp: ip_enter_def Let_def split: if_splits)
  show "ip_load t' k = ip_load t k" by (auto simp: t' ip_load_def dm.get_insert split: option.splits)
  from le have "0 < max_connections_per_ip t \<Longrightarrow> ?c \<noteq> 0" by auto
  then show "tracker_ok t'" using assms(2) by (auto simp: t' tracker_ok_def dm_simps)
qed

lemma ip_leave_frame [simp]:
  "current_connections (ip_leave ip t) = current_connections t"
  "max_connections (ip_leave ip t) = max_connections t"
  "max_connections_per_ip (ip_leave ip t) = max_connections_per_ip t"
  by (auto simp: ip_leave_def split: option.splits)

lemma ip_leave_load:
  assumes "tracker_ok t" and "canonical_opt ip" and "\<And>a. charged ip = Some a \<Longrightarrow> 0 < ip_load t a"
  shows "tracker_ok (ip_leave ip t)"
    and "ip_load (ip_leave ip t) k + of_bool (charged ip = Some k) = ip_load t k"
proof -
  show "tracker_ok (ip_leave ip t)" using assms(1)
    by (auto simp: ip_leave_def tracker_ok_def dm_simps split: option.splits if_splits)
  show "ip_load (ip_leave ip t) k + of_bool (charged ip = Some k) = ip_load t k"
  proof (cases "charged ip")
    case None
    then show ?thesis using assms(2)
      by (auto simp: ip_leave_def charged_def canonical_opt_def split: option.splits if_splits)
  next
    case (Some a)
    then have ip: "ip = Some a" "\<not> is_unspecified a" "canonical_client_ip a = a"
      using assms(2) by (auto simp: charged_def canonical_opt_def split: option.splits if_splits)
    from assms(3) [OF Some] obtain c where c: "dm_get (ip_counts t) a = Some c" and "0 < unat c"
      by (auto simp: ip_load_def split: option.splits)
    show ?thesis
    proof (cases "c \<le> 1")
      case True
      with \<open>0 < unat c\<close> have "unat c = 1" by (simp add: word_le_nat_alt)
      with c ip True Some assms(1) show ?thesis
        by (auto simp: ip_leave_def ip_load_def tracker_ok_def dm_simps)
    next
      case False
      then have "c \<noteq> 0" by auto
      then have "unat (c - 1) + 1 = unat c" using \<open>0 < unat c\<close> by (simp add: unat_minus_one)
      with c ip False Some assms(1) show ?thesis
        by (auto simp: ip_leave_def ip_load_def tracker_ok_def dm_simps)
    qed
  qed
qed

lemma canonical_optI [simp]: "canonical_opt (map_option canonical_client_ip ip)"
  using canonical_client_ip_twice by (cases ip) (auto simp: canonical_opt_def)

lemma acquire_cases:
  assumes "acquire raw t = (r, t')"
  obtains (full) "max_connections t \<le> current_connections t" and "t' = t" and "\<exists>e. r = Err e"
  | (free) "current_connections t < max_connections t" and "charged (map_option canonical_client_ip raw) = None"
      and "t' = global_add t" and "r = Ok \<lparr> guard_ip = map_option canonical_client_ip raw \<rparr>"
  | (bound) a where "current_connections t < max_connections t"
      and "charged (map_option canonical_client_ip raw) = Some a"
      and "ip_enter a (global_add t) = (Ok (), t')"
      and "r = Ok \<lparr> guard_ip = map_option canonical_client_ip raw \<rparr>"
  | (limited) a t2 e where "ip_enter a (global_add t) = (Err e, t2)" and "t' = global_sub t2" and "r = Err e"
proof (cases "max_connections t \<le> current_connections t")
  case True
  show thesis by (rule full [OF True]) (use assms True in \<open>auto simp: acquire_def Let_def\<close>)
next
  case False
  show thesis
  proof (cases "charged (map_option canonical_client_ip raw)")
    case None
    show thesis
      by (rule free [OF _ None])
        (use assms False None in \<open>auto simp: acquire_def charged_def Let_def split: if_splits option.splits\<close>)
  next
    case (Some a)
    then have raw: "map_option canonical_client_ip raw = Some a" "\<not> is_unspecified a"
      by (auto simp: charged_def split: option.splits if_splits)
    show thesis
    proof (cases "ip_enter a (global_add t)")
      case (Pair q t2)
      show thesis
      proof (cases q)
        case (Ok u)
        show thesis by (rule bound [OF _ Some]) (use assms False raw Pair Ok in \<open>auto simp: acquire_def Let_def\<close>)
      next
        case (Err e)
        show thesis
          by (rule limited) (use assms False raw Pair Err in \<open>auto simp: acquire_def Let_def\<close>)
      qed
    qed
  qed
qed

interpretation tracker: conn_limiter acquire guard_drop tracker_live "\<lambda>g. charged (guard_ip g)"
    "\<lambda>t. unat (max_connections t)" "\<lambda>t. unat (max_connections_per_ip t)"
proof
  fix t gs raw g t'
  assume live: "tracker_live t gs" and r: "acquire raw t = (Ok g, t')"
  from r show "tracker_live t' (g # gs)"
  proof (cases rule: acquire_cases)
    case free
    then show ?thesis using live unat_suc_lt [OF free(1)]
      by (auto simp: tracker_live_def word_less_nat_alt)
  next
    case (bound a)
    note enter = ip_enter_Ok [OF bound(3)] ip_enter_frame [OF bound(3)]
    have "tracker_ok (global_add t)" using live by (simp add: tracker_live_def)
    with enter show ?thesis using live bound unat_suc_lt [OF bound(1)]
      by (auto simp: tracker_live_def word_less_nat_alt)
  qed auto
next
  fix t gs raw e t'
  assume live: "tracker_live t gs" and r: "acquire raw t = (Err e, t')"
  from r show "tracker_live t' gs"
  proof (cases rule: acquire_cases)
    case full
    then show ?thesis using live by simp
  next
    case (limited a t2 e')
    note enter = ip_enter_Err [OF limited(1)] ip_enter_frame [OF limited(1)]
    have "tracker_ok (global_add t)" using live by (simp add: tracker_live_def)
    with enter show ?thesis using live limited by (auto simp: tracker_live_def)
  qed auto
next
  fix t as g bs
  assume live: "tracker_live t (as @ g # bs)"
  then have can: "canonical_opt (guard_ip g)" and ok: "tracker_ok t" by (auto simp: tracker_live_def)
  have pos: "0 < ip_load (global_sub t) a" if "charged (guard_ip g) = Some a" for a
    using live that by (auto simp: tracker_live_def)
  note leave = ip_leave_load [OF _ can pos]
  have cur: "unat (current_connections t - 1) = length (as @ bs)"
    by (rule unat_pred) (use live in \<open>simp add: tracker_live_def\<close>)
  have load: "ip_load (guard_drop g t) k = cnt (\<lambda>g. charged (guard_ip g) = Some k) (as @ bs)
      \<and> cnt (\<lambda>g. charged (guard_ip g) = Some k) (as @ bs) \<le> unat (max_connections_per_ip t)" for k
  proof -
    have "ip_load t k = cnt (\<lambda>g. charged (guard_ip g) = Some k) (as @ g # bs)"
      and "ip_load t k \<le> unat (max_connections_per_ip t)" using live unfolding tracker_live_def by blast+
    then show ?thesis using leave(2) [of k] ok by (auto simp: guard_drop_def release_def)
  qed
  show "tracker_live (guard_drop g t) (as @ bs)"
    using live cur load leave(1) ok
    by (auto simp: tracker_live_def guard_drop_def release_def)
next
  fix ip t r t'
  assume "acquire ip t = (r, t')"
  then show "unat (max_connections t') = unat (max_connections t)
      \<and> unat (max_connections_per_ip t') = unat (max_connections_per_ip t)"
    by (cases rule: acquire_cases) (auto dest: ip_enter_frame)
qed (auto simp: tracker_live_def guard_drop_def release_def)

section \<open>The relay's tracker keeps the contract\<close>

definition relay_load :: "RelayConnectionTracker \<Rightarrow> IpAddr \<Rightarrow> nat" where
  "relay_load t k = (case dm_get (relay_ip_counts t) k of Some c \<Rightarrow> unat c | None \<Rightarrow> 0)"

definition relay_live :: "RelayConnectionTracker \<Rightarrow> RelayConnectionGuard list \<Rightarrow> bool" where
  "relay_live t gs \<longleftrightarrow> dm_wf (relay_ip_counts t) \<and> unat (global_count t) = length gs
     \<and> length gs \<le> unat (max_global t)
     \<and> (\<forall>k. relay_load t k = cnt (\<lambda>g. relay_guard_ip g = k) gs)
     \<and> (\<forall>k. relay_load t k \<le> unat (max_per_ip t))"

lemma relay_global_simps [simp]:
  "relay_global_sub (relay_global_add t) = t"
  "relay_ip_counts (relay_global_add t) = relay_ip_counts t" "relay_ip_counts (relay_global_sub t) = relay_ip_counts t"
  "max_global (relay_global_add t) = max_global t" "max_global (relay_global_sub t) = max_global t"
  "max_per_ip (relay_global_add t) = max_per_ip t" "max_per_ip (relay_global_sub t) = max_per_ip t"
  "global_count (relay_global_add t) = global_count t + 1" "global_count (relay_global_sub t) = global_count t - 1"
  "relay_load (relay_global_add t) k = relay_load t k" "relay_load (relay_global_sub t) k = relay_load t k"
  by (simp_all add: relay_global_add_def relay_global_sub_def relay_load_def)

lemma relay_ip_enter_frame:
  "relay_ip_enter ip t = (r, t') \<Longrightarrow> global_count t' = global_count t
     \<and> max_global t' = max_global t \<and> max_per_ip t' = max_per_ip t
     \<and> (dm_wf (relay_ip_counts t) \<longrightarrow> dm_wf (relay_ip_counts t'))"
  by (auto simp: relay_ip_enter_def Let_def dm_simps split: if_splits)

lemma relay_ip_enter_Ok:
  assumes "relay_ip_enter ip t = (Ok u, t')"
  shows "relay_load t ip < unat (max_per_ip t)"
    and "relay_load t' k = (if k = ip then Suc (relay_load t ip) else relay_load t k)"
proof -
  let ?c = "case dm_get (relay_ip_counts t) ip of Some c \<Rightarrow> c | None \<Rightarrow> 0"
  from assms have lt: "?c < max_per_ip t"
    and t': "t' = t\<lparr> relay_ip_counts := dm_insert ip (?c + 1) (relay_ip_counts t) \<rparr>"
    by (auto simp: relay_ip_enter_def Let_def split: if_splits)
  have load: "relay_load t ip = unat ?c" by (simp add: relay_load_def split: option.splits)
  from lt show "relay_load t ip < unat (max_per_ip t)" unfolding load by (simp add: word_less_nat_alt)
  show "relay_load t' k = (if k = ip then Suc (relay_load t ip) else relay_load t k)"
    using load unat_suc_lt [OF lt] by (simp add: t' relay_load_def dm.get_insert)
qed

lemma relay_ip_enter_Err: "relay_ip_enter ip t = (Err e, t') \<Longrightarrow> relay_load t' k = relay_load t k"
  by (auto simp: relay_ip_enter_def Let_def relay_load_def dm.get_insert split: if_splits option.splits)

lemma relay_drop_frame:
  "global_count (relay_guard_drop g t) = global_count t - 1
   \<and> max_global (relay_guard_drop g t) = max_global t \<and> max_per_ip (relay_guard_drop g t) = max_per_ip t
   \<and> (dm_wf (relay_ip_counts t) \<longrightarrow> dm_wf (relay_ip_counts (relay_guard_drop g t)))"
  by (auto simp: relay_guard_drop_def relay_ip_decrement_def relay_ip_remove_def Let_def dm_simps
      split: option.splits)

lemma relay_drop_load:
  assumes "dm_wf (relay_ip_counts t)" and "0 < relay_load t (relay_guard_ip g)"
  shows "relay_load (relay_guard_drop g t) k + of_bool (relay_guard_ip g = k) = relay_load t k"
proof -
  from assms(2) obtain c where c: "dm_get (relay_ip_counts t) (relay_guard_ip g) = Some c" and "0 < unat c"
    by (auto simp: relay_load_def split: option.splits)
  then obtain n where n: "unat c = Suc n" by (cases "unat c") auto
  then have pred: "unat (c - 1) = n" by (rule unat_pred)
  have pos: "0 < c" using n by (simp add: word_less_nat_alt)
  show ?thesis
  proof (cases "c - 1 = 0")
    case True
    with pred have "n = 0" by simp
    with c n pos True assms(1) show ?thesis
      by (auto simp: relay_guard_drop_def relay_ip_decrement_def relay_ip_remove_def relay_load_def dm_simps)
  next
    case False
    with c n pred pos assms(1) show ?thesis
      by (auto simp: relay_guard_drop_def relay_ip_decrement_def relay_ip_remove_def relay_load_def dm_simps)
  qed
qed

lemma relay_acquire_cases:
  assumes "relay_acquire raw t = (r, t')"
  obtains (full) "t' = t" and "\<exists>e. r = Err e"
  | (entered) "global_count t < max_global t" and "relay_ip_enter (canonicalize_ip raw) (relay_global_add t) = (Ok (), t')"
      and "r = Ok \<lparr> relay_guard_ip = canonicalize_ip raw \<rparr>"
  | (limited) t2 e where "relay_ip_enter (canonicalize_ip raw) (relay_global_add t) = (Err e, t2)"
      and "t' = relay_global_sub t2" and "r = Err e"
proof (cases "max_global t \<le> global_count t")
  case True
  show thesis by (rule full) (use assms True in \<open>auto simp: relay_acquire_def Let_def\<close>)
next
  case False
  show thesis
  proof (cases "relay_ip_enter (canonicalize_ip raw) (relay_global_add t)")
    case (Pair q t2)
    show thesis
    proof (cases q)
      case (Ok u)
      show thesis by (rule entered) (use assms False Pair Ok in \<open>auto simp: relay_acquire_def Let_def\<close>)
    next
      case (Err e)
      show thesis by (rule limited) (use assms False Pair Err in \<open>auto simp: relay_acquire_def Let_def\<close>)
    qed
  qed
qed

interpretation relay: conn_limiter relay_acquire relay_guard_drop relay_live "\<lambda>g. Some (relay_guard_ip g)"
    "\<lambda>t. unat (max_global t)" "\<lambda>t. unat (max_per_ip t)"
proof
  fix t gs raw g t'
  assume live: "relay_live t gs" and r: "relay_acquire raw t = (Ok g, t')"
  from r show "relay_live t' (g # gs)"
  proof (cases rule: relay_acquire_cases)
    case entered
    then show ?thesis
      using live unat_suc_lt [OF entered(1)] relay_ip_enter_Ok [OF entered(2)] relay_ip_enter_frame [OF entered(2)]
      by (auto simp: relay_live_def word_less_nat_alt)
  qed auto
next
  fix t gs raw e t'
  assume live: "relay_live t gs" and r: "relay_acquire raw t = (Err e, t')"
  from r show "relay_live t' gs"
  proof (cases rule: relay_acquire_cases)
    case (limited t2 e')
    then show ?thesis
      using live relay_ip_enter_Err [OF limited(1)] relay_ip_enter_frame [OF limited(1)]
      by (auto simp: relay_live_def)
  qed (use live in auto)
next
  fix t as g bs
  assume live: "relay_live t (as @ g # bs)"
  have "relay_load t (relay_guard_ip g) = cnt (\<lambda>h. relay_guard_ip h = relay_guard_ip g) (as @ g # bs)"
    using live unfolding relay_live_def by blast
  then have pos: "0 < relay_load t (relay_guard_ip g)" by simp
  have cur: "unat (global_count t - 1) = length (as @ bs)"
    by (rule unat_pred) (use live in \<open>simp add: relay_live_def\<close>)
  have wf: "dm_wf (relay_ip_counts t)" using live by (simp add: relay_live_def)
  have "relay_load (relay_guard_drop g t) k = cnt (\<lambda>g. relay_guard_ip g = k) (as @ bs)
      \<and> cnt (\<lambda>g. relay_guard_ip g = k) (as @ bs) \<le> unat (max_per_ip t)" for k
  proof -
    have "relay_load t k = cnt (\<lambda>g. relay_guard_ip g = k) (as @ g # bs)" and "relay_load t k \<le> unat (max_per_ip t)"
      using live unfolding relay_live_def by blast+
    then show ?thesis using relay_drop_load [OF wf pos, of k] by auto
  qed
  then show "relay_live (relay_guard_drop g t) (as @ bs)"
    using live cur relay_drop_frame [of g t] by (auto simp: relay_live_def)
next
  fix ip t r t'
  assume "relay_acquire ip t = (r, t')"
  then show "unat (max_global t') = unat (max_global t) \<and> unat (max_per_ip t') = unat (max_per_ip t)"
    by (cases rule: relay_acquire_cases) (auto dest: relay_ip_enter_frame)
next
  fix t gs k
  assume "relay_live t gs"
  then have "cnt (\<lambda>g. relay_guard_ip g = k) gs \<le> unat (max_per_ip t)" unfolding relay_live_def by metis
  then show "cnt (\<lambda>g. Some (relay_guard_ip g) = Some k) gs \<le> unat (max_per_ip t)" by simp
qed (auto simp: relay_live_def relay_drop_frame)

section \<open>Interleavings of the gateway's tracker\<close>

text \<open>
  A thread is between two atomic steps of \<open>acquire\<close> or of the drop of its guard. The addresses kept in
  a phase are the canonical ones.
\<close>

datatype phase =
    Idle
  | Counted "IpAddr option"     \<comment> \<open>global counter incremented, entry not visited yet\<close>
  | Rejecting                   \<comment> \<open>refused, global counter not yet decremented\<close>
  | Holding "IpAddr option"     \<comment> \<open>the connection is open\<close>
  | Releasing "IpAddr option"   \<comment> \<open>guard dropped: global counter decremented, entry not visited yet\<close>

inductive tracker_step :: "ConnectionTracker \<times> phase list \<Rightarrow> ConnectionTracker \<times> phase list \<Rightarrow> bool" where
  enter: "i < length ts \<Longrightarrow> ts ! i = Idle \<Longrightarrow> current_connections t < max_connections t \<Longrightarrow>
    tracker_step (t, ts) (global_add t, ts[i := Counted (map_option canonical_client_ip raw)])"
| enter_full: "i < length ts \<Longrightarrow> ts ! i = Idle \<Longrightarrow> max_connections t \<le> current_connections t \<Longrightarrow>
    tracker_step (t, ts) (global_add t, ts[i := Rejecting])"
| reject: "i < length ts \<Longrightarrow> ts ! i = Rejecting \<Longrightarrow> tracker_step (t, ts) (global_sub t, ts[i := Idle])"
| no_entry: "i < length ts \<Longrightarrow> ts ! i = Counted ip \<Longrightarrow> charged ip = None \<Longrightarrow>
    tracker_step (t, ts) (t, ts[i := Holding ip])"
| entry: "i < length ts \<Longrightarrow> ts ! i = Counted ip \<Longrightarrow> charged ip = Some a \<Longrightarrow> ip_enter a t = (Ok (), t') \<Longrightarrow>
    tracker_step (t, ts) (t', ts[i := Holding ip])"
| entry_full: "i < length ts \<Longrightarrow> ts ! i = Counted ip \<Longrightarrow> charged ip = Some a \<Longrightarrow> ip_enter a t = (Err e, t') \<Longrightarrow>
    tracker_step (t, ts) (t', ts[i := Rejecting])"
| bind: "i < length ts \<Longrightarrow> ts ! i = Holding ip \<Longrightarrow> bind_ip raw \<lparr> guard_ip = ip \<rparr> t = (r, g, t') \<Longrightarrow>
    tracker_step (t, ts) (t', ts[i := Holding (guard_ip g)])"
| drop_global: "i < length ts \<Longrightarrow> ts ! i = Holding ip \<Longrightarrow>
    tracker_step (t, ts) (global_sub t, ts[i := Releasing ip])"
| drop_entry: "i < length ts \<Longrightarrow> ts ! i = Releasing ip \<Longrightarrow>
    tracker_step (t, ts) (ip_leave ip t, ts[i := Idle])"

fun in_global :: "phase \<Rightarrow> bool" where
  "in_global Rejecting = True" | "in_global (Counted _) = True" | "in_global (Holding _) = True"
| "in_global _ = False"

fun admitted :: "phase \<Rightarrow> bool" where
  "admitted (Counted _) = True" | "admitted (Holding _) = True" | "admitted _ = False"

fun charges :: "IpAddr \<Rightarrow> phase \<Rightarrow> bool" where
  "charges k (Holding ip) = (charged ip = Some k)"
| "charges k (Releasing ip) = (charged ip = Some k)"
| "charges k _ = False"

fun canonical_phase :: "phase \<Rightarrow> bool" where
  "canonical_phase (Counted ip) = canonical_opt ip"
| "canonical_phase (Holding ip) = canonical_opt ip"
| "canonical_phase (Releasing ip) = canonical_opt ip"
| "canonical_phase _ = True"

definition par_inv :: "usize \<Rightarrow> usize \<Rightarrow> ConnectionTracker \<times> phase list \<Rightarrow> bool" where
  "par_inv m p = (\<lambda>(t, ts). tracker_ok t \<and> length ts < 2 ^ 64 \<and> max_connections t = m
     \<and> max_connections_per_ip t = p
     \<and> unat (current_connections t) = cnt in_global ts \<and> cnt admitted ts \<le> unat m
     \<and> list_all canonical_phase ts
     \<and> (\<forall>k. ip_load t k = cnt (charges k) ts) \<and> (\<forall>k. ip_load t k \<le> unat p))"

lemma par_inv_update:
  assumes inv: "par_inv m p (t, ts)" and i: "i < length ts"
    and frame: "tracker_ok t'" "max_connections t' = m" "max_connections_per_ip t' = p"
    and glob: "unat (current_connections t') + of_bool (in_global (ts ! i)) =
               unat (current_connections t) + of_bool (in_global x)"
    and adm: "admitted x \<Longrightarrow> admitted (ts ! i) \<or> cnt admitted ts < unat m"
    and can: "canonical_phase x"
    and load: "\<And>k. ip_load t' k + of_bool (charges k (ts ! i)) = ip_load t k + of_bool (charges k x)"
    and room: "\<And>k. charges k x \<Longrightarrow> charges k (ts ! i) \<or> ip_load t k < unat p"
  shows "par_inv m p (t', ts[i := x])"
proof -
  note upd = cnt_update [OF i, where x = x]
  have "unat (current_connections t') = cnt in_global (ts[i := x])"
    using inv glob upd [of in_global] by (simp add: par_inv_def)
  moreover have "cnt admitted (ts[i := x]) \<le> unat m"
    using inv adm upd [of admitted] by (cases "admitted x"; cases "admitted (ts ! i)") (auto simp: par_inv_def)
  moreover have "ip_load t' k = cnt (charges k) (ts[i := x])" for k
    using inv load [of k] upd [of "charges k"] by (simp add: par_inv_def)
  moreover have "ip_load t' k \<le> unat p" for k
  proof -
    have "ip_load t k \<le> unat p" using inv by (auto simp: par_inv_def)
    then show ?thesis using load [of k] room [of k]
      by (cases "charges k x"; cases "charges k (ts ! i)") auto
  qed
  moreover have "list_all canonical_phase (ts[i := x])"
    using inv can by (auto simp: par_inv_def list_all_iff dest: set_update_subset_insert [THEN subsetD])
  ultimately show ?thesis using inv frame by (simp add: par_inv_def)
qed

lemma par_inv_room:
  assumes "par_inv m p (t, ts)" and "i < length ts" and "\<not> in_global (ts ! i)"
  shows "unat (current_connections t + 1) = Suc (unat (current_connections t))"
proof -
  have "Suc (unat (current_connections t)) < 2 ^ 64"
    using assms cnt_less_length [of i ts in_global] by (simp add: par_inv_def)
  then show ?thesis by (simp add: unat_word_ariths)
qed

lemma par_inv_positive:
  assumes "par_inv m p (t, ts)" and "i < length ts" and "in_global (ts ! i)"
  shows "unat (current_connections t - 1) + 1 = unat (current_connections t)"
proof -
  obtain n where "unat (current_connections t) = Suc n"
    using assms(1) cnt_pos [OF assms(2), of in_global] assms(3) by (cases "cnt in_global ts") (auto simp: par_inv_def)
  then show ?thesis using unat_pred by simp
qed

lemma admitted_in_global: "cnt admitted ts \<le> cnt in_global ts"
proof (rule cnt_mono)
  fix x assume "admitted x"
  then show "in_global x" by (cases x) auto
qed

lemma canonical_phase_nth: "par_inv m p (t, ts) \<Longrightarrow> i < length ts \<Longrightarrow> canonical_phase (ts ! i)"
  by (simp add: par_inv_def list_all_length)

lemma par_inv_step: "tracker_step s s' \<Longrightarrow> par_inv m p s \<Longrightarrow> par_inv m p s'"
proof (induction rule: tracker_step.induct)
  case (enter i ts t raw)
  note room = par_inv_room [OF enter.prems enter.hyps(1)]
  from enter.prems have "cnt admitted ts < unat m" using admitted_in_global [of ts] enter.hyps(3)
    by (auto simp: par_inv_def word_less_nat_alt)
  with enter room show ?case by (intro par_inv_update [OF enter.prems]) (auto simp: par_inv_def)
next
  case (enter_full i ts t)
  note room = par_inv_room [OF enter_full.prems enter_full.hyps(1)]
  with enter_full show ?case by (intro par_inv_update [OF enter_full.prems]) (auto simp: par_inv_def)
next
  case (reject i ts t)
  note pos = par_inv_positive [OF reject.prems reject.hyps(1)]
  with reject show ?case by (intro par_inv_update [OF reject.prems]) (auto simp: par_inv_def)
next
  case (no_entry i ts ip t)
  then show ?case using canonical_phase_nth [OF no_entry.prems no_entry.hyps(1)]
    by (intro par_inv_update [OF no_entry.prems]) (auto simp: par_inv_def)
next
  case (entry i ts ip a t t')
  have ok: "tracker_ok t" using entry.prems by (simp add: par_inv_def)
  note e = ip_enter_Ok [OF entry.hyps(4) ok] ip_enter_frame [OF entry.hyps(4)]
  show ?case using canonical_phase_nth [OF entry.prems entry.hyps(1)] entry e
    by (intro par_inv_update [OF entry.prems]) (auto simp: par_inv_def)
next
  case (entry_full i ts ip a t e t')
  have ok: "tracker_ok t" using entry_full.prems by (simp add: par_inv_def)
  note e = ip_enter_Err [OF entry_full.hyps(4) ok] ip_enter_frame [OF entry_full.hyps(4)]
  show ?case using entry_full e by (intro par_inv_update [OF entry_full.prems]) (auto simp: par_inv_def)
next
  case (bind i ts ip raw t r g t')
  have ok: "tracker_ok t" using bind.prems by (simp add: par_inv_def)
  have can: "canonical_opt ip" using canonical_phase_nth [OF bind.prems bind.hyps(1)] bind.hyps(2) by simp
  show ?case
  proof (cases "is_unspecified (canonical_client_ip raw) \<or> ip \<noteq> None")
    case True
    with bind.hyps(3) have "t' = t" "guard_ip g = ip" by (auto simp: bind_ip_def Let_def split: if_splits)
    then show ?thesis using bind.prems bind.hyps(2) by (metis list_update_id)
  next
    case False
    let ?a = "canonical_client_ip raw"
    obtain q t2 where e: "ip_enter ?a t = (q, t2)" by (cases "ip_enter ?a t")
    show ?thesis
    proof (cases q)
      case (Ok u)
      note f = ip_enter_Ok [OF e [unfolded Ok] ok] ip_enter_frame [OF e]
      from False Ok e bind.hyps(3) have "t' = t2" "guard_ip g = Some ?a"
        by (auto simp: bind_ip_def Let_def)
      with f False bind show ?thesis
        by (intro par_inv_update [OF bind.prems])
          (auto simp: par_inv_def charged_def canonical_opt_def canonical_client_ip_twice)
    next
      case (Err er)
      note f = ip_enter_Err [OF e [unfolded Err] ok] ip_enter_frame [OF e]
      from False Err e bind.hyps(3) have "t' = t2" "guard_ip g = ip"
        by (auto simp: bind_ip_def Let_def)
      with f False bind can show ?thesis
        by (intro par_inv_update [OF bind.prems]) (auto simp: par_inv_def)
    qed
  qed
next
  case (drop_global i ts ip t)
  note pos = par_inv_positive [OF drop_global.prems drop_global.hyps(1)]
  with drop_global show ?case using canonical_phase_nth [OF drop_global.prems drop_global.hyps(1)]
    by (intro par_inv_update [OF drop_global.prems]) (auto simp: par_inv_def)
next
  case (drop_entry i ts ip t)
  have ok: "tracker_ok t" using drop_entry.prems by (simp add: par_inv_def)
  have can: "canonical_opt ip" using canonical_phase_nth [OF drop_entry.prems drop_entry.hyps(1)] drop_entry.hyps(2) by simp
  have pos: "0 < ip_load t a" if "charged ip = Some a" for a
    using drop_entry.prems cnt_pos [OF drop_entry.hyps(1), of "charges a"] that drop_entry.hyps(2)
    by (simp add: par_inv_def)
  note l = ip_leave_load [OF ok can pos]
  show ?case using drop_entry l by (intro par_inv_update [OF drop_entry.prems]) (auto simp: par_inv_def)
qed

lemma par_inv_reachable:
  assumes "tracker_step\<^sup>*\<^sup>* (ConnectionTracker_new m p, replicate n Idle) s"
    and "unat p < 2 ^ 32" and "n < 2 ^ 64"
  shows "par_inv m p s"
  using assms(1)
proof (induction rule: rtranclp_induct)
  case base
  have "cnt P (replicate n Idle) = 0" if "\<not> P Idle" for P :: "phase \<Rightarrow> bool" using that by (simp add: cnt_def)
  then show ?case using assms(2,3)
    by (auto simp: par_inv_def ConnectionTracker_new_def tracker_ok_def ip_load_def list_all_iff)
next
  case (step s s')
  then show ?case using par_inv_step by blast
qed

definition open_connections :: "phase list \<Rightarrow> nat" where
  "open_connections ts = cnt (\<lambda>x. case x of Holding _ \<Rightarrow> True | _ \<Rightarrow> False) ts"

definition open_connections_of :: "IpAddr \<Rightarrow> phase list \<Rightarrow> nat" where
  "open_connections_of k ts = cnt (\<lambda>x. case x of Holding ip \<Rightarrow> charged ip = Some k | _ \<Rightarrow> False) ts"

text \<open>C14: however many threads acquire, bind and drop connections, and however their atomic steps
  interleave, at most \<open>max_connections\<close> connections are open at any time, and at most
  \<open>max_connections_per_ip\<close> of them are charged to any one client address.\<close>

theorem tracker_limits_concurrent:
  assumes "tracker_step\<^sup>*\<^sup>* (ConnectionTracker_new m p, replicate n Idle) (t, ts)"
    and "unat p < 2 ^ 32" and "n < 2 ^ 64"
  shows "open_connections ts \<le> unat m \<and> open_connections_of k ts \<le> unat p"
proof
  have inv: "par_inv m p (t, ts)" by (rule par_inv_reachable [OF assms])
  have "open_connections ts \<le> cnt admitted ts"
    unfolding open_connections_def by (rule cnt_mono) (auto split: phase.splits)
  then show "open_connections ts \<le> unat m" using inv by (simp add: par_inv_def)
  have "open_connections_of k ts \<le> cnt (charges k) ts"
    unfolding open_connections_of_def by (rule cnt_mono) (auto split: phase.splits)
  also have "\<dots> = ip_load t k" using inv by (simp add: par_inv_def)
  also have "\<dots> \<le> unat p" using inv by (auto simp: par_inv_def)
  finally show "open_connections_of k ts \<le> unat p" .
qed

text \<open>accounting leaks nothing: when every thread is idle again, the global counter is back at
  zero and the per-address table is empty, so neither counts nor table entries accumulate over the
  life of the server.\<close>

theorem tracker_no_leak:
  assumes "tracker_step\<^sup>*\<^sup>* (ConnectionTracker_new m p, replicate n Idle) (t, ts)"
    and "unat p < 2 ^ 32" and "n < 2 ^ 64" and "0 < p" and "list_all (\<lambda>x. x = Idle) ts"
  shows "current_connections t = 0 \<and> ip_counts t = []"
proof
  have inv: "par_inv m p (t, ts)" by (rule par_inv_reachable [OF assms(1-3)])
  have none: "cnt P ts = 0" if "\<not> P Idle" for P
    using that assms(5) by (auto simp: cnt_def list_all_iff filter_empty_conv)
  have "unat (current_connections t) = 0" using inv none [of in_global] by (simp add: par_inv_def)
  then show "current_connections t = 0" by (simp add: unat_eq_0)
  have load: "ip_load t k = 0" for k using inv none [of "charges k"] by (simp add: par_inv_def)
  have nz: "c \<noteq> 0" if "dm_get (ip_counts t) k = Some c" for k c
    using inv assms(4) that unfolding par_inv_def tracker_ok_def by auto
  have "dm_get (ip_counts t) k = None" for k
    using load [of k] nz [of k] by (auto simp: ip_load_def unat_eq_0 split: option.splits)
  then show "ip_counts t = []" by (rule dm_all_none)
qed

text \<open>A run of one thread that opens a connection and closes it again.\<close>

definition demo_open :: ConnectionTracker where
  "demo_open = \<lparr> current_connections = 1, max_connections = 5, ip_counts = [(V4 1, 1)], max_connections_per_ip = 2 \<rparr>"

lemma demo_opens:
  "tracker_step\<^sup>*\<^sup>* (ConnectionTracker_new 5 2, replicate 1 Idle) (demo_open, [Holding (Some (V4 1))])"
proof -
  let ?t = "ConnectionTracker_new 5 2"
  have "tracker_step (?t, [Idle]) (global_add ?t, [Idle][0 := Counted (map_option canonical_client_ip (Some (V4 1)))])"
    by (rule tracker_step.enter) (simp_all add: ConnectionTracker_new_def)
  moreover have "tracker_step (global_add ?t, [Counted (Some (V4 1))])
      (demo_open, [Counted (Some (V4 1))][0 := Holding (Some (V4 1))])"
    by (rule tracker_step.entry [where a = "V4 1"])
      (simp_all add: charged_def ip_enter_def global_add_def ConnectionTracker_new_def demo_open_def dm_exec)
  ultimately show ?thesis by (simp add: converse_rtranclp_into_rtranclp)
qed

lemma demo_closes:
  "tracker_step\<^sup>*\<^sup>* (ConnectionTracker_new 5 2, replicate 1 Idle) (ConnectionTracker_new 5 2, [Idle])"
proof -
  have "tracker_step (demo_open, [Holding (Some (V4 1))])
      (global_sub demo_open, [Holding (Some (V4 1))][0 := Releasing (Some (V4 1))])"
    by (rule tracker_step.drop_global) simp_all
  moreover have "tracker_step (global_sub demo_open, [Releasing (Some (V4 1))])
      (ip_leave (Some (V4 1)) (global_sub demo_open), [Releasing (Some (V4 1))][0 := Idle])"
    by (rule tracker_step.drop_entry) simp_all
  moreover have "ip_leave (Some (V4 1)) (global_sub demo_open) = ConnectionTracker_new 5 2"
    by (simp add: ip_leave_def global_sub_def demo_open_def ConnectionTracker_new_def dm_exec)
  ultimately show ?thesis
    by (metis (no_types, lifting) demo_opens list_update_code(2) rtranclp.rtrancl_into_rtrancl)
qed

theorem tracker_limits_concurrent_witness:
  "open_connections [Holding (Some (V4 1))] \<le> unat (5 :: usize)
   \<and> open_connections_of (V4 1) [Holding (Some (V4 1))] \<le> unat (2 :: usize)"
  by (rule tracker_limits_concurrent [OF demo_opens]) simp_all

theorem tracker_no_leak_witness:
  "current_connections (ConnectionTracker_new 5 2) = 0 \<and> ip_counts (ConnectionTracker_new 5 2) = []"
  by (rule tracker_no_leak [OF demo_closes]) simp_all



text \<open>addresses in \<open>::/64\<close> escape the per-address limit. All of them except the loopback address
  and the IPv4-mapped ones canonicalise to the unspecified address, which \<open>acquire\<close> does not charge:
  below the global limit every such client is admitted and the table does not change.\<close>

theorem tracker_zero_prefix_uncharged:
  assumes "drop_bit 64 v = 0" and "to_ipv4_mapped v = None" and "v \<noteq> 1"
    and "current_connections t < max_connections t"
  shows "acquire (Some (V6 v)) t = (Ok \<lparr> guard_ip = Some (V6 0) \<rparr>, global_add t)
     \<and> ip_counts (global_add t) = ip_counts t"
proof -
  have mask: "v AND NOT (mask 64) = push_bit 64 (drop_bit 64 v)"
    by (rule bit_word_eqI) (auto simp: bit_simps)
  have "canonical_client_ip (V6 v) = V6 0"
  proof (cases "v = 0")
    case True
    then show ?thesis by (simp add: to_ipv4_mapped_def)
  next
    case False
    then show ?thesis using canonical_client_ip_v6 [OF assms(2,3)] mask assms(1) by simp
  qed
  then show ?thesis using assms(4) by (simp add: acquire_def Let_def)
qed

theorem tracker_zero_prefix_uncharged_witness:
  "acquire (Some (V6 2)) (ConnectionTracker_new 5 1) =
     (Ok \<lparr> guard_ip = Some (V6 0) \<rparr>, global_add (ConnectionTracker_new 5 1))
   \<and> ip_counts (global_add (ConnectionTracker_new 5 1)) = ip_counts (ConnectionTracker_new 5 1)"
  by (rule tracker_zero_prefix_uncharged) (simp_all add: to_ipv4_mapped_def ConnectionTracker_new_def)

section \<open>Interleavings of the relay's tracker\<close>

datatype relay_phase =
    RIdle
  | RCounted IpAddr
  | RRejecting
  | RHolding IpAddr
  | RDropping IpAddr      \<comment> \<open>global counter decremented, entry not decremented yet\<close>
  | RRemoving IpAddr      \<comment> \<open>entry seen at zero, not removed yet\<close>

inductive relay_step ::
    "RelayConnectionTracker \<times> relay_phase list \<Rightarrow> RelayConnectionTracker \<times> relay_phase list \<Rightarrow> bool" where
  renter: "i < length ts \<Longrightarrow> ts ! i = RIdle \<Longrightarrow> global_count t < max_global t \<Longrightarrow>
    relay_step (t, ts) (relay_global_add t, ts[i := RCounted (canonicalize_ip raw)])"
| renter_full: "i < length ts \<Longrightarrow> ts ! i = RIdle \<Longrightarrow> max_global t \<le> global_count t \<Longrightarrow>
    relay_step (t, ts) (relay_global_add t, ts[i := RRejecting])"
| rreject: "i < length ts \<Longrightarrow> ts ! i = RRejecting \<Longrightarrow> relay_step (t, ts) (relay_global_sub t, ts[i := RIdle])"
| rentry: "i < length ts \<Longrightarrow> ts ! i = RCounted ip \<Longrightarrow> relay_ip_enter ip t = (Ok (), t') \<Longrightarrow>
    relay_step (t, ts) (t', ts[i := RHolding ip])"
| rentry_full: "i < length ts \<Longrightarrow> ts ! i = RCounted ip \<Longrightarrow> relay_ip_enter ip t = (Err e, t') \<Longrightarrow>
    relay_step (t, ts) (t', ts[i := RRejecting])"
| rdrop: "i < length ts \<Longrightarrow> ts ! i = RHolding ip \<Longrightarrow> relay_step (t, ts) (relay_global_sub t, ts[i := RDropping ip])"
| rdecrement: "i < length ts \<Longrightarrow> ts ! i = RDropping ip \<Longrightarrow> relay_ip_decrement ip t = (b, t') \<Longrightarrow>
    relay_step (t, ts) (t', ts[i := (if b then RRemoving ip else RIdle)])"
| rremove: "i < length ts \<Longrightarrow> ts ! i = RRemoving ip \<Longrightarrow> relay_step (t, ts) (relay_ip_remove ip t, ts[i := RIdle])"

fun rin_global :: "relay_phase \<Rightarrow> bool" where
  "rin_global RRejecting = True" | "rin_global (RCounted _) = True" | "rin_global (RHolding _) = True"
| "rin_global _ = False"

fun radmitted :: "relay_phase \<Rightarrow> bool" where
  "radmitted (RCounted _) = True" | "radmitted (RHolding _) = True" | "radmitted _ = False"

definition rpar_inv :: "usize \<Rightarrow> RelayConnectionTracker \<times> relay_phase list \<Rightarrow> bool" where
  "rpar_inv m = (\<lambda>(t, ts). length ts < 2 ^ 64 \<and> max_global t = m
     \<and> unat (global_count t) = cnt rin_global ts \<and> cnt radmitted ts \<le> unat m)"

lemma rpar_inv_update:
  assumes inv: "rpar_inv m (t, ts)" and i: "i < length ts" and "max_global t' = m"
    and glob: "unat (global_count t') + of_bool (rin_global (ts ! i)) = unat (global_count t) + of_bool (rin_global x)"
    and adm: "radmitted x \<Longrightarrow> radmitted (ts ! i) \<or> cnt radmitted ts < unat m"
  shows "rpar_inv m (t', ts[i := x])"
proof -
  note upd = cnt_update [OF i, where x = x]
  have "unat (global_count t') = cnt rin_global (ts[i := x])"
    using inv glob upd [of rin_global] by (simp add: rpar_inv_def)
  moreover have "cnt radmitted (ts[i := x]) \<le> unat m"
    using inv adm upd [of radmitted] by (cases "radmitted x"; cases "radmitted (ts ! i)") (auto simp: rpar_inv_def)
  ultimately show ?thesis using inv assms(3) by (simp add: rpar_inv_def)
qed

lemma rpar_inv_room:
  assumes "rpar_inv m (t, ts)" and "i < length ts" and "\<not> rin_global (ts ! i)"
  shows "unat (global_count t + 1) = Suc (unat (global_count t))"
proof -
  have "Suc (unat (global_count t)) < 2 ^ 64"
    using assms cnt_less_length [of i ts rin_global] by (simp add: rpar_inv_def)
  then show ?thesis by (simp add: unat_word_ariths)
qed

lemma rpar_inv_positive:
  assumes "rpar_inv m (t, ts)" and "i < length ts" and "rin_global (ts ! i)"
  shows "unat (global_count t - 1) + 1 = unat (global_count t)"
proof -
  obtain n where "unat (global_count t) = Suc n"
    using assms(1) cnt_pos [OF assms(2), of rin_global] assms(3) by (cases "cnt rin_global ts") (auto simp: rpar_inv_def)
  then show ?thesis using unat_pred by simp
qed

lemma rpar_inv_step: "relay_step s s' \<Longrightarrow> rpar_inv m s \<Longrightarrow> rpar_inv m s'"
proof (induction rule: relay_step.induct)
  case (renter i ts t raw)
  have "cnt radmitted ts \<le> cnt rin_global ts"
  proof (rule cnt_mono)
    fix x assume "radmitted x"
    then show "rin_global x" by (cases x) auto
  qed
  with renter have "cnt radmitted ts < unat m" by (auto simp: rpar_inv_def word_less_nat_alt)
  with renter rpar_inv_room [OF renter.prems renter.hyps(1)] show ?case
    by (intro rpar_inv_update [OF renter.prems]) (auto simp: rpar_inv_def)
next
  case (renter_full i ts t)
  then show ?case using rpar_inv_room [OF renter_full.prems renter_full.hyps(1)]
    by (intro rpar_inv_update [OF renter_full.prems]) (auto simp: rpar_inv_def)
next
  case (rreject i ts t)
  then show ?case using rpar_inv_positive [OF rreject.prems rreject.hyps(1)]
    by (intro rpar_inv_update [OF rreject.prems]) (auto simp: rpar_inv_def)
next
  case (rentry i ts ip t t')
  then show ?case using relay_ip_enter_frame [OF rentry.hyps(3)]
    by (intro rpar_inv_update [OF rentry.prems]) (auto simp: rpar_inv_def)
next
  case (rentry_full i ts ip t e t')
  then show ?case using relay_ip_enter_frame [OF rentry_full.hyps(3)]
    by (intro rpar_inv_update [OF rentry_full.prems]) (auto simp: rpar_inv_def)
next
  case (rdrop i ts ip t)
  then show ?case using rpar_inv_positive [OF rdrop.prems rdrop.hyps(1)]
    by (intro rpar_inv_update [OF rdrop.prems]) (auto simp: rpar_inv_def)
next
  case (rdecrement i ts ip t b t')
  then have "global_count t' = global_count t" "max_global t' = max_global t"
    by (auto simp: relay_ip_decrement_def Let_def split: option.splits)
  with rdecrement show ?case
    by (intro rpar_inv_update [OF rdecrement.prems]) (auto simp: rpar_inv_def split: if_splits)
next
  case (rremove i ts ip t)
  then show ?case by (intro rpar_inv_update [OF rremove.prems]) (auto simp: rpar_inv_def relay_ip_remove_def)
qed

text \<open>the relay's global limit holds under every interleaving of its threads.\<close>

theorem relay_global_limit_concurrent:
  assumes "relay_step\<^sup>*\<^sup>* (RelayConnectionTracker_new m p, replicate n RIdle) (t, ts)" and "n < 2 ^ 64"
  shows "cnt (\<lambda>x. case x of RHolding _ \<Rightarrow> True | _ \<Rightarrow> False) ts \<le> unat m"
proof -
  from assms(1) have "rpar_inv m (t, ts)"
  proof (induction rule: rtranclp_induct)
    case base
    show ?case using assms(2) by (simp add: rpar_inv_def RelayConnectionTracker_new_def cnt_def)
  next
    case (step s s')
    then show ?case using rpar_inv_step by blast
  qed
  moreover have "cnt (\<lambda>x. case x of RHolding _ \<Rightarrow> True | _ \<Rightarrow> False) ts \<le> cnt radmitted ts"
    by (rule cnt_mono) (auto split: relay_phase.splits)
  ultimately show ?thesis by (simp add: rpar_inv_def)
qed

definition relay_at :: "usize \<Rightarrow> (IpAddr, usize) dashmap \<Rightarrow> RelayConnectionTracker" where
  "relay_at n counts = \<lparr> max_global = 10, max_per_ip = 1, global_count = n, relay_ip_counts = counts \<rparr>"

lemmas relay_demo = relay_at_def relay_ip_enter_def relay_ip_decrement_def relay_ip_remove_def
  relay_global_add_def relay_global_sub_def dm_exec Let_def

lemma relay_opens:
  assumes "i < length ts" and "ts ! i = RIdle" and "n < 10"
    and "relay_ip_enter (V4 a) (relay_at (n + 1) c) = (Ok (), relay_at (n + 1) c')"
  shows "relay_step\<^sup>*\<^sup>* (relay_at n c, ts) (relay_at (n + 1) c', ts[i := RHolding (V4 a)])"
proof -
  have "relay_step (relay_at n c, ts) (relay_global_add (relay_at n c), ts[i := RCounted (canonicalize_ip (V4 a))])"
    by (rule relay_step.renter) (use assms in \<open>simp_all add: relay_at_def\<close>)
  moreover have "relay_global_add (relay_at n c) = relay_at (n + 1) c" by (simp add: relay_demo)
  moreover have "relay_step (relay_at (n + 1) c, ts[i := RCounted (V4 a)])
      (relay_at (n + 1) c', ts[i := RCounted (V4 a), i := RHolding (V4 a)])"
    by (rule relay_step.rentry) (use assms in simp_all)
  ultimately show ?thesis by (simp add: converse_rtranclp_into_rtranclp)
qed

lemma relay_starts_closing:
  "relay_step\<^sup>*\<^sup>* (relay_at 1 [(V4 1, 1)], [RHolding (V4 1), RIdle]) (relay_at 0 [(V4 1, 0)], [RRemoving (V4 1), RIdle])"
proof -
  have "relay_step (relay_at 1 [(V4 1, 1)], [RHolding (V4 1), RIdle])
      (relay_global_sub (relay_at 1 [(V4 1, 1)]), [RHolding (V4 1), RIdle][0 := RDropping (V4 1)])"
    by (rule relay_step.rdrop) simp_all
  moreover have "relay_global_sub (relay_at 1 [(V4 1, 1)]) = relay_at 0 [(V4 1, 1)]" by (simp add: relay_demo)
  moreover have "relay_step (relay_at 0 [(V4 1, 1)], [RDropping (V4 1), RIdle])
      (relay_at 0 [(V4 1, 0)], [RDropping (V4 1), RIdle][0 := if True then RRemoving (V4 1) else RIdle])"
    by (rule relay_step.rdecrement) (simp_all add: relay_demo)
  ultimately show ?thesis by (simp add: converse_rtranclp_into_rtranclp)
qed

text \<open>the relay's per-address limit does not hold under interleaving. The drop of a guard visits the
  entry twice. A second thread that acquires between the two visits has its count removed with the
  entry, and a third acquisition passes: two connections of one address are open under a limit of one.\<close>

theorem relay_per_ip_race:
  "\<exists>t. relay_step\<^sup>*\<^sup>* (RelayConnectionTracker_new 10 1, replicate 2 RIdle) (t, [RHolding (V4 1), RHolding (V4 1)])
     \<and> max_per_ip t = 1"
proof -
  have new: "RelayConnectionTracker_new 10 1 = relay_at 0 []"
    by (simp add: RelayConnectionTracker_new_def relay_at_def)
  have one: "relay_step\<^sup>*\<^sup>* (relay_at 0 [], [RIdle, RIdle]) (relay_at (0 + 1) [(V4 1, 1)], [RIdle, RIdle][0 := RHolding (V4 1)])"
    by (rule relay_opens) (simp_all add: relay_demo)
  have two: "relay_step\<^sup>*\<^sup>* (relay_at 0 [(V4 1, 0)], [RRemoving (V4 1), RIdle])
      (relay_at (0 + 1) [(V4 1, 1)], [RRemoving (V4 1), RIdle][1 := RHolding (V4 1)])"
    by (rule relay_opens) (simp_all add: relay_demo)
  have "relay_step (relay_at 1 [(V4 1, 1)], [RRemoving (V4 1), RHolding (V4 1)])
      (relay_ip_remove (V4 1) (relay_at 1 [(V4 1, 1)]), [RRemoving (V4 1), RHolding (V4 1)][0 := RIdle])"
    by (rule relay_step.rremove) simp_all
  then have gone: "relay_step\<^sup>*\<^sup>* (relay_at 1 [(V4 1, 1)], [RRemoving (V4 1), RHolding (V4 1)])
      (relay_at 1 [], [RIdle, RHolding (V4 1)])"
    by (simp add: relay_ip_remove_def relay_at_def dm_exec r_into_rtranclp)
  have three: "relay_step\<^sup>*\<^sup>* (relay_at 1 [], [RIdle, RHolding (V4 1)])
      (relay_at (1 + 1) [(V4 1, 1)], [RIdle, RHolding (V4 1)][0 := RHolding (V4 1)])"
    by (rule relay_opens) (simp_all add: relay_demo)
  have "relay_step\<^sup>*\<^sup>* (relay_at 0 [], [RIdle, RIdle]) (relay_at 2 [(V4 1, 1)], [RHolding (V4 1), RHolding (V4 1)])"
  proof -
    note a = rtranclp_trans [OF one [simplified] relay_starts_closing]
    note b = rtranclp_trans [OF a two [simplified]]
    note c = rtranclp_trans [OF b gone]
    from rtranclp_trans [OF c three] show ?thesis by simp
  qed
  moreover have "replicate 2 RIdle = [RIdle, RIdle]" by (simp add: numeral_2_eq_2)
  moreover have "max_per_ip (relay_at 2 [(V4 1, 1)]) = 1" by (simp add: relay_at_def)
  ultimately show ?thesis unfolding new by metis
qed

theorem relay_global_limit_concurrent_witness:
  "cnt (\<lambda>x. case x of RHolding _ \<Rightarrow> True | _ \<Rightarrow> False) [RHolding (V4 1), RIdle] \<le> unat (10 :: usize)"
proof (rule relay_global_limit_concurrent)
  have "relay_step\<^sup>*\<^sup>* (relay_at 0 [], [RIdle, RIdle]) (relay_at (0 + 1) [(V4 1, 1)], [RIdle, RIdle][0 := RHolding (V4 1)])"
    by (rule relay_opens) (simp_all add: relay_demo)
  then show "relay_step\<^sup>*\<^sup>* (RelayConnectionTracker_new 10 1, replicate 2 RIdle) (relay_at 1 [(V4 1, 1)], [RHolding (V4 1), RIdle])"
    by (simp add: RelayConnectionTracker_new_def relay_at_def numeral_2_eq_2)
qed simp

text \<open>for a caller that is not interleaved with others, the relay's tracker keeps both limits over
  any sequence of acquisitions and drops.\<close>

theorem relay_session_limits:
  assumes "conn_session relay_acquire relay_guard_drop (RelayConnectionTracker_new m p) t gs"
  shows "length gs \<le> unat m \<and> cnt (\<lambda>g. relay_guard_ip g = k) gs \<le> unat p"
proof -
  have new: "relay_live (RelayConnectionTracker_new m p) []"
    by (simp add: relay_live_def RelayConnectionTracker_new_def relay_load_def)
  from relay.session_bounded [OF assms new] show ?thesis
    by (simp add: RelayConnectionTracker_new_def)
qed

theorem relay_session_limits_witness:
  "length [\<lparr> relay_guard_ip = V4 1 \<rparr>] \<le> unat (10 :: usize)
   \<and> cnt (\<lambda>g. relay_guard_ip g = V4 1) [\<lparr> relay_guard_ip = V4 1 \<rparr>] \<le> unat (1 :: usize)"
proof (rule relay_session_limits)
  have "relay_acquire (V4 1) (RelayConnectionTracker_new 10 1) = (Ok \<lparr> relay_guard_ip = V4 1 \<rparr>, relay_at 1 [(V4 1, 1)])"
    by code_simp
  then show "conn_session relay_acquire relay_guard_drop (RelayConnectionTracker_new 10 1) (relay_at 1 [(V4 1, 1)])
      [\<lparr> relay_guard_ip = V4 1 \<rparr>]"
    using conn_session.opened [OF conn_session.start] by metis
qed

end
