(* ===== verification/Circuit_Breaker.thy ===== *)
theory Circuit_Breaker
  imports Http
begin

text \<open>
  The circuit breaker of an upstream node: \<open>UpstreamNode\<close> (\<open>server/src/configuration.rs\<close>) and
  \<open>CircuitState\<close>, \<open>ProbeGuard\<close>, the outlier predicates and the retry buffer
  (\<open>server/src/middleware/router/circuit_breaker.rs\<close>).

  Each method is one function on the node record; the clock is an argument (seconds since the
  epoch). The step relation \<open>cb_step\<close> interleaves the methods of any number of requests and of
  the health checker; a request is represented by its probe guard.
\<close>

section \<open>States and nodes\<close>

datatype CircuitState = Closed | Open | HalfOpen

fun to_u8 :: "CircuitState \<Rightarrow> u8" where
  "to_u8 Closed = 0" | "to_u8 Open = 1" | "to_u8 HalfOpen = 2"

definition from_u8 :: "u8 \<Rightarrow> CircuitState" where
  "from_u8 val = (if val = 1 then Open else if val = 2 then HalfOpen else Closed)"

record UpstreamNode =
  node_uri :: Uri
  active_connections :: usize
  is_alive :: bool
  last_failure_time :: u64
  current_score :: usize
  consecutive_failures :: usize
  circuit_state_raw :: u8
  half_open_probe_in_flight :: bool
  node_requests :: u64
  total_failures :: u64
  circuit_trips :: u64
  failover_retries :: u64
  last_response_ms :: u64
  ema_response_ms :: u64

definition UpstreamNode_new :: "Uri \<Rightarrow> UpstreamNode" where
  "UpstreamNode_new uri =
     \<lparr> node_uri = uri, active_connections = 0, is_alive = True, last_failure_time = 0,
       current_score = 0, consecutive_failures = 0, circuit_state_raw = to_u8 Closed,
       half_open_probe_in_flight = False, node_requests = 0, total_failures = 0, circuit_trips = 0,
       failover_retries = 0, last_response_ms = 0, ema_response_ms = 0 \<rparr>"

definition saturating_add :: "u64 \<Rightarrow> u64 \<Rightarrow> u64" where
  "saturating_add a b = (if unat a + unat b < 2 ^ 64 then a + b else - 1)"

definition saturating_mul :: "u64 \<Rightarrow> u64 \<Rightarrow> u64" where
  "saturating_mul a b = (if unat a * unat b < 2 ^ 64 then a * b else - 1)"

definition record_latency_ms :: "u64 \<Rightarrow> UpstreamNode \<Rightarrow> UpstreamNode" where
  "record_latency_ms sample_ms n =
     (let prev = ema_response_ms n;
          nxt = (if prev = 0 then sample_ms
                 else saturating_add (saturating_mul prev 3) sample_ms div 4)
      in n\<lparr> last_response_ms := sample_ms, ema_response_ms := nxt \<rparr>)"

definition circuit_state :: "UpstreamNode \<Rightarrow> CircuitState" where
  "circuit_state n = from_u8 (circuit_state_raw n)"

definition mark_dead :: "u64 \<Rightarrow> UpstreamNode \<Rightarrow> UpstreamNode" where
  "mark_dead now n =
     (let was_alive = is_alive n;
          prev_state = circuit_state_raw n;
          n' = n\<lparr> total_failures := total_failures n + 1, is_alive := False,
                  circuit_state_raw := to_u8 Open, half_open_probe_in_flight := False,
                  last_failure_time := now \<rparr>
      in if was_alive \<or> prev_state \<noteq> to_u8 Open then n'\<lparr> circuit_trips := circuit_trips n' + 1 \<rparr> else n')"

definition mark_alive :: "UpstreamNode \<Rightarrow> UpstreamNode" where
  "mark_alive n =
     n\<lparr> consecutive_failures := 0, half_open_probe_in_flight := False,
        circuit_state_raw := to_u8 Closed, is_alive := True, last_failure_time := 0 \<rparr>"

definition record_success :: "UpstreamNode \<Rightarrow> UpstreamNode" where
  "record_success n = (if \<not> is_alive n \<or> consecutive_failures n > 0 then mark_alive n else n)"

definition record_failure :: "usize \<Rightarrow> u64 \<Rightarrow> UpstreamNode \<Rightarrow> bool \<times> UpstreamNode" where
  "record_failure failure_threshold now n =
     (let failures = consecutive_failures n + 1;
          was_probe = half_open_probe_in_flight n \<or> circuit_state n = HalfOpen;
          n1 = n\<lparr> consecutive_failures := failures, half_open_probe_in_flight := False \<rparr>
      in if was_probe \<or> max failure_threshold 1 \<le> failures
         then (True, mark_dead now n1)
         else (False, n1\<lparr> total_failures := total_failures n1 + 1 \<rparr>))"

definition try_enter_half_open_probe :: "u64 \<Rightarrow> u64 \<Rightarrow> UpstreamNode \<Rightarrow> bool \<times> UpstreamNode" where
  "try_enter_half_open_probe cooldown_seconds now n =
     (if is_alive n then (False, n)
      else if last_failure_time n = 0 then (False, n)
      else if now \<le> last_failure_time n + cooldown_seconds then (False, n)
      else if \<not> half_open_probe_in_flight n
      then (True, n\<lparr> half_open_probe_in_flight := True, circuit_state_raw := to_u8 HalfOpen \<rparr>)
      else (False, n))"

definition is_available :: "u64 \<Rightarrow> u64 \<Rightarrow> UpstreamNode \<Rightarrow> bool" where
  "is_available cooldown_seconds now n =
     (if is_alive n then True
      else if half_open_probe_in_flight n then False
      else if last_failure_time n = 0 then False
      else last_failure_time n + cooldown_seconds < now)"

section \<open>Outliers and probes\<close>

definition is_outlier_status :: "nat \<Rightarrow> bool" where
  "is_outlier_status status = (status = 502 \<or> status = 503 \<or> status = 504)"

definition is_grpc_outlier_response :: "nat \<Rightarrow> HeaderMap \<Rightarrow> bool" where
  "is_grpc_outlier_response status headers =
     (if is_outlier_status status then True
      else (case hm_get ''grpc-status'' headers of
          Some v \<Rightarrow> (if is_visible_ascii v \<and> trim v = ''14'' then True else False)
        | None \<Rightarrow> False))"

record ProbeGuard =
  is_probe :: bool
  completed :: bool

definition ProbeGuard_new :: "u64 \<Rightarrow> u64 \<Rightarrow> UpstreamNode \<Rightarrow> ProbeGuard \<times> UpstreamNode" where
  "ProbeGuard_new cooldown_seconds now n =
     (case try_enter_half_open_probe cooldown_seconds now n of
        (p, n') \<Rightarrow> (\<lparr> is_probe = p, completed = False \<rparr>, n'))"

definition probe_complete :: "ProbeGuard \<Rightarrow> ProbeGuard" where
  "probe_complete g = g\<lparr> completed := True \<rparr>"

definition probe_drop :: "ProbeGuard \<Rightarrow> UpstreamNode \<Rightarrow> UpstreamNode" where
  "probe_drop g n =
     (if is_probe g \<and> \<not> completed g
      then n\<lparr> half_open_probe_in_flight := False, circuit_state_raw := to_u8 Open \<rparr>
      else n)"

section \<open>Retry buffering\<close>

datatype RequestBody = RStream SrvBody | Buffered "u8 list"

text \<open>The frames of a \<open>PrefixedStreamBody\<close>: the prefix, if it is not empty, then the remaining body.\<close>

definition prefixed_stream_body :: "u8 list \<Rightarrow> SrvBody \<Rightarrow> SrvBody" where
  "prefixed_stream_body pre remaining = (if pre \<noteq> [] then Ok (Data pre) # remaining else remaining)"

fun buffer_loop :: "nat \<Rightarrow> u8 list \<Rightarrow> SrvBody \<Rightarrow> (RequestBody, SrvError) result" where
  "buffer_loop max_buffer_bytes accumulated [] = Ok (Buffered accumulated)"
| "buffer_loop max_buffer_bytes accumulated (frame_res # body) =
     (case frame_res of
        Err e \<Rightarrow> Err e
      | Ok (Data d) \<Rightarrow>
          (if length accumulated + length d > max_buffer_bytes
           then Ok (RStream (prefixed_stream_body (accumulated @ d) body))
           else buffer_loop max_buffer_bytes (accumulated @ d) body)
      | Ok (Trailers _) \<Rightarrow> buffer_loop max_buffer_bytes accumulated body)"

definition buffer_body_up_to :: "SrvBody \<Rightarrow> usize \<Rightarrow> (RequestBody, SrvError) result" where
  "buffer_body_up_to body max_buffer_bytes = buffer_loop (unat max_buffer_bytes) [] body"

section \<open>Interleavings\<close>

text \<open>
  A state is the node, the clock and the probe guards of the requests in flight. A request that gets
  a verdict completes its guard before the verdict is recorded; the drop that follows then does
  nothing. A request whose client goes away drops its guard without a verdict. The health checker and
  the admin interface mark the node alive or dead at any time.
\<close>

type_synonym cb_state = "UpstreamNode \<times> u64 \<times> ProbeGuard list"

inductive cb_step :: "u64 \<Rightarrow> usize \<Rightarrow> cb_state \<Rightarrow> cb_state \<Rightarrow> bool" for cooldown threshold where
  tick: "now \<le> now' \<Longrightarrow> cb_step cooldown threshold (n, now, gs) (n, now', gs)"
| start: "ProbeGuard_new cooldown now n = (g, n') \<Longrightarrow> cb_step cooldown threshold (n, now, gs) (n', now, gs @ [g])"
| success: "cb_step cooldown threshold (n, now, as @ g # bs)
    (probe_drop (probe_complete g) (record_success n), now, as @ bs)"
| outlier: "cb_step cooldown threshold (n, now, as @ g # bs)
    (probe_drop (probe_complete g) (snd (record_failure threshold now n)), now, as @ bs)"
| failure: "cb_step cooldown threshold (n, now, as @ g # bs)
    (probe_drop (probe_complete g) (mark_dead now n), now, as @ bs)"
| abort: "cb_step cooldown threshold (n, now, as @ g # bs) (probe_drop g n, now, as @ bs)"
| health_up: "cb_step cooldown threshold (n, now, gs) (mark_alive n, now, gs)"
| health_down: "cb_step cooldown threshold (n, now, gs) (mark_dead now n, now, gs)"

definition node_inv :: "UpstreamNode \<Rightarrow> bool" where
  "node_inv n \<longleftrightarrow>
     (half_open_probe_in_flight n \<longleftrightarrow> circuit_state n = HalfOpen)
     \<and> (half_open_probe_in_flight n \<longrightarrow> \<not> is_alive n)
     \<and> (\<not> is_alive n \<longrightarrow> circuit_state n \<noteq> Closed)"

section \<open>Lemmas\<close>

lemma from_to_u8 [simp]: "from_u8 (to_u8 s) = s"
  by (cases s) (simp_all add: from_u8_def)

lemma from_u8_codes [simp]: "from_u8 0 = Closed" "from_u8 1 = Open" "from_u8 2 = HalfOpen"
  by (simp_all add: from_u8_def)

lemma mark_dead_fields [simp]:
  "is_alive (mark_dead now n) = False" "circuit_state (mark_dead now n) = Open"
  "half_open_probe_in_flight (mark_dead now n) = False" "last_failure_time (mark_dead now n) = now"
  "consecutive_failures (mark_dead now n) = consecutive_failures n" "node_uri (mark_dead now n) = node_uri n"
  by (simp_all add: mark_dead_def circuit_state_def Let_def)

lemma mark_alive_fields [simp]:
  "is_alive (mark_alive n)" "circuit_state (mark_alive n) = Closed"
  "half_open_probe_in_flight (mark_alive n) = False" "last_failure_time (mark_alive n) = 0"
  "consecutive_failures (mark_alive n) = 0" "node_uri (mark_alive n) = node_uri n"
  by (simp_all add: mark_alive_def circuit_state_def)

lemma circuit_state_frame [simp]:
  "circuit_state (n\<lparr> consecutive_failures := c \<rparr>) = circuit_state n"
  "circuit_state (n\<lparr> half_open_probe_in_flight := b \<rparr>) = circuit_state n"
  "circuit_state (n\<lparr> total_failures := f \<rparr>) = circuit_state n"
  "circuit_state (n\<lparr> circuit_state_raw := to_u8 s \<rparr>) = s"
  by (simp_all add: circuit_state_def)

lemma probe_drop_complete [simp]: "probe_drop (probe_complete g) n = n"
  by (simp add: probe_drop_def probe_complete_def)

lemma record_failure_cases:
  obtains (tripped) n1 where "record_failure thr now n = (True, mark_dead now n1)"
      and "node_uri n1 = node_uri n" and "consecutive_failures n1 = consecutive_failures n + 1"
  | (counted) "record_failure thr now n =
        (False, n\<lparr> consecutive_failures := consecutive_failures n + 1, half_open_probe_in_flight := False,
                    total_failures := total_failures n + 1 \<rparr>)"
      and "\<not> half_open_probe_in_flight n" and "circuit_state n \<noteq> HalfOpen"
      and "consecutive_failures n + 1 < max thr 1"
proof (cases "(half_open_probe_in_flight n \<or> circuit_state n = HalfOpen) \<or> max thr 1 \<le> consecutive_failures n + 1")
  case True
  show thesis
    by (rule tripped [of "n\<lparr> consecutive_failures := consecutive_failures n + 1, half_open_probe_in_flight := False \<rparr>"])
      (use True in \<open>auto simp: record_failure_def Let_def\<close>)
next
  case False
  show thesis by (rule counted) (use False in \<open>auto simp: record_failure_def Let_def not_le less_max_iff_disj\<close>)
qed

lemma node_inv_record_failure: "node_inv n \<Longrightarrow> node_inv (snd (record_failure thr now n))"
  by (cases rule: record_failure_cases [of thr now n]) (auto simp: node_inv_def)

lemma node_inv_step: "cb_step cooldown thr s s' \<Longrightarrow> node_inv (fst s) \<Longrightarrow> node_inv (fst s')"
proof (induction rule: cb_step.induct)
  case (start now n g n' gs)
  then show ?case
    by (auto simp: ProbeGuard_new_def try_enter_half_open_probe_def node_inv_def
        simp del: to_u8.simps split: if_splits)
next
  case (success n now as g bs)
  then show ?case by (auto simp: record_success_def node_inv_def)
next
  case (outlier n now as g bs)
  then show ?case by (simp add: node_inv_record_failure)
next
  case (abort n now as g bs)
  then show ?case by (auto simp: probe_drop_def node_inv_def simp del: to_u8.simps)
qed (auto simp: node_inv_def)

section \<open>Properties\<close>


definition demo_uri :: Uri where
  "demo_uri = \<lparr> uri_scheme = Some ''http'', uri_authority = Some ''a:1'', uri_path = ''/'', uri_query = None \<rparr>"


text \<open>a tripped node gets no traffic and no probe until its cooldown has elapsed, and both
  become possible at the first second after it; this is independent of what the node's state was.\<close>

theorem quarantine_exact:
  assumes "t \<noteq> 0" and "unat t + unat cooldown < 2 ^ 64"
  shows "(is_available cooldown now (mark_dead t n) \<longleftrightarrow> unat t + unat cooldown < unat now)
     \<and> (fst (try_enter_half_open_probe cooldown now (mark_dead t n)) \<longleftrightarrow> unat t + unat cooldown < unat now)"
proof -
  have "unat (t + cooldown) = unat t + unat cooldown" using assms(2) by (simp add: unat_word_ariths)
  then show ?thesis
    using assms(1) by (auto simp: is_available_def try_enter_half_open_probe_def word_less_nat_alt word_le_nat_alt)
qed

theorem quarantine_exact_witness:
  "\<not> is_available 10 110 (mark_dead 100 (UpstreamNode_new demo_uri))
   \<and> is_available 10 111 (mark_dead 100 (UpstreamNode_new demo_uri))"
  using quarantine_exact [of 100 10 110 "UpstreamNode_new demo_uri"]
    quarantine_exact [of 100 10 111 "UpstreamNode_new demo_uri"] by simp

fun fail_times :: "nat \<Rightarrow> usize \<Rightarrow> u64 \<Rightarrow> UpstreamNode \<Rightarrow> UpstreamNode" where
  "fail_times 0 thr now n = n"
| "fail_times (Suc k) thr now n = snd (record_failure thr now (fail_times k thr now n))"

lemma fail_times_below:
  assumes "is_alive n" and "node_inv n" and "consecutive_failures n = 0" and "k < unat (max thr 1)"
  shows "is_alive (fail_times k thr now n) \<and> \<not> half_open_probe_in_flight (fail_times k thr now n)
     \<and> circuit_state (fail_times k thr now n) \<noteq> HalfOpen
     \<and> consecutive_failures (fail_times k thr now n) = of_nat k"
  using assms(4)
proof (induction k)
  case 0
  then show ?case using assms by (auto simp: node_inv_def)
next
  case (Suc k)
  let ?m = "fail_times k thr now n"
  have ih: "is_alive ?m" "\<not> half_open_probe_in_flight ?m" "circuit_state ?m \<noteq> HalfOpen"
    "consecutive_failures ?m = of_nat k" using Suc by auto
  have "unat (max thr 1) < 2 ^ LENGTH(64)" by (rule unsigned_less)
  then have "Suc k < 2 ^ 64" using Suc.prems by simp
  then have "unat (of_nat k + 1 :: usize) = Suc k" by (simp add: unat_word_ariths unat_of_nat)
  then have "\<not> max thr 1 \<le> (of_nat k + 1 :: usize)" using Suc.prems by (simp add: word_le_nat_alt)
  then have "record_failure thr now ?m = (False, ?m\<lparr> consecutive_failures := consecutive_failures ?m + 1,
      half_open_probe_in_flight := False, total_failures := total_failures ?m + 1 \<rparr>)"
    using ih by (simp add: record_failure_def Let_def)
  then show ?case using ih by (simp add: add.commute)
qed

text \<open>a healthy node is quarantined by exactly as many consecutive outlier responses as the
  configured threshold (at least one): after fewer it is still alive, at the threshold it is open.\<close>

theorem trips_at_threshold:
  assumes "is_alive n" and "node_inv n" and "consecutive_failures n = 0" and "k \<le> unat (max thr 1)"
  shows "(is_alive (fail_times k thr now n) \<longleftrightarrow> k < unat (max thr 1))
     \<and> (k = unat (max thr 1) \<longrightarrow> circuit_state (fail_times k thr now n) = Open)"
proof (cases "k < unat (max thr 1)")
  case True
  then show ?thesis using fail_times_below [OF assms(1-3)] by auto
next
  case False
  with assms(4) have k: "k = unat (max thr 1)" by simp
  have "0 < unat (max thr 1)"
  proof -
    have "(1 :: usize) \<le> max thr 1" by simp
    then show ?thesis by (simp add: word_le_nat_alt)
  qed
  then have "k \<noteq> 0" using k by simp
  then obtain j where j: "k = Suc j" using not0_implies_Suc by blast
  let ?m = "fail_times j thr now n"
  have m: "consecutive_failures ?m = of_nat j" using fail_times_below [OF assms(1-3), of j] j k by auto
  have "of_nat k = max thr 1" unfolding k by simp
  then have "of_nat j + 1 = max thr 1" using j by (simp add: add.commute)
  then have "record_failure thr now ?m = (True, mark_dead now (?m\<lparr> consecutive_failures := consecutive_failures ?m + 1,
      half_open_probe_in_flight := False \<rparr>))"
    using m by (simp add: record_failure_def Let_def)
  then show ?thesis using j k by simp
qed

theorem trips_at_threshold_witness:
  "is_alive (fail_times 2 3 100 (UpstreamNode_new demo_uri))
   \<and> circuit_state (fail_times 3 3 100 (UpstreamNode_new demo_uri)) = Open"
proof -
  have new: "is_alive (UpstreamNode_new demo_uri)" "node_inv (UpstreamNode_new demo_uri)"
    "consecutive_failures (UpstreamNode_new demo_uri) = 0"
    by (simp_all add: UpstreamNode_new_def node_inv_def circuit_state_def)
  have "unat (max 3 1 :: usize) = 3" by code_simp
  then show ?thesis
    using trips_at_threshold [OF new, of 2 3 100] trips_at_threshold [OF new, of 3 3 100] by simp
qed

text \<open>the way back. When the cooldown is over, exactly one of the callers that race for the probe
  gets it (the second finds the slot taken and the node unavailable), a successful probe closes the
  circuit and clears the failure history, and a failed probe reopens it and starts a new cooldown
  whatever the threshold is.\<close>

theorem probe_recovery:
  assumes "t \<noteq> 0" and "unat t + unat cooldown < unat now" and "unat t + unat cooldown < 2 ^ 64"
  shows "case try_enter_half_open_probe cooldown now (mark_dead t n) of
      (won, p) \<Rightarrow>
        won \<and> circuit_state p = HalfOpen
        \<and> try_enter_half_open_probe cooldown later p = (False, p) \<and> \<not> is_available cooldown later p
        \<and> record_success p = mark_alive p \<and> is_available cooldown later (record_success p)
        \<and> (case record_failure threshold later p of
             (tripped, q) \<Rightarrow> tripped \<and> circuit_state q = Open \<and> last_failure_time q = later)"
proof -
  have "unat (t + cooldown) = unat t + unat cooldown" using assms(3) by (simp add: unat_word_ariths)
  then have "t + cooldown < now" using assms(2) by (simp add: word_less_nat_alt)
  then have "try_enter_half_open_probe cooldown now (mark_dead t n) =
      (True, (mark_dead t n)\<lparr> half_open_probe_in_flight := True, circuit_state_raw := to_u8 HalfOpen \<rparr>)"
    using assms(1) by (simp add: try_enter_half_open_probe_def)
  then show ?thesis using assms(1)
    by (simp add: try_enter_half_open_probe_def is_available_def record_success_def record_failure_def Let_def
        del: to_u8.simps)
qed

theorem probe_recovery_witness:
  "case try_enter_half_open_probe 10 111 (mark_dead 100 (UpstreamNode_new demo_uri)) of
      (won, p) \<Rightarrow>
        won \<and> circuit_state p = HalfOpen
        \<and> try_enter_half_open_probe 10 112 p = (False, p) \<and> \<not> is_available 10 112 p
        \<and> record_success p = mark_alive p \<and> is_available 10 112 (record_success p)
        \<and> (case record_failure 3 112 p of
             (tripped, q) \<Rightarrow> tripped \<and> circuit_state q = Open \<and> last_failure_time q = 112)"
  by (rule probe_recovery) simp_all

definition stale_request :: ProbeGuard where
  "stale_request = \<lparr> is_probe = False, completed = False \<rparr>"

definition open_probe :: ProbeGuard where
  "open_probe = \<lparr> is_probe = True, completed = False \<rparr>"

definition probing_node :: "u64 \<Rightarrow> u64 \<Rightarrow> UpstreamNode" where
  "probing_node t now = snd (try_enter_half_open_probe 10 now (mark_dead t (UpstreamNode_new demo_uri)))"

text \<open>A request starts on a healthy node, the health checker takes the node down, the cooldown passes
  and a second request becomes the probe while the first is still in flight.\<close>

lemma reach_probing:
  "(cb_step 10 3)\<^sup>*\<^sup>* (UpstreamNode_new demo_uri, 100, []) (probing_node 100 111, 111, [stale_request, open_probe])"
proof -
  let ?n = "UpstreamNode_new demo_uri"
  have "cb_step 10 3 (?n, 100, []) (?n, 100, [] @ [stale_request])"
    by (rule cb_step.start) code_simp
  moreover have "cb_step 10 3 (?n, 100, [stale_request]) (mark_dead 100 ?n, 100, [stale_request])"
    by (rule cb_step.health_down)
  moreover have "cb_step 10 3 (mark_dead 100 ?n, 100, [stale_request]) (mark_dead 100 ?n, 111, [stale_request])"
    by (rule cb_step.tick) simp
  moreover have "cb_step 10 3 (mark_dead 100 ?n, 111, [stale_request])
      (probing_node 100 111, 111, [stale_request] @ [open_probe])"
    by (rule cb_step.start) code_simp
  ultimately show ?thesis by (simp add: converse_rtranclp_into_rtranclp)
qed

text \<open>an aborted probe can leave an alive node marked open. If another request closes the circuit
  while the probe is in flight, dropping the probe's guard still writes the open state, and the node
  is alive and open at the same time; a later success does not repair it.\<close>

theorem aborted_probe_leaves_open:
  "\<exists>n now gs. (cb_step 10 3)\<^sup>*\<^sup>* (UpstreamNode_new demo_uri, 100, []) (n, now, gs)
     \<and> is_alive n \<and> circuit_state n = Open \<and> record_success n = n"
proof -
  let ?p = "probing_node 100 111"
  have "cb_step 10 3 (?p, 111, [] @ stale_request # [open_probe])
      (probe_drop (probe_complete stale_request) (record_success ?p), 111, [] @ [open_probe])"
    by (rule cb_step.success)
  moreover have "cb_step 10 3 (record_success ?p, 111, [] @ open_probe # [])
      (probe_drop open_probe (record_success ?p), 111, [] @ [])"
    by (rule cb_step.abort)
  ultimately have "(cb_step 10 3)\<^sup>*\<^sup>* (UpstreamNode_new demo_uri, 100, []) (probe_drop open_probe (record_success ?p), 111, [])"
    using reach_probing by (simp add: rtranclp.rtrancl_into_rtrancl)
  moreover have "is_alive (probe_drop open_probe (record_success ?p))" by code_simp
  moreover have "circuit_state (probe_drop open_probe (record_success ?p)) = Open" by code_simp
  moreover have "record_success (probe_drop open_probe (record_success ?p)) = probe_drop open_probe (record_success ?p)"
    by code_simp
  ultimately show ?thesis by blast
qed

text \<open>a single probe at a time is not guaranteed. A request that started before the node went down
  and fails while the probe is in flight clears the probe flag; after the next cooldown a second probe
  is admitted next to the first.\<close>

theorem two_probes_in_flight:
  "\<exists>n now gs. (cb_step 10 3)\<^sup>*\<^sup>* (UpstreamNode_new demo_uri, 100, []) (n, now, gs)
     \<and> cnt (\<lambda>g. is_probe g \<and> \<not> completed g) gs = 2"
proof -
  let ?p = "probing_node 100 111"
  have fail: "cb_step 10 3 (?p, 111, [] @ stale_request # [open_probe])
      (probe_drop (probe_complete stale_request) (mark_dead 111 ?p), 111, [] @ [open_probe])"
    by (rule cb_step.failure)
  have wait: "cb_step 10 3 (mark_dead 111 ?p, 111, [open_probe]) (mark_dead 111 ?p, 122, [open_probe])"
    by (rule cb_step.tick) simp
  have again: "cb_step 10 3 (mark_dead 111 ?p, 122, [open_probe])
      (snd (ProbeGuard_new 10 122 (mark_dead 111 ?p)), 122, [open_probe] @ [open_probe])"
    by (rule cb_step.start) code_simp
  have "(cb_step 10 3)\<^sup>*\<^sup>* (UpstreamNode_new demo_uri, 100, [])
      (snd (ProbeGuard_new 10 122 (mark_dead 111 ?p)), 122, [open_probe, open_probe])"
    using reach_probing fail wait again by (simp add: rtranclp.rtrancl_into_rtrancl)
  moreover have "cnt (\<lambda>g. is_probe g \<and> \<not> completed g) [open_probe, open_probe] = 2"
    by (simp add: open_probe_def)
  ultimately show ?thesis by blast
qed

text \<open>the moving average of the response time never leaves the range of what was measured, also
  when the intermediate sum saturates.\<close>

theorem ema_bounded:
  "unat (ema_response_ms (record_latency_ms sample n)) \<le> max (unat (ema_response_ms n)) (unat sample)"
proof (cases "ema_response_ms n = 0")
  case True
  then show ?thesis by (simp add: record_latency_ms_def Let_def)
next
  case False
  let ?p = "ema_response_ms n"
  let ?s = "saturating_add (saturating_mul ?p 3) sample"
  have top: "unat (- 1 :: u64) = 2 ^ 64 - 1" by (simp add: unsigned_minus_1_eq_mask mask_eq_exp_minus_1)
  have mul: "unat (saturating_mul ?p 3) \<le> 3 * unat ?p"
    using top by (auto simp: saturating_mul_def unat_word_ariths)
  have "unat ?s \<le> 3 * unat ?p + unat sample"
    using top mul by (auto simp: saturating_add_def unat_word_ariths)
  moreover have "unat (?s div 4) = unat ?s div 4" by (simp add: unat_div)
  ultimately have "unat (?s div 4) \<le> max (unat ?p) (unat sample)" by linarith
  then show ?thesis using False by (simp add: record_latency_ms_def Let_def)
qed

lemma prefixed_stream_body_bytes [simp]:
  "body_bytes (prefixed_stream_body pre b) = pre @ body_bytes b"
  "body_errors (prefixed_stream_body pre b) = body_errors b"
  by (simp_all add: prefixed_stream_body_def)

lemma buffer_loop_spec:
  assumes "length acc \<le> m"
  shows "case buffer_loop m acc body of
      Ok (Buffered bs) \<Rightarrow> bs = acc @ body_bytes body \<and> length bs \<le> m \<and> body_errors body = []
    | Ok (RStream b) \<Rightarrow> body_bytes b = acc @ body_bytes body \<and> body_errors b = body_errors body
        \<and> m < length (acc @ body_bytes body)
    | Err e \<Rightarrow> (\<exists>pre post. body = pre @ Err e # post \<and> body_errors pre = [] \<and> length (acc @ body_bytes pre) \<le> m)"
  using assms
proof (induction body arbitrary: acc)
  case Nil
  then show ?case by simp
next
  case (Cons f body)
  show ?case
  proof (cases f)
    case (Err e)
    then show ?thesis using Cons.prems by (auto intro: exI [of _ "[]"])
  next
    case (Ok fr)
    have lift: "\<exists>pre' post'. f # body = pre' @ Err e # post' \<and> body_errors pre' = [] \<and> length (acc @ body_bytes pre') \<le> m"
      if "\<exists>pre post. body = pre @ Err e # post \<and> body_errors pre = [] \<and> length ((acc @ frame_bytes f) @ body_bytes pre) \<le> m" for e
    proof -
      from that obtain pre post where "body = pre @ Err e # post" "body_errors pre = []"
        "length ((acc @ frame_bytes f) @ body_bytes pre) \<le> m" by blast
      with Ok show ?thesis by (intro exI [of _ "f # pre"] exI [of _ post]) simp
    qed
    show ?thesis
    proof (cases fr)
      case (Data d)
      show ?thesis
      proof (cases "length acc + length d > m")
        case True
        with Ok Data show ?thesis by simp
      next
        case False
        then have "length (acc @ d) \<le> m" by simp
        from Cons.IH [OF this] False Ok Data lift show ?thesis
          by (auto split: result.splits RequestBody.splits)
      qed
    next
      case (Trailers t)
      from Cons.IH [OF Cons.prems] Ok Trailers lift show ?thesis
        by (auto split: result.splits RequestBody.splits)
    qed
  qed
qed

text \<open>the retry buffer. A body that fits is buffered whole and is within the limit; a body that
  does not fit is streamed with every byte and every later error in place; a body that fails before
  the limit is reached fails with its own first error.\<close>

theorem buffer_body_spec:
  "case buffer_body_up_to body limit of
      Ok (Buffered bs) \<Rightarrow> bs = body_bytes body \<and> length bs \<le> unat limit \<and> body_errors body = []
    | Ok (RStream b) \<Rightarrow> body_bytes b = body_bytes body \<and> body_errors b = body_errors body
        \<and> unat limit < length (body_bytes body)
    | Err e \<Rightarrow> (\<exists>pre post. body = pre @ Err e # post \<and> body_errors pre = [] \<and> length (body_bytes pre) \<le> unat limit)"
  using buffer_loop_spec [of "[]" "unat limit" body] unfolding buffer_body_up_to_def append_Nil by simp

end
