(* ===== verification/Load_Balancer.thy ===== *)
theory Load_Balancer
  imports Circuit_Breaker Path_Sanitizer
begin

text \<open>
  Choosing an upstream and addressing it: \<open>RouteTarget\<close> (\<open>server/src/configuration.rs\<close>), the
  connection guard and \<open>build_upstream_uri\<close> (\<open>server/src/middleware/router/upstreams.rs\<close>).

  A reference to a node is its index in \<open>upstreams\<close>. Random numbers and the hash of a client
  address are parameters. \<open>None\<close> stands for the panic of \<open>unwrap\<close> on an empty iterator and of the
  remainder by zero. URIs are compared by their parts; the authority is kept in lower case.
\<close>

section \<open>Targets\<close>

datatype LbStrategy = RoundRobin | Random | LeastConnections | Sticky | HighestScore

record RouteTarget =
  upstreams :: "UpstreamNode list"
  strategy :: LbStrategy
  rr_counter :: usize
  cooldown_seconds :: u64
  max_retries :: usize
  failure_threshold :: usize
  max_retry_buffer_bytes :: usize
  active_health_check_interval :: u64

fun update_first :: "('a \<Rightarrow> bool) \<Rightarrow> ('a \<Rightarrow> 'a) \<Rightarrow> 'a list \<Rightarrow> 'a list" where
  "update_first P f [] = []"
| "update_first P f (x # xs) = (if P x then f x # xs else x # update_first P f xs)"

definition target_mark_dead :: "u64 \<Rightarrow> Uri \<Rightarrow> RouteTarget \<Rightarrow> RouteTarget" where
  "target_mark_dead now uri t =
     t\<lparr> upstreams := update_first (\<lambda>n. node_uri n = uri) (mark_dead now) (upstreams t) \<rparr>"

definition target_mark_alive :: "Uri \<Rightarrow> RouteTarget \<Rightarrow> RouteTarget" where
  "target_mark_alive uri t =
     t\<lparr> upstreams := update_first (\<lambda>n. node_uri n = uri) mark_alive (upstreams t) \<rparr>"

definition target_record_failure :: "u64 \<Rightarrow> Uri \<Rightarrow> RouteTarget \<Rightarrow> bool \<times> RouteTarget" where
  "target_record_failure now uri t =
     (case find (\<lambda>n. node_uri n = uri) (upstreams t) of
        None \<Rightarrow> (False, t)
      | Some n \<Rightarrow>
          (fst (record_failure (failure_threshold t) now n),
           t\<lparr> upstreams := update_first (\<lambda>n. node_uri n = uri)
                 (\<lambda>n. snd (record_failure (failure_threshold t) now n)) (upstreams t) \<rparr>))"

section \<open>Selection\<close>

record Rng =
  gen_range :: "nat \<Rightarrow> nat"      \<comment> \<open>\<open>gen_range(0..n)\<close>\<close>
  random_usize :: usize

fun min_by_key :: "(nat \<Rightarrow> usize) \<Rightarrow> nat list \<Rightarrow> nat option" where
  "min_by_key key [] = None"
| "min_by_key key (i # is) = Some (foldl (\<lambda>best j. if key j < key best then j else best) i is)"

fun max_by_key :: "(nat \<Rightarrow> usize) \<Rightarrow> nat list \<Rightarrow> nat option" where
  "max_by_key key [] = None"
| "max_by_key key (i # is) = Some (foldl (\<lambda>best j. if key best \<le> key j then j else best) i is)"

definition candidates :: "u64 \<Rightarrow> Uri list \<Rightarrow> RouteTarget \<Rightarrow> nat list" where
  "candidates now failed_uris t =
     (let ids = [0..<length (upstreams t)];
          available = filter (\<lambda>i. is_available (cooldown_seconds t) now (upstreams t ! i)
                                  \<and> node_uri (upstreams t ! i) \<notin> set failed_uris) ids
      in if available \<noteq> [] then available
         else (let f1 = filter (\<lambda>i. node_uri (upstreams t ! i) \<notin> set failed_uris) ids
               in if f1 = [] then ids else f1))"

definition nth_mod :: "nat \<Rightarrow> nat list \<Rightarrow> nat option" where
  "nth_mod k nodes = (if nodes = [] then None else Some (nodes ! (k mod length nodes)))"

definition next_upstream ::
    "(IpAddr \<Rightarrow> usize) \<Rightarrow> Rng \<Rightarrow> u64 \<Rightarrow> SocketAddr option \<Rightarrow> Uri list \<Rightarrow> RouteTarget \<Rightarrow> nat option \<times> RouteTarget" where
  "next_upstream hash rng now client_ip failed_uris t =
     (if length (upstreams t) = 1 then (Some 0, t)
      else
        (let nodes = candidates now failed_uris t in
         if length nodes = 1 then (Some (nodes ! 0), t)
         else (case strategy t of
             RoundRobin \<Rightarrow>
               (nth_mod (unat (rr_counter t)) nodes, t\<lparr> rr_counter := rr_counter t + 1 \<rparr>)
           | Random \<Rightarrow> (if nodes = [] then None else Some (nodes ! gen_range rng (length nodes)), t)
           | LeastConnections \<Rightarrow> (min_by_key (\<lambda>i. active_connections (upstreams t ! i)) nodes, t)
           | Sticky \<Rightarrow>
               (nth_mod (unat (case client_ip of Some addr \<Rightarrow> hash (socket_ip addr) | None \<Rightarrow> random_usize rng)) nodes, t)
           | HighestScore \<Rightarrow> (max_by_key (\<lambda>i. current_score (upstreams t ! i)) nodes, t))))"

section \<open>Connection guards and upstream addresses\<close>

definition conn_guard_new :: "Uri \<Rightarrow> RouteTarget \<Rightarrow> RouteTarget" where
  "conn_guard_new uri t =
     t\<lparr> upstreams := update_first (\<lambda>n. node_uri n = uri)
          (\<lambda>n. n\<lparr> active_connections := active_connections n + 1, node_requests := node_requests n + 1 \<rparr>) (upstreams t) \<rparr>"

definition conn_guard_drop :: "Uri \<Rightarrow> RouteTarget \<Rightarrow> RouteTarget" where
  "conn_guard_drop uri t =
     t\<lparr> upstreams := update_first (\<lambda>n. node_uri n = uri)
          (\<lambda>n. n\<lparr> active_connections := active_connections n - 1 \<rparr>) (upstreams t) \<rparr>"

definition trim_end_slashes :: "string \<Rightarrow> string" where
  "trim_end_slashes s = rev (dropWhile (\<lambda>c. c = CHR ''/'') (rev s))"

definition suspicious_rest :: "string \<Rightarrow> bool" where
  "suspicious_rest rest =
     (list_ex (\<lambda>seg. seg = ''..'') (split_on CHR ''/'' rest)
      \<or> str_contains ''%2f'' rest \<or> str_contains ''%2F'' rest \<or> str_contains [CHR 0x00] rest
      \<or> str_contains ''%00'' rest \<or> str_contains [CHR 0x5C] rest
      \<or> str_contains ''%5c'' rest \<or> str_contains ''%5C'' rest)"

definition build_upstream_uri ::
    "pq_parser \<Rightarrow> uri_builder \<Rightarrow> Uri \<Rightarrow> string option \<Rightarrow> Uri \<Rightarrow> (Uri, SrvError) result" where
  "build_upstream_uri parse_pq from_parts backend_base_uri matched_rest original_uri =
     (let base = trim_end_slashes (uri_path backend_base_uri);
          with_rest = (case matched_rest of
              Some rest \<Rightarrow>
                (if suspicious_rest rest
                 then Err (Other ''Suspicious path traversal or illegal characters detected in upstream URI'')
                 else Ok (base @ (if starts_with ''/'' rest then [] else ''/'') @ rest))
            | None \<Rightarrow> Ok (if base = [] then ''/'' else base))
      in (case with_rest of
            Err e \<Rightarrow> Err e
          | Ok pq_path \<Rightarrow>
              (let pq_string = pq_path @ (case uri_query original_uri of Some q \<Rightarrow> ''?'' @ q | None \<Rightarrow> [])
               in (case parse_pq pq_string of
                     Err e \<Rightarrow> Err (Other (''Invalid PathAndQuery: '' @ e))
                   | Ok (p, q) \<Rightarrow>
                       (case from_parts (backend_base_uri\<lparr> uri_path := p, uri_query := q \<rparr>) of
                          Err e \<Rightarrow> Err (Other (''URI Build Error: '' @ e))
                        | Ok u \<Rightarrow> Ok u)))))"

section \<open>Lemmas on selection\<close>

lemma candidates_sub: "set (candidates now failed t) \<subseteq> {0..<length (upstreams t)}"
  by (auto simp: candidates_def Let_def)

lemma candidates_nonempty: "upstreams t \<noteq> [] \<Longrightarrow> candidates now failed t \<noteq> []"
  by (simp add: candidates_def Let_def)

lemma candidates_available:
  assumes "i \<in> set (candidates now failed t)"
    and "j < length (upstreams t)" and "is_available (cooldown_seconds t) now (upstreams t ! j)"
    and "node_uri (upstreams t ! j) \<notin> set failed"
  shows "is_available (cooldown_seconds t) now (upstreams t ! i) \<and> node_uri (upstreams t ! i) \<notin> set failed"
proof -
  have "filter (\<lambda>i. is_available (cooldown_seconds t) now (upstreams t ! i)
      \<and> node_uri (upstreams t ! i) \<notin> set failed) [0..<length (upstreams t)] \<noteq> []"
    using assms(2-4) by (auto simp: filter_empty_conv)
  then show ?thesis using assms(1) by (auto simp: candidates_def Let_def split: if_splits)
qed

lemma candidates_not_failed:
  assumes "i \<in> set (candidates now failed t)"
    and "j < length (upstreams t)" and "node_uri (upstreams t ! j) \<notin> set failed"
  shows "node_uri (upstreams t ! i) \<notin> set failed"
proof -
  have "filter (\<lambda>i. node_uri (upstreams t ! i) \<notin> set failed) [0..<length (upstreams t)] \<noteq> []"
    using assms(2,3) by (auto simp: filter_empty_conv)
  then show ?thesis using assms(1) by (auto simp: candidates_def Let_def split: if_splits)
qed

lemma foldl_min_mem: "foldl (\<lambda>best j. if (key :: nat \<Rightarrow> usize) j < key best then j else best) i is \<in> set (i # is)"
  by (induction "is" arbitrary: i) auto

lemma foldl_min_le:
  "x \<in> set (i # is) \<Longrightarrow> (key :: nat \<Rightarrow> usize) (foldl (\<lambda>best j. if key j < key best then j else best) i is) \<le> key x"
proof (induction "is" arbitrary: i x)
  case (Cons j "is")
  let ?b = "if key j < key i then j else i"
  have b: "key ?b \<le> key i" "key ?b \<le> key j" by auto
  have first: "key (foldl (\<lambda>best j. if key j < key best then j else best) ?b is) \<le> key ?b"
    by (rule Cons.IH) simp
  consider "x = i" | "x = j" | "x \<in> set is" using Cons.prems by auto
  then have "key (foldl (\<lambda>best j. if key j < key best then j else best) ?b is) \<le> key x"
    by cases (use first b order_trans in blast, use first b order_trans in blast, rule Cons.IH, simp)
  then show ?case by simp
qed simp

lemma foldl_max_mem: "foldl (\<lambda>best j. if (key :: nat \<Rightarrow> usize) best \<le> key j then j else best) i is \<in> set (i # is)"
  by (induction "is" arbitrary: i) auto

lemma next_upstream_mem:
  assumes "upstreams t \<noteq> []" and "\<And>n. 0 < n \<Longrightarrow> gen_range rng n < n"
  shows "\<exists>i t'. next_upstream hash rng now ip failed t = (Some i, t')
     \<and> (length (upstreams t) \<noteq> 1 \<longrightarrow> i \<in> set (candidates now failed t)) \<and> i < length (upstreams t)"
proof (cases "length (upstreams t) = 1")
  case True
  then show ?thesis by (simp add: next_upstream_def)
next
  case False
  obtain c cs where c: "candidates now failed t = c # cs"
    using candidates_nonempty [OF assms(1)] by (meson list.exhaust)
  have "\<exists>i t'. next_upstream hash rng now ip failed t = (Some i, t') \<and> i \<in> set (candidates now failed t)"
  proof (cases "cs = []")
    case True
    with False c show ?thesis by (simp add: next_upstream_def Let_def)
  next
    case rest: False
    have mem: "(c # cs) ! k \<in> set (c # cs)" if "k < length (c # cs)" for k using that nth_mem by blast
    show ?thesis
      using False rest c assms(2) [of "length (c # cs)"] foldl_min_mem [of _ c cs] foldl_max_mem [of _ c cs] mem
      by (cases "strategy t") (auto simp: next_upstream_def Let_def nth_mod_def simp del: nth_Cons_Suc)
  qed
  then show ?thesis using False candidates_sub by fastforce
qed

section \<open>Properties of selection\<close>

text \<open>with at least one upstream the load balancer always returns one of them, for every strategy.
  With more than one upstream it returns an available node that has not failed in this request
  whenever there is one, and otherwise a node that has not failed in this request whenever there is
  one.\<close>

theorem next_upstream_sound:
  assumes "upstreams t \<noteq> []" and "\<And>n. 0 < n \<Longrightarrow> gen_range rng n < n"
  shows "\<exists>i t'. next_upstream hash rng now ip failed t = (Some i, t') \<and> i < length (upstreams t)
     \<and> (length (upstreams t) \<noteq> 1 \<longrightarrow>
          (\<exists>j < length (upstreams t). is_available (cooldown_seconds t) now (upstreams t ! j)
             \<and> node_uri (upstreams t ! j) \<notin> set failed) \<longrightarrow>
          is_available (cooldown_seconds t) now (upstreams t ! i) \<and> node_uri (upstreams t ! i) \<notin> set failed)
     \<and> (length (upstreams t) \<noteq> 1 \<longrightarrow>
          (\<exists>j < length (upstreams t). node_uri (upstreams t ! j) \<notin> set failed) \<longrightarrow>
          node_uri (upstreams t ! i) \<notin> set failed)"
proof -
  obtain i t' where i: "next_upstream hash rng now ip failed t = (Some i, t')" "i < length (upstreams t)"
    and mem: "length (upstreams t) \<noteq> 1 \<longrightarrow> i \<in> set (candidates now failed t)"
    using next_upstream_mem [OF assms] by blast
  show ?thesis
    by (rule exI [of _ i], rule exI [of _ t'])
      (use i mem candidates_available [of i now failed t] candidates_not_failed [of i now failed t] in blast)
qed

definition demo_node :: "string \<Rightarrow> UpstreamNode" where
  "demo_node a = UpstreamNode_new (demo_uri\<lparr> uri_authority := Some a \<rparr>)"

definition demo_target :: RouteTarget where
  "demo_target =
     \<lparr> upstreams = [demo_node ''a:1'', demo_node ''b:1'', mark_dead 100 (demo_node ''c:1'')], strategy = RoundRobin,
       rr_counter = 0, cooldown_seconds = 10, max_retries = 2, failure_threshold = 3,
       max_retry_buffer_bytes = 65536, active_health_check_interval = 0 \<rparr>"

definition demo_rng :: Rng where
  "demo_rng = \<lparr> gen_range = (\<lambda>n. n - 1), random_usize = 0 \<rparr>"

theorem next_upstream_sound_witness:
  "\<exists>i t'. next_upstream (\<lambda>_. 0) demo_rng 105 None [] demo_target = (Some i, t')
     \<and> is_available 10 105 (upstreams demo_target ! i)"
proof -
  have t: "upstreams demo_target \<noteq> []" "length (upstreams demo_target) \<noteq> 1" "cooldown_seconds demo_target = 10"
    by (simp_all add: demo_target_def)
  have avail: "0 < length (upstreams demo_target)" "is_available (cooldown_seconds demo_target) 105 (upstreams demo_target ! 0)"
    by code_simp+
  have rng: "0 < n \<Longrightarrow> gen_range demo_rng n < n" for n by (simp add: demo_rng_def)
  from next_upstream_sound [OF t(1) rng, of "\<lambda>_. 0" 105 None "[]"] t avail show ?thesis by (metis empty_iff list.set(1))
qed

fun picks :: "nat \<Rightarrow> (IpAddr \<Rightarrow> usize) \<Rightarrow> Rng \<Rightarrow> u64 \<Rightarrow> RouteTarget \<Rightarrow> nat option list" where
  "picks 0 hash rng now t = []"
| "picks (Suc k) hash rng now t =
     (case next_upstream hash rng now None [] t of (i, t') \<Rightarrow> i # picks k hash rng now t')"

lemma candidates_all:
  assumes "list_all (is_available (cooldown_seconds t) now) (upstreams t)" and "upstreams t \<noteq> []"
  shows "candidates now [] t = [0..<length (upstreams t)]"
proof -
  have "filter (\<lambda>i. is_available (cooldown_seconds t) now (upstreams t ! i)) [0..<length (upstreams t)] =
      [0..<length (upstreams t)]"
    using assms(1) by (auto simp: list_all_length filter_id_conv)
  then show ?thesis using assms(2) by (simp add: candidates_def Let_def)
qed

lemma picks_round_robin:
  assumes "strategy t = RoundRobin" and "1 < length (upstreams t)"
    and "list_all (is_available (cooldown_seconds t) now) (upstreams t)" and "unat (rr_counter t) + k \<le> 2 ^ 64"
  shows "picks k hash rng now t = map (\<lambda>j. Some ((unat (rr_counter t) + j) mod length (upstreams t))) [0..<k]"
  using assms
proof (induction k arbitrary: t)
  case (Suc k)
  let ?n = "length (upstreams t)"
  let ?t = "t\<lparr> rr_counter := rr_counter t + 1 \<rparr>"
  have ne: "upstreams t \<noteq> []" using Suc.prems(2) by auto
  have pick: "next_upstream hash rng now None [] t = (Some (unat (rr_counter t) mod ?n), ?t)"
    using Suc.prems(1,2) ne by (simp add: next_upstream_def candidates_all [OF Suc.prems(3) ne] nth_mod_def)
  show ?case
  proof (cases "k = 0")
    case True
    with pick show ?thesis by simp
  next
    case False
    then have lt: "Suc (unat (rr_counter t)) < 2 ^ 64" using Suc.prems(4) by simp
    then have inc: "unat (rr_counter t + 1) = Suc (unat (rr_counter t))" by (simp add: unat_word_ariths)
    have "picks k hash rng now ?t = map (\<lambda>j. Some ((unat (rr_counter ?t) + j) mod length (upstreams ?t))) [0..<k]"
      by (rule Suc.IH) (use Suc.prems inc in simp_all)
    then have "picks k hash rng now ?t = map (\<lambda>j. Some ((unat (rr_counter t) + j) mod ?n)) (map Suc [0..<k])"
      by (simp add: inc o_def)
    with pick show ?thesis
      by (simp only: picks.simps prod.case upt_conv_Cons [of 0 "Suc k"] map_Suc_upt) simp
  qed
qed simp

lemma mod_shift_le: "(r + x) mod n = (r + y) mod n \<Longrightarrow> x \<le> y \<Longrightarrow> y < n \<Longrightarrow> x = (y :: nat)"
proof -
  assume eq: "(r + x) mod n = (r + y) mod n" and le: "x \<le> y" and lt: "y < n"
  have "r + x \<le> r + y" using le by simp
  from iffD1 [OF mod_eq_dvd_iff_nat [OF this] eq [symmetric]] have "n dvd (r + y) - (r + x)" .
  then have "n dvd y - x" by simp
  moreover have "y - x < n" using lt by simp
  ultimately have "y - x = 0" using nat_dvd_not_less by blast
  with le show ?thesis by simp
qed

lemma mod_shift_inj: "(r + x) mod n = (r + y) mod n \<Longrightarrow> x < n \<Longrightarrow> y < n \<Longrightarrow> x = (y :: nat)"
  using mod_shift_le [of r x n y] mod_shift_le [of r y n x] by (metis nat_le_linear)

text \<open>round robin is fair. While all nodes are available, any run of as many consecutive choices as
  there are nodes picks every node exactly once (as long as the counter does not wrap in between).\<close>

theorem round_robin_fair:
  assumes "strategy t = RoundRobin" and "1 < length (upstreams t)"
    and "list_all (is_available (cooldown_seconds t) now) (upstreams t)"
    and "unat (rr_counter t) + length (upstreams t) \<le> 2 ^ 64"
  shows "distinct (picks (length (upstreams t)) hash rng now t)
     \<and> set (picks (length (upstreams t)) hash rng now t) = Some ` {0..<length (upstreams t)}"
proof -
  let ?n = "length (upstreams t)" and ?r = "unat (rr_counter t)"
  let ?f = "\<lambda>j. (?r + j) mod ?n"
  have p: "picks ?n hash rng now t = map (\<lambda>j. Some (?f j)) [0..<?n]" by (rule picks_round_robin [OF assms])
  have inj: "inj_on ?f {0..<?n}"
  proof (rule inj_onI)
    fix x y assume "x \<in> {0..<?n}" "y \<in> {0..<?n}" and eq: "(?r + x) mod ?n = (?r + y) mod ?n"
    then show "x = y" using mod_shift_inj [OF eq] by simp
  qed
  have "?f ` {0..<?n} \<subseteq> {0..<?n}"
    using assms(2) by (auto intro!: mod_less_divisor)
  then have img: "?f ` {0..<?n} = {0..<?n}" by (rule endo_inj_surj [OF finite_atLeastLessThan _ inj])
  have "set (picks ?n hash rng now t) = Some ` (?f ` {0..<?n})" by (simp add: p image_image)
  moreover have "distinct (picks ?n hash rng now t)"
    using inj by (simp add: p distinct_map inj_on_def)
  ultimately show ?thesis unfolding img by blast
qed

theorem round_robin_fair_witness:
  "distinct (picks 3 (\<lambda>_. 0) demo_rng 200 demo_target)
   \<and> set (picks 3 (\<lambda>_. 0) demo_rng 200 demo_target) = Some ` {0..<3}"
proof -
  have len: "length (upstreams demo_target) = 3" by (simp add: demo_target_def)
  have "strategy demo_target = RoundRobin" "1 < length (upstreams demo_target)"
    "list_all (is_available (cooldown_seconds demo_target) 200) (upstreams demo_target)"
    by code_simp+
  moreover have "unat (rr_counter demo_target) + length (upstreams demo_target) \<le> 2 ^ 64"
    by (simp add: demo_target_def)
  ultimately show ?thesis using round_robin_fair [of demo_target 200 "\<lambda>_. 0" demo_rng] unfolding len by blast
qed

text \<open>least connections returns a node with the fewest active connections among the nodes it may
  choose from.\<close>

theorem least_connections_minimal:
  assumes "strategy t = LeastConnections" and "length (upstreams t) \<noteq> 1"
    and "next_upstream hash rng now ip failed t = (Some i, t')" and "j \<in> set (candidates now failed t)"
  shows "active_connections (upstreams t ! i) \<le> active_connections (upstreams t ! j)"
proof (cases "candidates now failed t")
  case Nil
  with assms(4) show ?thesis by simp
next
  case (Cons c cs)
  show ?thesis
  proof (cases "cs = []")
    case True
    with Cons assms show ?thesis by (simp add: next_upstream_def Let_def)
  next
    case False
    with Cons assms(1-3)
    have "i = foldl (\<lambda>best j. if active_connections (upstreams t ! j) < active_connections (upstreams t ! best) then j else best) c cs"
      by (auto simp: next_upstream_def Let_def)
    then show ?thesis
      using foldl_min_le [of j c cs "\<lambda>i. active_connections (upstreams t ! i)"] assms(4) Cons by simp
  qed
qed

theorem least_connections_minimal_witness:
  "active_connections (upstreams (conn_guard_new (node_uri (demo_node ''a:1'')) demo_target) ! 1)
     \<le> active_connections (upstreams (conn_guard_new (node_uri (demo_node ''a:1'')) demo_target) ! 0)"
proof -
  let ?t = "(conn_guard_new (node_uri (demo_node ''a:1'')) demo_target)\<lparr> strategy := LeastConnections \<rparr>"
  have "strategy ?t = LeastConnections" "length (upstreams ?t) \<noteq> 1"
    "next_upstream (\<lambda>_. 0) demo_rng 105 None [] ?t = (Some 1, ?t)" "0 \<in> set (candidates 105 [] ?t)"
    by code_simp+
  from least_connections_minimal [OF this] show ?thesis by simp
qed

section \<open>Properties of connection guards\<close>

datatype guard_op = Opened Uri | Dropped Uri

fun apply_guard_op :: "guard_op \<Rightarrow> RouteTarget \<Rightarrow> RouteTarget" where
  "apply_guard_op (Opened uri) t = conn_guard_new uri t"
| "apply_guard_op (Dropped uri) t = conn_guard_drop uri t"

lemma update_first_uris:
  "(\<And>n. node_uri (f n) = node_uri n) \<Longrightarrow> map node_uri (update_first P f ns) = map node_uri ns"
  by (induction ns) auto

lemma update_first_nth:
  assumes "distinct (map node_uri ns)" and "i < length ns"
  shows "update_first (\<lambda>n. node_uri n = uri) f ns ! i = (if node_uri (ns ! i) = uri then f (ns ! i) else ns ! i)"
  using assms
proof (induction ns arbitrary: i)
  case (Cons n ns)
  show ?case
  proof (cases i)
    case 0
    then show ?thesis by simp
  next
    case (Suc j)
    have "node_uri (ns ! j) \<in> node_uri ` set ns" using Cons.prems(2) Suc by simp
    then have "node_uri n = uri \<Longrightarrow> node_uri (ns ! j) \<noteq> uri" using Cons.prems(1) by auto
    with Suc Cons show ?thesis by simp
  qed
qed simp

lemma guard_op_uris: "map node_uri (upstreams (apply_guard_op opn t)) = map node_uri (upstreams t)"
  by (cases opn) (simp_all add: conn_guard_new_def conn_guard_drop_def update_first_uris)

text \<open>the connection counter of a node is the number of guards opened for it minus the number
  dropped, whatever the order in which responses finish: no guard is lost or counted twice, so least
  connections sees the true load.\<close>

theorem active_connections_balance:
  assumes "distinct (map node_uri (upstreams t))" and "i < length (upstreams t)"
  shows "active_connections (upstreams (fold apply_guard_op ops t) ! i) =
     active_connections (upstreams t ! i)
       + of_nat (cnt (\<lambda>x. x = Opened (node_uri (upstreams t ! i))) ops)
       - of_nat (cnt (\<lambda>x. x = Dropped (node_uri (upstreams t ! i))) ops)"
  using assms
proof (induction ops arbitrary: t)
  case (Cons opn ops)
  let ?t = "apply_guard_op opn t"
  have uris: "map node_uri (upstreams ?t) = map node_uri (upstreams t)" by (rule guard_op_uris)
  then have len: "length (upstreams ?t) = length (upstreams t)" by (metis length_map)
  have u: "node_uri (upstreams ?t ! i) = node_uri (upstreams t ! i)" using uris Cons.prems(2) len by (metis nth_map)
  have "active_connections (upstreams ?t ! i) = active_connections (upstreams t ! i)
      + of_bool (opn = Opened (node_uri (upstreams t ! i))) - of_bool (opn = Dropped (node_uri (upstreams t ! i)))"
    using update_first_nth [OF Cons.prems]
    by (cases opn) (auto simp: conn_guard_new_def conn_guard_drop_def)
  moreover have "active_connections (upstreams (fold apply_guard_op ops ?t) ! i) = active_connections (upstreams ?t ! i)
      + of_nat (cnt (\<lambda>x. x = Opened (node_uri (upstreams t ! i))) ops)
      - of_nat (cnt (\<lambda>x. x = Dropped (node_uri (upstreams t ! i))) ops)"
    using Cons.IH [of ?t] Cons.prems uris len u by simp
  ultimately show ?case by (simp add: algebra_simps)
qed simp

theorem active_connections_balance_witness:
  "active_connections (upstreams (fold apply_guard_op
       [Opened (node_uri (demo_node ''a:1'')), Opened (node_uri (demo_node ''a:1'')), Dropped (node_uri (demo_node ''a:1''))]
       demo_target) ! 0) = 1"
proof -
  have "distinct (map node_uri (upstreams demo_target))" "0 < length (upstreams demo_target)" by code_simp+
  from active_connections_balance [OF this, of "[Opened (node_uri (demo_node ''a:1'')),
      Opened (node_uri (demo_node ''a:1'')), Dropped (node_uri (demo_node ''a:1''))]"] show ?thesis
    by (simp del: fold_simps add: demo_target_def demo_node_def UpstreamNode_new_def demo_uri_def)
qed

section \<open>Properties of upstream addresses\<close>

lemma trim_end_starts:
  assumes "starts_with ''/'' b"
  shows "starts_with ''/'' (trim_end_slashes b @ (if starts_with ''/'' rest then rest else CHR ''/'' # rest))"
proof (cases "trim_end_slashes b")
  case Nil
  then show ?thesis by simp
next
  case (Cons c t)
  have "b = trim_end_slashes b @ rev (takeWhile (\<lambda>c. c = CHR ''/'') (rev b))"
    unfolding trim_end_slashes_def by (metis rev_append rev_rev_ident takeWhile_dropWhile_id)
  with Cons assms have "c = CHR ''/''" by (metis append_Cons starts_with.simps(3))
  with Cons show ?thesis by simp
qed

text \<open>C37: a request is forwarded to the configured backend and stays below its base path. With the laws
  of the \<open>http\<close> parsers, the address built for an upstream has the backend's scheme and authority, its
  path is the base path followed by the matched rest of the request path, which has no \<open>..\<close> segment, and
  its query is the client's.\<close>

theorem upstream_uri_confined:
  assumes parse: "\<And>p q r. starts_with ''/'' p \<Longrightarrow> set p \<inter> {CHR ''?'', CHR ''#''} = {} \<Longrightarrow>
        CHR ''#'' \<notin> set (case q of None \<Rightarrow> [] | Some s \<Rightarrow> s) \<Longrightarrow>
        parse_pq (p @ (case q of None \<Rightarrow> [] | Some s \<Rightarrow> CHR ''?'' # s)) = Ok r \<Longrightarrow> r = (p, q)"
    and parts: "\<And>u v. from_parts u = Ok v \<Longrightarrow> v = u"
    and base: "starts_with ''/'' (uri_path backend)" "set (uri_path backend) \<inter> {CHR ''?'', CHR ''#''} = {}"
    and orig: "set rest \<inter> {CHR ''?'', CHR ''#''} = {}"
      "CHR ''#'' \<notin> set (case uri_query original of None \<Rightarrow> [] | Some s \<Rightarrow> s)"
    and res: "build_upstream_uri parse_pq from_parts backend (Some rest) original = Ok u"
  shows "uri_scheme u = uri_scheme backend \<and> uri_authority u = uri_authority backend
     \<and> uri_query u = uri_query original
     \<and> uri_path u = trim_end_slashes (uri_path backend) @ (if starts_with ''/'' rest then rest else CHR ''/'' # rest)
     \<and> ''..'' \<notin> set (split_on CHR ''/'' rest)"
proof -
  let ?p = "trim_end_slashes (uri_path backend) @ (if starts_with ''/'' rest then rest else CHR ''/'' # rest)"
  from res have ok: "\<not> suspicious_rest rest"
    by (auto simp: build_upstream_uri_def Let_def split: if_splits)
  have sub: "set (trim_end_slashes (uri_path backend)) \<subseteq> set (uri_path backend)"
    by (auto simp: trim_end_slashes_def dest: set_dropWhileD)
  have start: "starts_with ''/'' ?p" using base(1) by (rule trim_end_starts)
  have clean: "set ?p \<inter> {CHR ''?'', CHR ''#''} = {}" using sub base(2) orig(1) by auto
  note parsed = parse [OF start clean orig(2)]
  obtain p q where "parse_pq (?p @ (case uri_query original of None \<Rightarrow> [] | Some s \<Rightarrow> CHR ''?'' # s)) = Ok (p, q)"
    and fp: "from_parts (backend\<lparr> uri_path := p, uri_query := q \<rparr>) = Ok u"
    using res ok by (auto simp: build_upstream_uri_def Let_def split: result.splits option.splits if_splits)
  with parsed have pq: "p = ?p" "q = uri_query original" by auto
  from parts [OF fp] pq have "u = backend\<lparr> uri_path := ?p, uri_query := uri_query original \<rparr>" by simp
  moreover have "''..'' \<notin> set (split_on CHR ''/'' rest)" using ok by (auto simp: suspicious_rest_def list_ex_iff)
  ultimately show ?thesis by simp
qed

theorem upstream_uri_confined_witness:
  "build_upstream_uri split_pq Ok (demo_uri\<lparr> uri_path := ''/api/'' \<rparr>) (Some ''v1/users'') (req_uri (demo_request ''GET'' ''/x/v1/users''))
     = Ok (demo_uri\<lparr> uri_path := ''/api/v1/users'', uri_query := Some ''page=1'' \<rparr>)
   \<and> ''..'' \<notin> set (split_on CHR ''/'' ''v1/users'')"
proof -
  let ?b = "demo_uri\<lparr> uri_path := ''/api/'' \<rparr>" and ?o = "req_uri (demo_request ''GET'' ''/x/v1/users'')"
  have ok: "build_upstream_uri split_pq Ok ?b (Some ''v1/users'') ?o =
      Ok (demo_uri\<lparr> uri_path := ''/api/v1/users'', uri_query := Some ''page=1'' \<rparr>)" by code_simp
  have "uri_path (demo_uri\<lparr> uri_path := ''/api/v1/users'', uri_query := Some ''page=1'' \<rparr>)
      = trim_end_slashes (uri_path ?b) @ (if starts_with ''/'' ''v1/users'' then ''v1/users'' else CHR ''/'' # ''v1/users'')
      \<and> ''..'' \<notin> set (split_on CHR ''/'' ''v1/users'')"
    using upstream_uri_confined [OF split_pq_law _ _ _ _ _ ok] by (simp add: demo_request_def)
  with ok show ?thesis by blast
qed

end
