(* ===== verification/Ip_Text.thy ===== *)
theory Ip_Text
  imports Net_Addr
begin

text \<open>
  The textual form of addresses in Rust's standard library: \<open>Display\<close> for \<open>IpAddr\<close> and
  \<open>IpAddr::from_str\<close>. A reader consumes a prefix of its input; \<open>parse_ip\<close> requires that all of it
  is consumed.
\<close>

section \<open>Printing\<close>

fun digit_char :: "nat \<Rightarrow> char" where
  "digit_char d = (if d < 10 then char_of (48 + d) else char_of (87 + d))"

fun show_radix :: "nat \<Rightarrow> nat \<Rightarrow> string" where
  "show_radix r n = (if n < r \<or> r < 2 then [digit_char n] else show_radix r (n div r) @ [digit_char (n mod r)])"

declare show_radix.simps [simp del]

definition show_nat :: "nat \<Rightarrow> string" where
  "show_nat n = show_radix 10 n"

definition octet :: "nat \<Rightarrow> Ipv4Addr \<Rightarrow> nat" where
  "octet i a = unat (ucast (drop_bit (8 * (3 - i)) a) :: u8)"

definition ipv4_to_string :: "Ipv4Addr \<Rightarrow> string" where
  "ipv4_to_string a =
     show_nat (octet 0 a) @ ''.'' @ show_nat (octet 1 a) @ ''.'' @ show_nat (octet 2 a) @ ''.'' @ show_nat (octet 3 a)"

text \<open>The longest run of zero segments, the first one among equals: start and length.\<close>

fun zero_run :: "nat \<Rightarrow> u16 list \<Rightarrow> nat \<times> nat \<Rightarrow> nat \<times> nat \<Rightarrow> nat \<times> nat" where
  "zero_run i [] current longest = longest"
| "zero_run i (s # ss) current longest =
     (if s = 0 then
        (let current' = (if snd current = 0 then (i, 1) else (fst current, snd current + 1))
         in zero_run (i + 1) ss current' (if snd current' > snd longest then current' else longest))
      else zero_run (i + 1) ss (0, 0) longest)"

fun show_groups :: "u16 list \<Rightarrow> string" where
  "show_groups [] = []"
| "show_groups [s] = show_radix 16 (unat s)"
| "show_groups (s # ss) = show_radix 16 (unat s) @ '':'' @ show_groups ss"

definition ipv6_to_string :: "Ipv6Addr \<Rightarrow> string" where
  "ipv6_to_string a =
     (case to_ipv4_mapped a of
        Some v4 \<Rightarrow> ''::ffff:'' @ ipv4_to_string v4
      | None \<Rightarrow>
          (let segs = map (\<lambda>i. segment i a) [0..<8];
               z = zero_run 0 segs (0, 0) (0, 0)
           in if snd z > 1
              then show_groups (take (fst z) segs) @ ''::'' @ show_groups (drop (fst z + snd z) segs)
              else show_groups segs))"

fun ip_to_string :: "IpAddr \<Rightarrow> string" where
  "ip_to_string (V4 a) = ipv4_to_string a"
| "ip_to_string (V6 a) = ipv6_to_string a"

section \<open>Parsing\<close>

definition to_digit :: "nat \<Rightarrow> char \<Rightarrow> nat option" where
  "to_digit r c =
     (let b = byte_of c;
          d = (if 48 \<le> b \<and> b \<le> 57 then Some (b - 48)
               else if 97 \<le> b \<and> b \<le> 122 then Some (b - 87)
               else if 65 \<le> b \<and> b \<le> 90 then Some (b - 55) else None)
      in (case d of Some v \<Rightarrow> (if v < r then Some v else None) | None \<Rightarrow> None))"

fun read_digits :: "nat \<Rightarrow> nat \<Rightarrow> nat \<Rightarrow> nat \<Rightarrow> string \<Rightarrow> (nat \<times> nat \<times> string) option" where
  "read_digits r max_digits digit_count acc [] = Some (acc, digit_count, [])"
| "read_digits r max_digits digit_count acc (c # s) =
     (case to_digit r c of
        None \<Rightarrow> Some (acc, digit_count, c # s)
      | Some d \<Rightarrow>
          (if digit_count + 1 > max_digits then None
           else read_digits r max_digits (digit_count + 1) (acc * r + d) s))"

definition read_number :: "nat \<Rightarrow> nat \<Rightarrow> bool \<Rightarrow> nat \<Rightarrow> string \<Rightarrow> (nat \<times> string) option" where
  "read_number r max_digits allow_zero_prefix bound s =
     (let has_leading_zero = (case s of c # _ \<Rightarrow> c = CHR ''0'' | [] \<Rightarrow> False)
      in (case read_digits r max_digits 0 0 s of
            None \<Rightarrow> None
          | Some (v, digit_count, rest) \<Rightarrow>
              (if digit_count = 0 then None
               else if \<not> allow_zero_prefix \<and> has_leading_zero \<and> digit_count > 1 then None
               else if v < bound then Some (v, rest) else None)))"

definition read_given_char :: "char \<Rightarrow> string \<Rightarrow> string option" where
  "read_given_char x s = (case s of c # t \<Rightarrow> (if c = x then Some t else None) | [] \<Rightarrow> None)"

definition read_separator :: "char \<Rightarrow> nat \<Rightarrow> (string \<Rightarrow> ('a \<times> string) option) \<Rightarrow> string \<Rightarrow> ('a \<times> string) option" where
  "read_separator sep i inner s =
     (if i > 0 then (case read_given_char sep s of None \<Rightarrow> None | Some t \<Rightarrow> inner t) else inner s)"

fun read_octets :: "nat \<Rightarrow> nat \<Rightarrow> Ipv4Addr \<Rightarrow> string \<Rightarrow> (Ipv4Addr \<times> string) option" where
  "read_octets 0 i acc s = Some (acc, s)"
| "read_octets (Suc k) i acc s =
     (case read_separator CHR ''.'' i (read_number 10 3 False 256) s of
        None \<Rightarrow> None
      | Some (v, rest) \<Rightarrow> read_octets k (i + 1) (acc * 256 + of_nat v) rest)"

definition read_ipv4_addr :: "string \<Rightarrow> (Ipv4Addr \<times> string) option" where
  "read_ipv4_addr s = read_octets 4 0 0 s"

text \<open>\<open>read_groups\<close>: at most \<open>limit\<close> groups from position \<open>i\<close>; the last two may be an IPv4 address.\<close>

fun read_groups :: "nat \<Rightarrow> nat \<Rightarrow> nat \<Rightarrow> string \<Rightarrow> u16 list \<times> bool \<times> string" where
  "read_groups 0 limit i s = ([], False, s)"
| "read_groups (Suc k) limit i s =
     (case (if i + 1 < limit then read_separator CHR '':'' i read_ipv4_addr s else None) of
        Some (v4, rest) \<Rightarrow> ([ucast (drop_bit 16 v4), ucast v4], True, rest)
      | None \<Rightarrow>
          (case read_separator CHR '':'' i (read_number 16 4 True 65536) s of
             None \<Rightarrow> ([], False, s)
           | Some (g, rest) \<Rightarrow>
               (case read_groups k limit (i + 1) rest of (gs, v4, rest') \<Rightarrow> (of_nat g # gs, v4, rest'))))"

definition ipv6_of_segments :: "u16 list \<Rightarrow> Ipv6Addr" where
  "ipv6_of_segments segs = foldl (\<lambda>acc s. push_bit 16 acc OR ucast s) 0 segs"

definition read_ipv6_addr :: "string \<Rightarrow> (Ipv6Addr \<times> string) option" where
  "read_ipv6_addr s =
     (case read_groups 8 8 0 s of
        (head, head_ipv4, rest) \<Rightarrow>
          (if length head = 8 then Some (ipv6_of_segments head, rest)
           else if head_ipv4 then None
           else (case read_given_char CHR '':'' rest of
               None \<Rightarrow> None
             | Some r1 \<Rightarrow>
                 (case read_given_char CHR '':'' r1 of
                    None \<Rightarrow> None
                  | Some r2 \<Rightarrow>
                      (let limit = 8 - (length head + 1)
                       in (case read_groups limit limit 0 r2 of
                             (tl', _, r3) \<Rightarrow>
                               Some (ipv6_of_segments (head @ replicate (8 - length head - length tl') 0 @ tl'), r3)))))))"

definition parse_ip :: "string \<Rightarrow> IpAddr option" where
  "parse_ip s =
     (case read_ipv4_addr s of
        Some (v4, rest) \<Rightarrow> (if rest = [] then Some (V4 v4) else None)
      | None \<Rightarrow>
          (case read_ipv6_addr s of
             Some (v6, rest) \<Rightarrow> (if rest = [] then Some (V6 v6) else None)
           | None \<Rightarrow> None))"

section \<open>Printing and parsing an IPv4 address\<close>

lemma digit_char_digit: "d < 10 \<Longrightarrow> to_digit 10 (digit_char d) = Some d"
  by (simp add: to_digit_def)

lemma show_nat_digits:
  "n < 10 \<Longrightarrow> show_nat n = [digit_char n]"
  "10 \<le> n \<Longrightarrow> n < 100 \<Longrightarrow> show_nat n = [digit_char (n div 10), digit_char (n mod 10)]"
  "100 \<le> n \<Longrightarrow> n < 1000 \<Longrightarrow> show_nat n = [digit_char (n div 100), digit_char (n div 10 mod 10), digit_char (n mod 10)]"
  by (auto simp: show_nat_def show_radix.simps [of 10 n] show_radix.simps [of 10 "n div 10"]
      show_radix.simps [of 10 "n div 100"] div_mult2_eq [symmetric])

definition no_digit_first :: "string \<Rightarrow> bool" where
  "no_digit_first s = (case s of [] \<Rightarrow> True | c # _ \<Rightarrow> to_digit 10 c = None)"

lemma read_digits_stop: "no_digit_first s \<Longrightarrow> read_digits 10 m k acc s = Some (acc, k, s)"
  by (cases s) (auto simp: no_digit_first_def)

lemma digit_char_zero: "d < 10 \<Longrightarrow> digit_char d = CHR ''0'' \<longleftrightarrow> d = 0"
  by (auto simp: char_of_eq_iff take_bit_eq_mod)

lemma read_show_octet:
  assumes "n < 256" and "no_digit_first s"
  shows "read_number 10 3 False 256 (show_nat n @ s) = Some (n, s)"
proof -
  consider "n < 10" | "10 \<le> n" "n < 100" | "100 \<le> n" "n < 1000" using assms(1) by linarith
  then show ?thesis
  proof cases
    case 1
    then show ?thesis
      using assms by (simp add: show_nat_digits read_number_def digit_char_digit read_digits_stop del: digit_char.simps)
  next
    case 2
    then have "n div 10 < 10" "n div 10 \<noteq> 0" by auto
    with 2 show ?thesis
      using assms by (simp add: show_nat_digits read_number_def digit_char_digit read_digits_stop digit_char_zero
          del: digit_char.simps)
  next
    case 3
    then have d: "n div 100 < 10" "n div 100 \<noteq> 0" by auto
    have "n div 100 * 10 + n div 10 mod 10 = n div 10" by (simp add: div_mult2_eq [of n 10 10, simplified])
    then have "(n div 100 * 10 + n div 10 mod 10) * 10 + n mod 10 = n" by simp
    with 3 d show ?thesis
      using assms by (simp add: show_nat_digits read_number_def digit_char_digit read_digits_stop digit_char_zero
          del: digit_char.simps)
  qed
qed

lemma octet_nat: "octet i a = unat a div 2 ^ (8 * (3 - i)) mod 256"
proof -
  have "unat a < 2 ^ LENGTH(32)" by (rule unsigned_less)
  then have "unat a mod 4294967296 = unat a" by simp
  then show ?thesis
    unfolding octet_def unsigned_ucast_eq unsigned_drop_bit_eq by (simp add: take_bit_eq_mod drop_bit_eq_div)
qed

lemma octet_bound: "octet i a < 256"
  by (simp add: octet_nat)

lemma no_digit_dot [simp]: "no_digit_first (CHR ''.'' # s)" "no_digit_first []"
  by (simp_all add: no_digit_first_def to_digit_def)

lemma octets_value: "((octet 0 a * 256 + octet 1 a) * 256 + octet 2 a) * 256 + octet 3 a = unat (a :: Ipv4Addr)"
proof -
  have "unat a < 2 ^ LENGTH(32)" by (rule unsigned_less)
  then have top: "unat a div 2 ^ 24 < 256" by (simp add: less_mult_imp_div_less)
  have "octet 0 a = unat a div 2 ^ 24" using top by (simp add: octet_nat)
  moreover have "unat a div 2 ^ 24 * 256 + octet 1 a = unat a div 2 ^ 16"
    by (simp add: octet_nat div_mult2_eq [of "unat a" 65536 256, simplified])
  moreover have "unat a div 2 ^ 16 * 256 + octet 2 a = unat a div 256"
    by (simp add: octet_nat div_mult2_eq [of "unat a" 256 256, simplified])
  moreover have "unat a div 256 * 256 + octet 3 a = unat a" by (simp add: octet_nat)
  ultimately show ?thesis by simp
qed

lemma octets_word:
  "((of_nat (octet 0 a) * 256 + of_nat (octet 1 a)) * 256 + of_nat (octet 2 a)) * 256 + of_nat (octet 3 a) = (a :: Ipv4Addr)"
proof -
  have "of_nat (((octet 0 a * 256 + octet 1 a) * 256 + octet 2 a) * 256 + octet 3 a) = (of_nat (unat a) :: Ipv4Addr)"
    unfolding octets_value ..
  then show ?thesis by (simp only: of_nat_add of_nat_mult of_nat_numeral) simp
qed

lemma read_ipv4_show: "read_ipv4_addr (ipv4_to_string a) = Some (a, [])"
proof -
  have last: "read_number 10 3 False 256 (show_nat (octet 3 a)) = Some (octet 3 a, [])"
    using read_show_octet [OF octet_bound, of "[]" 3 a] by simp
  have four: "(4 :: nat) = Suc (Suc (Suc (Suc 0)))" by simp
  have "read_octets 4 0 0 (ipv4_to_string a) =
      Some (((of_nat (octet 0 a) * 256 + of_nat (octet 1 a)) * 256 + of_nat (octet 2 a)) * 256 + of_nat (octet 3 a), [])"
    unfolding four ipv4_to_string_def
    by (simp add: read_separator_def read_given_char_def read_show_octet octet_bound last)
  then show ?thesis unfolding octets_word read_ipv4_addr_def .
qed

text \<open>The address text the gateway writes into headers reads back as the same address.\<close>

lemma parse_ip_v4_roundtrip: "parse_ip (ip_to_string (V4 a)) = Some (V4 a)"
  by (simp add: parse_ip_def read_ipv4_show)

lemma parse_ip_v4_strict:
  "parse_ip ''10.0.0.1'' = Some (V4 0x0A000001)" "read_ipv4_addr ''1.2.3.04'' = None"
  "read_ipv4_addr ''1.2.3.256'' = None" "read_ipv4_addr ''1.2.3'' = None"
  by code_simp+

end
