(* ===== verification/Ip_Filter.thy ===== *)
theory Ip_Filter
  imports Http Ip_Text
begin

text \<open>
  The IP filter (\<open>server/src/middleware/ip_filter.rs\<close>): CIDR ranges with their parser, the extraction
  of the client address, the allow and deny decision, and the layer.
\<close>

section \<open>CIDR ranges\<close>

datatype IpCidr =
    CidrV4 (v4_network: u32) (v4_mask: u32) (v4_prefix_len: u8)
  | CidrV6 (v6_network: u128) (v6_mask: u128) (v6_prefix_len: u8)

text \<open>\<open>!0 << (w - n)\<close>, with the case \<open>n = 0\<close> apart.\<close>

definition prefix_mask :: "nat \<Rightarrow> u8 \<Rightarrow> 'a::len word" where
  "prefix_mask width n = (if n = 0 then 0 else push_bit (width - unat n) (- 1))"

definition parse_u8 :: "string \<Rightarrow> u8 option" where
  "parse_u8 s = map_option of_nat (parse_unsigned 256 s)"

definition cidr_of_v4 :: "Ipv4Addr \<Rightarrow> u8 \<Rightarrow> IpCidr" where
  "cidr_of_v4 v4 prefix_len =
     (let m = prefix_mask 32 prefix_len in CidrV4 (v4 AND m) m prefix_len)"

definition cidr_of_v6 :: "Ipv6Addr \<Rightarrow> u8 \<Rightarrow> IpCidr" where
  "cidr_of_v6 v6 prefix_len =
     (let m = prefix_mask 128 prefix_len in CidrV6 (v6 AND m) m prefix_len)"

text \<open>The error strings of the parser name what was wrong; the model keeps which check failed.\<close>

datatype CidrError = EmptyCidr | MultipleDelimiters | BadAddress | BadPrefix | PrefixOutOfRange

definition finish_v4 :: "Ipv4Addr \<Rightarrow> string option \<Rightarrow> (IpCidr, CidrError) result" where
  "finish_v4 v4 prefix_part =
     (case (case prefix_part of Some s \<Rightarrow> parse_u8 s | None \<Rightarrow> Some 32) of
        None \<Rightarrow> Err BadPrefix
      | Some prefix_len \<Rightarrow> (if prefix_len > 32 then Err PrefixOutOfRange else Ok (cidr_of_v4 v4 prefix_len)))"

definition finish_v6 :: "Ipv6Addr \<Rightarrow> string option \<Rightarrow> (IpCidr, CidrError) result" where
  "finish_v6 v6 prefix_part =
     (case (case prefix_part of Some s \<Rightarrow> parse_u8 s | None \<Rightarrow> Some 128) of
        None \<Rightarrow> Err BadPrefix
      | Some prefix_len \<Rightarrow> (if prefix_len > 128 then Err PrefixOutOfRange else Ok (cidr_of_v6 v6 prefix_len)))"

definition cidr_parse :: "string \<Rightarrow> (IpCidr, CidrError) result" where
  "cidr_parse input =
     (let trimmed = trim input in
      if trimmed = [] then Err EmptyCidr
      else
        (case (case split_once CHR ''/'' trimmed of
                 Some (ip_s, pfx_s) \<Rightarrow>
                   (if str_contains ''/'' pfx_s then None else Some (trim ip_s, Some (trim pfx_s)))
               | None \<Rightarrow> Some (trimmed, None)) of
           None \<Rightarrow> Err MultipleDelimiters
         | Some (ip_part, prefix_part) \<Rightarrow>
             (case parse_ip ip_part of
                None \<Rightarrow> Err BadAddress
              | Some (V4 v4) \<Rightarrow> finish_v4 v4 prefix_part
              | Some (V6 v6) \<Rightarrow>
                  (case to_ipv4_mapped v6 of
                     None \<Rightarrow> finish_v6 v6 prefix_part
                   | Some mapped_v4 \<Rightarrow>
                       (case prefix_part of
                          None \<Rightarrow> finish_v4 mapped_v4 prefix_part
                        | Some pfx_str \<Rightarrow>
                            (case parse_u8 pfx_str of
                               None \<Rightarrow> Err BadPrefix
                             | Some pfx \<Rightarrow>
                                 (if pfx \<le> 32 then finish_v4 mapped_v4 prefix_part
                                  else if 96 \<le> pfx \<and> pfx \<le> 128 then Ok (cidr_of_v4 mapped_v4 (pfx - 96))
                                  else finish_v6 v6 prefix_part)))))))"

fun cidr_contains :: "IpCidr \<Rightarrow> IpAddr \<Rightarrow> bool" where
  "cidr_contains cidr ip =
     (case (cidr, unwrap_ipv4_mapped ip) of
        (CidrV4 network m _, V4 v4) \<Rightarrow> (v4 AND m) = network
      | (CidrV6 network m _, V6 v6) \<Rightarrow> (v6 AND m) = network
      | _ \<Rightarrow> False)"

definition cidr_to_string :: "IpCidr \<Rightarrow> string" where
  "cidr_to_string c =
     (case c of
        CidrV4 network _ prefix_len \<Rightarrow> ipv4_to_string network @ ''/'' @ show_nat (unat prefix_len)
      | CidrV6 network _ prefix_len \<Rightarrow> ipv6_to_string network @ ''/'' @ show_nat (unat prefix_len))"

section \<open>The decision\<close>

datatype IpFilterRejection =
    DeniedByBlocklist IpAddr IpCidr
  | NotInAllowlist IpAddr
  | MissingClientIp

record IpFilter =
  allow_cidrs :: "IpCidr list"
  deny_cidrs :: "IpCidr list"
  trust_forwarded_headers :: bool
  filter_server_name :: string

fun parse_cidrs :: "string list \<Rightarrow> (IpCidr list, CidrError) result" where
  "parse_cidrs [] = Ok []"
| "parse_cidrs (raw # rest) =
     (case cidr_parse raw of
        Err e \<Rightarrow> Err e
      | Ok cidr \<Rightarrow> (case parse_cidrs rest of Err e \<Rightarrow> Err e | Ok cs \<Rightarrow> Ok (cidr # cs)))"

definition from_cidr_strings :: "string list \<Rightarrow> string list \<Rightarrow> bool \<Rightarrow> string \<Rightarrow> (IpFilter, CidrError) result" where
  "from_cidr_strings allow deny trust server_name =
     (case parse_cidrs allow of
        Err e \<Rightarrow> Err e
      | Ok allow_cs \<Rightarrow>
          (case parse_cidrs deny of
             Err e \<Rightarrow> Err e
           | Ok deny_cs \<Rightarrow>
               Ok \<lparr> allow_cidrs = allow_cs, deny_cidrs = deny_cs, trust_forwarded_headers = trust,
                    filter_server_name = server_name \<rparr>))"

definition header_ip :: "string \<Rightarrow> IpAddr option" where
  "header_ip s =
     (case parse_ip (trim s) of
        Some ip \<Rightarrow> (if is_unspecified ip then None else Some (unwrap_ipv4_mapped ip))
      | None \<Rightarrow> None)"

definition extract_forwarded_ip :: "Request \<Rightarrow> IpAddr option" where
  "extract_forwarded_ip req =
     (case (case hm_get ''x-forwarded-for'' (req_headers req) of
              Some xff \<Rightarrow> (if is_visible_ascii xff then header_ip (hd (split_on CHR '','' xff)) else None)
            | None \<Rightarrow> None) of
        Some ip \<Rightarrow> Some ip
      | None \<Rightarrow>
          (case hm_get ''x-real-ip'' (req_headers req) of
             Some xrip \<Rightarrow> (if is_visible_ascii xrip then header_ip xrip else None)
           | None \<Rightarrow> None))"

definition extract_client_ip :: "Request \<Rightarrow> bool \<Rightarrow> IpAddr option" where
  "extract_client_ip req trust =
     (case map_option socket_ip (ext_socket_addr (req_ext req)) of
        Some ip \<Rightarrow>
          (if \<not> is_unspecified ip then Some (unwrap_ipv4_mapped ip)
           else if trust then extract_forwarded_ip req else None)
      | None \<Rightarrow> (if trust then extract_forwarded_ip req else None))"

definition evaluate_ip :: "IpFilter \<Rightarrow> IpAddr option \<Rightarrow> (unit, IpFilterRejection) result" where
  "evaluate_ip f client_ip =
     (case client_ip of
        Some raw \<Rightarrow>
          (let ip = unwrap_ipv4_mapped raw in
           (case find (\<lambda>cidr. cidr_contains cidr ip) (deny_cidrs f) of
              Some cidr \<Rightarrow> Err (DeniedByBlocklist ip cidr)
            | None \<Rightarrow>
                (if allow_cidrs f \<noteq> [] \<and> \<not> list_ex (\<lambda>cidr. cidr_contains cidr ip) (allow_cidrs f)
                 then Err (NotInAllowlist ip) else Ok ())))
      | None \<Rightarrow> (if allow_cidrs f \<noteq> [] then Err MissingClientIp else Ok ()))"

definition build_forbidden_response :: Response where
  "build_forbidden_response =
     \<lparr> resp_status = 403, resp_headers = [(''content-type'', ''text/plain; charset=utf-8'')],
       resp_body = full_body (''Forbidden'' @ [CHR 0x0A]) \<rparr>"

definition ip_filter_call :: "IpFilter \<Rightarrow> Request \<Rightarrow> MetricsRegistry \<Rightarrow> gate \<times> MetricsRegistry" where
  "ip_filter_call f req reg =
     (case evaluate_ip f (extract_client_ip req (trust_forwarded_headers f)) of
        Ok _ \<Rightarrow> (Allowed req, reg)
      | Err rejection \<Rightarrow> (Blocked build_forbidden_response, inc_blocked_ip_filter (filter_server_name f) reg))"

section \<open>Lemmas\<close>

lemma unwrap_idem [simp]: "unwrap_ipv4_mapped (unwrap_ipv4_mapped ip) = unwrap_ipv4_mapped ip"
  by (cases ip) (auto split: option.splits)

lemma prefix_mask_bit:
  assumes "unat n \<le> LENGTH('a::len)"
  shows "bit (prefix_mask LENGTH('a) n :: 'a word) k \<longleftrightarrow> k < LENGTH('a) \<and> LENGTH('a) - unat n \<le> k"
proof (cases "n = 0")
  case True
  then show ?thesis by (auto simp: prefix_mask_def dest: bit_imp_le_length)
next
  case False
  then show ?thesis by (auto simp: prefix_mask_def bit_simps)
qed

lemma and_prefix_mask_eq:
  fixes a b :: "'a::len word"
  assumes "unat n \<le> LENGTH('a)"
  shows "a AND prefix_mask LENGTH('a) n = b AND prefix_mask LENGTH('a) n \<longleftrightarrow>
     drop_bit (LENGTH('a) - unat n) a = drop_bit (LENGTH('a) - unat n) b"
proof
  assume eq: "a AND prefix_mask LENGTH('a) n = b AND prefix_mask LENGTH('a) n"
  show "drop_bit (LENGTH('a) - unat n) a = drop_bit (LENGTH('a) - unat n) b"
  proof (rule bit_word_eqI)
    fix k assume "k < LENGTH('a)"
    have "bit (a AND prefix_mask LENGTH('a) n) (LENGTH('a) - unat n + k) =
        bit (b AND prefix_mask LENGTH('a) n) (LENGTH('a) - unat n + k)" using eq by simp
    then show "bit (drop_bit (LENGTH('a) - unat n) a) k = bit (drop_bit (LENGTH('a) - unat n) b) k"
      by (auto simp: bit_simps prefix_mask_bit [OF assms] dest: bit_imp_le_length)
  qed
next
  assume eq: "drop_bit (LENGTH('a) - unat n) a = drop_bit (LENGTH('a) - unat n) b"
  show "a AND prefix_mask LENGTH('a) n = b AND prefix_mask LENGTH('a) n"
  proof (rule bit_word_eqI)
    fix k assume k: "k < LENGTH('a)"
    show "bit (a AND prefix_mask LENGTH('a) n) k = bit (b AND prefix_mask LENGTH('a) n) k"
    proof (cases "LENGTH('a) - unat n \<le> k")
      case True
      have "bit (drop_bit (LENGTH('a) - unat n) a) (k - (LENGTH('a) - unat n)) =
          bit (drop_bit (LENGTH('a) - unat n) b) (k - (LENGTH('a) - unat n))" using eq by simp
      with True show ?thesis by (simp add: bit_simps)
    next
      case False
      then show ?thesis by (simp add: bit_simps prefix_mask_bit [OF assms])
    qed
  qed
qed

definition cidr_wf :: "IpCidr \<Rightarrow> bool" where
  "cidr_wf c =
     (case c of
        CidrV4 network m n \<Rightarrow> n \<le> 32 \<and> m = prefix_mask 32 n \<and> network AND m = network
      | CidrV6 network m n \<Rightarrow> n \<le> 128 \<and> m = prefix_mask 128 n \<and> network AND m = network)"

lemma cidr_of_wf: "n \<le> 32 \<Longrightarrow> cidr_wf (cidr_of_v4 a n)" "n \<le> 128 \<Longrightarrow> cidr_wf (cidr_of_v6 b n)"
  by (simp_all add: cidr_wf_def cidr_of_v4_def cidr_of_v6_def Let_def and.assoc)

lemma finish_wf: "finish_v4 a p = Ok c \<Longrightarrow> cidr_wf c" "finish_v6 b p = Ok c \<Longrightarrow> cidr_wf c"
  by (auto simp: finish_v4_def finish_v6_def intro: cidr_of_wf split: option.splits if_splits)

lemma mapped_prefix: "96 \<le> pfx \<Longrightarrow> pfx \<le> 128 \<Longrightarrow> (pfx :: u8) - 96 \<le> 32"
  by (simp add: word_le_nat_alt unat_sub)

lemma cidr_parse_wf: "cidr_parse s = Ok c \<Longrightarrow> cidr_wf c"
  by (auto simp: cidr_parse_def Let_def intro: finish_wf cidr_of_wf mapped_prefix
      split: option.splits if_splits IpAddr.splits prod.splits)

definition same_prefix :: "nat \<Rightarrow> 'a::len word \<Rightarrow> 'a word \<Rightarrow> bool" where
  "same_prefix n a b = (drop_bit (LENGTH('a) - n) a = drop_bit (LENGTH('a) - n) b)"

lemma cidr_contains_prefix:
  assumes "cidr_wf c"
  shows "cidr_contains c ip \<longleftrightarrow>
     (case (c, unwrap_ipv4_mapped ip) of
        (CidrV4 network _ n, V4 a) \<Rightarrow> same_prefix (unat n) a network
      | (CidrV6 network _ n, V6 a) \<Rightarrow> same_prefix (unat n) a network
      | _ \<Rightarrow> False)"
proof (cases c)
  case (CidrV4 network m n)
  with assms have n: "unat n \<le> LENGTH(32)" and m: "m = prefix_mask LENGTH(32) n" and net: "network AND m = network"
    by (auto simp: cidr_wf_def word_le_nat_alt)
  have "a AND m = network \<longleftrightarrow> same_prefix (unat n) a network" for a
    using and_prefix_mask_eq [OF n, of a network] net unfolding same_prefix_def m by simp
  with CidrV4 show ?thesis by (auto split: IpAddr.splits)
next
  case (CidrV6 network m n)
  with assms have n: "unat n \<le> LENGTH(128)" and m: "m = prefix_mask LENGTH(128) n" and net: "network AND m = network"
    by (auto simp: cidr_wf_def word_le_nat_alt)
  have "a AND m = network \<longleftrightarrow> same_prefix (unat n) a network" for a
    using and_prefix_mask_eq [OF n, of a network] net unfolding same_prefix_def m by simp
  with CidrV6 show ?thesis by (auto split: IpAddr.splits)
qed

section \<open>Properties\<close>

text \<open>a range read from the configuration means what its text says: its prefix length is in range,
  and it contains exactly the addresses of its family whose first \<open>n\<close> bits are those of the network,
  with IPv4-mapped addresses taken in their IPv4 form.\<close>

theorem cidr_parse_sound:
  assumes "cidr_parse s = Ok c"
  shows "case c of
      CidrV4 network _ n \<Rightarrow> unat n \<le> 32
        \<and> (cidr_contains c ip \<longleftrightarrow> (\<exists>a. unwrap_ipv4_mapped ip = V4 a \<and> same_prefix (unat n) a network))
    | CidrV6 network _ n \<Rightarrow> unat n \<le> 128
        \<and> (cidr_contains c ip \<longleftrightarrow> (\<exists>a. unwrap_ipv4_mapped ip = V6 a \<and> same_prefix (unat n) a network))"
proof -
  have wf: "cidr_wf c" using assms by (rule cidr_parse_wf)
  show ?thesis
    using cidr_contains_prefix [OF wf, of ip] wf
    by (cases c; cases "unwrap_ipv4_mapped ip")
      (simp_all add: cidr_wf_def word_le_nat_alt del: cidr_contains.simps)
qed

theorem cidr_parse_sound_witness:
  "cidr_parse '' 10.1.2.3/8 '' = Ok (CidrV4 0x0A000000 0xFF000000 8)
   \<and> cidr_contains (CidrV4 0x0A000000 0xFF000000 8) (V4 0x0AFFFFFF)"
proof -
  have p: "cidr_parse '' 10.1.2.3/8 '' = Ok (CidrV4 0x0A000000 0xFF000000 8)" by code_simp
  have "same_prefix (unat (8 :: u8)) 0x0AFFFFFF (0x0A000000 :: u32)" by (simp add: same_prefix_def)
  with cidr_parse_sound [OF p, of "V4 0x0AFFFFFF"] p show ?thesis by simp
qed

text \<open>C32: the decision of the filter. A request is let through if and only if no deny rule matches
  its address and, when there is an allow list, some allow rule matches it; without a known address an
  allow list fails closed. A refused request gets a 403 and is counted.\<close>

theorem ip_filter_decision:
  "ip_filter_call f req reg =
     (let ip = extract_client_ip req (trust_forwarded_headers f);
          denied = (\<exists>a c. ip = Some a \<and> c \<in> set (deny_cidrs f) \<and> cidr_contains c a);
          listed = (allow_cidrs f = [] \<or> (\<exists>a c. ip = Some a \<and> c \<in> set (allow_cidrs f) \<and> cidr_contains c a))
      in if \<not> denied \<and> listed then (Allowed req, reg)
         else (Blocked build_forbidden_response, inc_blocked_ip_filter (filter_server_name f) reg))"
proof -
  have unwrap: "cidr_contains c (unwrap_ipv4_mapped a) = cidr_contains c a" for c a by simp
  show ?thesis
    by (cases "extract_client_ip req (trust_forwarded_headers f)")
      (auto simp: ip_filter_call_def evaluate_ip_def Let_def unwrap find_None list_ex_iff
        simp del: cidr_contains.simps dest: find_SomeD split: option.splits)
qed

text \<open>C33: forwarding headers cannot be used to get around the filter. On a connection with a known peer
  address, or when forwarding headers are not trusted, the decision does not depend on the request's
  headers; and an IPv4 client is judged the same whether its address arrives as IPv4 or IPv4-mapped.\<close>

theorem ip_filter_no_spoofing:
  assumes "\<not> trust_forwarded_headers f \<or>
      (\<exists>a. ext_socket_addr (req_ext req) = Some a \<and> \<not> is_unspecified (socket_ip a))"
  shows "snd (ip_filter_call f (req\<lparr> req_headers := h \<rparr>) reg) = snd (ip_filter_call f req reg)
     \<and> (fst (ip_filter_call f (req\<lparr> req_headers := h \<rparr>) reg) = Allowed (req\<lparr> req_headers := h \<rparr>) \<longleftrightarrow>
         fst (ip_filter_call f req reg) = Allowed req)
     \<and> evaluate_ip f (Some (V6 (to_ipv6_mapped v))) = evaluate_ip f (Some (V4 v))"
proof -
  have "extract_client_ip (req\<lparr> req_headers := h \<rparr>) (trust_forwarded_headers f) =
      extract_client_ip req (trust_forwarded_headers f)"
    using assms by (auto simp: extract_client_ip_def split: option.splits)
  moreover have "evaluate_ip f (Some (V6 (to_ipv6_mapped v))) = evaluate_ip f (Some (V4 v))"
    by (simp add: evaluate_ip_def)
  ultimately show ?thesis by (auto simp: ip_filter_call_def split: result.splits)
qed

definition demo_filter :: IpFilter where
  "demo_filter = \<lparr> allow_cidrs = [CidrV4 0x0A000000 0xFF000000 8], deny_cidrs = [CidrV4 0x0A000001 0xFFFFFFFF 32],
     trust_forwarded_headers = True, filter_server_name = ''s'' \<rparr>"

definition demo_from :: "Ipv4Addr \<Rightarrow> Request" where
  "demo_from a = (demo_request ''GET'' ''/'')\<lparr> req_ext := (req_ext (demo_request ''GET'' ''/''))\<lparr> ext_socket_addr := Some (SocketV4 a 5000) \<rparr> \<rparr>"

theorem ip_filter_no_spoofing_witness:
  "fst (ip_filter_call demo_filter ((demo_from 0x0A000001)\<lparr> req_headers := [(''x-forwarded-for'', ''10.0.0.2'')] \<rparr>) [])
     \<noteq> Allowed ((demo_from 0x0A000001)\<lparr> req_headers := [(''x-forwarded-for'', ''10.0.0.2'')] \<rparr>)"
proof -
  have known: "\<exists>a. ext_socket_addr (req_ext (demo_from 0x0A000001)) = Some a \<and> \<not> is_unspecified (socket_ip a)"
    by (simp add: demo_from_def)
  have "fst (ip_filter_call demo_filter (demo_from 0x0A000001) []) \<noteq> Allowed (demo_from 0x0A000001)" by code_simp
  then show ?thesis using ip_filter_no_spoofing [OF disjI2 [OF known], of demo_filter] by blast
qed

end
