(* ===== verification/Proxy_Headers.thy ===== *)
theory Proxy_Headers
  imports Http Ip_Text
begin

text \<open>
  The headers a request is forwarded with and the headers a response is returned with
  (\<open>server/src/middleware/router/headers.rs\<close>).

  The percent encoder of the \<open>urlencoding\<close> crate is the parameter \<open>urlencode\<close>. A header name is
  valid when it is a non-empty token, and is kept in lower case; a header value made from a string is
  valid when it is visible ASCII.
\<close>

definition is_token_char :: "char \<Rightarrow> bool" where
  "is_token_char c =
     (let b = byte_of c in
      48 \<le> b \<and> b \<le> 57 \<or> 65 \<le> b \<and> b \<le> 90 \<or> 97 \<le> b \<and> b \<le> 122
      \<or> c \<in> set ''!#$%&*+-.^_`|~'' \<or> b = 39)"

definition header_name :: "string \<Rightarrow> string option" where
  "header_name s =
     (if s \<noteq> [] \<and> int (length s) < 65536 \<and> list_all is_token_char s then Some (to_ascii_lowercase s) else None)"

definition header_value :: "string \<Rightarrow> string option" where
  "header_value s = (if is_visible_ascii s then Some s else None)"

definition HOP_BY_HOP_HEADERS :: "string list" where
  "HOP_BY_HOP_HEADERS =
     [''connection'', ''proxy-authenticate'', ''proxy-authorization'', ''te'', ''trailer'',
      ''transfer-encoding'', ''upgrade'', ''keep-alive'', ''proxy-connection'']"

definition IDENTITY_HEADERS_DENYLIST :: "string list" where
  "IDENTITY_HEADERS_DENYLIST =
     [''x-client-cert'', ''x-client-certificate'', ''x-ssl-client-cert'', ''x-ssl-certificate'',
      ''ssl-client-cert'', ''x-forwarded-tls-client-cert'', ''x-forwarded-client-cert'',
      ''x-client-san'', ''x-ssl-client-san'', ''ssl-client-san'', ''x-client-cert-san'',
      ''x-client-roles'', ''x-client-role'', ''x-user-roles'', ''x-user-role'', ''x-auth-roles'',
      ''x-auth-role'', ''x-user-role-oid'', ''x-authenticated-user'',
      ''x-client-dn'', ''x-client-subject-dn'', ''x-client-issuer-dn'', ''x-client-serial'',
      ''x-ssl-client-subject-dn'', ''x-ssl-client-issuer-dn'', ''x-ssl-client-serial'', ''x-ssl-client-verify'',
      ''x-client-ip'']"

definition FORWARDING_HEADERS :: "string list" where
  "FORWARDING_HEADERS = [''forwarded'', ''x-forwarded-for'', ''x-real-ip'', ''x-forwarded-host'', ''x-forwarded-proto'']"

datatype Protocol = HttpProto | HttpsProto

record ClientCertForwarding =
  header_cert :: "string option"
  header_san :: "string option"
  header_roles :: "string option"
  header_client_ip :: "string option"

record HeaderConfig =
  hc_protocol :: Protocol
  hc_tunnel_sni :: "string option"
  hc_cert_forwarding :: "ClientCertForwarding option"

definition build_error_response :: "string \<Rightarrow> nat \<Rightarrow> Response" where
  "build_error_response msg status = \<lparr> resp_status = status, resp_headers = [], resp_body = full_body msg \<rparr>"

definition inject_real_ip :: "Extensions \<Rightarrow> HeaderMap \<Rightarrow> HeaderMap" where
  "inject_real_ip ext h =
     (case ext_socket_addr ext of
        Some addr \<Rightarrow>
          (case header_value (ip_to_string (socket_ip addr)) of Some hv \<Rightarrow> hm_insert ''x-real-ip'' hv h | None \<Rightarrow> h)
      | None \<Rightarrow> h)"

definition remove_all :: "string list \<Rightarrow> HeaderMap \<Rightarrow> HeaderMap" where
  "remove_all names h = fold hm_remove names h"

definition custom_hops :: "HeaderMap \<Rightarrow> string list" where
  "custom_hops h =
     (case hm_get ''connection'' h of
        Some conn_val \<Rightarrow>
          (if is_visible_ascii conn_val
           then List.map_filter (\<lambda>s. header_name (trim s)) (split_on CHR '','' conn_val) else [])
      | None \<Rightarrow> [])"

definition opt_names :: "string option list \<Rightarrow> string list" where
  "opt_names os = List.map_filter (\<lambda>o'. case o' of Some s \<Rightarrow> header_name s | None \<Rightarrow> None) os"

definition forwarding_names :: "HeaderConfig \<Rightarrow> string list" where
  "forwarding_names cfg =
     (case hc_cert_forwarding cfg of
        Some fc \<Rightarrow> opt_names [header_cert fc, header_san fc, header_roles fc, header_client_ip fc]
      | None \<Rightarrow> [])"

definition insert_named :: "string \<Rightarrow> string \<Rightarrow> HeaderMap \<Rightarrow> HeaderMap" where
  "insert_named name val h =
     (case header_value val of
        Some v \<Rightarrow> (case header_name name of Some n \<Rightarrow> hm_insert n v h | None \<Rightarrow> h)
      | None \<Rightarrow> h)"

definition roles_slice :: "Extensions \<Rightarrow> UserRole list option" where
  "roles_slice ext =
     (case ext_roles_shared ext of
        Some r \<Rightarrow> Some r
      | None \<Rightarrow> (case ext_roles_inline ext of Some r \<Rightarrow> Some r | None \<Rightarrow> ext_roles_legacy ext))"

fun role_name :: "UserRole \<Rightarrow> string" where
  "role_name (UserRole s) = s"

fun join_comma :: "string list \<Rightarrow> string" where
  "join_comma [] = []" | "join_comma [s] = s" | "join_comma (s # ss) = s @ '', '' @ join_comma ss"

definition inject_identity :: "(string \<Rightarrow> string) \<Rightarrow> Extensions \<Rightarrow> ClientCertForwarding \<Rightarrow> HeaderMap \<Rightarrow> HeaderMap" where
  "inject_identity urlencode ext fc h0 =
     (let h1 = (case (header_cert fc, ext_client_pem ext) of
                  (Some n, Some pem) \<Rightarrow> insert_named n (urlencode pem) h0 | _ \<Rightarrow> h0);
          h2 = (case (header_san fc, ext_client_san ext) of
                  (Some n, Some san) \<Rightarrow> insert_named n san h1 | _ \<Rightarrow> h1);
          h3 = (case (header_roles fc, roles_slice ext) of
                  (Some n, Some roles) \<Rightarrow>
                    (if roles \<noteq> [] then insert_named n (join_comma (map role_name roles)) h2 else h2)
                | _ \<Rightarrow> h2)
      in (case (header_client_ip fc, ext_socket_addr ext) of
            (Some n, Some addr) \<Rightarrow> insert_named n (ip_to_string (socket_ip addr)) h3 | _ \<Rightarrow> h3))"

definition strip_untrusted :: "HeaderConfig \<Rightarrow> HeaderMap \<Rightarrow> HeaderMap" where
  "strip_untrusted cfg h =
     remove_all FORWARDING_HEADERS
       (remove_all (forwarding_names cfg)
         (remove_all IDENTITY_HEADERS_DENYLIST
           (remove_all HOP_BY_HOP_HEADERS (remove_all (custom_hops h) h))))"

definition set_client_ip :: "Extensions \<Rightarrow> HeaderMap \<Rightarrow> HeaderMap" where
  "set_client_ip ext h =
     (case ext_socket_addr ext of
        Some addr \<Rightarrow>
          (if is_unspecified (socket_ip addr) then h
           else (case header_value (ip_to_string (socket_ip addr)) of
               Some v \<Rightarrow> hm_insert ''x-forwarded-for'' v (hm_insert ''x-real-ip'' v h)
             | None \<Rightarrow> h))
      | None \<Rightarrow> h)"

definition set_forwarded_host :: "HeaderConfig \<Rightarrow> HeaderMap \<Rightarrow> HeaderMap" where
  "set_forwarded_host cfg h =
     (case hm_get ''host'' h of
        Some host_val \<Rightarrow> hm_insert ''x-forwarded-host'' host_val h
      | None \<Rightarrow>
          (case hc_tunnel_sni cfg of
             Some sni \<Rightarrow> (case header_value sni of Some v \<Rightarrow> hm_insert ''x-forwarded-host'' v h | None \<Rightarrow> h)
           | None \<Rightarrow> h))"

text \<open>What the gateway writes after the untrusted headers are gone.\<close>

definition gateway_headers ::
    "(string \<Rightarrow> string) \<Rightarrow> string option \<Rightarrow> Extensions \<Rightarrow> HeaderConfig \<Rightarrow> HeaderMap \<Rightarrow> HeaderMap" where
  "gateway_headers urlencode jwt_token ext cfg h =
     (let h1 = set_client_ip ext h;
          h2 = hm_insert ''x-forwarded-proto'' (case hc_protocol cfg of HttpsProto \<Rightarrow> ''https'' | HttpProto \<Rightarrow> ''http'') h1;
          h3 = set_forwarded_host cfg h2;
          h4 = (case jwt_token of Some hv \<Rightarrow> hm_insert ''authorization'' hv h3 | None \<Rightarrow> h3)
      in (case hc_cert_forwarding cfg of Some fc \<Rightarrow> inject_identity urlencode ext fc h4 | None \<Rightarrow> h4))"

text \<open>The loop check: \<open>None\<close> when the request must be refused, otherwise the next value.\<close>

definition next_max_forwards :: "HeaderMap \<Rightarrow> nat option" where
  "next_max_forwards h =
     (case hm_get ''max-forwards'' h of
        Some mf_val \<Rightarrow>
          (if is_visible_ascii mf_val
           then (case parse_unsigned 256 mf_val of
               Some mf \<Rightarrow> (if mf = 0 then None else Some (mf - 1))
             | None \<Rightarrow> Some 10)
           else Some 10)
      | None \<Rightarrow> Some 10)"

definition prepare_proxy_headers ::
    "(string \<Rightarrow> string) \<Rightarrow> string option \<Rightarrow> Extensions \<Rightarrow> HeaderConfig \<Rightarrow> HeaderMap \<Rightarrow> (HeaderMap, Response) result" where
  "prepare_proxy_headers urlencode jwt_token ext cfg original_headers =
     (case next_max_forwards original_headers of
        None \<Rightarrow> Err (build_error_response ''Loop Detected'' 508)
      | Some max_forwards \<Rightarrow>
          Ok (gateway_headers urlencode jwt_token ext cfg
               (strip_untrusted cfg (hm_insert ''max-forwards'' (show_nat max_forwards) original_headers))))"

definition clean_response_headers :: "HeaderMap \<Rightarrow> HeaderMap" where
  "clean_response_headers h =
     hm_remove ''server'' (remove_all HOP_BY_HOP_HEADERS (remove_all (custom_hops h) h))"

section \<open>Agreement of header maps\<close>

text \<open>Two header maps agree on a set of names when each of those names has the same values in both.\<close>

definition agree :: "string set \<Rightarrow> HeaderMap \<Rightarrow> HeaderMap \<Rightarrow> bool" where
  "agree S h h' = (\<forall>n \<in> S. hm_get_all n h = hm_get_all n h')"

lemma hm_get_of_all: "hm_get n h = (case hm_get_all n h of [] \<Rightarrow> None | v # _ \<Rightarrow> Some v)"
  by (induction h) (auto simp: hm_get_def hm_get_all_def)

lemma agree_remove: "agree S h h' \<Longrightarrow> agree (insert n S) (hm_remove n h) (hm_remove n h')"
  by (auto simp: agree_def hm_get_all_remove)

lemma agree_remove_all: "agree S h h' \<Longrightarrow> agree (S \<union> set ns) (remove_all ns h) (remove_all ns h')"
proof (induction ns arbitrary: S h h')
  case (Cons n ns)
  from Cons.IH [OF agree_remove [OF Cons.prems, of n]] show ?case by (simp add: remove_all_def)
qed (simp add: remove_all_def)

lemma agree_insert: "agree S h h' \<Longrightarrow> agree S (hm_insert n v h) (hm_insert n v h')"
  by (auto simp: agree_def hm_get_all_insert)

lemma agree_insert_outside: "agree S h h' \<Longrightarrow> n \<notin> S \<Longrightarrow> agree S (hm_insert n v h) h'"
  by (auto simp: agree_def hm_get_all_insert)

lemma agree_sym: "agree S h h' = agree S h' h"
  by (auto simp: agree_def)

lemma agree_insert_named: "agree S h h' \<Longrightarrow> agree S (insert_named n v h) (insert_named n v h')"
  by (auto simp: insert_named_def agree_insert split: option.splits)

lemma agree_inject_identity:
  "agree S h h' \<Longrightarrow> agree S (inject_identity enc ext fc h) (inject_identity enc ext fc h')"
  unfolding inject_identity_def Let_def
  by (auto intro!: agree_insert_named split: option.splits)

lemma agree_client_ip: "agree S h h' \<Longrightarrow> agree S (set_client_ip ext h) (set_client_ip ext h')"
  by (auto simp: set_client_ip_def agree_insert split: option.splits)

lemma agree_forwarded_host:
  assumes "agree S h h'" and "''x-forwarded-host'' \<notin> S"
  shows "agree S (set_forwarded_host cfg h) (set_forwarded_host cfg h')"
proof -
  have out: "agree S (set_forwarded_host cfg g) g" for g
    using assms(2) by (auto simp: set_forwarded_host_def agree_def hm_get_all_insert split: option.splits)
  from assms(1) out [of h] out [of h'] show ?thesis by (simp add: agree_def)
qed

lemma agree_gateway:
  assumes "agree S h h'" and "''x-forwarded-host'' \<notin> S"
  shows "agree S (gateway_headers enc jwt ext cfg h) (gateway_headers enc jwt ext cfg h')"
proof -
  have "agree S (set_forwarded_host cfg (hm_insert ''x-forwarded-proto'' p (set_client_ip ext h)))
      (set_forwarded_host cfg (hm_insert ''x-forwarded-proto'' p (set_client_ip ext h')))" for p
    using assms by (intro agree_forwarded_host agree_insert agree_client_ip)
  then show ?thesis
    by (auto simp: gateway_headers_def Let_def agree_insert agree_inject_identity split: option.splits)
qed

definition protected_headers :: "HeaderConfig \<Rightarrow> string set" where
  "protected_headers cfg =
     set HOP_BY_HOP_HEADERS \<union> set IDENTITY_HEADERS_DENYLIST \<union> set (forwarding_names cfg)
     \<union> set FORWARDING_HEADERS - {''x-forwarded-host''}"

lemma agree_subset: "agree S h h' \<Longrightarrow> T \<subseteq> S \<Longrightarrow> agree T h h'"
  by (auto simp: agree_def)

lemma agree_strip: "agree (protected_headers cfg) (strip_untrusted cfg h) (strip_untrusted cfg h')"
proof -
  have "agree {} (remove_all (custom_hops h) h) (remove_all (custom_hops h') h')" by (simp add: agree_def)
  then have "agree ((({} \<union> set HOP_BY_HOP_HEADERS) \<union> set IDENTITY_HEADERS_DENYLIST) \<union> set (forwarding_names cfg)
      \<union> set FORWARDING_HEADERS) (strip_untrusted cfg h) (strip_untrusted cfg h')"
    unfolding strip_untrusted_def by (intro agree_remove_all)
  then show ?thesis by (rule agree_subset) (auto simp: protected_headers_def)
qed

section \<open>Properties\<close>

text \<open>C21: identity and forwarding headers cannot be spoofed. For the hop-by-hop headers, the identity
  headers, the configured identity headers and the forwarding headers other than \<open>X-Forwarded-Host\<close>,
  what the upstream receives does not depend on the headers the client sent: any two requests that
  differ only in their headers are forwarded with the same values for these names.\<close>

theorem forwarded_identity_not_spoofable:
  assumes "prepare_proxy_headers enc jwt ext cfg h = Ok out" and "prepare_proxy_headers enc jwt ext cfg h' = Ok out'"
    and "n \<in> protected_headers cfg"
  shows "hm_get_all n out = hm_get_all n out'"
proof -
  have "''x-forwarded-host'' \<notin> protected_headers cfg" by (simp add: protected_headers_def)
  with agree_gateway [OF agree_strip] assms show ?thesis
    by (auto simp: prepare_proxy_headers_def agree_def split: option.splits)
qed

definition demo_header_config :: HeaderConfig where
  "demo_header_config = \<lparr> hc_protocol = HttpsProto, hc_tunnel_sni = None,
     hc_cert_forwarding = Some \<lparr> header_cert = None, header_san = None, header_roles = Some ''X-User-Roles'', header_client_ip = None \<rparr> \<rparr>"

definition demo_ext :: Extensions where
  "demo_ext = (req_ext (demo_request ''GET'' ''/''))\<lparr> ext_socket_addr := Some (SocketV4 0x0A000001 5000),
     ext_roles_inline := Some [UserRole ''Guest''] \<rparr>"

definition demo_forwarded :: "HeaderMap \<Rightarrow> HeaderMap" where
  "demo_forwarded h = (case prepare_proxy_headers (\<lambda>s. s) None demo_ext demo_header_config h of Ok out \<Rightarrow> out | Err _ \<Rightarrow> [])"

lemma demo_roles: "hm_get_all ''x-user-roles'' (demo_forwarded []) = [''Guest'']"
  by code_simp

theorem forwarded_identity_not_spoofable_witness:
  "hm_get_all ''x-user-roles'' (demo_forwarded [(''x-user-roles'', ''Admin'')]) = hm_get_all ''x-user-roles'' (demo_forwarded [])
   \<and> hm_get_all ''x-user-roles'' (demo_forwarded []) = [''Guest'']"
proof -
  have a: "prepare_proxy_headers (\<lambda>s. s) None demo_ext demo_header_config [(''x-user-roles'', ''Admin'')] =
      Ok (demo_forwarded [(''x-user-roles'', ''Admin'')])" by code_simp
  have b: "prepare_proxy_headers (\<lambda>s. s) None demo_ext demo_header_config [] = Ok (demo_forwarded [])" by code_simp
  have c: "''x-user-roles'' \<in> protected_headers demo_header_config"
    by (simp add: protected_headers_def IDENTITY_HEADERS_DENYLIST_def)
  show ?thesis using forwarded_identity_not_spoofable [OF a b c] demo_roles by simp
qed

lemma get_all_remove_all: "hm_get_all n (remove_all ns h) = (if n \<in> set ns then [] else hm_get_all n h)"
proof (induction ns arbitrary: h)
  case (Cons m ns)
  then show ?case by (simp add: remove_all_def hm_get_all_remove)
qed (simp add: remove_all_def)

text \<open>a response returned to the client carries no hop-by-hop header, no \<open>Server\<close> header and none
  of the headers that the upstream's first \<open>Connection\<close> header names; every other header of the
  upstream is returned unchanged.\<close>

theorem clean_response_exact:
  "hm_get_all n (clean_response_headers h) =
     (if n = ''server'' \<or> n \<in> set HOP_BY_HOP_HEADERS \<or> n \<in> set (custom_hops h) then [] else hm_get_all n h)"
  by (simp add: clean_response_headers_def hm_get_all_remove get_all_remove_all)

definition two_connection_headers :: HeaderMap where
  "two_connection_headers = [(''connection'', ''close''), (''connection'', ''x-internal''), (''x-internal'', ''1'')]"

text \<open>only the first \<open>Connection\<close> header is read. A header named by a second one is forwarded, and
  naming \<open>Max-Forwards\<close> removes the loop counter that was just written.\<close>

theorem connection_header_gaps:
  "hm_get_all ''x-internal'' (clean_response_headers two_connection_headers) = [''1'']
   \<and> hm_get_all ''max-forwards'' (demo_forwarded [(''connection'', ''max-forwards''), (''max-forwards'', ''1'')]) = []"
  by code_simp

end
