(* ===== verification/Access_Rules.thy ===== *)
theory Access_Rules
  imports Path_Sanitizer Proxy_Headers
begin

text \<open>
  Who may request what: path rules with roles (\<open>CompiledRbac\<close>, \<open>server/src/configuration.rs\<close>, and
  \<open>enforce_rbac\<close>, \<open>server/src/middleware/router/rbac.rs\<close>) and the allow list of the inspection layer
  (\<open>CompiledAllowedPathes\<close> and \<open>server/src/middleware/inspection.rs\<close>).

  A raw rule table is the list of its entries in the iteration order of the hash map, with distinct
  patterns. Regular expressions are a parameter: \<open>compile\<close> for \<open>Regex::new\<close> and \<open>re_match\<close> for
  \<open>is_match\<close>.
\<close>

section \<open>Rule tables\<close>

record 'v RuleTable =
  exact_rules :: "(string, 'v) dashmap"
  prefix_rules :: "(string \<times> 'v) list"

definition is_prefix_pattern :: "string \<Rightarrow> bool" where
  "is_prefix_pattern pattern = ends_with ''*'' pattern"

fun split_rules :: "(string \<times> 'v) list \<Rightarrow> (string \<times> 'v) list \<times> (string \<times> 'v) list" where
  "split_rules [] = ([], [])"
| "split_rules ((pattern, v) # raw) =
     (case split_rules raw of
        (ex, pf) \<Rightarrow>
          (if is_prefix_pattern pattern then (ex, (butlast pattern, v) # pf) else ((pattern, v) # ex, pf)))"

definition sort_by_len :: "(string \<times> 'v) list \<Rightarrow> (string \<times> 'v) list" where
  "sort_by_len pf = sort_key (\<lambda>x. - int (length (fst x))) pf"

definition rules_from_raw :: "(string \<times> 'v) list \<Rightarrow> 'v RuleTable" where
  "rules_from_raw raw =
     (case split_rules raw of (ex, pf) \<Rightarrow> \<lparr> exact_rules = ex, prefix_rules = sort_by_len pf \<rparr>)"

type_synonym CompiledRbac = "UserRole list RuleTable"

definition rbac_from_raw :: "(string \<times> UserRole list) list \<Rightarrow> CompiledRbac" where
  "rbac_from_raw raw = rules_from_raw raw"

definition match_path :: "CompiledRbac \<Rightarrow> string \<Rightarrow> UserRole list option" where
  "match_path rbac path =
     (case dm_get (exact_rules rbac) path of
        Some roles \<Rightarrow> Some roles
      | None \<Rightarrow> map_option snd (find (\<lambda>(pfx, _). starts_with pfx path) (prefix_rules rbac)))"

section \<open>Roles\<close>

definition extract_user_roles :: "Extensions \<Rightarrow> UserRole list option" where
  "extract_user_roles ext =
     (case ext_roles_shared ext of
        Some r \<Rightarrow> Some r
      | None \<Rightarrow> (case ext_roles_inline ext of Some r \<Rightarrow> Some r | None \<Rightarrow> ext_roles_legacy ext))"

definition has_role :: "UserRole list option \<Rightarrow> UserRole list \<Rightarrow> bool" where
  "has_role user_roles required =
     (case user_roles of Some roles \<Rightarrow> list_ex (\<lambda>r. r \<in> set required) roles | None \<Rightarrow> False)"

definition enforce_rbac ::
    "Uri \<Rightarrow> Extensions \<Rightarrow> UserRole list \<Rightarrow> CompiledRbac option \<Rightarrow> string \<Rightarrow> MetricsRegistry
     \<Rightarrow> (unit, Response) result \<times> MetricsRegistry" where
  "enforce_rbac uri ext allowed_roles compiled_rbac server_name reg =
     (let path = uri_path uri;
          user_roles = extract_user_roles ext;
          forbidden = (Err (build_error_response ''Forbidden'' 403), inc_blocked_auth_rbac server_name reg);
          fallback = (if allowed_roles \<noteq> [] \<and> \<not> has_role user_roles allowed_roles then forbidden else (Ok (), reg))
      in (case compiled_rbac of
            None \<Rightarrow> fallback
          | Some rbac \<Rightarrow>
              (case match_path rbac path of
                 None \<Rightarrow> fallback
               | Some required_roles \<Rightarrow>
                   (if required_roles = [] then forbidden
                    else
                      (let is_authorized =
                             (if list_ex (\<lambda>r. role_name r = ''*'') required_roles then True
                              else has_role user_roles required_roles)
                       in if \<not> is_authorized then forbidden else (Ok (), reg))))))"

section \<open>Allowed paths\<close>

record AllowedPathes =
  raw_get :: "(string \<times> string list) list option"
  raw_post :: "(string \<times> string list) list option"
  raw_put :: "(string \<times> string list) list option"
  raw_delete :: "(string \<times> string list) list option"
  raw_patch :: "(string \<times> string list) list option"
  raw_head :: "(string \<times> string list) list option"

type_synonym 'r MethodRules = "'r list RuleTable"

record 'r CompiledAllowedPathes =
  rules_get :: "'r MethodRules"
  rules_post :: "'r MethodRules"
  rules_put :: "'r MethodRules"
  rules_delete :: "'r MethodRules"
  rules_patch :: "'r MethodRules"
  rules_head :: "'r MethodRules"

fun compile_all :: "(string \<Rightarrow> ('r, string) result) \<Rightarrow> string list \<Rightarrow> ('r list, string) result" where
  "compile_all compile [] = Ok []"
| "compile_all compile (p # ps) =
     (case compile p of
        Err e \<Rightarrow> Err e
      | Ok r \<Rightarrow> (case compile_all compile ps of Err e \<Rightarrow> Err e | Ok rs \<Rightarrow> Ok (r # rs)))"

fun compile_entries ::
    "(string \<Rightarrow> ('r, string) result) \<Rightarrow> (string \<times> string list) list \<Rightarrow> ((string \<times> 'r list) list, string) result" where
  "compile_entries compile [] = Ok []"
| "compile_entries compile ((pattern, ps) # raw) =
     (case compile_all compile ps of
        Err e \<Rightarrow> Err (''Regex error for '' @ [CHR 0x27] @ pattern @ [CHR 0x27] @ '': '' @ e)
      | Ok rs \<Rightarrow> (case compile_entries compile raw of Err e \<Rightarrow> Err e | Ok es \<Rightarrow> Ok ((pattern, rs) # es)))"

definition compile_method_rules ::
    "(string \<Rightarrow> ('r, string) result) \<Rightarrow> (string \<times> string list) list option \<Rightarrow> ('r MethodRules, string) result" where
  "compile_method_rules compile opt_map =
     (case compile_entries compile (case opt_map of Some m \<Rightarrow> m | None \<Rightarrow> []) of
        Err e \<Rightarrow> Err e
      | Ok es \<Rightarrow> Ok (rules_from_raw es))"

definition allowed_from_raw ::
    "(string \<Rightarrow> ('r, string) result) \<Rightarrow> AllowedPathes \<Rightarrow> ('r CompiledAllowedPathes, string) result" where
  "allowed_from_raw compile raw =
     (case compile_method_rules compile (raw_get raw) of Err e \<Rightarrow> Err e | Ok g \<Rightarrow>
     (case compile_method_rules compile (raw_post raw) of Err e \<Rightarrow> Err e | Ok po \<Rightarrow>
     (case compile_method_rules compile (raw_put raw) of Err e \<Rightarrow> Err e | Ok pu \<Rightarrow>
     (case compile_method_rules compile (raw_delete raw) of Err e \<Rightarrow> Err e | Ok de \<Rightarrow>
     (case compile_method_rules compile (raw_patch raw) of Err e \<Rightarrow> Err e | Ok pa \<Rightarrow>
     (case compile_method_rules compile (raw_head raw) of Err e \<Rightarrow> Err e | Ok he \<Rightarrow>
        Ok \<lparr> rules_get = g, rules_post = po, rules_put = pu, rules_delete = de, rules_patch = pa, rules_head = he \<rparr>))))))"

definition method_is_allowed :: "('r \<Rightarrow> string \<Rightarrow> bool) \<Rightarrow> 'r MethodRules \<Rightarrow> string \<Rightarrow> string \<Rightarrow> bool" where
  "method_is_allowed re_match rules path full_path =
     (case dm_get (exact_rules rules) path of
        Some res \<Rightarrow> list_ex (\<lambda>re. re_match re full_path) res
      | None \<Rightarrow>
          list_ex (\<lambda>(pfx, res). starts_with pfx path \<and> list_ex (\<lambda>re. re_match re full_path) res) (prefix_rules rules))"

definition is_allowed :: "('r \<Rightarrow> string \<Rightarrow> bool) \<Rightarrow> 'r CompiledAllowedPathes \<Rightarrow> string \<Rightarrow> string \<Rightarrow> string \<Rightarrow> bool" where
  "is_allowed re_match c meth path query =
     (let full_path = (if query = [] then path else path @ ''?'' @ query);
          ok = (\<lambda>rules. method_is_allowed re_match rules path full_path)
      in if meth = ''GET'' then ok (rules_get c)
         else if meth = ''POST'' then ok (rules_post c)
         else if meth = ''PUT'' then ok (rules_put c)
         else if meth = ''DELETE'' then ok (rules_delete c)
         else if meth = ''PATCH'' then ok (rules_patch c)
         else if meth = ''HEAD'' then ok (rules_head c) \<or> ok (rules_get c)
         else if meth = ''OPTIONS'' then
           ok (rules_get c) \<or> ok (rules_post c) \<or> ok (rules_put c) \<or> ok (rules_delete c)
           \<or> ok (rules_patch c) \<or> ok (rules_head c)
         else False)"

definition inspection_forbidden :: Response where
  "inspection_forbidden =
     \<lparr> resp_status = 403, resp_headers = [], resp_body = full_body ''Request does not match allowed patterns'' \<rparr>"

definition inspection_call ::
    "('r \<Rightarrow> string \<Rightarrow> bool) \<Rightarrow> 'r CompiledAllowedPathes \<Rightarrow> string \<Rightarrow> Request \<Rightarrow> MetricsRegistry \<Rightarrow> gate \<times> MetricsRegistry" where
  "inspection_call re_match rules server_name req reg =
     (case sanitize_and_normalize_path (uri_path (req_uri req)) of
        Err e \<Rightarrow> (Blocked inspection_forbidden, inc_blocked_inspection server_name reg)
      | Ok canonical \<Rightarrow>
          (if is_allowed re_match rules (req_method req) canonical
                (case uri_query (req_uri req) of Some q \<Rightarrow> q | None \<Rightarrow> [])
           then (Allowed req, reg)
           else (Blocked inspection_forbidden, inc_blocked_inspection server_name reg)))"

section \<open>Lemmas on rule tables\<close>

lemma split_rules_exact:
  "(p, v) \<in> set (fst (split_rules raw)) \<longleftrightarrow> (p, v) \<in> set raw \<and> \<not> is_prefix_pattern p"
  by (induction raw rule: split_rules.induct) (auto split: prod.splits)

lemma is_prefix_pattern_iff: "is_prefix_pattern p \<longleftrightarrow> (\<exists>q. p = q @ ''*'')"
  by (auto simp: is_prefix_pattern_def ends_with_iff)

lemma split_rules_prefix:
  "(q, v) \<in> set (snd (split_rules raw)) \<longleftrightarrow> (q @ ''*'', v) \<in> set raw"
  by (induction raw rule: split_rules.induct) (auto simp: is_prefix_pattern_iff split: prod.splits)

lemma split_rules_distinct:
  "distinct (map fst raw) \<Longrightarrow> distinct (map fst (fst (split_rules raw)))"
proof (induction raw rule: split_rules.induct)
  case (2 pattern v raw)
  have "pattern \<notin> fst ` set (fst (split_rules raw))"
    using 2(2) split_rules_exact [of pattern _ raw] by force
  with 2 show ?case by (auto split: prod.splits)
qed simp

lemma exact_lookup:
  assumes "distinct (map fst raw)"
  shows "dm_get (exact_rules (rules_from_raw raw)) path = Some v \<longleftrightarrow> (path, v) \<in> set raw \<and> \<not> is_prefix_pattern path"
proof -
  have "exact_rules (rules_from_raw raw) = fst (split_rules raw)"
    by (simp add: rules_from_raw_def split: prod.splits)
  then show ?thesis
    using split_rules_exact [of path v raw] split_rules_distinct [OF assms] by (simp add: dm_get_def)
qed

lemma prefix_rules_set: "set (prefix_rules (rules_from_raw raw)) = set (snd (split_rules raw))"
  by (simp add: rules_from_raw_def sort_by_len_def split: prod.splits)

lemma prefix_rules_sorted: "sorted (map (\<lambda>x. - int (length (fst x))) (prefix_rules (rules_from_raw raw)))"
  by (simp add: rules_from_raw_def sort_by_len_def split: prod.splits)

lemma find_sorted_max:
  assumes "sorted (map (\<lambda>x. - int (length (fst x))) ps)" and "find P ps = Some x" and "y \<in> set ps" and "P y"
  shows "length (fst y) \<le> length (fst x)"
  using assms by (induction ps) (auto split: if_splits)

lemma same_length_prefix: "starts_with p s \<Longrightarrow> starts_with q s \<Longrightarrow> length p = length q \<Longrightarrow> p = q"
  by (auto simp: starts_with_iff append_eq_append_conv)

lemma match_path_prefix:
  assumes raw: "distinct (map fst raw)"
    and p: "(p @ ''*'', roles) \<in> set raw" "starts_with p path"
    and longest: "\<And>q r. (q @ ''*'', r) \<in> set raw \<Longrightarrow> starts_with q path \<Longrightarrow> length q \<le> length p"
  shows "map_option snd (find (\<lambda>(pfx, _). starts_with pfx path) (prefix_rules (rules_from_raw raw))) = Some roles"
proof -
  let ?ps = "prefix_rules (rules_from_raw raw)"
  let ?P = "\<lambda>(pfx, _). starts_with pfx path"
  have mem: "(p, roles) \<in> set ?ps" using p(1) by (simp add: prefix_rules_set split_rules_prefix)
  obtain q r where q: "find ?P ?ps = Some (q, r)"
    using mem p(2) by (cases "find ?P ?ps") (auto simp: find_None_iff)
  then have "(q, r) \<in> set ?ps" and sq: "starts_with q path" by (auto dest: find_SomeD)
  then have raw_q: "(q @ ''*'', r) \<in> set raw" by (simp add: prefix_rules_set split_rules_prefix)
  have "length p \<le> length q"
    using find_sorted_max [OF prefix_rules_sorted q mem] p(2) by simp
  then have "q = p" using longest [OF raw_q sq] same_length_prefix [OF sq p(2)] by simp
  then have "r = roles" using raw raw_q p(1) by (auto dest: eq_key_imp_eq_value)
  then show ?thesis using q by simp
qed

lemma match_path_find:
  assumes "map_option snd (find (\<lambda>(pfx, _). starts_with pfx path) (prefix_rules (rules_from_raw raw))) = Some roles"
  obtains p where "(p @ ''*'', roles) \<in> set raw" and "starts_with p path"
    and "\<And>q r. (q @ ''*'', r) \<in> set raw \<Longrightarrow> starts_with q path \<Longrightarrow> length q \<le> length p"
proof -
  let ?ps = "prefix_rules (rules_from_raw raw)"
  let ?P = "\<lambda>(pfx, _). starts_with pfx path"
  obtain p where p: "find ?P ?ps = Some (p, roles)" using assms by auto
  then have "(p, roles) \<in> set ?ps" and "starts_with p path" by (auto dest: find_SomeD)
  moreover have "length q \<le> length p" if "(q @ ''*'', r) \<in> set raw" "starts_with q path" for q r
    using find_sorted_max [OF prefix_rules_sorted p, of "(q, r)"] that
    by (simp add: prefix_rules_set split_rules_prefix)
  ultimately show ?thesis using that by (simp add: prefix_rules_set split_rules_prefix)
qed

text \<open>C26: The role rule that \<open>match_path\<close> finds in a compiled table is the most specific rule of the
  configuration: the rule for exactly this path if there is one, and otherwise the rule with the
  longest prefix of the path. The result does not depend on the iteration order of the hash map.\<close>

theorem rbac_longest_match:
  assumes raw: "distinct (map fst raw)"
  shows "match_path (rbac_from_raw raw) path = Some roles \<longleftrightarrow>
    (path, roles) \<in> set raw \<and> \<not> is_prefix_pattern path
    \<or> \<not> (\<exists>r. (path, r) \<in> set raw \<and> \<not> is_prefix_pattern path)
      \<and> (\<exists>p. (p @ ''*'', roles) \<in> set raw \<and> starts_with p path
            \<and> (\<forall>q r. (q @ ''*'', r) \<in> set raw \<and> starts_with q path \<longrightarrow> length q \<le> length p))"
proof (cases "dm_get (exact_rules (rules_from_raw raw)) path")
  case (Some r)
  then have "(path, r) \<in> set raw \<and> \<not> is_prefix_pattern path" using exact_lookup [OF raw] by blast
  moreover have "match_path (rbac_from_raw raw) path = Some r" using Some by (simp add: match_path_def rbac_from_raw_def)
  ultimately show ?thesis using raw by (auto dest: eq_key_imp_eq_value)
next
  case None
  then have "\<not> (\<exists>r. (path, r) \<in> set raw \<and> \<not> is_prefix_pattern path)"
    using exact_lookup [OF raw, of path] by force
  moreover have "match_path (rbac_from_raw raw) path
      = map_option snd (find (\<lambda>(pfx, _). starts_with pfx path) (prefix_rules (rules_from_raw raw)))"
    using None by (simp add: match_path_def rbac_from_raw_def)
  ultimately show ?thesis using match_path_prefix [OF raw] match_path_find by metis
qed

definition demo_rbac :: "(string \<times> UserRole list) list" where
  "demo_rbac = [(''/api/*'', [UserRole ''user'']), (''/api/admin/*'', [UserRole ''admin''])]"

theorem rbac_longest_match_witness:
  "distinct (map fst demo_rbac) \<and> match_path (rbac_from_raw demo_rbac) ''/api/admin/x'' = Some [UserRole ''admin'']
   \<and> (\<exists>p. (p @ ''*'', [UserRole ''admin'']) \<in> set demo_rbac \<and> starts_with p ''/api/admin/x''
        \<and> (\<forall>q r. (q @ ''*'', r) \<in> set demo_rbac \<and> starts_with q ''/api/admin/x'' \<longrightarrow> length q \<le> length p))"
proof -
  have d: "distinct (map fst demo_rbac)" by (simp add: demo_rbac_def)
  have m: "match_path (rbac_from_raw demo_rbac) ''/api/admin/x'' = Some [UserRole ''admin'']" by code_simp
  have "\<not> (''/api/admin/x'', r) \<in> set demo_rbac" for r by (simp add: demo_rbac_def)
  then show ?thesis using rbac_longest_match [OF d, of "''/api/admin/x''" "[UserRole ''admin'']"] m d by simp
qed

text \<open>C27: \<open>enforce_rbac\<close> lets a request through exactly when the most specific path rule grants it (a rule
  with no roles denies everybody, a \<open>*\<close> admits everybody, otherwise the caller holds one of the
  roles), or when no path rule covers it and the roles of the route, if there are any, include one
  of the caller's. Every refusal is a counted 403.\<close>

theorem enforce_rbac_decision:
  "enforce_rbac uri ext allowed compiled name reg =
     (if (case Option.bind compiled (\<lambda>rbac. match_path rbac (uri_path uri)) of
            Some required \<Rightarrow>
              UserRole ''*'' \<in> set required
              \<or> (\<exists>roles r. extract_user_roles ext = Some roles \<and> r \<in> set roles \<and> r \<in> set required)
          | None \<Rightarrow>
              allowed = [] \<or> (\<exists>roles r. extract_user_roles ext = Some roles \<and> r \<in> set roles \<and> r \<in> set allowed))
      then (Ok (), reg)
      else (Err (build_error_response ''Forbidden'' 403), inc_blocked_auth_rbac name reg))"
proof -
  have star: "list_ex (\<lambda>r. role_name r = ''*'') rs \<longleftrightarrow> UserRole ''*'' \<in> set rs" for rs
  proof -
    have "role_name r = ''*'' \<longleftrightarrow> r = UserRole ''*''" for r by (cases r) simp
    then show ?thesis by (auto simp: list_ex_iff)
  qed
  have has: "has_role u rs \<longleftrightarrow> (\<exists>roles r. u = Some roles \<and> r \<in> set roles \<and> r \<in> set rs)" for u rs
    by (auto simp: has_role_def list_ex_iff split: option.splits)
  show ?thesis unfolding enforce_rbac_def star has Let_def by (auto split: option.splits bind_splits)
qed

section \<open>What inspection lets through\<close>

definition covers :: "string \<Rightarrow> string \<Rightarrow> bool" where
  "covers pattern path =
     (if is_prefix_pattern pattern then starts_with (butlast pattern) path else pattern = path)"

definition consulted :: "string \<Rightarrow> AllowedPathes \<Rightarrow> (string \<times> string list) list" where
  "consulted meth raw =
     (let tab = (\<lambda>t. case t of Some m \<Rightarrow> m | None \<Rightarrow> [])
      in if meth = ''GET'' then tab (raw_get raw)
         else if meth = ''POST'' then tab (raw_post raw)
         else if meth = ''PUT'' then tab (raw_put raw)
         else if meth = ''DELETE'' then tab (raw_delete raw)
         else if meth = ''PATCH'' then tab (raw_patch raw)
         else if meth = ''HEAD'' then tab (raw_head raw) @ tab (raw_get raw)
         else if meth = ''OPTIONS'' then
           tab (raw_get raw) @ tab (raw_post raw) @ tab (raw_put raw) @ tab (raw_delete raw)
           @ tab (raw_patch raw) @ tab (raw_head raw)
         else [])"

lemma compile_all_mem: "compile_all compile ps = Ok rs \<Longrightarrow> r \<in> set rs \<Longrightarrow> \<exists>p \<in> set ps. compile p = Ok r"
  by (induction ps arbitrary: rs) (auto split: result.splits)

lemma compile_entries_mem:
  "compile_entries compile raw = Ok es \<Longrightarrow> (pattern, rs) \<in> set es \<Longrightarrow>
     \<exists>ps. (pattern, ps) \<in> set raw \<and> compile_all compile ps = Ok rs"
  by (induction raw arbitrary: es) (fastforce split: result.splits)+

lemma compile_entries_keys: "compile_entries compile raw = Ok es \<Longrightarrow> map fst es = map fst raw"
  by (induction raw arbitrary: es) (auto split: result.splits)

lemma method_allowed_rule:
  assumes "method_is_allowed re_match (rules_from_raw es) path full" and "distinct (map fst es)"
  obtains pattern rs r where "(pattern, rs) \<in> set es" and "covers pattern path" and "r \<in> set rs" and "re_match r full"
proof (cases "dm_get (exact_rules (rules_from_raw es)) path")
  case (Some rs)
  then have "(path, rs) \<in> set es" "covers path path"
    using exact_lookup [OF assms(2)] by (auto simp: covers_def)
  then show ?thesis using that Some assms(1) by (auto simp: method_is_allowed_def list_ex_iff)
next
  case None
  then obtain pfx rs r where "(pfx, rs) \<in> set (prefix_rules (rules_from_raw es))" "starts_with pfx path"
      "r \<in> set rs" "re_match r full"
    using assms(1) by (auto simp: method_is_allowed_def list_ex_iff)
  moreover from this have "(pfx @ ''*'', rs) \<in> set es" "covers (pfx @ ''*'') path"
    by (auto simp: prefix_rules_set split_rules_prefix covers_def is_prefix_pattern_iff)
  ultimately show ?thesis using that by blast
qed

definition tables_ok :: "AllowedPathes \<Rightarrow> bool" where
  "tables_ok raw =
     list_all (\<lambda>t. distinct (map fst (case t of Some m \<Rightarrow> m | None \<Rightarrow> [])))
       [raw_get raw, raw_post raw, raw_put raw, raw_delete raw, raw_patch raw, raw_head raw]"

definition rule_hit ::
    "(string \<Rightarrow> ('r, string) result) \<Rightarrow> ('r \<Rightarrow> string \<Rightarrow> bool) \<Rightarrow> (string \<times> string list) list \<Rightarrow> string \<Rightarrow> string \<Rightarrow> bool" where
  "rule_hit compile re_match tab path full \<longleftrightarrow>
     (\<exists>pattern ps p r. (pattern, ps) \<in> set tab \<and> covers pattern path
        \<and> p \<in> set ps \<and> compile p = Ok r \<and> re_match r full)"

lemma rule_hit_append:
  "rule_hit compile re_match (s @ t) path full \<longleftrightarrow>
     rule_hit compile re_match s path full \<or> rule_hit compile re_match t path full"
  by (auto simp: rule_hit_def)

lemma compiled_method_rule:
  assumes "compile_method_rules compile t = Ok rules" and "method_is_allowed re_match rules path full"
    and "distinct (map fst (case t of Some m \<Rightarrow> m | None \<Rightarrow> []))"
  shows "rule_hit compile re_match (case t of Some m \<Rightarrow> m | None \<Rightarrow> []) path full"
proof -
  let ?t = "case t of Some m \<Rightarrow> m | None \<Rightarrow> []"
  obtain es where es: "compile_entries compile ?t = Ok es" and rules: "rules = rules_from_raw es"
    using assms(1) by (auto simp: compile_method_rules_def split: result.splits)
  have "distinct (map fst es)" using compile_entries_keys [OF es] assms(3) by simp
  then obtain pattern rs r where "(pattern, rs) \<in> set es" "covers pattern path" "r \<in> set rs" "re_match r full"
    using method_allowed_rule assms(2) unfolding rules by metis
  then show ?thesis using compile_entries_mem [OF es] compile_all_mem unfolding rule_hit_def by metis
qed

lemma is_allowed_hit:
  assumes raw: "allowed_from_raw compile raw = Ok rules" and tabs: "tables_ok raw"
    and ok: "is_allowed re_match rules meth path q"
  shows "rule_hit compile re_match (consulted meth raw) path (if q = [] then path else path @ ''?'' @ q)"
proof -
  have c: "compile_method_rules compile (raw_get raw) = Ok (rules_get rules)"
    "compile_method_rules compile (raw_post raw) = Ok (rules_post rules)"
    "compile_method_rules compile (raw_put raw) = Ok (rules_put rules)"
    "compile_method_rules compile (raw_delete raw) = Ok (rules_delete rules)"
    "compile_method_rules compile (raw_patch raw) = Ok (rules_patch rules)"
    "compile_method_rules compile (raw_head raw) = Ok (rules_head rules)"
    using raw by (auto simp: allowed_from_raw_def split: result.splits)
  note hit = c [THEN compiled_method_rule, where re_match = re_match and path = path]
  show ?thesis
    using ok tabs unfolding is_allowed_def consulted_def Let_def tables_ok_def
    by (simp add: rule_hit_append split: if_splits) (blast intro: hit)+
qed

text \<open>C28: A request that the inspection layer lets through is unchanged and covered by the configuration:
  its path has a canonical form, some pattern of the table of its method (of the GET table too for
  HEAD, of any table for OPTIONS) covers the canonical path, and one of the regular expressions
  listed there matches the canonical path with the query. A method outside the seven is refused.\<close>

theorem inspection_sound:
  assumes compiled: "allowed_from_raw compile raw = Ok rules" and tabs: "tables_ok raw"
    and allowed: "inspection_call re_match rules name req reg = (Allowed req', reg')"
  shows "req' = req \<and> reg' = reg
    \<and> (\<exists>path pattern ps p r.
         sanitize_and_normalize_path (uri_path (req_uri req)) = Ok path
         \<and> (pattern, ps) \<in> set (consulted (req_method req) raw) \<and> covers pattern path
         \<and> p \<in> set ps \<and> compile p = Ok r
         \<and> re_match r (case uri_query (req_uri req) of
                          None \<Rightarrow> path | Some q \<Rightarrow> if q = [] then path else path @ ''?'' @ q))"
proof -
  let ?q = "case uri_query (req_uri req) of Some q \<Rightarrow> q | None \<Rightarrow> []"
  obtain path where path: "sanitize_and_normalize_path (uri_path (req_uri req)) = Ok path"
    and ok: "is_allowed re_match rules (req_method req) path ?q" and same: "req' = req" "reg' = reg"
    using allowed by (auto simp: inspection_call_def split: result.splits if_splits)
  let ?full = "if ?q = [] then path else path @ ''?'' @ ?q"
  have full: "?full = (case uri_query (req_uri req) of
                          None \<Rightarrow> path | Some q \<Rightarrow> if q = [] then path else path @ ''?'' @ q)"
    by (simp split: option.splits)
  have "rule_hit compile re_match (consulted (req_method req) raw) path ?full"
    by (rule is_allowed_hit [OF compiled tabs ok])
  with path same show ?thesis unfolding full rule_hit_def by blast
qed

definition demo_allowed :: AllowedPathes where
  "demo_allowed =
     \<lparr> raw_get = Some [(''/api/*'', [''any'']), (''/api/admin/*'', [''none''])], raw_post = None, raw_put = None,
       raw_delete = None, raw_patch = None, raw_head = None \<rparr>"

definition demo_compile :: "string \<Rightarrow> (string, string) result" where
  "demo_compile p = (if p = [] then Err ''empty'' else Ok p)"

definition demo_match :: "string \<Rightarrow> string \<Rightarrow> bool" where
  "demo_match re s = (re = ''any'')"

definition demo_rules :: "string CompiledAllowedPathes" where
  "demo_rules =
     \<lparr> rules_get = rules_from_raw [(''/api/*'', [''any'']), (''/api/admin/*'', [''none''])],
       rules_post = rules_from_raw [], rules_put = rules_from_raw [], rules_delete = rules_from_raw [],
       rules_patch = rules_from_raw [], rules_head = rules_from_raw [] \<rparr>"

theorem inspection_sound_witness:
  "allowed_from_raw demo_compile demo_allowed = Ok demo_rules \<and> tables_ok demo_allowed
   \<and> inspection_call demo_match demo_rules ''s'' (demo_request ''HEAD'' ''/api/./a'') [] = (Allowed (demo_request ''HEAD'' ''/api/./a''), [])
   \<and> (\<exists>path. sanitize_and_normalize_path ''/api/./a'' = Ok path)"
proof -
  have a: "allowed_from_raw demo_compile demo_allowed = Ok demo_rules"
    by (simp add: allowed_from_raw_def demo_compile_def demo_allowed_def demo_rules_def compile_method_rules_def)
  have b: "tables_ok demo_allowed" by code_simp
  have c: "inspection_call demo_match demo_rules ''s'' (demo_request ''HEAD'' ''/api/./a'') []
      = (Allowed (demo_request ''HEAD'' ''/api/./a''), [])" by code_simp
  show ?thesis using inspection_sound [OF a b c] a b c by (auto simp: demo_request_def)
qed

text \<open>The allow list is a union, not a most specific match: a path under a narrow prefix whose own
  expressions all reject it is still let through when a shorter prefix of the table accepts it.\<close>

theorem inspection_prefix_fallthrough:
  "\<exists>re_match :: string \<Rightarrow> string \<Rightarrow> bool. \<exists>rules.
     rules = rules_from_raw [(''/api/*'', [''any'']), (''/api/admin/*'', [''none''])]
     \<and> find (\<lambda>(pfx, _). starts_with pfx ''/api/admin/x'') (prefix_rules rules) = Some (''/api/admin/'', [''none''])
     \<and> \<not> list_ex (\<lambda>re. re_match re ''/api/admin/x'') [''none'']
     \<and> method_is_allowed re_match rules ''/api/admin/x'' ''/api/admin/x''"
  by (rule exI [of _ demo_match], simp only: simp_thms) code_simp

end
