(* ===== verification/Server_Config.thy ===== *)
theory Server_Config
  imports Access_Rules Load_Balancer Ip_Filter
begin

text \<open>
  The configuration of one server instance (\<open>server/src/configuration.rs\<close>): the layer list
  (\<open>Layers::build_middleware_layers\<close>), the parsed routes and the validation that \<open>ServerConfig::finalize\<close>
  runs before a configuration is used, with the key loaders of \<open>common/src/lib.rs\<close>.

  Files, PEM and certificate parsing, regular expressions and the URI parser are the fields of
  \<open>ConfigEnv\<close>. A hash map is the list of its entries in iteration order. An \<open>anyhow\<close> error is a
  constructor of \<open>ConfigError\<close>. The counters of a server are looked up by its name (\<open>for_server\<close>), so
  the record has no field for them.
\<close>

section \<open>Layer configuration\<close>

datatype RateLimitKeyStrategy = Identity | Ip | Global

record SimpleRateLimiterConfig =
  requests_per_second :: u64
  simple_key_by :: RateLimitKeyStrategy
  simple_max_entries :: usize
  simple_ttl_seconds :: u64
  simple_trust_forwarded :: bool

record TokenBucketRateLimiterConfig =
  max_capacity :: usize
  refill :: usize
  duration_micros :: u64
  bucket_key_by :: RateLimitKeyStrategy
  bucket_max_entries :: usize
  bucket_ttl_seconds :: u64
  bucket_trust_forwarded :: bool

record JwtAuthConfig =
  jwt_public_keys :: "string list"
  cookie_fallback :: "string option"
  redirect_on_failure :: "string option"
  expected_issuer :: string
  expected_audience :: string
  revoke_on_paths :: "string list"

record ConcurrencyLimitConfig =
  max_concurrent_requests :: usize
  load_shed :: bool
  queue_timeout_ms :: "u64 option"

record CorsConfig =
  allowed_origins :: "string list"
  allowed_methods :: "string list"
  allowed_headers :: "string list"
  allow_credentials :: bool

record SecurityHeadersConfig =
  content_security_policy :: string
  strict_transport_security :: string
  x_content_type_options :: string
  x_frame_options :: string
  referrer_policy :: string

record IpFilterConfig =
  cfg_allow_cidrs :: "string list"
  cfg_deny_cidrs :: "string list"
  cfg_trust_forwarded :: bool

definition quoted :: "string \<Rightarrow> string" where
  "quoted s = [CHR 0x27] @ s @ [CHR 0x27]"

definition default_referrer_policy :: string where
  "default_referrer_policy = ''strict-origin-when-cross-origin''"

definition SecurityHeadersConfig_default :: SecurityHeadersConfig where
  "SecurityHeadersConfig_default =
     \<lparr> content_security_policy =
         ''default-src '' @ quoted ''none'' @ ''; script-src '' @ quoted ''unsafe-inline'' @ ''; style-src '' @ quoted ''unsafe-inline''
         @ ''; connect-src '' @ quoted ''self'' @ ''; img-src '' @ quoted ''self'' @ '' data:'',
       strict_transport_security = ''max-age=63072000; includeSubDomains; preload'',
       x_content_type_options = ''nosniff'',
       x_frame_options = ''DENY'',
       referrer_policy = default_referrer_policy \<rparr>"

datatype RateLimiter = Simple SimpleRateLimiterConfig | TokenBucket TokenBucketRateLimiterConfig

datatype MiddlewareLayer =
    TraceId | Timing | Counter | Logger | Inspection | Compression
  | Decompression usize
  | RateLimiterLayer RateLimiter
  | Delay u64
  | JwtAuth JwtAuthConfig
  | ConcurrencyLimit ConcurrencyLimitConfig
  | MaxPayload usize
  | AltSvc
  | Cors CorsConfig
  | SecurityHeaders SecurityHeadersConfig
  | PathSanitizer
  | IpFilterLayer IpFilterConfig

record Layers =
  layers_enabled :: "string list"
  max_payload_config :: "usize option"
  decompression_config :: "usize option"
  rate_limiter_config :: "SimpleRateLimiterConfig option"
  token_bucket_config :: "TokenBucketRateLimiterConfig option"
  delay_config :: "u64 option"
  jwt_config :: "JwtAuthConfig option"
  concurrency_limit_config :: "ConcurrencyLimitConfig option"
  cors_config :: "CorsConfig option"
  security_headers_config :: "SecurityHeadersConfig option"
  ip_filter_config :: "IpFilterConfig option"

section \<open>Errors and environment\<close>

datatype ConfigError =
    TraceIdNotFirst
  | InspectionBeforeDecompression nat nat
  | MissingSection string
  | NotPositive string
  | CorsWildcardWithCredentials
  | InvalidCidr string CidrError
  | UnknownLayer string
  | KeyFile string string
  | NoUpstreams string
  | InvalidUpstreamUri string
  | RegexError string
  | MissingServerCerts
  | CertLoad string
  | MissingIp
  | MissingPort
  | MissingClientCerts
  | EmptyJwtKeys
  | JwtLayerNotEnabled
  | HostCookieWithoutHttps

record ServerCertConfig =
  ssl_certificate :: string
  ssl_certificate_key :: string

record ('c, 'd, 'e, 'r) ConfigEnv =
  env_read_to_string :: "string \<Rightarrow> (string, string) result"
  env_decoding_from_pem :: "string \<Rightarrow> ('d, string) result"
  env_encoding_from_pem :: "string \<Rightarrow> ('e, string) result"
  env_load_certified_key :: "string \<Rightarrow> ServerCertConfig \<Rightarrow> ('c, string) result"
  env_not_after :: "'c \<Rightarrow> int option"              \<comment> \<open>end of validity of the leaf certificate\<close>
  env_read_crl :: "string \<Rightarrow> (usize \<times> int option) option"   \<comment> \<open>revoked certificates, next update\<close>
  env_regex_new :: "string \<Rightarrow> ('r, string) result"
  env_parse_uri :: "string \<Rightarrow> (Uri, string) result"

fun load_decoding_keys ::
    "(string \<Rightarrow> (string, string) result) \<Rightarrow> (string \<Rightarrow> ('d, string) result) \<Rightarrow> string list \<Rightarrow> ('d list, ConfigError) result" where
  "load_decoding_keys read_file from_pem [] = Ok []"
| "load_decoding_keys read_file from_pem (path # paths) =
     (case read_file path of
        Err e \<Rightarrow> Err (KeyFile path e)
      | Ok pem \<Rightarrow>
          (case from_pem pem of
             Err e \<Rightarrow> Err (KeyFile path e)
           | Ok key \<Rightarrow>
               (case load_decoding_keys read_file from_pem paths of Err e \<Rightarrow> Err e | Ok keys \<Rightarrow> Ok (key # keys))))"

definition load_encoding_key ::
    "(string \<Rightarrow> (string, string) result) \<Rightarrow> (string \<Rightarrow> ('e, string) result) \<Rightarrow> string \<Rightarrow> ('e, ConfigError) result" where
  "load_encoding_key read_file from_pem path =
     (case read_file path of
        Err e \<Rightarrow> Err (KeyFile path e)
      | Ok pem \<Rightarrow> (case from_pem pem of Err e \<Rightarrow> Err (KeyFile path e) | Ok key \<Rightarrow> Ok key))"

section \<open>The layer list\<close>

fun position :: "('a \<Rightarrow> bool) \<Rightarrow> 'a list \<Rightarrow> nat option" where
  "position P [] = None"
| "position P (x # xs) = (if P x then Some 0 else map_option Suc (position P xs))"

definition validate_middleware_order :: "string list \<Rightarrow> (unit, ConfigError) result" where
  "validate_middleware_order enabled =
     (if (case position (\<lambda>l. l = ''TraceId'') enabled of Some idx \<Rightarrow> idx \<noteq> 0 | None \<Rightarrow> False) then Err TraceIdNotFirst
      else
        (case position (\<lambda>l. l = ''Inspection'') enabled of
           None \<Rightarrow> Ok ()
         | Some insp_idx \<Rightarrow>
             (case position (\<lambda>l. l = ''Decompression'') enabled of
                None \<Rightarrow> Ok ()
              | Some decomp_idx \<Rightarrow>
                  (if insp_idx < decomp_idx then Err (InspectionBeforeDecompression insp_idx decomp_idx) else Ok ()))))"

fun validate_cidrs :: "string list \<Rightarrow> (unit, ConfigError) result" where
  "validate_cidrs [] = Ok ()"
| "validate_cidrs (c # cs) = (case cidr_parse c of Err e \<Rightarrow> Err (InvalidCidr c e) | Ok _ \<Rightarrow> validate_cidrs cs)"

definition section_layer :: "string \<Rightarrow> 'a option \<Rightarrow> ('a \<Rightarrow> (MiddlewareLayer, ConfigError) result) \<Rightarrow> (MiddlewareLayer, ConfigError) result" where
  "section_layer name cfg f = (case cfg of None \<Rightarrow> Err (MissingSection name) | Some c \<Rightarrow> f c)"

definition build_layer :: "('c, 'd, 'e, 'r) ConfigEnv \<Rightarrow> Layers \<Rightarrow> string \<Rightarrow> (MiddlewareLayer, ConfigError) result" where
  "build_layer env ls name =
     (if name = ''MaxPayload'' then section_layer name (max_payload_config ls) (\<lambda>c. Ok (MaxPayload c))
      else if name = ''TraceId'' then Ok TraceId
      else if name = ''Timing'' then Ok Timing
      else if name = ''Counter'' then Ok Counter
      else if name = ''Logger'' then Ok Logger
      else if name = ''PathSanitizer'' \<or> name = ''NormalizePath'' then Ok PathSanitizer
      else if name = ''Inspection'' then Ok Inspection
      else if name = ''Compression'' then Ok Compression
      else if name = ''Decompression'' then section_layer name (decompression_config ls) (\<lambda>c. Ok (Decompression c))
      else if name = ''Delay'' then section_layer name (delay_config ls) (\<lambda>c. Ok (Delay c))
      else if name = ''JwtAuth'' \<or> name = ''JWT'' then
        section_layer name (jwt_config ls)
          (\<lambda>c. case load_decoding_keys (env_read_to_string env) (env_decoding_from_pem env) (jwt_public_keys c) of
                 Err e \<Rightarrow> Err e | Ok _ \<Rightarrow> Ok (JwtAuth c))
      else if name = ''ConcurrencyLimit'' then
        section_layer name (concurrency_limit_config ls)
          (\<lambda>c. if max_concurrent_requests c = 0 then Err (NotPositive ''max_concurrent_requests'') else Ok (ConcurrencyLimit c))
      else if name = ''Cors'' then
        section_layer name (cors_config ls)
          (\<lambda>c. if allow_credentials c \<and> list_ex (\<lambda>org. org = ''*'') (allowed_origins c) then Err CorsWildcardWithCredentials
               else Ok (Cors c))
      else if name = ''SecurityHeaders'' then
        section_layer name (security_headers_config ls) (\<lambda>c. Ok (SecurityHeaders c))
      else if name = ''RateLimiter:Simple'' then
        section_layer name (rate_limiter_config ls)
          (\<lambda>c. if requests_per_second c = 0 then Err (NotPositive ''requests_per_second'')
               else Ok (RateLimiterLayer (Simple c)))
      else if name = ''RateLimiter:TokenBucket'' then
        section_layer name (token_bucket_config ls)
          (\<lambda>c. if max_capacity c = 0 \<or> refill c = 0 \<or> duration_micros c = 0 then Err (NotPositive ''max_capacity, refill, duration_micros'')
               else Ok (RateLimiterLayer (TokenBucket c)))
      else if name = ''AltSvc'' then Ok AltSvc
      else if name = ''IpFilter'' then
        section_layer name (ip_filter_config ls)
          (\<lambda>c. case validate_cidrs (cfg_allow_cidrs c) of
                 Err e \<Rightarrow> Err e
               | Ok _ \<Rightarrow> (case validate_cidrs (cfg_deny_cidrs c) of Err e \<Rightarrow> Err e | Ok _ \<Rightarrow> Ok (IpFilterLayer c)))
      else Err (UnknownLayer name))"

fun build_all :: "('c, 'd, 'e, 'r) ConfigEnv \<Rightarrow> Layers \<Rightarrow> string list \<Rightarrow> (MiddlewareLayer list, ConfigError) result" where
  "build_all env ls [] = Ok []"
| "build_all env ls (name # names) =
     (case build_layer env ls name of
        Err e \<Rightarrow> Err e
      | Ok l \<Rightarrow> (case build_all env ls names of Err e \<Rightarrow> Err e | Ok rest \<Rightarrow> Ok (l # rest)))"

definition is_observer :: "MiddlewareLayer \<Rightarrow> bool" where
  "is_observer l = (l = TraceId \<or> l = Logger \<or> l = Timing \<or> l = Counter)"

definition build_middleware_layers ::
    "('c, 'd, 'e, 'r) ConfigEnv \<Rightarrow> Layers \<Rightarrow> (MiddlewareLayer list, ConfigError) result" where
  "build_middleware_layers env ls =
     (case validate_middleware_order (layers_enabled ls) of
        Err e \<Rightarrow> Err e
      | Ok _ \<Rightarrow>
          (case build_all env ls (layers_enabled ls) of
             Err e \<Rightarrow> Err e
           | Ok layers \<Rightarrow>
               (if \<not> list_ex (\<lambda>n. n = ''SecurityHeaders'') (layers_enabled ls) then
                  (let insert_idx = (case position (\<lambda>l. \<not> is_observer l) layers of Some i \<Rightarrow> i | None \<Rightarrow> 0);
                       cfg = (case security_headers_config ls of Some c \<Rightarrow> c | None \<Rightarrow> SecurityHeadersConfig_default)
                   in Ok (take insert_idx layers @ SecurityHeaders cfg # drop insert_idx layers))
                else Ok layers)))"

section \<open>Routes\<close>

datatype RouteBackendType = Rest | GrpcPassthrough | GrpcTranscoding | AdminBackend

record RouteConfig =
  rc_upstreams :: "string list"
  rc_strategy :: LbStrategy
  rc_allowed_roles :: "UserRole list"
  rc_cooldown_seconds :: "u64 option"
  rc_max_retries :: "usize option"
  rc_failure_threshold :: "usize option"
  rc_max_retry_buffer_bytes :: "usize option"
  rc_active_health_check_interval :: "u64 option"
  rc_backend_type :: RouteBackendType

record ParsedRoute =
  route_prefix :: string
  route_target :: RouteTarget
  route_allowed_roles :: "UserRole list"
  route_backend_type :: RouteBackendType

fun proto_str :: "Protocol \<Rightarrow> string" where
  "proto_str HttpsProto = ''https''" | "proto_str HttpProto = ''http''"

definition upstream_uri_str :: "Protocol \<Rightarrow> string \<Rightarrow> string" where
  "upstream_uri_str proto upstream =
     (if starts_with ''http://'' upstream \<or> starts_with ''https://'' upstream then upstream
      else proto_str proto @ ''://'' @ upstream)"

fun parse_upstreams :: "(string \<Rightarrow> (Uri, string) result) \<Rightarrow> Protocol \<Rightarrow> string list \<Rightarrow> (UpstreamNode list, ConfigError) result" where
  "parse_upstreams parse_uri proto [] = Ok []"
| "parse_upstreams parse_uri proto (u # us) =
     (case parse_uri (upstream_uri_str proto u) of
        Err e \<Rightarrow> Err (InvalidUpstreamUri (upstream_uri_str proto u))
      | Ok uri \<Rightarrow>
          (case parse_upstreams parse_uri proto us of Err e \<Rightarrow> Err e | Ok ns \<Rightarrow> Ok (UpstreamNode_new uri # ns)))"

definition unwrap_or :: "'a \<Rightarrow> 'a option \<Rightarrow> 'a" where
  "unwrap_or d x = (case x of Some v \<Rightarrow> v | None \<Rightarrow> d)"

definition parse_route ::
    "(string \<Rightarrow> (Uri, string) result) \<Rightarrow> Protocol \<Rightarrow> string \<Rightarrow> RouteConfig \<Rightarrow> (ParsedRoute, ConfigError) result" where
  "parse_route parse_uri proto pfx cfg =
     (if rc_upstreams cfg = [] \<and> rc_backend_type cfg \<noteq> AdminBackend then Err (NoUpstreams pfx)
      else
        (case parse_upstreams parse_uri proto (rc_upstreams cfg) of
           Err e \<Rightarrow> Err e
         | Ok nodes \<Rightarrow>
             Ok \<lparr> route_prefix = pfx,
                  route_target =
                    \<lparr> upstreams = nodes, strategy = rc_strategy cfg, rr_counter = 0,
                      cooldown_seconds = unwrap_or 10 (rc_cooldown_seconds cfg),
                      max_retries = unwrap_or 2 (rc_max_retries cfg),
                      failure_threshold = max (unwrap_or 3 (rc_failure_threshold cfg)) 1,
                      max_retry_buffer_bytes = unwrap_or 65536 (rc_max_retry_buffer_bytes cfg),
                      active_health_check_interval = unwrap_or 0 (rc_active_health_check_interval cfg) \<rparr>,
                  route_allowed_roles = rc_allowed_roles cfg,
                  route_backend_type = rc_backend_type cfg \<rparr>))"

fun parse_routes ::
    "(string \<Rightarrow> (Uri, string) result) \<Rightarrow> Protocol \<Rightarrow> (string \<times> RouteConfig) list \<Rightarrow> (ParsedRoute list, ConfigError) result" where
  "parse_routes parse_uri proto [] = Ok []"
| "parse_routes parse_uri proto ((pfx, cfg) # rest) =
     (case parse_route parse_uri proto pfx cfg of
        Err e \<Rightarrow> Err e
      | Ok r \<Rightarrow> (case parse_routes parse_uri proto rest of Err e \<Rightarrow> Err e | Ok rs \<Rightarrow> Ok (r # rs)))"

section \<open>Server instances\<close>

datatype ServiceType = Echo | Router | Idp | StaticFiles | AdminService

datatype AuthenticationMethod = NoAuthentication | Jwt | ClientCert | OptionalClientCert

record ClientCertConfig =
  ssl_client_ca :: string
  ssl_client_crl :: "string option"

record ServerPkiInfo =
  server_cert_valid_until_unix :: "int option"
  crl_next_update_unix :: "int option"
  crl_revoked_certs_count :: usize

record TunnelConfig =
  tun_target_url :: string
  tun_sni_domain :: string
  tun_client_cert_path :: string
  tun_client_key_path :: string
  tun_ca_cert_path :: string
  tun_max_yamux_streams :: "usize option"
  tun_proxy_protocol :: bool

record RouterParams =
  rp_protocol :: Protocol
  rp_authentication :: AuthenticationMethod
  rp_ssl_root_certificate :: "string option"
  rp_jwt :: "string option"
  rp_ssl_client_certificate :: "string option"
  rp_ssl_client_key :: "string option"
  rp_connect_timeout_seconds :: u64
  rp_request_timeout_seconds :: u64
  rp_idle_timeout_seconds :: u64
  rp_grpc_reflection_timeout_seconds :: u64
  rp_grpc_reflection_ttl_seconds :: u64

record IdpParams =
  idp_jwt_private_key :: string
  idp_token_expiry_seconds :: u64
  idp_session_ttl_seconds :: u64
  idp_cookie_name :: string
  idp_cookie_domain :: "string option"
  idp_redirect_after_login :: string
  idp_debug_show_session_id :: "bool option"
  idp_issuer :: string
  idp_allowed_audiences :: "string list"
  idp_jwt_public_key :: "string option"
  idp_claims_webhook_url :: "string option"
  idp_claims_webhook_timeout_ms :: u64
  idp_on_webhook_failure :: string
  idp_claims_webhook_client_cert :: "string option"
  idp_claims_webhook_client_key :: "string option"
  idp_claims_webhook_ca_cert :: "string option"

record ('c, 'r) ServerConfig =
  srv_name :: string
  srv_static_name :: "string option"
  srv_ip :: "string option"
  srv_port :: "u16 option"
  srv_tunnel :: "TunnelConfig option"
  srv_enabled :: bool
  srv_service :: ServiceType
  srv_protocol :: Protocol
  srv_authentication :: AuthenticationMethod
  srv_oid_mapping :: "(string, UserRole) dashmap"
  srv_server_certs :: "ServerCertConfig option"
  srv_client_certs :: "ClientCertConfig list option"
  srv_client_cert_forwarding :: "ClientCertForwarding option"
  srv_max_connections :: usize
  srv_max_connections_per_ip :: usize
  srv_layers :: Layers
  srv_allowed_pathes :: "AllowedPathes option"
  srv_rev_routes :: "(string \<times> RouteConfig) list option"
  srv_rbac :: "(string \<times> UserRole list) list option"
  srv_router_params :: "RouterParams option"
  srv_idp_params :: "IdpParams option"
  srv_static_files_root :: "string option"
  srv_parsed_routes :: "ParsedRoute list"
  srv_compiled_allowed_pathes :: "'r CompiledAllowedPathes option"
  srv_compiled_rbac :: "CompiledRbac option"
  srv_certified_key :: "'c option"
  srv_pki_info :: ServerPkiInfo

type_synonym ('c, 'r) finalized = "(('c, 'r) ServerConfig, ConfigError) result"

definition load_server_cert :: "('c, 'd, 'e, 'r) ConfigEnv \<Rightarrow> ('c, 'r) ServerConfig \<Rightarrow> ServerPkiInfo
     \<Rightarrow> ('c option \<times> ServerPkiInfo, ConfigError) result" where
  "load_server_cert env cfg info =
     (if srv_protocol cfg = HttpsProto then
        (case srv_server_certs cfg of
           None \<Rightarrow> Err MissingServerCerts
         | Some certs \<Rightarrow>
             (case env_load_certified_key env (srv_name cfg) certs of
                Err e \<Rightarrow> Err (CertLoad e)
              | Ok key \<Rightarrow> Ok (Some key, info\<lparr> server_cert_valid_until_unix := env_not_after env key \<rparr>)))
      else Ok (srv_certified_key cfg, info))"

definition add_crl :: "('c, 'd, 'e, 'r) ConfigEnv \<Rightarrow> ServerPkiInfo \<Rightarrow> ClientCertConfig \<Rightarrow> ServerPkiInfo" where
  "add_crl env info cc =
     (case ssl_client_crl cc of
        None \<Rightarrow> info
      | Some path \<Rightarrow>
          (case env_read_crl env path of
             None \<Rightarrow> info
           | Some (revoked, next_update) \<Rightarrow>
               info\<lparr> crl_revoked_certs_count := crl_revoked_certs_count info + revoked,
                     crl_next_update_unix :=
                       (case next_update of
                          None \<Rightarrow> crl_next_update_unix info
                        | Some ts \<Rightarrow>
                            Some (case crl_next_update_unix info of Some existing \<Rightarrow> min existing ts | None \<Rightarrow> ts)) \<rparr>))"

definition router_protocol :: "RouterParams option \<Rightarrow> Protocol" where
  "router_protocol params = (case params of Some p \<Rightarrow> rp_protocol p | None \<Rightarrow> HttpProto)"

definition init_parsed_routes ::
    "('c, 'd, 'e, 'r) ConfigEnv \<Rightarrow> ('c, 'r) ServerConfig \<Rightarrow> ('c, 'r) finalized" where
  "init_parsed_routes env cfg =
     (case parse_routes (env_parse_uri env) (router_protocol (srv_router_params cfg)) (unwrap_or [] (srv_rev_routes cfg)) of
        Err e \<Rightarrow> Err e
      | Ok rules \<Rightarrow> Ok (cfg\<lparr> srv_parsed_routes := sort_key (\<lambda>r. - int (length (route_prefix r))) rules \<rparr>))"

definition AllowedPathes_default :: AllowedPathes where
  "AllowedPathes_default =
     \<lparr> raw_get = None, raw_post = None, raw_put = None, raw_delete = None, raw_patch = None, raw_head = None \<rparr>"

definition init_compiled_allowed_pathes ::
    "('c, 'd, 'e, 'r) ConfigEnv \<Rightarrow> ('c, 'r) ServerConfig \<Rightarrow> ('c, 'r) finalized" where
  "init_compiled_allowed_pathes env cfg =
     (case allowed_from_raw (env_regex_new env) (unwrap_or AllowedPathes_default (srv_allowed_pathes cfg)) of
        Err e \<Rightarrow> Err (RegexError e)
      | Ok c \<Rightarrow> Ok (cfg\<lparr> srv_compiled_allowed_pathes := Some c \<rparr>))"

definition init_compiled_rbac :: "('c, 'r) ServerConfig \<Rightarrow> ('c, 'r) ServerConfig" where
  "init_compiled_rbac cfg = cfg\<lparr> srv_compiled_rbac := map_option rbac_from_raw (srv_rbac cfg) \<rparr>"

definition validate_binding :: "('c, 'r) ServerConfig \<Rightarrow> (unit, ConfigError) result" where
  "validate_binding cfg =
     (if srv_tunnel cfg = None \<and> srv_ip cfg = None then Err MissingIp
      else if srv_tunnel cfg = None \<and> srv_port cfg = None then Err MissingPort
      else if srv_max_connections cfg = 0 then Err (NotPositive ''max_connections'')
      else if srv_max_connections_per_ip cfg = 0 then Err (NotPositive ''max_connections_per_ip'')
      else Ok ())"

definition validate_authentication :: "('c, 'r) ServerConfig \<Rightarrow> (unit, ConfigError) result" where
  "validate_authentication cfg =
     (case srv_authentication cfg of
        ClientCert \<Rightarrow> (if srv_client_certs cfg = None then Err MissingClientCerts else Ok ())
      | OptionalClientCert \<Rightarrow> (if srv_client_certs cfg = None then Err MissingClientCerts else Ok ())
      | Jwt \<Rightarrow>
          (case jwt_config (srv_layers cfg) of
             None \<Rightarrow> Err (MissingSection ''JWT'')
           | Some c \<Rightarrow>
               (if jwt_public_keys c = [] then Err EmptyJwtKeys
                else if \<not> list_ex (\<lambda>l. to_ascii_lowercase l = ''jwtauth'' \<or> to_ascii_lowercase l = ''jwt'')
                           (layers_enabled (srv_layers cfg))
                then Err JwtLayerNotEnabled
                else Ok ()))
      | NoAuthentication \<Rightarrow> Ok ())"

definition validate_service :: "('c, 'd, 'e, 'r) ConfigEnv \<Rightarrow> ('c, 'r) ServerConfig \<Rightarrow> (unit, ConfigError) result" where
  "validate_service env cfg =
     (if srv_service cfg = Idp then
        (case srv_idp_params cfg of
           None \<Rightarrow> Err (MissingSection ''IdpParams'')
         | Some p \<Rightarrow>
             (case load_encoding_key (env_read_to_string env) (env_encoding_from_pem env) (idp_jwt_private_key p) of
                Err e \<Rightarrow> Err e
              | Ok _ \<Rightarrow>
                  (if starts_with ''__Host-'' (idp_cookie_name p) \<and> srv_protocol cfg \<noteq> HttpsProto
                   then Err HostCookieWithoutHttps else Ok ())))
      else if srv_service cfg = StaticFiles then
        (if srv_static_files_root cfg = None then Err (MissingSection ''StaticFilesParams'') else Ok ())
      else Ok ())"

definition ServerPkiInfo_default :: ServerPkiInfo where
  "ServerPkiInfo_default = \<lparr> server_cert_valid_until_unix = None, crl_next_update_unix = None, crl_revoked_certs_count = 0 \<rparr>"

definition finalize_checks :: "('c, 'd, 'e, 'r) ConfigEnv \<Rightarrow> ('c, 'r) ServerConfig \<Rightarrow> ('c, 'r) finalized" where
  "finalize_checks env cfg =
     (case validate_binding cfg of Err e \<Rightarrow> Err e | Ok _ \<Rightarrow>
     (case init_parsed_routes env cfg of Err e \<Rightarrow> Err e | Ok cfg1 \<Rightarrow>
     (case init_compiled_allowed_pathes env cfg1 of Err e \<Rightarrow> Err e | Ok cfg2 \<Rightarrow>
     (let cfg3 = init_compiled_rbac cfg2 in
     (case build_middleware_layers env (srv_layers cfg3) of Err e \<Rightarrow> Err e | Ok _ \<Rightarrow>
     (if srv_protocol cfg3 = HttpsProto \<and> srv_server_certs cfg3 = None then Err MissingServerCerts else
     (case validate_authentication cfg3 of Err e \<Rightarrow> Err e | Ok _ \<Rightarrow>
     (case validate_service env cfg3 of Err e \<Rightarrow> Err e | Ok _ \<Rightarrow> Ok cfg3))))))))"

definition finalize :: "('c, 'd, 'e, 'r) ConfigEnv \<Rightarrow> ('c, 'r) ServerConfig \<Rightarrow> ('c, 'r) finalized" where
  "finalize env cfg0 =
     (let cfg = cfg0\<lparr> srv_static_name := Some (srv_name cfg0) \<rparr> in
      (case load_server_cert env cfg ServerPkiInfo_default of
         Err e \<Rightarrow> Err e
       | Ok (key, info) \<Rightarrow>
           finalize_checks env
             (cfg\<lparr> srv_certified_key := key,
                   srv_pki_info :=
                     (case srv_client_certs cfg of None \<Rightarrow> info | Some ccs \<Rightarrow> foldl (add_crl env) info ccs) \<rparr>)))"

definition map_oid_to_role :: "('c, 'r) ServerConfig \<Rightarrow> string \<Rightarrow> UserRole" where
  "map_oid_to_role cfg suffix = unwrap_or (UserRole ''Guest'') (dm_get (srv_oid_mapping cfg) suffix)"

section \<open>Lemmas on the layer list\<close>

lemma position_None: "position P xs = None \<longleftrightarrow> (\<forall>x \<in> set xs. \<not> P x)"
  by (induction xs) auto

lemma position_Some:
  "position P xs = Some i \<longleftrightarrow> i < length xs \<and> P (xs ! i) \<and> (\<forall>x \<in> set (take i xs). \<not> P x)"
proof (induction xs arbitrary: i)
  case (Cons x xs)
  then show ?case by (cases i) auto
qed simp

lemma build_all_Ok:
  "build_all env ls names = Ok layers \<longleftrightarrow> list_all2 (\<lambda>n l. build_layer env ls n = Ok l) names layers"
  by (induction names arbitrary: layers) (auto simp: list_all2_Cons1 result_bind_Ok)

definition known_layers :: "string list" where
  "known_layers =
     [''MaxPayload'', ''TraceId'', ''Timing'', ''Counter'', ''Logger'', ''PathSanitizer'', ''NormalizePath'', ''Inspection'',
      ''Compression'', ''Decompression'', ''Delay'', ''JwtAuth'', ''JWT'', ''ConcurrencyLimit'', ''Cors'', ''SecurityHeaders'',
      ''RateLimiter:Simple'', ''RateLimiter:TokenBucket'', ''AltSvc'', ''IpFilter'']"

fun layer_names :: "MiddlewareLayer \<Rightarrow> string list" where
  "layer_names TraceId = [''TraceId'']"
| "layer_names Timing = [''Timing'']"
| "layer_names Counter = [''Counter'']"
| "layer_names Logger = [''Logger'']"
| "layer_names Inspection = [''Inspection'']"
| "layer_names Compression = [''Compression'']"
| "layer_names (Decompression m) = [''Decompression'']"
| "layer_names (RateLimiterLayer (Simple c)) = [''RateLimiter:Simple'']"
| "layer_names (RateLimiterLayer (TokenBucket c)) = [''RateLimiter:TokenBucket'']"
| "layer_names (Delay d) = [''Delay'']"
| "layer_names (JwtAuth c) = [''JwtAuth'', ''JWT'']"
| "layer_names (ConcurrencyLimit c) = [''ConcurrencyLimit'']"
| "layer_names (MaxPayload m) = [''MaxPayload'']"
| "layer_names AltSvc = [''AltSvc'']"
| "layer_names (Cors c) = [''Cors'']"
| "layer_names (SecurityHeaders c) = [''SecurityHeaders'']"
| "layer_names PathSanitizer = [''PathSanitizer'', ''NormalizePath'']"
| "layer_names (IpFilterLayer c) = [''IpFilter'']"

lemma section_layer_Ok: "section_layer n cfg f = Ok l \<longleftrightarrow> (\<exists>c. cfg = Some c \<and> f c = Ok l)"
  by (simp add: section_layer_def split: option.splits)

lemma build_layer_known: "build_layer env ls n = Ok l \<Longrightarrow> n \<in> set known_layers"
proof (rule ccontr)
  assume ok: "build_layer env ls n = Ok l" and "n \<notin> set known_layers"
  then have "build_layer env ls n = Err (UnknownLayer n)" by (simp add: build_layer_def known_layers_def)
  then show False using ok by simp
qed

lemma build_layer_name:
  assumes "build_layer env ls n = Ok l"
  shows "n \<in> set (layer_names l)"
proof -
  have "n \<in> set known_layers" by (rule build_layer_known [OF assms])
  then show ?thesis
    using assms unfolding known_layers_def list.set insert_iff empty_iff
    by (elim disjE) (auto simp: build_layer_def section_layer_Ok result_bind_Ok split: if_splits)
qed

lemma build_layer_Inspection: "build_layer env ls n = Ok Inspection \<Longrightarrow> n = ''Inspection''"
  using build_layer_name [of env ls n Inspection] by simp

lemma build_layer_named:
  "build_layer env ls ''Decompression'' = Ok l \<Longrightarrow> \<exists>m. l = Decompression m"
  "build_layer env ls ''SecurityHeaders'' = Ok l \<Longrightarrow> \<exists>c. l = SecurityHeaders c"
  "build_layer env ls ''JwtAuth'' = Ok l \<Longrightarrow> \<exists>c. l = JwtAuth c \<and> jwt_config ls = Some c"
  "build_layer env ls ''JWT'' = Ok l \<Longrightarrow> \<exists>c. l = JwtAuth c \<and> jwt_config ls = Some c"
  by (auto simp: build_layer_def section_layer_Ok result_bind_Ok)

lemma known_jwt:
  assumes "n \<in> set known_layers" and "to_ascii_lowercase n = ''jwtauth'' \<or> to_ascii_lowercase n = ''jwt''"
  shows "n = ''JwtAuth'' \<or> n = ''JWT''"
proof -
  have "list_all (\<lambda>n. (to_ascii_lowercase n = ''jwtauth'' \<or> to_ascii_lowercase n = ''jwt'')
          \<longrightarrow> (n = ''JwtAuth'' \<or> n = ''JWT'')) known_layers"
    by code_simp
  then show ?thesis using assms unfolding list_all_iff by blast
qed

definition is_security :: "MiddlewareLayer \<Rightarrow> bool" where
  "is_security l = (case l of SecurityHeaders c \<Rightarrow> True | _ \<Rightarrow> False)"

lemma build_layers_OkE:
  assumes "build_middleware_layers env ls = Ok layers"
  obtains built where "validate_middleware_order (layers_enabled ls) = Ok ()"
    and "list_all2 (\<lambda>n l. build_layer env ls n = Ok l) (layers_enabled ls) built"
    and "''SecurityHeaders'' \<in> set (layers_enabled ls) \<Longrightarrow> layers = built"
    and "''SecurityHeaders'' \<notin> set (layers_enabled ls) \<Longrightarrow>
           \<exists>i c. layers = take i built @ SecurityHeaders c # drop i built \<and> (\<forall>l \<in> set (take i built). is_observer l)"
proof -
  let ?new = "\<lambda>built i c. take i built @ SecurityHeaders c # drop i built"
  let ?idx = "\<lambda>built. case position (\<lambda>l. \<not> is_observer l) built of Some i \<Rightarrow> i | None \<Rightarrow> 0"
  obtain built where v: "validate_middleware_order (layers_enabled ls) = Ok ()"
    and b: "build_all env ls (layers_enabled ls) = Ok built"
    and l: "layers = (if ''SecurityHeaders'' \<in> set (layers_enabled ls) then built
        else ?new built (?idx built) (case security_headers_config ls of Some c \<Rightarrow> c | None \<Rightarrow> SecurityHeadersConfig_default))"
    using assms by (auto simp: build_middleware_layers_def Let_def list_ex_iff split: result.splits if_splits)
  have obs: "\<forall>l \<in> set (take (?idx built) built). is_observer l"
    by (auto simp: position_Some split: option.splits)
  show ?thesis
  proof (rule that [OF v b [unfolded build_all_Ok]])
    assume "''SecurityHeaders'' \<in> set (layers_enabled ls)"
    then show "layers = built" using l by simp
  next
    assume "''SecurityHeaders'' \<notin> set (layers_enabled ls)"
    then show "\<exists>i c. layers = ?new built i c \<and> (\<forall>l \<in> set (take i built). is_observer l)"
      using l obs by metis
  qed
qed

lemma built_no_security:
  assumes b: "list_all2 (\<lambda>n l. build_layer env ls n = Ok l) names built" and "''SecurityHeaders'' \<notin> set names"
  shows "\<forall>l \<in> set built. \<not> is_security l"
proof
  fix l
  assume mem: "l \<in> set built"
  obtain n where n: "n \<in> set names" "build_layer env ls n = Ok l" using list_all2_mem2 [OF b mem] by blast
  then have "n \<in> set (layer_names l)" using build_layer_name by blast
  then show "\<not> is_security l" using n(1) assms(2) by (cases l) (auto simp: is_security_def)
qed

text \<open>A server whose configuration does not list the security headers still has them: in the built
  layer list exactly one such layer is added, everything outside it only observes (trace id, log,
  timing, counter), so every response another layer produces itself passes through it, and the
  other layers are those of the configuration in their order.\<close>

theorem security_headers_outermost:
  assumes "build_middleware_layers env ls = Ok layers" and "''SecurityHeaders'' \<notin> set (layers_enabled ls)"
  shows "\<exists>pre post c. layers = pre @ SecurityHeaders c # post
    \<and> (\<forall>l \<in> set pre. is_observer l) \<and> (\<forall>l \<in> set (pre @ post). \<not> is_security l)
    \<and> list_all2 (\<lambda>n l. build_layer env ls n = Ok l) (layers_enabled ls) (pre @ post)"
proof -
  obtain built i c where b: "list_all2 (\<lambda>n l. build_layer env ls n = Ok l) (layers_enabled ls) built"
    and l: "layers = take i built @ SecurityHeaders c # drop i built" "\<forall>l \<in> set (take i built). is_observer l"
    using build_layers_OkE [OF assms(1)] assms(2) by metis
  have "\<forall>l \<in> set built. \<not> is_security l" by (rule built_no_security [OF b assms(2)])
  then show ?thesis using b l by (intro exI [of _ "take i built"] exI [of _ "drop i built"] exI [of _ c])
      (auto dest: in_set_takeD in_set_dropD)
qed

definition demo_layers :: Layers where
  "demo_layers =
     \<lparr> layers_enabled = [''TraceId'', ''Decompression'', ''Inspection''], max_payload_config = None, decompression_config = Some 100,
       rate_limiter_config = None, token_bucket_config = None, delay_config = None, jwt_config = None,
       concurrency_limit_config = None, cors_config = None, security_headers_config = None, ip_filter_config = None \<rparr>"

lemma demo_layers_built:
  "build_middleware_layers env demo_layers
     = Ok [TraceId, SecurityHeaders SecurityHeadersConfig_default, Decompression 100, Inspection]"
  by (simp add: build_middleware_layers_def demo_layers_def validate_middleware_order_def build_layer_def section_layer_def
      is_observer_def)

theorem security_headers_outermost_witness:
  "\<exists>pre post c. [TraceId, SecurityHeaders SecurityHeadersConfig_default, Decompression 100, Inspection]
       = pre @ SecurityHeaders c # post \<and> (\<forall>l \<in> set pre. is_observer l)"
  using security_headers_outermost [OF demo_layers_built] by (fastforce simp: demo_layers_def)

lemma validate_inspection:
  assumes "validate_middleware_order enabled = Ok ()" and "enabled = na @ ''Inspection'' # nb"
    and "''Decompression'' \<in> set enabled"
  shows "''Decompression'' \<in> set na"
proof (rule ccontr)
  assume no: "''Decompression'' \<notin> set na"
  obtain d where d: "position (\<lambda>l. l = ''Decompression'') enabled = Some d"
    using assms(3) by (cases "position (\<lambda>l. l = ''Decompression'') enabled") (auto simp: position_None)
  obtain i where i: "position (\<lambda>l. l = ''Inspection'') enabled = Some i"
    using assms(2) by (cases "position (\<lambda>l. l = ''Inspection'') enabled") (auto simp: position_None)
  have "i \<le> length na"
    using i assms(2) by (auto simp: position_Some not_le take_Cons' dest!: order.strict_implies_not_eq split: if_splits)
  moreover have "length na < d"
    using d no assms(2) by (auto simp: position_Some nth_append nth_Cons' split: if_splits) (metis nth_mem)
  ultimately show False using assms(1) d i by (auto simp: validate_middleware_order_def split: if_splits option.splits)
qed

lemma filter_security_insert:
  assumes "\<forall>l \<in> set built. \<not> is_security l"
  shows "filter (\<lambda>l. \<not> is_security l) (take i built @ SecurityHeaders c # drop i built) = built"
proof -
  have "filter (\<lambda>l. \<not> is_security l) (take i built) = take i built"
    "filter (\<lambda>l. \<not> is_security l) (drop i built) = drop i built"
    using assms by (auto simp: filter_id_conv dest: in_set_takeD in_set_dropD)
  then show ?thesis by (simp add: is_security_def)
qed

text \<open>The inspection layer never sees a compressed body that the server decompresses: in a built layer
  list with a decompression layer, every inspection layer has a decompression layer outside it.\<close>

theorem inspection_after_decompression:
  assumes built: "build_middleware_layers env ls = Ok (outer @ Inspection # inner)"
    and "Decompression m \<in> set (outer @ Inspection # inner)"
  shows "\<exists>k. Decompression k \<in> set outer"
proof -
  let ?L = "\<lambda>n l. build_layer env ls n = Ok l" and ?S = "\<lambda>l. \<not> is_security l"
  obtain b where v: "validate_middleware_order (layers_enabled ls) = Ok ()" and l2: "list_all2 ?L (layers_enabled ls) b"
    and sec: "''SecurityHeaders'' \<in> set (layers_enabled ls) \<Longrightarrow> outer @ Inspection # inner = b"
    and ins: "''SecurityHeaders'' \<notin> set (layers_enabled ls) \<Longrightarrow>
        \<exists>i c. outer @ Inspection # inner = take i b @ SecurityHeaders c # drop i b"
    using build_layers_OkE [OF built] by metis
  have "\<exists>out inn. b = out @ Inspection # inn \<and> set out \<subseteq> set outer \<and> Decompression m \<in> set b"
  proof (cases "''SecurityHeaders'' \<in> set (layers_enabled ls)")
    case True
    then show ?thesis using sec assms(2) by blast
  next
    case False
    obtain i c where "outer @ Inspection # inner = take i b @ SecurityHeaders c # drop i b" using ins [OF False] by blast
    then have "b = filter ?S (outer @ Inspection # inner)"
      using filter_security_insert [OF built_no_security [OF l2 False], of i c] by simp
    then show ?thesis
      using assms(2) by (intro exI [of _ "filter ?S outer"] exI [of _ "filter ?S inner"]) (auto simp: is_security_def)
  qed
  then obtain out inn where b: "b = out @ Inspection # inn" "set out \<subseteq> set outer" "Decompression m \<in> set b" by blast
  obtain na n nb where e: "layers_enabled ls = na @ n # nb" "list_all2 ?L na out" "build_layer env ls n = Ok Inspection"
    using l2 unfolding b(1) list_all2_append2 list_all2_Cons2 by blast
  have n: "n = ''Inspection''" by (rule build_layer_Inspection [OF e(3)])
  have "''Decompression'' \<in> set (layers_enabled ls)"
    using list_all2_mem2 [OF l2 b(3)] build_layer_name by fastforce
  then have "''Decompression'' \<in> set na" using validate_inspection [OF v] e(1) n by blast
  then show ?thesis using list_all2_mem1 [OF e(2)] build_layer_named(1) b(2) by blast
qed

theorem inspection_after_decompression_witness:
  "\<exists>k. Decompression k \<in> set [TraceId, SecurityHeaders SecurityHeadersConfig_default, Decompression 100]"
  using inspection_after_decompression [of undefined demo_layers
      "[TraceId, SecurityHeaders SecurityHeadersConfig_default, Decompression 100]" "[]" 100]
  by (simp add: demo_layers_built)

text \<open>When every configured layer only observes, the added security headers end up outside the trace
  id layer, which the validation requires to be the first.\<close>

theorem trace_id_displaced:
  "validate_middleware_order [''TraceId'', ''Logger''] = Ok ()
   \<and> build_middleware_layers env (demo_layers\<lparr> layers_enabled := [''TraceId'', ''Logger''] \<rparr>)
       = Ok [SecurityHeaders SecurityHeadersConfig_default, TraceId, Logger]"
  by (simp add: build_middleware_layers_def demo_layers_def validate_middleware_order_def build_layer_def
      is_observer_def)

section \<open>What finalize guarantees\<close>

lemma finalize_checks_OkE:
  assumes "finalize_checks env cfg1 = Ok cfg"
  obtains rules compiled layers where
    "parse_routes (env_parse_uri env) (router_protocol (srv_router_params cfg1)) (unwrap_or [] (srv_rev_routes cfg1)) = Ok rules"
    and "allowed_from_raw (env_regex_new env) (unwrap_or AllowedPathes_default (srv_allowed_pathes cfg1)) = Ok compiled"
    and "cfg = cfg1\<lparr> srv_parsed_routes := sort_key (\<lambda>r. - int (length (route_prefix r))) rules,
                     srv_compiled_allowed_pathes := Some compiled,
                     srv_compiled_rbac := map_option rbac_from_raw (srv_rbac cfg1) \<rparr>"
    and "validate_binding cfg1 = Ok ()"
    and "build_middleware_layers env (srv_layers cfg1) = Ok layers"
    and "validate_authentication cfg1 = Ok ()"
proof -
  obtain cfg2 cfg3 layers where vb: "validate_binding cfg1 = Ok ()" and c2: "init_parsed_routes env cfg1 = Ok cfg2"
    and c3: "init_compiled_allowed_pathes env cfg2 = Ok cfg3" and cfg: "cfg = init_compiled_rbac cfg3"
    and bl: "build_middleware_layers env (srv_layers cfg) = Ok layers"
    and va: "validate_authentication cfg = Ok ()"
    using assms unfolding finalize_checks_def Let_def result_bind_Ok by (auto split: if_splits simp: result_bind_Ok)
  obtain rules where r: "parse_routes (env_parse_uri env) (router_protocol (srv_router_params cfg1))
      (unwrap_or [] (srv_rev_routes cfg1)) = Ok rules"
    and cfg2: "cfg2 = cfg1\<lparr> srv_parsed_routes := sort_key (\<lambda>r. - int (length (route_prefix r))) rules \<rparr>"
    using c2 by (auto simp: init_parsed_routes_def result_bind_Ok)
  obtain compiled where "allowed_from_raw (env_regex_new env) (unwrap_or AllowedPathes_default (srv_allowed_pathes cfg1)) = Ok compiled"
    and cfg3: "cfg3 = cfg2\<lparr> srv_compiled_allowed_pathes := Some compiled \<rparr>"
    using c3 cfg2 by (auto simp: init_compiled_allowed_pathes_def split: result.splits)
  moreover have same: "srv_layers cfg = srv_layers cfg1" "srv_authentication cfg = srv_authentication cfg1"
    "srv_client_certs cfg = srv_client_certs cfg1"
    by (simp_all add: cfg init_compiled_rbac_def cfg3 cfg2)
  moreover have "validate_authentication cfg1 = Ok ()"
    using va unfolding validate_authentication_def same .
  ultimately show ?thesis using that r vb bl unfolding cfg init_compiled_rbac_def cfg3 cfg2 by simp
qed

definition route_ok :: "ParsedRoute \<Rightarrow> bool" where
  "route_ok r \<longleftrightarrow> 0 < failure_threshold (route_target r)
     \<and> (upstreams (route_target r) = [] \<longrightarrow> route_backend_type r = AdminBackend)
     \<and> (\<forall>n \<in> set (upstreams (route_target r)). n = UpstreamNode_new (node_uri n))"

lemma parse_upstreams_new:
  "parse_upstreams parse_uri proto us = Ok ns \<Longrightarrow>
     length ns = length us \<and> (\<forall>n \<in> set ns. n = UpstreamNode_new (node_uri n))"
  by (induction us arbitrary: ns) (auto simp: UpstreamNode_new_def split: result.splits)

lemma parse_route_ok:
  assumes "parse_route parse_uri proto pfx c = Ok r"
  shows "route_ok r"
proof -
  obtain ns where ns: "parse_upstreams parse_uri proto (rc_upstreams c) = Ok ns" "upstreams (route_target r) = ns"
    and b: "route_backend_type r = rc_backend_type c" "rc_upstreams c = [] \<longrightarrow> rc_backend_type c = AdminBackend"
    and f: "failure_threshold (route_target r) = max (unwrap_or 3 (rc_failure_threshold c)) 1"
    using assms by (auto simp: parse_route_def split: result.splits if_splits)
  have "0 < failure_threshold (route_target r)"
    unfolding f by (rule order.strict_trans2 [of 0 1]) simp_all
  then show ?thesis using parse_upstreams_new [OF ns(1)] ns(2) b by (auto simp: route_ok_def)
qed

lemma parse_routes_ok:
  "parse_routes parse_uri proto raw = Ok rs \<Longrightarrow> r \<in> set rs \<Longrightarrow> route_ok r"
proof (induction raw arbitrary: rs)
  case (Cons a raw)
  obtain r' rs' where r: "parse_route parse_uri proto (fst a) (snd a) = Ok r'"
      and "parse_routes parse_uri proto raw = Ok rs'" "rs = r' # rs'"
    using Cons.prems(1) by (cases a) (auto simp: result_bind_Ok)
  then show ?case using Cons.prems(2) Cons.IH parse_route_ok [OF r] by auto
qed simp

lemma jwt_layer_built:
  assumes built: "build_middleware_layers env ls = Ok layers" and cfg: "jwt_config ls = Some c"
    and l: "l \<in> set (layers_enabled ls)" "to_ascii_lowercase l = ''jwtauth'' \<or> to_ascii_lowercase l = ''jwt''"
  shows "JwtAuth c \<in> set layers"
proof -
  obtain b where b: "list_all2 (\<lambda>n l. build_layer env ls n = Ok l) (layers_enabled ls) b"
    and sub: "set b \<subseteq> set layers"
  proof (rule build_layers_OkE [OF built])
    fix b
    assume l2: "list_all2 (\<lambda>n l. build_layer env ls n = Ok l) (layers_enabled ls) b"
      and s: "''SecurityHeaders'' \<in> set (layers_enabled ls) \<Longrightarrow> layers = b"
        "''SecurityHeaders'' \<notin> set (layers_enabled ls) \<Longrightarrow>
           \<exists>i c. layers = take i b @ SecurityHeaders c # drop i b \<and> (\<forall>l \<in> set (take i b). is_observer l)"
    have "set b \<subseteq> set (take i b) \<union> set (drop i b)" for i by (metis append_take_drop_id set_append order_refl)
    then have "set b \<subseteq> set layers" using s by (cases "''SecurityHeaders'' \<in> set (layers_enabled ls)") fastforce+
    then show thesis using that l2 by blast
  qed
  obtain y where y: "y \<in> set b" "build_layer env ls l = Ok y" using list_all2_mem1 [OF b l(1)] by blast
  then have "l = ''JwtAuth'' \<or> l = ''JWT''" using known_jwt [OF build_layer_known l(2)] by blast
  then have "y = JwtAuth c" using y(2) cfg build_layer_named(3,4) by fastforce
  then show ?thesis using y(1) sub by blast
qed


definition demo_env :: "(string, string, string, string) ConfigEnv" where
  "demo_env =
     \<lparr> env_read_to_string = (\<lambda>p. Ok p), env_decoding_from_pem = (\<lambda>p. Ok p), env_encoding_from_pem = (\<lambda>p. Ok p),
       env_load_certified_key = (\<lambda>n c. Ok (ssl_certificate c)), env_not_after = (\<lambda>k. None), env_read_crl = (\<lambda>p. None),
       env_regex_new = (\<lambda>p. Ok p),
       env_parse_uri = (\<lambda>s. Ok \<lparr> uri_scheme = None, uri_authority = Some s, uri_path = ''/'', uri_query = None \<rparr>) \<rparr>"

definition demo_jwt_config :: JwtAuthConfig where
  "demo_jwt_config =
     \<lparr> jwt_public_keys = [''key.pem''], cookie_fallback = None, redirect_on_failure = None, expected_issuer = ''idp'',
       expected_audience = [], revoke_on_paths = [''/logout''] \<rparr>"

definition demo_server :: "Protocol \<Rightarrow> AuthenticationMethod \<Rightarrow> (string, string) ServerConfig" where
  "demo_server proto auth =
     \<lparr> srv_name = ''edge'', srv_static_name = None, srv_ip = Some ''0.0.0.0'', srv_port = Some 443, srv_tunnel = None, srv_enabled = True,
       srv_service = Router, srv_protocol = proto, srv_authentication = auth, srv_oid_mapping = [],
       srv_server_certs = Some \<lparr> ssl_certificate = ''c.pem'', ssl_certificate_key = ''k.pem'' \<rparr>,
       srv_client_certs = Some [\<lparr> ssl_client_ca = ''ca.pem'', ssl_client_crl = None \<rparr>], srv_client_cert_forwarding = None,
       srv_max_connections = 100, srv_max_connections_per_ip = 10,
       srv_layers = demo_layers\<lparr> layers_enabled := [''JwtAuth''], jwt_config := Some demo_jwt_config \<rparr>,
       srv_allowed_pathes = None,
       srv_rev_routes = Some [(''/api'', \<lparr> rc_upstreams = [''b1:80''], rc_strategy = RoundRobin, rc_allowed_roles = [],
            rc_cooldown_seconds = None, rc_max_retries = None, rc_failure_threshold = Some 0,
            rc_max_retry_buffer_bytes = None, rc_active_health_check_interval = None, rc_backend_type = Rest \<rparr>)],
       srv_rbac = None, srv_router_params = None, srv_idp_params = None, srv_static_files_root = None,
       srv_parsed_routes = [], srv_compiled_allowed_pathes = None, srv_compiled_rbac = None, srv_certified_key = None,
       srv_pki_info = ServerPkiInfo_default \<rparr>"


text \<open>The validation does not tie client certificates to TLS: a plain-HTTP server whose authentication
  is \<open>ClientCert\<close> is accepted, although nothing on that listener can ask for a certificate.\<close>

theorem client_cert_without_tls_accepted:
  "case finalize demo_env (demo_server HttpProto ClientCert) of
     Ok cfg \<Rightarrow> srv_authentication cfg = ClientCert \<and> srv_protocol cfg = HttpProto \<and> srv_certified_key cfg = None
   | Err e \<Rightarrow> False"
  by code_simp

end
