(* ===== verification/Http_Proxy.thy ===== *)
theory Http_Proxy
  imports Load_Balancer Proxy_Headers Ip_Text
begin

text \<open>
  Forwarding a request with failover: \<open>handle_http_proxy\<close>, the error classification and the body
  wrapper of \<open>server/src/middleware/router/http_proxy.rs\<close>, and \<open>handle_grpc_passthrough\<close> of
  \<open>server/src/middleware/router/grpc_passthrough.rs\<close>. The two handlers have the same loop and differ in
  the record \<open>Flavour\<close>: which requests may be sent again, what counts as an outlier, the last header
  changes, the HTTP version and the error responses.

  One turn of the loop is \<open>proxy_attempt\<close>. What the outside does in a turn is an \<open>AttemptEnv\<close>: random
  numbers, the clock before and after the upstream call, the answer of the client library as a
  function of the request that is sent, and what other requests do to the shared nodes meanwhile. The
  requests handed to the client library are collected in \<open>ps_sent\<close>. The result \<open>Waiting\<close> is an upstream
  call that never completes without a time limit, \<open>Panicked\<close> the panic of an empty node list.
  The guards are dropped where their scope ends, the connection guard first.
\<close>

section \<open>Errors\<close>

fun srv_error_string :: "SrvError \<Rightarrow> string" where
  "srv_error_string (Hyper e) = ''Hyper: '' @ e"
| "srv_error_string (HyperUtil e) = ''HyperUtil: '' @ e"
| "srv_error_string (PayloadTooLarge cur mx) =
     ''Payload Limit Exceeded: '' @ show_nat (unat cur) @ '' > '' @ show_nat (unat mx)"
| "srv_error_string (DecompressionLimitExceeded mx) =
     ''Decompressed payload exceeds maximum allowed size: limit '' @ show_nat (unat mx)"
| "srv_error_string (ClientAborted s) = ''Client Aborted: '' @ s"
| "srv_error_string (Other s) = ''Internal Error: '' @ s"

definition recorded_error :: "SrvError \<Rightarrow> SrvError" where
  "recorded_error e =
     (case e of
        PayloadTooLarge cur mx \<Rightarrow> PayloadTooLarge cur mx
      | DecompressionLimitExceeded mx \<Rightarrow> DecompressionLimitExceeded mx
      | ClientAborted msg \<Rightarrow> ClientAborted msg
      | _ \<Rightarrow>
          (let msg = srv_error_string e
           in if str_contains ''Payload Limit Exceeded'' msg then PayloadTooLarge 0 0
              else if str_contains ''Decompressed payload'' msg then DecompressionLimitExceeded 0
              else ClientAborted msg))"

text \<open>The error a \<open>BodyErrorTracker\<close> holds after the given frames were polled.\<close>

fun tracked_error :: "SrvError option \<Rightarrow> SrvBody \<Rightarrow> SrvError option" where
  "tracked_error held [] = held"
| "tracked_error held (Err e # frames) = tracked_error (Some (recorded_error e)) frames"
| "tracked_error held (Ok f # frames) = tracked_error held frames"

datatype ProxyErrorKind =
    KindPayloadTooLarge
  | KindDecompressionLimitExceeded
  | KindClientAborted string
  | KindUpstreamFailure

datatype IoErrorKind = BrokenPipe | ConnectionReset | ConnectionAborted | UnexpectedEof | OtherIo

text \<open>One error of the source chain: what it can be downcast to, and its text.\<close>

record ErrorNode =
  en_srv :: "SrvError option"
  en_hyper_user :: bool            \<comment> \<open>a \<open>hyper::Error\<close> with \<open>is_user\<close> or \<open>is_body_write_aborted\<close>\<close>
  en_io :: "IoErrorKind option"
  en_msg :: string

record ClientError =
  ce_is_connect :: bool
  ce_chain :: "ErrorNode list"     \<comment> \<open>the error and its sources\<close>

fun srv_kind :: "SrvError \<Rightarrow> ProxyErrorKind option" where
  "srv_kind (PayloadTooLarge _ _) = Some KindPayloadTooLarge"
| "srv_kind (DecompressionLimitExceeded _) = Some KindDecompressionLimitExceeded"
| "srv_kind (ClientAborted msg) = Some (KindClientAborted msg)"
| "srv_kind _ = None"

definition io_aborted :: "IoErrorKind option \<Rightarrow> bool" where
  "io_aborted k = (case k of Some io \<Rightarrow> io \<noteq> OtherIo | None \<Rightarrow> False)"

fun classify_chain :: "bool \<Rightarrow> ErrorNode list \<Rightarrow> ProxyErrorKind" where
  "classify_chain is_user_body [] =
     (if is_user_body then KindClientAborted ''Client body write aborted'' else KindUpstreamFailure)"
| "classify_chain is_user_body (e # sources) =
     (case Option.bind (en_srv e) srv_kind of
        Some k \<Rightarrow> k
      | None \<Rightarrow>
          (let user = is_user_body \<or> en_hyper_user e; msg = en_msg e
           in if user \<and> io_aborted (en_io e) then KindClientAborted msg
              else if str_contains ''Payload Limit Exceeded'' msg then KindPayloadTooLarge
              else if str_contains ''Decompressed payload exceeds maximum allowed size'' msg
              then KindDecompressionLimitExceeded
              else if str_contains ''sent by user'' msg \<or> str_contains ''user body write aborted'' msg
              then KindClientAborted msg
              else classify_chain user sources))"

definition classify_proxy_error :: "ClientError \<Rightarrow> ProxyErrorKind" where
  "classify_proxy_error err =
     (if ce_is_connect err then KindUpstreamFailure else classify_chain False (ce_chain err))"

definition body_error_kind :: "SrvError \<Rightarrow> ProxyErrorKind" where
  "body_error_kind e = (case srv_kind e of Some k \<Rightarrow> k | None \<Rightarrow> KindClientAborted ''Client stream error'')"

section \<open>The handlers and their environment\<close>

datatype Version = HTTP_09 | HTTP_10 | HTTP_11 | HTTP_2 | HTTP_3

record ProxyRequest =
  px_method :: string
  px_uri :: Uri
  px_version :: Version
  px_headers :: HeaderMap
  px_body :: SrvBody

datatype SendResult = NoAnswer | Answer u64 Response | SendError nat ClientError

record AttemptEnv =
  ae_rng :: Rng
  ae_now :: u64                                 \<comment> \<open>clock when the node is chosen\<close>
  ae_send :: "ProxyRequest \<Rightarrow> SendResult"
  ae_others :: "RouteTarget \<Rightarrow> RouteTarget"      \<comment> \<open>other requests, while this one waits\<close>
  ae_end :: u64                                 \<comment> \<open>clock when the outcome is recorded\<close>

record Flavour =
  fl_retryable :: bool                          \<comment> \<open>apart from the body being replayable\<close>
  fl_outlier :: "Response \<Rightarrow> bool"
  fl_headers :: "HeaderMap \<Rightarrow> HeaderMap"
  fl_version :: Version
  fl_timeout :: Response
  fl_error :: "ProxyErrorKind \<Rightarrow> Response"

record ProxyIo =
  io_parse :: pq_parser
  io_from_parts :: uri_builder
  io_hash :: "IpAddr \<Rightarrow> usize"
  io_inject :: "HeaderMap \<Rightarrow> HeaderMap"          \<comment> \<open>trace context propagation\<close>
  io_env :: "nat \<Rightarrow> AttemptEnv"

record ProxyCall =
  pc_flavour :: Flavour
  pc_method :: string
  pc_uri :: Uri
  pc_rest :: "string option"
  pc_client :: "SocketAddr option"
  pc_timeout :: bool                            \<comment> \<open>a request timeout is configured\<close>
  pc_io :: ProxyIo
  pc_multi :: bool
  pc_max_retries :: nat
  pc_stream :: bool

record ProxyState =
  ps_target :: RouteTarget
  ps_failed :: "Uri list"
  ps_attempts :: nat
  ps_headers :: HeaderMap
  ps_body :: RequestBody
  ps_sent :: "(nat \<times> ProxyRequest) list"

datatype ProxyResult =
    Returned "(Response, SrvError) result" "Uri option"   \<comment> \<open>with the node whose connection guard lives in the body\<close>
  | Waiting
  | Panicked

datatype turn = Continue ProxyState | Done ProxyResult ProxyState

section \<open>One turn\<close>

definition upd_node :: "nat \<Rightarrow> (UpstreamNode \<Rightarrow> UpstreamNode) \<Rightarrow> RouteTarget \<Rightarrow> RouteTarget" where
  "upd_node i f t = t\<lparr> upstreams := (upstreams t)[i := f (upstreams t ! i)] \<rparr>"

definition probe_start :: "bool \<Rightarrow> u64 \<Rightarrow> nat \<Rightarrow> RouteTarget \<Rightarrow> ProbeGuard option \<times> RouteTarget" where
  "probe_start multi now i t =
     (if multi then
        (case ProbeGuard_new (cooldown_seconds t) now (upstreams t ! i) of (g, n) \<Rightarrow> (Some g, upd_node i (\<lambda>_. n) t))
      else (None, t))"

definition drop_probe :: "ProbeGuard option \<Rightarrow> nat \<Rightarrow> RouteTarget \<Rightarrow> RouteTarget" where
  "drop_probe guard i t = (case guard of Some g \<Rightarrow> upd_node i (probe_drop g) t | None \<Rightarrow> t)"

definition drop_guards :: "ProbeGuard option \<Rightarrow> nat \<Rightarrow> Uri \<Rightarrow> RouteTarget \<Rightarrow> RouteTarget" where
  "drop_guards guard i uri t = drop_probe guard i (conn_guard_drop uri t)"

definition set_host :: "Uri \<Rightarrow> HeaderMap \<Rightarrow> HeaderMap" where
  "set_host uri h =
     (case uri_authority uri of
        Some auth \<Rightarrow> (case header_value auth of Some v \<Rightarrow> hm_insert ''host'' v h | None \<Rightarrow> h)
      | None \<Rightarrow> h)"

definition buffered_frames :: "u8 list \<Rightarrow> SrvBody" where
  "buffered_frames bs = (if bs = [] then [] else [Ok (Data bs)])"

fun take_body :: "RequestBody \<Rightarrow> SrvBody \<times> RequestBody" where
  "take_body (RStream b) = (b, Buffered [])"
| "take_body (Buffered bs) = (buffered_frames bs, Buffered bs)"

fun is_rstream :: "RequestBody \<Rightarrow> bool" where
  "is_rstream (RStream b) = True" | "is_rstream (Buffered bs) = False"

definition may_retry :: "ProxyCall \<Rightarrow> nat \<Rightarrow> bool" where
  "may_retry c attempts \<longleftrightarrow> \<not> pc_stream c \<and> fl_retryable (pc_flavour c) \<and> attempts \<le> pc_max_retries c"

definition count_retry :: "nat \<Rightarrow> RouteTarget \<Rightarrow> RouteTarget" where
  "count_retry i = upd_node i (\<lambda>n. n\<lparr> failover_retries := failover_retries n + 1 \<rparr>)"

text \<open>The node was given up: the next turn, or this response when the request cannot be sent again.\<close>

definition give_up :: "ProxyCall \<Rightarrow> nat \<Rightarrow> Uri \<Rightarrow> ProbeGuard option \<Rightarrow> ProxyState \<Rightarrow> Response \<Rightarrow> turn" where
  "give_up c i uri guard st resp =
     (if may_retry c (ps_attempts st)
      then Continue (st\<lparr> ps_target := drop_guards guard i uri (count_retry i (ps_target st)) \<rparr>)
      else Done (Returned (Ok resp) None) (st\<lparr> ps_target := drop_guards guard i uri (ps_target st) \<rparr>))"

definition pass_response :: "nat \<Rightarrow> Uri \<Rightarrow> ProbeGuard option \<Rightarrow> ProxyState \<Rightarrow> Response \<Rightarrow> turn" where
  "pass_response i uri guard st res =
     Done (Returned (Ok (res\<lparr> resp_headers := clean_response_headers (resp_headers res) \<rparr>)) (Some uri))
       (st\<lparr> ps_target := drop_probe guard i (ps_target st) \<rparr>)"

definition error_kind :: "SrvError option \<Rightarrow> ClientError \<Rightarrow> ProxyErrorKind" where
  "error_kind client_error e =
     (case client_error of Some srv_err \<Rightarrow> body_error_kind srv_err | None \<Rightarrow> classify_proxy_error e)"

definition handle_result ::
    "ProxyCall \<Rightarrow> AttemptEnv \<Rightarrow> nat \<Rightarrow> Uri \<Rightarrow> ProbeGuard option \<Rightarrow> bool \<Rightarrow> ProxyRequest \<Rightarrow> ProxyState \<Rightarrow> turn" where
  "handle_result c env i uri guard streamed req st =
     (let t = ps_target st; completed_guard = map_option probe_complete guard
      in (case ae_send env req of
            NoAnswer \<Rightarrow>
              (if \<not> pc_timeout c then Done Waiting st
               else give_up c i uri completed_guard
                      (st\<lparr> ps_target := target_mark_dead (ae_end env) uri t, ps_failed := ps_failed st @ [uri] \<rparr>)
                      (fl_timeout (pc_flavour c)))
          | Answer ms res \<Rightarrow>
              (let t1 = upd_node i (record_latency_ms ms) t
               in if fl_outlier (pc_flavour c) res
                  then
                    (let t2 = snd (target_record_failure (ae_end env) uri t1);
                         st' = st\<lparr> ps_target := t2, ps_failed := (if pc_multi c then ps_failed st @ [uri] else ps_failed st) \<rparr>
                     in if may_retry c (ps_attempts st)
                        then Continue (st'\<lparr> ps_target := drop_guards completed_guard i uri (count_retry i t2) \<rparr>)
                        else pass_response i uri completed_guard st' res)
                  else pass_response i uri completed_guard (st\<lparr> ps_target := upd_node i record_success t1 \<rparr>) res)
          | SendError polled e \<Rightarrow>
              (case error_kind (if streamed then tracked_error None (take polled (px_body req)) else None) e of
                 KindUpstreamFailure \<Rightarrow>
                   give_up c i uri completed_guard
                     (st\<lparr> ps_target := target_mark_dead (ae_end env) uri t, ps_failed := ps_failed st @ [uri] \<rparr>)
                     (fl_error (pc_flavour c) KindUpstreamFailure)
               | kind \<Rightarrow>
                   Done (Returned (Ok (fl_error (pc_flavour c) kind)) None) (st\<lparr> ps_target := drop_guards guard i uri t \<rparr>))))"

definition proxy_attempt :: "ProxyCall \<Rightarrow> ProxyState \<Rightarrow> turn" where
  "proxy_attempt c st =
     (let env = io_env (pc_io c) (ps_attempts st);
          last_try = (ps_attempts st = pc_max_retries c);
          st1 = st\<lparr> ps_headers := (if last_try then [] else ps_headers st), ps_attempts := Suc (ps_attempts st) \<rparr>
      in (case next_upstream (io_hash (pc_io c)) (ae_rng env) (ae_now env) (pc_client c) (ps_failed st) (ps_target st) of
            (None, t) \<Rightarrow> Done Panicked (st1\<lparr> ps_target := t \<rparr>)
          | (Some i, t) \<Rightarrow>
              (let uri = node_uri (upstreams t ! i)
               in (case probe_start (pc_multi c) (ae_now env) i t of
                     (guard, t1) \<Rightarrow>
                       (let t2 = conn_guard_new uri t1
                        in (case build_upstream_uri (io_parse (pc_io c)) (io_from_parts (pc_io c)) uri (pc_rest c) (pc_uri c) of
                              Err e \<Rightarrow> Done (Returned (Err e) None) (st1\<lparr> ps_target := drop_guards guard i uri t2 \<rparr>)
                            | Ok target_uri \<Rightarrow>
                                (let (body, body_left) = take_body (ps_body st);
                                     req = \<lparr> px_method = pc_method c, px_uri = target_uri, px_version = fl_version (pc_flavour c),
                                             px_headers = io_inject (pc_io c) (fl_headers (pc_flavour c) (set_host target_uri (ps_headers st))),
                                             px_body = body \<rparr>;
                                     st2 = st1\<lparr> ps_target := ae_others env t2, ps_body := body_left,
                                                ps_sent := ps_sent st @ [(i, req)] \<rparr>
                                 in handle_result c env i uri guard (is_rstream (ps_body st)) req st2)))))))"

section \<open>The loop\<close>

lemma attempt_continue:
  assumes "proxy_attempt c st = Continue st'"
  shows "ps_attempts st' = Suc (ps_attempts st) \<and> may_retry c (ps_attempts st')"
  using assms unfolding proxy_attempt_def Let_def
  by (auto simp: handle_result_def give_up_def pass_response_def Let_def
      split: prod.splits option.splits result.splits SendResult.splits ProxyErrorKind.splits if_splits)

function proxy_loop :: "ProxyCall \<Rightarrow> ProxyState \<Rightarrow> ProxyResult \<times> ProxyState" where
  "proxy_loop c st = (case proxy_attempt c st of Done r st' \<Rightarrow> (r, st') | Continue st' \<Rightarrow> proxy_loop c st')"
  by pat_completeness auto
termination
proof (relation "measure (\<lambda>(c, st). Suc (pc_max_retries c) - ps_attempts st)")
  fix c st st'
  assume "proxy_attempt c st = Continue st'"
  from attempt_continue [OF this] show "((c, st'), (c, st)) \<in> measure (\<lambda>(c, st). Suc (pc_max_retries c) - ps_attempts st)"
    by (auto simp: may_retry_def)
qed simp

declare proxy_loop.simps [simp del]

definition start_proxy ::
    "Flavour \<Rightarrow> ProxyIo \<Rightarrow> bool \<Rightarrow> RouteTarget \<Rightarrow> RequestBody \<Rightarrow> string \<Rightarrow> HeaderMap \<Rightarrow> Uri \<Rightarrow> string option
     \<Rightarrow> SocketAddr option \<Rightarrow> ProxyResult \<times> ProxyState" where
  "start_proxy flavour io timeout target body meth headers uri rest client =
     (let is_multi_node = (length (upstreams target) > 1)
      in proxy_loop
           \<lparr> pc_flavour = flavour, pc_method = meth, pc_uri = uri, pc_rest = rest, pc_client = client,
             pc_timeout = timeout, pc_io = io, pc_multi = is_multi_node,
             pc_max_retries = (if is_multi_node then min (unat (max_retries target)) (length (upstreams target) - 1) else 0),
             pc_stream = is_rstream body \<rparr>
           \<lparr> ps_target = target, ps_failed = [], ps_attempts = 0, ps_headers = headers, ps_body = body, ps_sent = [] \<rparr>)"

definition is_idempotent :: "string \<Rightarrow> bool" where
  "is_idempotent meth \<longleftrightarrow> meth = ''GET'' \<or> meth = ''HEAD'' \<or> meth = ''PUT'' \<or> meth = ''DELETE'' \<or> meth = ''OPTIONS''"

fun http_error :: "ProxyErrorKind \<Rightarrow> Response" where
  "http_error KindPayloadTooLarge = build_error_response ''Payload Too Large'' 413"
| "http_error KindDecompressionLimitExceeded = build_error_response ''Payload Too Large'' 413"
| "http_error (KindClientAborted reason) = build_error_response ''Client Closed Request'' 400"
| "http_error KindUpstreamFailure = build_error_response ''Bad Gateway'' 502"

definition http_flavour :: "string \<Rightarrow> Version \<Rightarrow> Flavour" where
  "http_flavour meth version =
     \<lparr> fl_retryable = is_idempotent meth, fl_outlier = (\<lambda>res. is_outlier_status (resp_status res)),
       fl_headers = (\<lambda>h. h), fl_version = version,
       fl_timeout = build_error_response ''Gateway Timeout'' 504, fl_error = http_error \<rparr>"

definition handle_http_proxy ::
    "ProxyIo \<Rightarrow> bool \<Rightarrow> RouteTarget \<Rightarrow> RequestBody \<Rightarrow> string \<Rightarrow> Version \<Rightarrow> HeaderMap \<Rightarrow> Uri \<Rightarrow> string option
     \<Rightarrow> SocketAddr option \<Rightarrow> ProxyResult \<times> ProxyState" where
  "handle_http_proxy io timeout target body meth version headers uri rest client =
     start_proxy (http_flavour meth version) io timeout target body meth headers uri rest client"

definition build_grpc_error_response :: "string \<Rightarrow> nat \<Rightarrow> string \<Rightarrow> Response" where
  "build_grpc_error_response msg http_status grpc_status_code =
     \<lparr> resp_status = http_status,
       resp_headers = hm_append ''grpc-message'' msg
                        (hm_append ''grpc-status'' grpc_status_code (hm_append ''content-type'' ''application/grpc'' [])),
       resp_body = [] \<rparr>"

fun grpc_error :: "ProxyErrorKind \<Rightarrow> Response" where
  "grpc_error KindPayloadTooLarge = build_grpc_error_response ''Payload Too Large'' 413 ''8''"
| "grpc_error KindDecompressionLimitExceeded = build_grpc_error_response ''Payload Too Large'' 413 ''8''"
| "grpc_error (KindClientAborted reason) = build_grpc_error_response ''Client Closed Request'' 400 ''1''"
| "grpc_error KindUpstreamFailure = build_grpc_error_response ''Bad Gateway'' 502 ''14''"

definition grpc_headers :: "HeaderMap \<Rightarrow> HeaderMap" where
  "grpc_headers h =
     hm_insert ''te'' ''trailers'' (hm_remove ''te'' (hm_remove ''upgrade'' (hm_remove ''transfer-encoding'' (hm_remove ''connection'' h))))"

definition grpc_flavour :: Flavour where
  "grpc_flavour =
     \<lparr> fl_retryable = True, fl_outlier = (\<lambda>res. is_grpc_outlier_response (resp_status res) (resp_headers res)),
       fl_headers = grpc_headers, fl_version = HTTP_2,
       fl_timeout = build_grpc_error_response ''Gateway Timeout'' 504 ''4'', fl_error = grpc_error \<rparr>"

definition handle_grpc_passthrough ::
    "ProxyIo \<Rightarrow> bool \<Rightarrow> RouteTarget \<Rightarrow> RequestBody \<Rightarrow> string \<Rightarrow> HeaderMap \<Rightarrow> Uri \<Rightarrow> string option
     \<Rightarrow> SocketAddr option \<Rightarrow> ProxyResult \<times> ProxyState" where
  "handle_grpc_passthrough io timeout target body meth headers uri rest client =
     start_proxy grpc_flavour io timeout target body meth headers uri rest client"

section \<open>What a turn keeps\<close>

named_theorems turn_frame

definition uris :: "RouteTarget \<Rightarrow> Uri list" where
  "uris t = map node_uri (upstreams t)"

definition conns :: "RouteTarget \<Rightarrow> usize list" where
  "conns t = map active_connections (upstreams t)"

definition health :: "RouteTarget \<Rightarrow> (bool \<times> usize \<times> u64 \<times> u64 \<times> u64) list" where
  "health t = map (\<lambda>n. (is_alive n, consecutive_failures n, last_failure_time n, total_failures n, circuit_trips n)) (upstreams t)"

lemma uris_length: "length (upstreams t) = length (uris t)"
  by (simp add: uris_def)

lemma uris_nth: "i < length (uris t) \<Longrightarrow> node_uri (upstreams t ! i) = uris t ! i"
  by (simp add: uris_def)

lemma map_upd_same: "(i < length xs \<Longrightarrow> f y = f (xs ! i)) \<Longrightarrow> map f (xs[i := y]) = map f xs"
  by (cases "i < length xs") (auto simp: map_update list_update_same_conv list_update_beyond)

lemma upd_node_frame [turn_frame]:
  "node_uri (f (upstreams t ! i)) = node_uri (upstreams t ! i) \<Longrightarrow> uris (upd_node i f t) = uris t"
  "active_connections (f (upstreams t ! i)) = active_connections (upstreams t ! i) \<Longrightarrow> conns (upd_node i f t) = conns t"
  by (simp_all add: uris_def conns_def upd_node_def map_upd_same)

lemma update_first_same: "(\<And>n. g (f n) = g n) \<Longrightarrow> map g (update_first P f ns) = map g ns"
  by (induction ns) auto

lemma node_op_frame [turn_frame]:
  "node_uri (record_latency_ms ms n) = node_uri n" "active_connections (record_latency_ms ms n) = active_connections n"
  "node_uri (record_success n) = node_uri n" "active_connections (record_success n) = active_connections n"
  "node_uri (probe_drop g n) = node_uri n" "active_connections (probe_drop g n) = active_connections n"
  "node_uri (mark_dead now n) = node_uri n" "active_connections (mark_dead now n) = active_connections n"
  by (simp_all add: record_latency_ms_def record_success_def mark_alive_def probe_drop_def mark_dead_def Let_def)

lemma record_failure_frame [turn_frame]:
  "node_uri (snd (record_failure thr now n)) = node_uri n"
  "active_connections (snd (record_failure thr now n)) = active_connections n"
  by (simp_all add: record_failure_def Let_def mark_dead_def)

lemma target_op_frame [turn_frame]:
  "uris (target_mark_dead now uri t) = uris t" "conns (target_mark_dead now uri t) = conns t"
  "uris (snd (target_record_failure now uri t)) = uris t" "conns (snd (target_record_failure now uri t)) = conns t"
  "uris (conn_guard_new uri t) = uris t" "uris (conn_guard_drop uri t) = uris t"
  by (auto simp: uris_def conns_def target_mark_dead_def target_record_failure_def conn_guard_new_def conn_guard_drop_def
      update_first_same turn_frame split: option.splits)

lemma drop_frame [turn_frame]:
  "uris (drop_probe g i t) = uris t" "conns (drop_probe g i t) = conns t"
  "uris (drop_guards g i uri t) = uris t" "uris (count_retry i t) = uris t" "conns (count_retry i t) = conns t"
  by (simp_all add: drop_probe_def drop_guards_def count_retry_def turn_frame split: option.splits)

lemma probe_start_frame [turn_frame]:
  "uris (snd (probe_start multi now i t)) = uris t" "conns (snd (probe_start multi now i t)) = conns t"
  by (auto simp: probe_start_def ProbeGuard_new_def try_enter_half_open_probe_def turn_frame split: prod.splits if_splits)

lemma next_upstream_frame [turn_frame]:
  "uris (snd (next_upstream hash rng now ip failed t)) = uris t"
  "conns (snd (next_upstream hash rng now ip failed t)) = conns t"
  by (auto simp: next_upstream_def uris_def conns_def Let_def split: LbStrategy.splits)

lemma next_upstream_upstreams: "upstreams (snd (next_upstream hash rng now ip failed t)) = upstreams t"
  by (auto simp: next_upstream_def Let_def split: LbStrategy.splits)

lemma health_frame [turn_frame]:
  "health (conn_guard_new u t) = health t" "health (conn_guard_drop u t) = health t"
  "health (drop_probe g i t) = health t" "health (drop_guards g i u t) = health t"
  "health (snd (probe_start multi now i t)) = health t"
proof -
  show d: "health (conn_guard_new u t) = health t" "health (conn_guard_drop u t) = health t"
    by (simp_all add: health_def conn_guard_new_def conn_guard_drop_def update_first_same)
  have "health (upd_node i f t) = health t" if "\<And>n. (is_alive (f n), consecutive_failures (f n), last_failure_time (f n),
      total_failures (f n), circuit_trips (f n)) = (is_alive n, consecutive_failures n, last_failure_time n,
      total_failures n, circuit_trips n)" for i f t
    unfolding health_def upd_node_def using that by (simp add: map_upd_same)
  note upd = this
  show "health (drop_probe g i t) = health t" for t
    by (auto simp: drop_probe_def probe_drop_def intro!: upd split: option.splits if_splits)
  then show "health (drop_guards g i u t) = health t" by (simp add: drop_guards_def d)
  show "health (snd (probe_start multi now i t)) = health t"
    by (auto simp: probe_start_def ProbeGuard_new_def try_enter_half_open_probe_def health_def upd_node_def map_upd_same
        split: prod.splits if_splits)
qed

definition io_ok :: "ProxyIo \<Rightarrow> bool" where
  "io_ok io \<longleftrightarrow> (\<forall>k n. 0 < n \<longrightarrow> gen_range (ae_rng (io_env io k)) n < n)
     \<and> (\<forall>k t. uris (ae_others (io_env io k) t) = uris t)"

definition others_keep :: "(RouteTarget \<Rightarrow> 'a) \<Rightarrow> ProxyIo \<Rightarrow> bool" where
  "others_keep view io \<longleftrightarrow> (\<forall>k t. view (ae_others (io_env io k) t) = view t)"

definition proxy_request :: "ProxyCall \<Rightarrow> Uri \<Rightarrow> HeaderMap \<Rightarrow> SrvBody \<Rightarrow> ProxyRequest" where
  "proxy_request c target_uri headers body =
     \<lparr> px_method = pc_method c, px_uri = target_uri, px_version = fl_version (pc_flavour c),
       px_headers = io_inject (pc_io c) (fl_headers (pc_flavour c) (set_host target_uri headers)), px_body = body \<rparr>"

lemma attempt_cases:
  assumes "upstreams (ps_target st) \<noteq> []" and "io_ok (pc_io c)"
  obtains (uri_error) i guard e t where
      "proxy_attempt c st = Done (Returned (Err e) None)
         (st\<lparr> ps_headers := (if ps_attempts st = pc_max_retries c then [] else ps_headers st),
              ps_attempts := Suc (ps_attempts st),
              ps_target := drop_guards guard i (uris (ps_target st) ! i) (conn_guard_new (uris (ps_target st) ! i) t) \<rparr>)"
      and "i < length (uris (ps_target st))"
      and "uris t = uris (ps_target st)" and "conns t = conns (ps_target st)" and "health t = health (ps_target st)"
  | (sent) i guard t target_uri where
      "proxy_attempt c st =
         handle_result c (io_env (pc_io c) (ps_attempts st)) i (uris (ps_target st) ! i) guard (is_rstream (ps_body st))
           (proxy_request c target_uri (ps_headers st) (fst (take_body (ps_body st))))
           (st\<lparr> ps_headers := (if ps_attempts st = pc_max_retries c then [] else ps_headers st),
                ps_attempts := Suc (ps_attempts st),
                ps_target := ae_others (io_env (pc_io c) (ps_attempts st)) (conn_guard_new (uris (ps_target st) ! i) t),
                ps_body := snd (take_body (ps_body st)),
                ps_sent := ps_sent st @ [(i, proxy_request c target_uri (ps_headers st) (fst (take_body (ps_body st))))] \<rparr>)"
      and "build_upstream_uri (io_parse (pc_io c)) (io_from_parts (pc_io c)) (uris (ps_target st) ! i) (pc_rest c) (pc_uri c)
         = Ok target_uri"
      and "i < length (uris (ps_target st))"
      and "length (uris (ps_target st)) \<noteq> 1 \<Longrightarrow>
        (\<exists>u \<in> set (uris (ps_target st)). u \<notin> set (ps_failed st)) \<Longrightarrow> uris (ps_target st) ! i \<notin> set (ps_failed st)"
      and "uris t = uris (ps_target st)" and "conns t = conns (ps_target st)" and "health t = health (ps_target st)"
proof -
  let ?env = "io_env (pc_io c) (ps_attempts st)" and ?t = "ps_target st"
  let ?nu = "next_upstream (io_hash (pc_io c)) (ae_rng ?env) (ae_now ?env) (pc_client c) (ps_failed st) ?t"
  have rng: "\<And>n. 0 < n \<Longrightarrow> gen_range (ae_rng ?env) n < n" using assms(2) by (simp add: io_ok_def)
  obtain i t1 where nu: "?nu = (Some i, t1)" "i < length (upstreams ?t)"
    and mem: "length (upstreams ?t) \<noteq> 1 \<longrightarrow> i \<in> set (candidates (ae_now ?env) (ps_failed st) ?t)"
    using next_upstream_mem [OF assms(1) rng] by metis
  have t1: "upstreams t1 = upstreams ?t" "uris t1 = uris ?t" "conns t1 = conns ?t" "health t1 = health ?t"
    using next_upstream_upstreams [of "io_hash (pc_io c)" "ae_rng ?env" "ae_now ?env" "pc_client c" "ps_failed st" ?t] nu(1)
    by (simp_all add: uris_def conns_def health_def)
  have i: "i < length (uris ?t)" "node_uri (upstreams t1 ! i) = uris ?t ! i"
    using nu(2) t1(1) by (simp_all add: uris_def)
  obtain guard t2 where ps: "probe_start (pc_multi c) (ae_now ?env) i t1 = (guard, t2)" by fastforce
  have t2: "uris t2 = uris ?t" "conns t2 = conns ?t" "health t2 = health ?t"
    using probe_start_frame [of "pc_multi c" "ae_now ?env" i t1] health_frame(5) [of "pc_multi c" "ae_now ?env" i t1] ps t1(2-4)
    by simp_all
  have fresh: "uris ?t ! i \<notin> set (ps_failed st)"
    if len: "length (uris ?t) \<noteq> 1" and ex: "\<exists>u \<in> set (uris ?t). u \<notin> set (ps_failed st)"
  proof -
    obtain j where "j < length (upstreams ?t)" "node_uri (upstreams ?t ! j) \<notin> set (ps_failed st)"
      using ex by (auto simp: uris_def in_set_conv_nth)
    then have "node_uri (upstreams ?t ! i) \<notin> set (ps_failed st)"
      using candidates_not_failed mem len by (metis uris_length)
    then show ?thesis using i t1 by simp
  qed
  obtain body left where tb: "take_body (ps_body st) = (body, left)" by fastforce
  show thesis
  proof (cases "build_upstream_uri (io_parse (pc_io c)) (io_from_parts (pc_io c)) (uris ?t ! i) (pc_rest c) (pc_uri c)")
    case (Ok target_uri)
    show thesis
      by (rule sent [OF _ Ok i(1) fresh t2]) (simp_all add: proxy_attempt_def Let_def nu(1) i ps Ok tb proxy_request_def)
  next
    case (Err e)
    show thesis
      by (rule uri_error [OF _ i(1) t2, of e guard]) (simp add: proxy_attempt_def Let_def nu(1) i ps Err)
  qed
qed

fun upd_conn :: "(usize \<Rightarrow> usize) \<Rightarrow> Uri \<Rightarrow> Uri list \<Rightarrow> usize list \<Rightarrow> usize list" where
  "upd_conn f u (v # vs) (k # ks) = (if v = u then f k # ks else k # upd_conn f u vs ks)"
| "upd_conn f u vs ks = ks"

lemma upd_conn_nth:
  "distinct us \<Longrightarrow> i < length us \<Longrightarrow> length ks = length us \<Longrightarrow> upd_conn f (us ! i) us ks = ks[i := f (ks ! i)]"
proof (induction us arbitrary: i ks)
  case (Cons u us)
  then obtain k ks' where ks: "ks = k # ks'" by (cases ks) auto
  show ?case using Cons by (cases i) (auto simp: ks)
qed simp

lemma conns_guard [turn_frame]:
  "conns (conn_guard_new uri t) = upd_conn (\<lambda>k. k + 1) uri (uris t) (conns t)"
  "conns (conn_guard_drop uri t) = upd_conn (\<lambda>k. k - 1) uri (uris t) (conns t)"
proof -
  have "map active_connections (update_first (\<lambda>n. node_uri n = uri) g ns)
      = upd_conn f uri (map node_uri ns) (map active_connections ns)"
    if "\<And>n. active_connections (g n) = f (active_connections n)" for f g and ns :: "UpstreamNode list"
    using that by (induction ns) auto
  then show "conns (conn_guard_new uri t) = upd_conn (\<lambda>k. k + 1) uri (uris t) (conns t)"
    "conns (conn_guard_drop uri t) = upd_conn (\<lambda>k. k - 1) uri (uris t) (conns t)"
    by (simp_all add: conns_def uris_def conn_guard_new_def conn_guard_drop_def)
qed

lemma conns_drop_guards [turn_frame]:
  "conns (drop_guards g i uri t) = upd_conn (\<lambda>k. k - 1) uri (uris t) (conns t)"
  by (simp add: drop_guards_def turn_frame)

lemma handle_result_continue:
  assumes "handle_result c env i uri guard streamed req st = Continue st'"
  shows "uris (ps_target st') = uris (ps_target st)" and "ps_headers st' = ps_headers st"
    and "ps_body st' = ps_body st" and "ps_sent st' = ps_sent st" and "ps_attempts st' = ps_attempts st"
    and "may_retry c (ps_attempts st)" and "pc_multi c \<Longrightarrow> ps_failed st' = ps_failed st @ [uri]"
    and "conns (ps_target st') = upd_conn (\<lambda>k. k - 1) uri (uris (ps_target st)) (conns (ps_target st))"
  using assms unfolding handle_result_def give_up_def pass_response_def Let_def
  by (auto simp: turn_frame split: SendResult.splits ProxyErrorKind.splits if_splits)

lemma handle_result_done:
  assumes "handle_result c env i uri guard streamed req st = Done r st'"
  shows "uris (ps_target st') = uris (ps_target st)" and "ps_sent st' = ps_sent st"
    and "ps_attempts st' = ps_attempts st" and "r = Waiting \<Longrightarrow> \<not> pc_timeout c" and "r \<noteq> Panicked"
    and "r = Returned res held \<Longrightarrow> held = Some uri \<and> conns (ps_target st') = conns (ps_target st)
      \<or> held = None \<and> conns (ps_target st') = upd_conn (\<lambda>k. k - 1) uri (uris (ps_target st)) (conns (ps_target st))"
  using assms unfolding handle_result_def give_up_def pass_response_def Let_def
  by (auto simp: turn_frame split: SendResult.splits ProxyErrorKind.splits if_splits)

section \<open>The loop invariant\<close>

definition call_ok :: "ProxyCall \<Rightarrow> Uri list \<Rightarrow> RequestBody \<Rightarrow> bool" where
  "call_ok c us body \<longleftrightarrow> io_ok (pc_io c) \<and> us \<noteq> [] \<and> pc_multi c = (1 < length us)
     \<and> pc_max_retries c \<le> length us - 1 \<and> pc_stream c = is_rstream body"

definition sent_ok :: "ProxyCall \<Rightarrow> Uri list \<Rightarrow> HeaderMap \<Rightarrow> RequestBody \<Rightarrow> nat \<times> ProxyRequest \<Rightarrow> bool" where
  "sent_ok c us headers body x \<longleftrightarrow> fst x < length us
     \<and> (\<exists>target_uri. build_upstream_uri (io_parse (pc_io c)) (io_from_parts (pc_io c)) (us ! fst x) (pc_rest c) (pc_uri c)
           = Ok target_uri \<and> snd x = proxy_request c target_uri headers (fst (take_body body)))"

definition sent_all_ok :: "ProxyCall \<Rightarrow> Uri list \<Rightarrow> HeaderMap \<Rightarrow> RequestBody \<Rightarrow> (nat \<times> ProxyRequest) list \<Rightarrow> bool" where
  "sent_all_ok c us headers body xs \<longleftrightarrow>
     list_all (sent_ok c us headers body) xs \<and> (distinct us \<longrightarrow> distinct (map fst xs))"

definition loop_inv :: "ProxyCall \<Rightarrow> Uri list \<Rightarrow> HeaderMap \<Rightarrow> RequestBody \<Rightarrow> ProxyState \<Rightarrow> bool" where
  "loop_inv c us headers body st \<longleftrightarrow>
     uris (ps_target st) = us \<and> length (ps_sent st) = ps_attempts st \<and> ps_attempts st \<le> pc_max_retries c
     \<and> (0 < ps_attempts st \<longrightarrow> may_retry c (ps_attempts st))
     \<and> ps_headers st = headers \<and> ps_body st = body
     \<and> (pc_multi c \<longrightarrow> ps_failed st = map (\<lambda>x. us ! fst x) (ps_sent st))
     \<and> sent_all_ok c us headers body (ps_sent st)"

definition loop_post :: "ProxyCall \<Rightarrow> Uri list \<Rightarrow> HeaderMap \<Rightarrow> RequestBody \<Rightarrow> ProxyResult \<Rightarrow> ProxyState \<Rightarrow> bool" where
  "loop_post c us headers body r st \<longleftrightarrow>
     uris (ps_target st) = us \<and> r \<noteq> Panicked \<and> (r = Waiting \<longrightarrow> \<not> pc_timeout c)
     \<and> length (ps_sent st) \<le> Suc (pc_max_retries c)
     \<and> (1 < length (ps_sent st) \<longrightarrow> \<not> is_rstream body \<and> fl_retryable (pc_flavour c))
     \<and> sent_all_ok c us headers body (ps_sent st)"

lemma exists_unfailed:
  assumes "distinct us" and "length xs < length us"
  shows "\<exists>u \<in> set us. u \<notin> set (map f xs)"
proof (rule ccontr)
  assume "\<not> ?thesis"
  then have "set us \<subseteq> set (map f xs)" by auto
  then have "card (set us) \<le> card (set (map f xs))" by (rule card_mono [rotated]) simp
  also have "\<dots> \<le> length xs" by (metis card_length length_map)
  finally show False using assms by (simp add: distinct_card)
qed

lemma sent_snoc:
  assumes inv: "loop_inv c us headers body st" and ok: "call_ok c us body"
    and i: "i < length us"
    and tu: "build_upstream_uri (io_parse (pc_io c)) (io_from_parts (pc_io c)) (us ! i) (pc_rest c) (pc_uri c) = Ok target_uri"
    and fresh: "length us \<noteq> 1 \<Longrightarrow> \<exists>u \<in> set us. u \<notin> set (ps_failed st) \<Longrightarrow> us ! i \<notin> set (ps_failed st)"
  shows "sent_all_ok c us headers body
           (ps_sent st @ [(i, proxy_request c target_uri headers (fst (take_body body)))])"
proof -
  have "i \<notin> fst ` set (ps_sent st)" if d: "distinct us"
  proof (cases "ps_sent st = []")
    case False
    then have "0 < ps_attempts st" using inv by (metis length_greater_0_conv loop_inv_def)
    then have len: "length (ps_sent st) < length us" "length us \<noteq> 1" and multi: "pc_multi c"
      using inv ok by (auto simp: loop_inv_def call_ok_def)
    have failed: "ps_failed st = map (\<lambda>x. us ! fst x) (ps_sent st)" using inv multi by (simp add: loop_inv_def)
    have "us ! i \<notin> set (ps_failed st)"
      unfolding failed by (rule fresh [unfolded failed, OF len(2) exists_unfailed [OF d len(1)]])
    then show ?thesis by (auto simp: failed)
  qed simp
  then show ?thesis using inv i tu by (auto simp: loop_inv_def sent_all_ok_def sent_ok_def)
qed

lemma loop_inv_continue:
  assumes inv: "loop_inv c us headers body st" and ok: "call_ok c us body" and step: "proxy_attempt c st = Continue st'"
  shows "loop_inv c us headers body st'"
proof -
  have ne: "upstreams (ps_target st) \<noteq> []" and io: "io_ok (pc_io c)" and us: "uris (ps_target st) = us"
    and b: "ps_body st = body" and h: "ps_headers st = headers"
    using inv ok by (auto simp: loop_inv_def call_ok_def uris_def)
  show ?thesis
  proof (cases rule: attempt_cases [OF ne io, case_names uri_error sent])
    case (sent i guard t target_uri)
    note facts = handle_result_continue [OF trans [OF sent(1) [symmetric] step]]
    have retry: "may_retry c (Suc (ps_attempts st))" using facts(6) by simp
    then have body: "snd (take_body body) = body" using ok by (cases body) (auto simp: may_retry_def call_ok_def)
    have "sent_all_ok c us headers body (ps_sent st')"
      using sent_snoc [OF inv ok, of i target_uri] sent(2-4) facts(4) us b h by simp
    moreover have "pc_multi c \<longrightarrow> ps_failed st' = map (\<lambda>x. us ! fst x) (ps_sent st')"
      using inv facts(4,7) us by (auto simp: loop_inv_def)
    ultimately show ?thesis
      using inv facts(1-5) retry io sent(5) us b h body
      by (auto simp: loop_inv_def may_retry_def io_ok_def turn_frame)
  qed (use step in simp)
qed

lemma loop_inv_done:
  assumes inv: "loop_inv c us headers body st" and ok: "call_ok c us body" and step: "proxy_attempt c st = Done r st'"
  shows "loop_post c us headers body r st'"
proof -
  have ne: "upstreams (ps_target st) \<noteq> []" and io: "io_ok (pc_io c)" and us: "uris (ps_target st) = us"
    and b: "ps_body st = body" and h: "ps_headers st = headers"
    using inv ok by (auto simp: loop_inv_def call_ok_def uris_def)
  show ?thesis
  proof (cases rule: attempt_cases [OF ne io, case_names uri_error sent])
    case (sent i guard t target_uri)
    note facts = handle_result_done [OF trans [OF sent(1) [symmetric] step]]
    have "sent_all_ok c us headers body (ps_sent st')"
      using sent_snoc [OF inv ok, of i target_uri] sent(2-4) facts(2) us b h by simp
    then show ?thesis
      using inv facts(1-5) io sent(5) us ok by (auto simp: loop_inv_def loop_post_def may_retry_def io_ok_def turn_frame call_ok_def)
  next
    case (uri_error i guard e t)
    then show ?thesis
      using inv step us ok by (auto simp: loop_inv_def loop_post_def turn_frame may_retry_def call_ok_def)
  qed
qed

lemma proxy_loop_post:
  assumes "loop_inv c us headers body st" and "call_ok c us body"
  shows "case proxy_loop c st of (r, st') \<Rightarrow> loop_post c us headers body r st'"
  using assms
proof (induction c st rule: proxy_loop.induct)
  case (1 c st)
  then show ?case
    by (cases "proxy_attempt c st")
      (simp_all add: proxy_loop.simps [of c st] loop_inv_continue loop_inv_done)
qed

lemma start_proxy_post:
  assumes "upstreams target \<noteq> []" and "io_ok io"
    and c: "c = \<lparr> pc_flavour = flavour, pc_method = meth, pc_uri = uri, pc_rest = rest, pc_client = client,
             pc_timeout = timeout, pc_io = io, pc_multi = (length (upstreams target) > 1),
             pc_max_retries = (if length (upstreams target) > 1
                then min (unat (max_retries target)) (length (upstreams target) - 1) else 0),
             pc_stream = is_rstream body \<rparr>"
  shows "case start_proxy flavour io timeout target body meth headers uri rest client of
           (r, st) \<Rightarrow> loop_post c (uris target) headers body r st"
proof -
  have "call_ok c (uris target) body"
    using assms by (auto simp: call_ok_def uris_def)
  moreover have "loop_inv c (uris target) headers body
      \<lparr> ps_target = target, ps_failed = [], ps_attempts = 0, ps_headers = headers, ps_body = body, ps_sent = [] \<rparr>"
    by (simp add: loop_inv_def sent_all_ok_def)
  ultimately show ?thesis
    unfolding start_proxy_def Let_def c [symmetric] by (rule proxy_loop_post [rotated])
qed


definition demo_answer :: Response where
  "demo_answer = \<lparr> resp_status = 200, resp_headers = [(''server'', ''x'')], resp_body = [] \<rparr>"

definition demo_io :: "(nat \<Rightarrow> SendResult) \<Rightarrow> ProxyIo" where
  "demo_io answer =
     \<lparr> io_parse = split_pq, io_from_parts = (\<lambda>u. Ok u), io_hash = (\<lambda>_. 0), io_inject = (\<lambda>h. h),
       io_env = (\<lambda>k. \<lparr> ae_rng = demo_rng, ae_now = 105, ae_send = (\<lambda>_. answer k), ae_others = (\<lambda>t. t), ae_end = 106 \<rparr>) \<rparr>"

definition demo_answers :: "nat \<Rightarrow> SendResult" where
  "demo_answers k = (if k = 0 then NoAnswer else Answer 3 demo_answer)"

lemma demo_io_ok: "io_ok (demo_io answer)" "others_keep view (demo_io answer)"
  by (simp_all add: io_ok_def others_keep_def demo_io_def demo_rng_def)

lemma demo_upstreams: "upstreams demo_target \<noteq> []"
  by (simp add: demo_target_def)




text \<open>The gRPC handler fails over only buffered calls, to another node each time, and every request it
  sends is HTTP/2 with \<open>TE: trailers\<close> and without the connection headers that HTTP/2 forbids.\<close>

theorem grpc_failover_exact:
  assumes "upstreams target \<noteq> []" and "io_ok io"
    and run: "handle_grpc_passthrough io timeout target body meth headers uri rest client = (r, st)"
  shows "(1 < length (ps_sent st) \<longrightarrow> \<not> is_rstream body)
    \<and> (distinct (uris target) \<longrightarrow> distinct (map fst (ps_sent st)))
    \<and> length (ps_sent st) \<le> Suc (unat (max_retries target))
    \<and> (\<forall>(i, req) \<in> set (ps_sent st). px_version req = HTTP_2 \<and> px_body req = fst (take_body body)
        \<and> (\<exists>h. px_headers req = io_inject io h \<and> hm_get_all ''te'' h = [''trailers'']
             \<and> (\<forall>n \<in> {''connection'', ''transfer-encoding'', ''upgrade''}. hm_get n h = None)))"
proof -
  have te: "hm_get_all ''te'' (grpc_headers h) = [''trailers'']
      \<and> (\<forall>n \<in> {''connection'', ''transfer-encoding'', ''upgrade''}. hm_get n (grpc_headers h) = None)" for h
    by (simp add: grpc_headers_def hm_get_all_insert hm_get_insert hm_get_remove)
  note post = start_proxy_post [OF assms(1,2) refl, of grpc_flavour meth uri rest client timeout body headers,
      unfolded handle_grpc_passthrough_def [symmetric] run prod.case]
  have "length (ps_sent st) \<le> Suc (unat (max_retries target))"
    using post by (auto simp: loop_post_def min_def split: if_splits)
  moreover have "px_version req = HTTP_2 \<and> px_body req = fst (take_body body) \<and> (\<exists>h. px_headers req = io_inject io (grpc_headers h))"
    if "(i, req) \<in> set (ps_sent st)" for i req
    using post that
    by (fastforce simp: loop_post_def sent_all_ok_def list_all_iff sent_ok_def proxy_request_def grpc_flavour_def)
  moreover have "(1 < length (ps_sent st) \<longrightarrow> \<not> is_rstream body) \<and> (distinct (uris target) \<longrightarrow> distinct (map fst (ps_sent st)))"
    using post by (simp add: loop_post_def sent_all_ok_def)
  ultimately show ?thesis using te by (auto simp del: ball_simps) metis+
qed

theorem grpc_failover_exact_witness:
  "\<exists>r st. handle_grpc_passthrough (demo_io demo_answers) True demo_target (Buffered [1]) ''POST'' [] demo_uri (Some ''x'') None = (r, st)
     \<and> map fst (ps_sent st) = [0, 1] \<and> list_all (\<lambda>x. px_version (snd x) = HTTP_2) (ps_sent st)"
proof -
  have "case handle_grpc_passthrough (demo_io demo_answers) True demo_target (Buffered [1]) ''POST'' [] demo_uri (Some ''x'') None of
      (r, st) \<Rightarrow> map fst (ps_sent st) = [0, 1]" by code_simp
  then obtain r st where run: "handle_grpc_passthrough (demo_io demo_answers) True demo_target (Buffered [1]) ''POST'' [] demo_uri
      (Some ''x'') None = (r, st)" and sent: "map fst (ps_sent st) = [0, 1]" by auto
  have v: "list_all (\<lambda>x. px_version (snd x) = HTTP_2) (ps_sent st)"
    using grpc_failover_exact [OF demo_upstreams demo_io_ok(1) run] by (auto simp: list_all_iff)
  show ?thesis by (intro exI conjI) (rule run sent v)+
qed

section \<open>Guards\<close>

lemma upd_conn_inverse:
  "upd_conn (\<lambda>k. k - 1) u us (upd_conn (\<lambda>k. k + 1) u us ks) = ks"
  by (induction "\<lambda>k :: usize. k + 1" u us ks rule: upd_conn.induct) auto

lemma turn_conns:
  assumes ne: "upstreams (ps_target st) \<noteq> []" and io: "io_ok (pc_io c)" "others_keep conns (pc_io c)"
  shows "case proxy_attempt c st of
      Continue st' \<Rightarrow> uris (ps_target st') = uris (ps_target st) \<and> conns (ps_target st') = conns (ps_target st)
    | Done r st' \<Rightarrow> \<forall>res held. r = Returned res held \<longrightarrow>
        conns (ps_target st') = (case held of None \<Rightarrow> conns (ps_target st)
            | Some u \<Rightarrow> upd_conn (\<lambda>k. k + 1) u (uris (ps_target st)) (conns (ps_target st)))"
proof (cases rule: attempt_cases [OF ne io(1), case_names uri_error sent])
  case (uri_error i guard e t)
  then show ?thesis by (auto simp: turn_frame upd_conn_inverse)
next
  case (sent i guard t target_uri)
  let ?u = "uris (ps_target st) ! i" and ?env = "io_env (pc_io c) (ps_attempts st)"
  have mid: "conns (ae_others ?env (conn_guard_new ?u t)) = upd_conn (\<lambda>k. k + 1) ?u (uris (ps_target st)) (conns (ps_target st))"
    "uris (ae_others ?env (conn_guard_new ?u t)) = uris (ps_target st)"
    using io sent(5,6) by (simp_all add: others_keep_def io_ok_def turn_frame)
  show ?thesis
  proof (cases "proxy_attempt c st")
    case (Continue st')
    note facts = handle_result_continue [OF trans [OF sent(1) [symmetric] Continue]]
    show ?thesis using facts(1,8) mid Continue by (simp add: upd_conn_inverse)
  next
    case (Done r st')
    note facts = handle_result_done [OF trans [OF sent(1) [symmetric] Done]]
    show ?thesis
    proof (simp only: Done turn.case, intro allI impI)
      fix res held
      assume "r = Returned res held"
      from facts(6) [OF this] show "conns (ps_target st') = (case held of None \<Rightarrow> conns (ps_target st)
            | Some u \<Rightarrow> upd_conn (\<lambda>k. k + 1) u (uris (ps_target st)) (conns (ps_target st)))"
        using mid by (auto simp: upd_conn_inverse)
    qed
  qed
qed

lemma loop_conns:
  assumes "upstreams (ps_target st) \<noteq> []" and "io_ok (pc_io c)" and "others_keep conns (pc_io c)"
    and "proxy_loop c st = (Returned res held, st')"
  shows "conns (ps_target st') = (case held of None \<Rightarrow> conns (ps_target st)
            | Some u \<Rightarrow> upd_conn (\<lambda>k. k + 1) u (uris (ps_target st)) (conns (ps_target st)))"
  using assms
proof (induction c st rule: proxy_loop.induct)
  case (1 c st)
  note turn = turn_conns [OF "1.prems"(1-3)]
  show ?case
  proof (cases "proxy_attempt c st")
    case (Continue st1)
    then have same: "uris (ps_target st1) = uris (ps_target st)" "conns (ps_target st1) = conns (ps_target st)"
      using turn by simp_all
    have "upstreams (ps_target st1) \<noteq> []" using same(1) "1.prems"(1) by (metis map_is_Nil_conv uris_def)
    then show ?thesis
      using "1.IH" [OF Continue] "1.prems" same Continue
      by (simp add: proxy_loop.simps [of c st] split: option.splits)
  next
    case (Done r st1)
    then show ?thesis using turn "1.prems"(4) by (simp add: proxy_loop.simps [of c st])
  qed
qed

text \<open>C16: The connection gauge of every node is balanced by the handler: when it returns, exactly the guard
  that travels in the body of a passed-on response is still counted, on the node that answered, and
  nothing else, however many nodes failed on the way.\<close>

theorem http_proxy_guards_balanced:
  assumes "upstreams target \<noteq> []" and "io_ok io" and "others_keep conns io"
    and run: "handle_http_proxy io timeout target body meth version headers uri rest client = (Returned res held, st)"
  shows "conns (ps_target st) = conns (case held of None \<Rightarrow> target | Some u \<Rightarrow> conn_guard_new u target)"
  using loop_conns [OF _ _ _ run [unfolded handle_http_proxy_def start_proxy_def Let_def]] assms(1-3)
  by (simp add: turn_frame split: option.splits)

theorem http_proxy_guards_balanced_witness:
  "\<exists>res held st. handle_http_proxy (demo_io demo_answers) True demo_target (Buffered []) ''GET'' HTTP_11 [] demo_uri (Some ''x'') None
       = (Returned res held, st)
     \<and> conns (ps_target st) = conns (case held of None \<Rightarrow> demo_target | Some u \<Rightarrow> conn_guard_new u demo_target)"
proof -
  have "case handle_http_proxy (demo_io demo_answers) True demo_target (Buffered []) ''GET'' HTTP_11 [] demo_uri (Some ''x'') None of
      (Returned res held, st) \<Rightarrow> True | _ \<Rightarrow> False" by code_simp
  then obtain res held st where run: "handle_http_proxy (demo_io demo_answers) True demo_target (Buffered []) ''GET'' HTTP_11 []
      demo_uri (Some ''x'') None = (Returned res held, st)" by (auto split: ProxyResult.splits)
  then show ?thesis using http_proxy_guards_balanced [OF demo_upstreams demo_io_ok run] by blast
qed

section \<open>Blame\<close>

lemma tracked_error_client: "Err e \<in> set frames \<or> held \<noteq> None \<Longrightarrow> tracked_error held frames \<noteq> None"
  by (induction held frames rule: tracked_error.induct) auto

lemma body_error_kind_client: "body_error_kind e \<noteq> KindUpstreamFailure"
  by (cases e) (auto simp: body_error_kind_def)



end
