(* ===== verification/Concurrency_Limit.thy ===== *)
theory Concurrency_Limit
  imports Http
begin

text \<open>
  The limit on concurrent requests (\<open>server/src/middleware/limit.rs\<close>, \<open>ConcurrencyLimitLayer\<close>): the
  service, its future, and the body wrapper that keeps the permit while the response is streamed.

  The semaphore belongs to the runtime library and is a parameter: a record of its operations, with the
  law that its permits are counted. The life of one request is a \<open>CallState\<close>; \<open>cl_step\<close> interleaves
  arrivals, polls, body frames and drops of any number of requests.
\<close>

section \<open>Model\<close>

record 's Semaphore =
  sem_try_acquire :: "'s \<Rightarrow> 's option"
  sem_release :: "'s \<Rightarrow> 's"

datatype CallState =
    Waiting bool                \<comment> \<open>queued for a permit; whether there is a queue timeout\<close>
  | Processing                  \<comment> \<open>the inner service runs, the permit is in the future\<close>
  | Immediate Response          \<comment> \<open>refused, not yet polled\<close>
  | Refused Response            \<comment> \<open>answered without the inner service\<close>
  | Failed SrvError             \<comment> \<open>the inner service failed; the future still owns the permit\<close>
  | Streaming Response bool     \<comment> \<open>answered, with the \<open>PermittedBody\<close> and whether it has its permit\<close>
  | Dropped

fun holds_permit :: "CallState \<Rightarrow> bool" where
  "holds_permit Processing = True"
| "holds_permit (Failed _) = True"
| "holds_permit (Streaming _ permit) = permit"
| "holds_permit _ = False"

definition build_503_response :: Response where
  "build_503_response =
     \<lparr> resp_status = 503, resp_headers = [(''retry-after'', ''1'')],
       resp_body = full_body ''Service Overloaded (Concurrency Limit Exceeded)'' \<rparr>"

record ConcurrencyLimitService =
  cl_load_shed :: bool
  cl_queue_timeout :: bool      \<comment> \<open>whether a \<open>queue_timeout\<close> is configured\<close>

definition concurrency_call ::
  "'s Semaphore \<Rightarrow> ConcurrencyLimitService \<Rightarrow> 's \<Rightarrow> CallState \<times> 's" where
  "concurrency_call ops svc sem =
     (if cl_load_shed svc
      then (case sem_try_acquire ops sem of
              Some sem' \<Rightarrow> (Processing, sem')
            | None \<Rightarrow> (Immediate build_503_response, sem))
      else (Waiting (cl_queue_timeout svc), sem))"

text \<open>
  What a poll finds: whether the queue gives this request its turn, whether the queue timeout is over,
  and what the inner service answers (\<open>None\<close> is pending).
\<close>

record PollEnv =
  pe_turn :: bool
  pe_timed_out :: bool
  pe_inner :: "(Response, SrvError) result option"

definition poll_processing :: "PollEnv \<Rightarrow> CallState" where
  "poll_processing env =
     (case pe_inner env of
        None \<Rightarrow> Processing
      | Some (Ok resp) \<Rightarrow> Streaming resp True
      | Some (Err e) \<Rightarrow> Failed e)"

fun concurrency_poll :: "'s Semaphore \<Rightarrow> PollEnv \<Rightarrow> CallState \<Rightarrow> 's \<Rightarrow> CallState \<times> 's" where
  "concurrency_poll ops env (Immediate response) sem = (Refused response, sem)"
| "concurrency_poll ops env (Waiting queue_timeout) sem =
     (case (if pe_turn env then sem_try_acquire ops sem else None) of
        Some sem' \<Rightarrow> (poll_processing env, sem')
      | None \<Rightarrow>
          (if queue_timeout \<and> pe_timed_out env then (Refused build_503_response, sem)
           else (Waiting queue_timeout, sem)))"
| "concurrency_poll ops env Processing sem = (poll_processing env, sem)"
| "concurrency_poll ops env call sem = (call, sem)"

text \<open>\<open>PermittedBody::poll_frame\<close>: the end of the body and an error give the permit back.\<close>

fun permitted_poll_frame ::
  "'s Semaphore \<Rightarrow> (Frame, SrvError) result option \<Rightarrow> CallState \<Rightarrow> 's \<Rightarrow> CallState \<times> 's" where
  "permitted_poll_frame ops polled (Streaming resp permit) sem =
     (case polled of
        Some (Ok _) \<Rightarrow> (Streaming resp permit, sem)
      | _ \<Rightarrow> (Streaming resp False, if permit then sem_release ops sem else sem))"
| "permitted_poll_frame ops polled call sem = (call, sem)"

text \<open>Dropping the future or the body drops the permit it owns.\<close>

definition call_drop :: "'s Semaphore \<Rightarrow> CallState \<Rightarrow> 's \<Rightarrow> CallState \<times> 's" where
  "call_drop ops call sem = (Dropped, if holds_permit call then sem_release ops sem else sem)"

inductive cl_step ::
  "'s Semaphore \<Rightarrow> ConcurrencyLimitService \<Rightarrow> 's \<times> CallState list \<Rightarrow> 's \<times> CallState list \<Rightarrow> bool"
  for ops :: "'s Semaphore" and svc :: ConcurrencyLimitService
  where
    arrive: "concurrency_call ops svc sem = (call, sem') \<Longrightarrow>
      cl_step ops svc (sem, calls) (sem', calls @ [call])"
  | poll: "i < length calls \<Longrightarrow> concurrency_poll ops env (calls ! i) sem = (call, sem') \<Longrightarrow>
      cl_step ops svc (sem, calls) (sem', calls[i := call])"
  | frame: "i < length calls \<Longrightarrow> permitted_poll_frame ops polled (calls ! i) sem = (call, sem') \<Longrightarrow>
      cl_step ops svc (sem, calls) (sem', calls[i := call])"
  | drop: "i < length calls \<Longrightarrow> call_drop ops (calls ! i) sem = (call, sem') \<Longrightarrow>
      cl_step ops svc (sem, calls) (sem', calls[i := call])"

section \<open>The semaphore's law\<close>

definition counts_permits :: "'s Semaphore \<Rightarrow> ('s \<Rightarrow> nat) \<Rightarrow> bool" where
  "counts_permits ops avail =
     (\<forall>s. avail (sem_release ops s) = Suc (avail s)
        \<and> (case sem_try_acquire ops s of None \<Rightarrow> avail s = 0 | Some s' \<Rightarrow> avail s = Suc (avail s')))"

lemma permit_release: "counts_permits ops avail \<Longrightarrow> avail (sem_release ops s) = Suc (avail s)"
  by (simp add: counts_permits_def)

lemma permit_acquire:
  assumes "counts_permits ops avail"
  shows "sem_try_acquire ops s = Some s' \<Longrightarrow> avail s = Suc (avail s')"
    and "sem_try_acquire ops s = None \<Longrightarrow> avail s = 0"
proof -
  have "case sem_try_acquire ops s of None \<Rightarrow> avail s = 0 | Some s' \<Rightarrow> avail s = Suc (avail s')"
    using assms by (simp add: counts_permits_def)
  then show "sem_try_acquire ops s = Some s' \<Longrightarrow> avail s = Suc (avail s')"
    and "sem_try_acquire ops s = None \<Longrightarrow> avail s = 0" by simp_all
qed

text \<open>Every operation moves permits between the semaphore and the call, and never makes or loses one.\<close>

definition owned :: "('s \<Rightarrow> nat) \<Rightarrow> CallState \<times> 's \<Rightarrow> nat" where
  "owned avail c = avail (snd c) + of_bool (holds_permit (fst c))"

lemma holds_poll_processing [simp]: "holds_permit (poll_processing env)"
  by (simp add: poll_processing_def split: option.split result.split)

lemma call_conserves:
  "counts_permits ops avail \<Longrightarrow> owned avail (concurrency_call ops svc s) = avail s"
  by (cases "sem_try_acquire ops s") (auto simp: concurrency_call_def owned_def permit_acquire(1))

lemma poll_conserves:
  assumes "counts_permits ops avail"
  shows "owned avail (concurrency_poll ops env call s) = owned avail (call, s)"
proof (cases call)
  case (Waiting queue_timeout)
  then show ?thesis
    using permit_acquire(1) [OF assms, of s] by (auto simp: owned_def split: option.split)
qed (simp_all add: owned_def)

lemma frame_conserves:
  assumes "counts_permits ops avail"
  shows "owned avail (permitted_poll_frame ops polled call s) = owned avail (call, s)"
  by (cases call) (simp_all add: owned_def permit_release [OF assms] split: option.split result.split)

lemma drop_conserves:
  "counts_permits ops avail \<Longrightarrow> owned avail (call_drop ops call s) = owned avail (call, s)"
  by (simp add: owned_def call_drop_def permit_release)

lemma update_conserves:
  assumes "i < length calls" and "owned avail (call', s') = owned avail (calls ! i, s)"
  shows "avail s' + cnt holds_permit (calls[i := call']) = avail s + cnt holds_permit calls"
  using cnt_update [OF assms(1), of holds_permit call'] assms(2) by (simp add: owned_def)

lemma step_conserves:
  assumes law: "counts_permits ops avail"
  shows "cl_step ops svc c c' \<Longrightarrow>
     avail (fst c') + cnt holds_permit (snd c') = avail (fst c) + cnt holds_permit (snd c)"
proof (induction rule: cl_step.induct)
  case (arrive sem call sem' calls)
  then show ?case using call_conserves [OF law, of svc sem] by (simp add: owned_def)
next
  case (poll i calls env sem call sem')
  then show ?case using poll_conserves [OF law, of env "calls ! i" sem] by (simp add: update_conserves)
next
  case (frame i calls polled sem call sem')
  then show ?case using frame_conserves [OF law, of polled "calls ! i" sem] by (simp add: update_conserves)
next
  case (drop i calls sem call sem')
  then show ?case using drop_conserves [OF law, of "calls ! i" sem] by (simp add: update_conserves)
qed

lemma steps_conserve:
  assumes law: "counts_permits ops avail" and "(cl_step ops svc)\<^sup>*\<^sup>* (sem, []) (sem', calls)"
  shows "avail sem' + cnt holds_permit calls = avail sem"
proof -
  have "avail (fst c') + cnt holds_permit (snd c') = avail (fst c) + cnt holds_permit (snd c)"
    if "(cl_step ops svc)\<^sup>*\<^sup>* c c'" for c c'
    using that by induction (simp_all add: step_conserves [OF law])
  from this [OF assms(2)] show ?thesis by simp
qed

text \<open>The semaphore as a counter.\<close>

definition counter_semaphore :: "nat Semaphore" where
  "counter_semaphore =
     \<lparr> sem_try_acquire = (\<lambda>n. case n of 0 \<Rightarrow> None | Suc m \<Rightarrow> Some m), sem_release = Suc \<rparr>"

lemma counter_counts: "counts_permits counter_semaphore (\<lambda>n. n)"
  by (simp add: counts_permits_def counter_semaphore_def split: nat.split)

section \<open>Properties\<close>


definition demo_service :: ConcurrencyLimitService where
  "demo_service = \<lparr> cl_load_shed = True, cl_queue_timeout = False \<rparr>"

lemma demo_run:
  "(cl_step counter_semaphore demo_service)\<^sup>*\<^sup>* (1, []) (0, [Processing, Immediate build_503_response])"
proof -
  have "cl_step counter_semaphore demo_service (1, []) (0, [] @ [Processing])"
    by (rule cl_step.arrive) (simp add: concurrency_call_def demo_service_def counter_semaphore_def)
  moreover have "cl_step counter_semaphore demo_service (0, [Processing]) (0, [Processing] @ [Immediate build_503_response])"
    by (rule cl_step.arrive) (simp add: concurrency_call_def demo_service_def counter_semaphore_def)
  ultimately show ?thesis by (auto intro: converse_rtranclp_into_rtranclp)
qed


text \<open>
  With load shedding, a new request is refused at once with 503 and \<open>Retry-After\<close> exactly when the
  configured number of requests is in flight, and is processed otherwise; nothing ever waits.
\<close>

theorem load_shed_exact:
  assumes "counts_permits ops avail" and "(cl_step ops svc)\<^sup>*\<^sup>* (sem, []) (sem', calls)"
    and "cl_load_shed svc"
  shows "fst (concurrency_call ops svc sem') =
    (if cnt holds_permit calls < avail sem then Processing else Immediate build_503_response)"
  using steps_conserve [OF assms(1,2)] permit_acquire [OF assms(1), of sem'] assms(3)
  by (cases "sem_try_acquire ops sem'") (simp_all add: concurrency_call_def)

theorem load_shed_exact_witness:
  "fst (concurrency_call counter_semaphore demo_service 0) = Immediate build_503_response
   \<and> resp_status build_503_response = 503"
  using load_shed_exact [OF counter_counts demo_run] by (simp add: demo_service_def build_503_response_def)

end
