(* ===== verification/Floating.thy ===== *)
theory Floating
  imports Prelude "HOL-Library.Log_Nat"
begin

text \<open>
  The floating-point arithmetic of the rate limiters (\<open>f64\<close> in the gateway, \<open>f32\<close> in the relay). A
  number is the rational it stands for, and every operation is the exact one followed by \<open>rnd p\<close>:
  rounding to \<open>p\<close> significant bits, to nearest, ties to even. The limiters only see values that are
  0 or between \<open>2 ^ (-100)\<close> and \<open>2 ^ 200\<close> (64-bit counts, durations between a nanosecond and \<open>2 ^ 64\<close>
  seconds, their quotients and products), so the exponent range of the formats is never left and there
  is no infinity, NaN or subnormal number to model.
\<close>

section \<open>Rounding\<close>

definition round_half_even :: "rat \<Rightarrow> int" where
  "round_half_even x =
     (let f = \<lfloor>x\<rfloor>; d = x - of_int f
      in if d < 1 / 2 \<or> d = 1 / 2 \<and> even f then f else f + 1)"

text \<open>The position of the leading bit of a positive rational.\<close>

definition ilog2 :: "rat \<Rightarrow> int" where
  "ilog2 x =
     (case quotient_of x of (n, d) \<Rightarrow>
        let e = bitlen n - bitlen d in if 2 powi e \<le> x then e else e - 1)"

definition rnd_pos :: "nat \<Rightarrow> rat \<Rightarrow> rat" where
  "rnd_pos p x =
     (let ulp = 2 powi (ilog2 x - int p + 1)
      in of_int (round_half_even (x / ulp)) * ulp)"

definition rnd :: "nat \<Rightarrow> rat \<Rightarrow> rat" where
  "rnd p x = (if x = 0 then 0 else if x < 0 then - rnd_pos p (- x) else rnd_pos p x)"

section \<open>Rounding to an integer\<close>

lemma round_half_even_bounds: "\<bar>of_int (round_half_even x) - x\<bar> \<le> 1 / 2"
proof -
  have "of_int \<lfloor>x\<rfloor> \<le> x" "x < of_int \<lfloor>x\<rfloor> + 1" by linarith+
  then show ?thesis by (auto simp: round_half_even_def Let_def)
qed

lemma round_half_even_of_int [simp]: "round_half_even (of_int n) = n"
  by (simp add: round_half_even_def)

lemma round_half_even_mono:
  assumes "x \<le> y"
  shows "round_half_even x \<le> round_half_even y"
proof (cases "\<lfloor>x\<rfloor> = \<lfloor>y\<rfloor>")
  case True
  with assms show ?thesis by (auto simp: round_half_even_def Let_def)
next
  case False
  then have "\<lfloor>x\<rfloor> + 1 \<le> \<lfloor>y\<rfloor>" using floor_mono [OF assms] by simp
  moreover have "round_half_even x \<le> \<lfloor>x\<rfloor> + 1" "\<lfloor>y\<rfloor> \<le> round_half_even y"
    by (auto simp: round_half_even_def Let_def)
  ultimately show ?thesis by simp
qed

section \<open>The leading bit\<close>

lemma bitlen_range: "0 < n \<Longrightarrow> 2 powi (bitlen n - 1) \<le> (of_int n :: rat) \<and> (of_int n :: rat) < 2 powi bitlen n"
proof -
  assume n: "0 < n"
  have "2 ^ nat (bitlen n - 1) \<le> n" "n < 2 ^ nat (bitlen n)"
    using bitlen_bounds [OF n] by auto
  moreover have pos: "0 < bitlen n" using n bitlen_nonneg [of n] bitlen_eq_zero_iff [of n] by simp
  have "(of_int (2 ^ nat (bitlen n - 1)) :: rat) = 2 powi (bitlen n - 1)"
    "(of_int (2 ^ nat (bitlen n)) :: rat) = 2 powi bitlen n"
    using pos by (simp_all add: power_int_def)
  ultimately show ?thesis by (metis of_int_le_iff of_int_less_iff)
qed

lemma ilog2_bounds:
  assumes "0 < x"
  shows "2 powi ilog2 x \<le> x" and "x < 2 powi (ilog2 x + 1)"
proof -
  obtain n d where q: "quotient_of x = (n, d)" by (cases "quotient_of x")
  have d: "0 < d" using q by (rule quotient_of_denom_pos)
  have x: "x = of_int n / of_int d" using q by (rule quotient_of_div)
  have n: "0 < n" using assms d x by (simp add: zero_less_divide_iff)
  define e where "e = bitlen n - bitlen d"
  note bn = bitlen_range [OF n] and bd = bitlen_range [OF d]
  have two: "2 powi (a + b) = 2 powi a * (2 powi b :: rat)" for a b by (simp add: power_int_add)
  have "x * of_int d = of_int n" using d x by simp
  have "2 powi (e - 1) * of_int d < 2 powi (e - 1) * (2 powi bitlen d :: rat)" using bd by simp
  also have "\<dots> = 2 powi (bitlen n - 1)" by (simp add: e_def flip: two)
  also have "\<dots> \<le> of_int n" using bn by simp
  finally have lo: "2 powi (e - 1) < x" using d by (simp add: x pos_less_divide_eq)
  have "(of_int n :: rat) < 2 powi bitlen n" using bn by simp
  also have "\<dots> = 2 powi (e + 1) * 2 powi (bitlen d - 1)" by (simp add: e_def flip: two)
  also have "\<dots> \<le> 2 powi (e + 1) * of_int d" using bd by simp
  finally have hi: "x < 2 powi (e + 1)" using d by (simp add: x pos_divide_less_eq)
  show "2 powi ilog2 x \<le> x" and "x < 2 powi (ilog2 x + 1)"
    using lo hi by (auto simp: ilog2_def q Let_def e_def)
qed

lemma two_powi_le_iff: "(2 powi a :: rat) \<le> 2 powi b \<longleftrightarrow> a \<le> b"
  using power_int_increasing [of a b "2 :: rat"] power_int_strict_increasing [of b a "2 :: rat"]
  by (cases "a \<le> b") simp_all

lemma ilog2_unique:
  assumes "0 < x" and "2 powi e \<le> x" and "x < 2 powi (e + 1)"
  shows "ilog2 x = e"
proof -
  have "(2 powi e :: rat) < 2 powi (ilog2 x + 1)" "(2 powi ilog2 x :: rat) < 2 powi (e + 1)"
    using ilog2_bounds [OF assms(1)] assms(2,3) by linarith+
  then have "\<not> ilog2 x + 1 \<le> e" "\<not> e + 1 \<le> ilog2 x" using two_powi_le_iff by (meson not_le)+
  then show ?thesis by simp
qed

lemma ilog2_mono: "0 < x \<Longrightarrow> x \<le> y \<Longrightarrow> ilog2 x \<le> ilog2 y"
proof (rule ccontr)
  assume x: "0 < x" "x \<le> y" and "\<not> ilog2 x \<le> ilog2 y"
  then have "(2 powi (ilog2 y + 1) :: rat) \<le> 2 powi ilog2 x" by (simp add: two_powi_le_iff)
  then show False using ilog2_bounds(1) [of x] ilog2_bounds(2) [of y] x by linarith
qed

section \<open>Rounding to a number of bits\<close>

lemma rnd_pos_bounds:
  assumes p: "0 < p" and x: "0 < x"
  shows "2 powi ilog2 x \<le> rnd_pos p x" and "rnd_pos p x \<le> 2 powi (ilog2 x + 1)"
    and "\<bar>rnd_pos p x - x\<bar> \<le> x / 2 ^ p"
proof -
  define ulp :: rat where "ulp = 2 powi (ilog2 x - int p + 1)"
  have ulp: "0 < ulp" by (simp add: ulp_def)
  have r: "rnd_pos p x = of_int (round_half_even (x / ulp)) * ulp" by (simp add: rnd_pos_def ulp_def Let_def)
  have pow: "2 powi ilog2 x = of_int (2 ^ (p - 1)) * ulp" "2 powi (ilog2 x + 1) = of_int (2 ^ p) * ulp"
    using p by (cases p; simp add: ulp_def power_int_diff power_int_add)+
  note b = ilog2_bounds [OF x, unfolded pow]
  have "of_int (2 ^ (p - 1)) \<le> x / ulp" "x / ulp \<le> of_int (2 ^ p)"
    using b ulp by (simp_all add: pos_le_divide_eq pos_divide_le_eq)
  then have "2 ^ (p - 1) \<le> round_half_even (x / ulp)" "round_half_even (x / ulp) \<le> 2 ^ p"
    using round_half_even_mono round_half_even_of_int by metis+
  then have "(of_int (2 ^ (p - 1)) :: rat) \<le> of_int (round_half_even (x / ulp))"
    "(of_int (round_half_even (x / ulp)) :: rat) \<le> of_int (2 ^ p)" by linarith+
  then show "2 powi ilog2 x \<le> rnd_pos p x" and "rnd_pos p x \<le> 2 powi (ilog2 x + 1)"
    unfolding pow r using ulp by (simp_all add: mult_right_mono)
  have "rnd_pos p x - x = (of_int (round_half_even (x / ulp)) - x / ulp) * ulp"
    using ulp by (simp add: r left_diff_distrib)
  then have "\<bar>rnd_pos p x - x\<bar> = \<bar>of_int (round_half_even (x / ulp)) - x / ulp\<bar> * ulp"
    using ulp by (simp add: abs_mult)
  also have "\<dots> \<le> 1 / 2 * ulp" using round_half_even_bounds [of "x / ulp"] ulp by (simp add: mult_right_mono)
  also have "\<dots> = 2 ^ (p - 1) * ulp / 2 ^ p" using p by (cases p) simp_all
  also have "\<dots> \<le> x / 2 ^ p" using b(1) by (simp add: divide_right_mono)
  finally show "\<bar>rnd_pos p x - x\<bar> \<le> x / 2 ^ p" .
qed

lemma rnd_pos_mono:
  assumes p: "0 < p" and x: "0 < x" "x \<le> y"
  shows "rnd_pos p x \<le> rnd_pos p y"
proof (cases "ilog2 x = ilog2 y")
  case True
  define ulp :: rat where "ulp = 2 powi (ilog2 x - int p + 1)"
  have ulp: "0 < ulp" by (simp add: ulp_def)
  have "round_half_even (x / ulp) \<le> round_half_even (y / ulp)"
    using x ulp by (intro round_half_even_mono divide_right_mono) simp_all
  then show ?thesis
    using ulp unfolding rnd_pos_def Let_def True [symmetric] ulp_def [symmetric] by simp
next
  case False
  then have "ilog2 x + 1 \<le> ilog2 y" using ilog2_mono [OF x] by simp
  then have "(2 powi (ilog2 x + 1) :: rat) \<le> 2 powi ilog2 y" by (simp only: two_powi_le_iff)
  moreover have "0 < y" using x by simp
  ultimately show ?thesis
    using rnd_pos_bounds(2) [OF p x(1)] rnd_pos_bounds(1) [OF p \<open>0 < y\<close>] by linarith
qed

lemma rnd_0 [simp]: "rnd p 0 = 0"
  by (simp add: rnd_def)

lemma rnd_nonneg: "0 < p \<Longrightarrow> 0 \<le> x \<Longrightarrow> 0 \<le> rnd p x"
proof (cases "x = 0")
  case False
  assume "0 < p" "0 \<le> x"
  with False have "2 powi ilog2 x \<le> rnd_pos p x" by (intro rnd_pos_bounds) simp_all
  moreover have "(0 :: rat) < 2 powi ilog2 x" by simp
  ultimately have "0 \<le> rnd_pos p x" by linarith
  with \<open>0 \<le> x\<close> False show ?thesis by (simp add: rnd_def)
qed simp

lemma rnd_mono: "0 < p \<Longrightarrow> 0 \<le> x \<Longrightarrow> x \<le> y \<Longrightarrow> rnd p x \<le> rnd p y"
  using rnd_pos_mono [of p x y] rnd_nonneg [of p y] by (cases "x = 0") (auto simp: rnd_def)

lemma rnd_error: "0 < p \<Longrightarrow> 0 \<le> x \<Longrightarrow> \<bar>rnd p x - x\<bar> \<le> x / 2 ^ p"
  using rnd_pos_bounds(3) [of p x] by (cases "x = 0") (auto simp: rnd_def)

lemma rnd_le: "0 < p \<Longrightarrow> 0 \<le> x \<Longrightarrow> rnd p x \<le> x * (1 + 1 / 2 ^ p)"
  using rnd_error [of p x] by (simp add: field_simps abs_le_iff)

text \<open>A number with at most \<open>p\<close> significant bits is kept.\<close>

lemma rnd_exact:
  assumes p: "0 < p" and m: "0 \<le> m" "m \<le> 2 ^ p"
  shows "rnd p (of_int m * 2 powi e) = of_int m * 2 powi e"
proof (cases "m = 0")
  case False
  define x where "x = (of_int m * 2 powi e :: rat)"
  have x: "0 < x" using False m by (simp add: x_def)
  have "ilog2 x - int p + 1 \<le> e \<or> m = 2 ^ p"
  proof (rule ccontr)
    assume "\<not> ?thesis"
    then have "(2 powi (int p + e) :: rat) \<le> 2 powi ilog2 x" and lt: "m < 2 ^ p"
      using m by (simp_all add: two_powi_le_iff)
    then have "2 ^ p * 2 powi e \<le> x" using ilog2_bounds(1) [OF x] by (simp add: power_int_add)
    moreover have "(of_int m :: rat) < of_int (2 ^ p)" using lt by (simp only: of_int_less_iff)
    ultimately show False by (simp add: x_def)
  qed
  then obtain k where k: "x = of_int k * 2 powi (ilog2 x - int p + 1)"
  proof
    assume le: "ilog2 x - int p + 1 \<le> e"
    have "(2 powi e :: rat) = of_int (2 ^ nat (e - (ilog2 x - int p + 1))) * 2 powi (ilog2 x - int p + 1)"
    proof -
      have "(of_int (2 ^ nat (e - (ilog2 x - int p + 1))) :: rat) = 2 powi (e - (ilog2 x - int p + 1))"
        using le by (simp add: power_int_def)
      then show ?thesis by (simp only: power_int_add [symmetric, of "2 :: rat", simplified] diff_add_cancel)
    qed
    then show ?thesis using that [of "m * 2 ^ nat (e - (ilog2 x - int p + 1))"] by (simp add: x_def mult.assoc)
  next
    assume top: "m = 2 ^ p"
    then have xp: "x = 2 powi (int p + e)" by (simp add: x_def power_int_add)
    have "ilog2 x = int p + e" using x by (intro ilog2_unique) (simp_all add: xp power_int_add)
    then show ?thesis using that [of "2 ^ (p - 1)"] p xp
      by (cases p) (simp_all add: power_int_add power_int_diff)
  qed
  have "rnd_pos p x = x"
  proof -
    define ulp :: rat where "ulp = 2 powi (ilog2 x - int p + 1)"
    have "x / ulp = of_int k" using k by (simp add: ulp_def field_simps)
    then show ?thesis
      unfolding rnd_pos_def Let_def ulp_def [symmetric] using k by (simp only: round_half_even_of_int ulp_def)
  qed
  then show ?thesis using x by (simp add: rnd_def x_def)
qed simp

lemma rnd_idem: "0 < p \<Longrightarrow> 0 \<le> x \<Longrightarrow> rnd p (rnd p x) = rnd p x"
proof (cases "x = 0")
  case False
  assume p: "0 < p" and "0 \<le> x"
  with False have x: "0 < x" by simp
  define ulp :: rat where "ulp = 2 powi (ilog2 x - int p + 1)"
  have ulp: "0 < ulp" by (simp add: ulp_def)
  have r: "rnd_pos p x = of_int (round_half_even (x / ulp)) * ulp" by (simp add: rnd_pos_def ulp_def Let_def)
  have "x / ulp < of_int (2 ^ p)"
    using ilog2_bounds(2) [OF x] ulp by (simp add: ulp_def power_int_add power_int_diff field_simps)
  then have "round_half_even (x / ulp) \<le> 2 ^ p"
    using round_half_even_mono [of "x / ulp" "of_int (2 ^ p)"] round_half_even_of_int [of "2 ^ p"] by linarith
  moreover have "0 \<le> round_half_even (x / ulp)"
    using round_half_even_mono [of "of_int 0" "x / ulp"] round_half_even_of_int [of 0] x ulp by simp
  ultimately have "rnd p (rnd_pos p x) = rnd_pos p x"
    unfolding r ulp_def by (intro rnd_exact [OF p])
  then show ?thesis using x by (simp add: rnd_def)
qed simp

lemma rnd_of_nat: "0 < p \<Longrightarrow> n \<le> 2 ^ p \<Longrightarrow> rnd p (of_nat n) = of_nat n"
  using rnd_exact [of p "int n" 0] by simp

lemma rnd_1 [simp]: "0 < p \<Longrightarrow> rnd p 1 = 1"
  using rnd_of_nat [of p 1] by simp

text \<open>The rounded value from a candidate: used to evaluate examples.\<close>

lemma rnd_eqI:
  assumes p: "0 < p" and m: "2 ^ (p - 1) \<le> m" "m < 2 ^ p"
    and near: "\<bar>x / 2 powi e - of_int m\<bar> < 1 / 2" "of_int (2 ^ (p - 1)) \<le> x / 2 powi e" "x / 2 powi e < of_int (2 ^ p)"
  shows "rnd p x = of_int m * 2 powi e"
proof -
  define u :: rat where "u = 2 powi e"
  have u: "0 < u" by (simp add: u_def)
  have "(0 :: rat) < of_int (2 ^ (p - 1))" by simp
  then have "0 < x / u" using near(2) unfolding u_def by linarith
  then have x: "0 < x" using u by (simp add: zero_less_divide_iff)
  have "ilog2 x = e + int p - 1"
  proof (rule ilog2_unique [OF x])
    show "2 powi (e + int p - 1) \<le> x" "x < 2 powi (e + int p - 1 + 1)"
      using near(2,3) p u by (cases p; simp add: power_int_add power_int_diff field_simps flip: u_def)+
  qed
  moreover have "round_half_even (x / u) = m"
  proof -
    have "\<bar>of_int (round_half_even (x / u)) - (of_int m :: rat)\<bar> < 1"
      using near(1) round_half_even_bounds [of "x / u"] unfolding u_def by linarith
    then have "\<bar>round_half_even (x / u) - m\<bar> < 1" by linarith
    then show ?thesis by simp
  qed
  ultimately show ?thesis using x by (simp add: rnd_def rnd_pos_def Let_def u_def)
qed

lemma rnd_eqI_frac:
  assumes "0 < p" and "2 ^ (p - 1) \<le> m" and "m < 2 ^ p" and "\<bar>x * 2 ^ n - of_int m\<bar> < 1 / 2"
    and "of_int (2 ^ (p - 1)) \<le> x * 2 ^ n" and "x * 2 ^ n < of_int (2 ^ p)"
  shows "rnd p x = of_int m / 2 ^ n"
proof -
  have "(2 powi - int n :: rat) = 1 / 2 ^ n" by (simp add: power_int_minus field_simps)
  then show ?thesis using rnd_eqI [of p m x "- int n"] assms by simp
qed

end
