(* ===== verification/Rate_Limiter.thy ===== *)
theory Rate_Limiter
  imports Server_Config Floating
begin

text \<open>
  The two rate limiters (\<open>server/src/middleware/rate_limiter.rs\<close>): the choice of the key, the keyed stores
  with their expiry and capacity, and the services.

  Time is in nanoseconds. The two stores have the same fields and the same cleanup, so they share the
  record \<open>KeyedStore\<close> over their entry type; \<open>CallEnv\<close> is what a call finds: the clock, and whether each
  of the two \<open>try_lock\<close>s succeeds. The locale \<open>limiter_store\<close> states what both stores promise about
  capacity and about keys other than the one that calls.
\<close>

section \<open>Keys\<close>

datatype RateLimitKey =
    KeyUser string
  | KeyClientCert string
  | KeyIp IpAddr
  | KeyGlobal

definition header_ip :: "(string \<Rightarrow> string) \<Rightarrow> string option \<Rightarrow> IpAddr option" where
  "header_ip pick v =
     (case v of
        None \<Rightarrow> None
      | Some s \<Rightarrow> (if is_visible_ascii s then parse_ip (trim (pick s)) else None))"

definition extract_ip_key :: "Request \<Rightarrow> bool \<Rightarrow> RateLimitKey" where
  "extract_ip_key req trust =
     (let forwarded =
        (if \<not> trust then KeyGlobal
         else case header_ip (\<lambda>s. hd (split_on CHR '','' s)) (hm_get ''x-forwarded-for'' (req_headers req)) of
                Some ip \<Rightarrow> KeyIp (canonical_client_ip ip)
              | None \<Rightarrow>
                  (case header_ip (\<lambda>s. s) (hm_get ''x-real-ip'' (req_headers req)) of
                     Some ip \<Rightarrow> KeyIp (canonical_client_ip ip)
                   | None \<Rightarrow> KeyGlobal))
      in case map_option socket_ip (ext_socket_addr (req_ext req)) of
           Some ip \<Rightarrow> (if \<not> is_unspecified ip then KeyIp (canonical_client_ip ip) else forwarded)
         | None \<Rightarrow> forwarded)"

text \<open>The second and third step of the identity strategy.\<close>

definition extract_san_key :: "Request \<Rightarrow> bool \<Rightarrow> RateLimitKey" where
  "extract_san_key req trust =
     (case ext_client_san (req_ext req) of
        Some san \<Rightarrow> (if san \<noteq> [] then KeyClientCert san else extract_ip_key req trust)
      | None \<Rightarrow> extract_ip_key req trust)"

definition extract_rate_limit_key :: "Request \<Rightarrow> RateLimitKeyStrategy \<Rightarrow> bool \<Rightarrow> RateLimitKey" where
  "extract_rate_limit_key req key_by trust =
     (case key_by of
        Global \<Rightarrow> KeyGlobal
      | Ip \<Rightarrow> extract_ip_key req trust
      | Identity \<Rightarrow>
          (case ext_claims (req_ext req) of
             Some claims \<Rightarrow> (if claim_sub claims \<noteq> [] then KeyUser (claim_sub claims) else extract_san_key req trust)
           | None \<Rightarrow> extract_san_key req trust))"

section \<open>Stores\<close>

record 'e KeyedStore =
  ks_entries :: "(RateLimitKey, 'e) dashmap"
  ks_max_entries :: usize
  ks_ttl :: Duration
  ks_last_cleanup :: Instant

record CallEnv =
  ce_now :: Instant
  ce_lock1 :: bool     \<comment> \<open>\<open>try_lock\<close> in \<open>maybe_cleanup\<close>\<close>
  ce_lock2 :: bool     \<comment> \<open>\<open>try_lock\<close> in \<open>maybe_cleanup_when_full\<close>\<close>

definition store_new :: "usize \<Rightarrow> Duration \<Rightarrow> Instant \<Rightarrow> 'e KeyedStore" where
  "store_new max_entries ttl now =
     \<lparr> ks_entries = [], ks_max_entries = max_entries, ks_ttl = ttl, ks_last_cleanup = now \<rparr>"

definition cleanup :: "('e \<Rightarrow> Instant) \<Rightarrow> Instant \<Rightarrow> 'e KeyedStore \<Rightarrow> 'e KeyedStore" where
  "cleanup last_seen now st =
     st \<lparr> ks_entries := dm_retain (\<lambda>_ e. now - last_seen e < ks_ttl st) (ks_entries st) \<rparr>"

definition maybe_cleanup :: "('e \<Rightarrow> Instant) \<Rightarrow> CallEnv \<Rightarrow> 'e KeyedStore \<Rightarrow> 'e KeyedStore" where
  "maybe_cleanup last_seen env st =
     (if ce_lock1 env \<and> ce_now env - ks_last_cleanup st > secs 10
      then cleanup last_seen (ce_now env) (st \<lparr> ks_last_cleanup := ce_now env \<rparr>) else st)"

definition maybe_cleanup_when_full :: "('e \<Rightarrow> Instant) \<Rightarrow> CallEnv \<Rightarrow> 'e KeyedStore \<Rightarrow> 'e KeyedStore" where
  "maybe_cleanup_when_full last_seen env st =
     (if ce_lock2 env \<and> ce_now env - ks_last_cleanup st \<ge> secs 1
      then cleanup last_seen (ce_now env) (st \<lparr> ks_last_cleanup := ce_now env \<rparr>) else st)"

definition store_full :: "'e KeyedStore \<Rightarrow> bool" where
  "store_full st = (dm_len (ks_entries st) \<ge> unat (ks_max_entries st))"

definition store_put :: "RateLimitKey \<Rightarrow> 'e \<Rightarrow> 'e KeyedStore \<Rightarrow> 'e KeyedStore" where
  "store_put key e st = st \<lparr> ks_entries := dm_insert key e (ks_entries st) \<rparr>"

text \<open>The slow path of both stores, up to the insertion: whether a new key has room.\<close>

definition make_room :: "('e \<Rightarrow> Instant) \<Rightarrow> CallEnv \<Rightarrow> 'e KeyedStore \<Rightarrow> bool \<times> 'e KeyedStore" where
  "make_room last_seen env st =
     (if store_full st
      then (let st' = maybe_cleanup_when_full last_seen env st in (\<not> store_full st', st'))
      else (True, st))"

section \<open>Floating-point helpers\<close>

abbreviation f64 :: "rat \<Rightarrow> rat" where
  "f64 \<equiv> rnd 53"

definition as_secs_f64 :: "Duration \<Rightarrow> rat" where
  "as_secs_f64 d =
     f64 (f64 (of_nat (d div 1000000000)) + f64 (of_nat (d mod 1000000000) / 1000000000))"

text \<open>\<open>x.ceil().max(1.0) as u64\<close>\<close>

definition at_least_one_sec :: "rat \<Rightarrow> u64" where
  "at_least_one_sec x =
     (let c = max \<lceil>x\<rceil> 1 in if c \<ge> 2 ^ 64 then - 1 else of_int c)"

section \<open>The simple limiter\<close>

record KeyedSimpleEntry =
  next_allowed :: Instant
  se_last_seen :: Instant

definition check_and_record ::
  "Duration \<Rightarrow> KeyedSimpleEntry KeyedStore \<Rightarrow> RateLimitKey \<Rightarrow> CallEnv
     \<Rightarrow> (unit, u64) result \<times> KeyedSimpleEntry KeyedStore" where
  "check_and_record limit_duration st0 key env =
     (let now = ce_now env; st = maybe_cleanup se_last_seen env st0
      in case dm_get (ks_entries st) key of
           Some entry \<Rightarrow>
             (if now < next_allowed entry
              then (Err (at_least_one_sec (as_secs_f64 (next_allowed entry - now))),
                    store_put key (entry \<lparr> se_last_seen := now \<rparr>) st)
              else (Ok (), store_put key \<lparr> next_allowed = now + limit_duration, se_last_seen = now \<rparr> st))
         | None \<Rightarrow>
             (case make_room se_last_seen env st of
                (False, st') \<Rightarrow> (Err 1, st')
              | (True, st') \<Rightarrow>
                  (Ok (), store_put key \<lparr> next_allowed = now + limit_duration, se_last_seen = now \<rparr> st')))"

section \<open>The token bucket\<close>

record KeyedBucketEntry =
  tokens :: rat
  last_refill :: Instant
  be_last_seen :: Instant

record BucketConfig =
  bc_capacity :: usize
  bc_refill_tokens :: usize
  bc_interval :: Duration

definition cap_f64 :: "BucketConfig \<Rightarrow> rat" where
  "cap_f64 cfg = f64 (of_nat (unat (bc_capacity cfg)))"

definition bucket_rate :: "BucketConfig \<Rightarrow> rat" where
  "bucket_rate cfg = f64 (f64 (of_nat (unat (bc_refill_tokens cfg))) / as_secs_f64 (bc_interval cfg))"

text \<open>The update of a tracked bucket, under the lock of its shard.\<close>

definition bucket_take :: "BucketConfig \<Rightarrow> Instant \<Rightarrow> KeyedBucketEntry \<Rightarrow> (unit, u64) result \<times> KeyedBucketEntry" where
  "bucket_take cfg now entry =
     (let added = f64 (as_secs_f64 (now - last_refill entry) * bucket_rate cfg);
          t = min (f64 (tokens entry + added)) (cap_f64 cfg)
      in if t \<ge> 1
         then (Ok (), \<lparr> tokens = f64 (t - 1), last_refill = now, be_last_seen = now \<rparr>)
         else (Err (at_least_one_sec (f64 (f64 (1 - t) / bucket_rate cfg))),
               \<lparr> tokens = t, last_refill = now, be_last_seen = now \<rparr>))"

text \<open>The two atomic parts of \<open>try_consume\<close>: the lookup, and the admission of a key that was not found.\<close>

definition bucket_lookup ::
  "BucketConfig \<Rightarrow> KeyedBucketEntry KeyedStore \<Rightarrow> RateLimitKey \<Rightarrow> CallEnv
     \<Rightarrow> (unit, u64) result option \<times> KeyedBucketEntry KeyedStore" where
  "bucket_lookup cfg st0 key env =
     (let st = maybe_cleanup be_last_seen env st0
      in case dm_get (ks_entries st) key of
           Some entry \<Rightarrow> (case bucket_take cfg (ce_now env) entry of (r, entry') \<Rightarrow> (Some r, store_put key entry' st))
         | None \<Rightarrow> (None, st))"

definition bucket_admit_new ::
  "BucketConfig \<Rightarrow> KeyedBucketEntry KeyedStore \<Rightarrow> RateLimitKey \<Rightarrow> CallEnv
     \<Rightarrow> (unit, u64) result \<times> KeyedBucketEntry KeyedStore" where
  "bucket_admit_new cfg st key env =
     (case make_room be_last_seen env st of
        (False, st') \<Rightarrow> (Err 1, st')
      | (True, st') \<Rightarrow>
          (if cap_f64 cfg \<ge> 1
           then (Ok (), store_put key \<lparr> tokens = f64 (cap_f64 cfg - 1), last_refill = ce_now env,
                                        be_last_seen = ce_now env \<rparr> st')
           else (Err 1, st')))"

definition try_consume ::
  "BucketConfig \<Rightarrow> KeyedBucketEntry KeyedStore \<Rightarrow> RateLimitKey \<Rightarrow> CallEnv
     \<Rightarrow> (unit, u64) result \<times> KeyedBucketEntry KeyedStore" where
  "try_consume cfg st key env =
     (case bucket_lookup cfg st key env of
        (Some r, st') \<Rightarrow> (r, st')
      | (None, st') \<Rightarrow> bucket_admit_new cfg st' key env)"

section \<open>The services\<close>

record 'c RateLimiterService =
  rl_config :: 'c
  rl_key_by :: RateLimitKeyStrategy
  rl_trust_forwarded_headers :: bool
  rl_server_name :: string

definition too_many_requests :: "u64 \<Rightarrow> Response" where
  "too_many_requests retry_after_secs =
     \<lparr> resp_status = 429, resp_headers = [(''retry-after'', show_nat (unat retry_after_secs))],
       resp_body = full_body ''Too Many Requests'' \<rparr>"

definition simple_limiter_call ::
  "Duration RateLimiterService \<Rightarrow> CallEnv \<Rightarrow> Request \<Rightarrow> KeyedSimpleEntry KeyedStore \<Rightarrow> MetricsRegistry
     \<Rightarrow> gate \<times> KeyedSimpleEntry KeyedStore \<times> MetricsRegistry" where
  "simple_limiter_call svc env req st reg =
     (let key = extract_rate_limit_key req (rl_key_by svc) (rl_trust_forwarded_headers svc)
      in case check_and_record (rl_config svc) st key env of
           (Ok _, st') \<Rightarrow> (Allowed req, st', reg)
         | (Err retry_after_secs, st') \<Rightarrow>
             (Blocked (too_many_requests retry_after_secs), st', inc_rate_limited (rl_server_name svc) reg))"

definition bucket_limiter_call ::
  "BucketConfig RateLimiterService \<Rightarrow> CallEnv \<Rightarrow> Request \<Rightarrow> KeyedBucketEntry KeyedStore \<Rightarrow> MetricsRegistry
     \<Rightarrow> gate \<times> KeyedBucketEntry KeyedStore \<times> MetricsRegistry" where
  "bucket_limiter_call svc env req st reg =
     (let key = extract_rate_limit_key req (rl_key_by svc) (rl_trust_forwarded_headers svc)
      in case try_consume (rl_config svc) st key env of
           (Ok _, st') \<Rightarrow> (Allowed req, st', reg)
         | (Err retry_after_secs, st') \<Rightarrow>
             (Blocked (too_many_requests retry_after_secs), st', inc_rate_limited (rl_server_name svc) reg))"

section \<open>What the stores promise\<close>

definition store_wf :: "'e KeyedStore \<Rightarrow> bool" where
  "store_wf st = (dm_wf (ks_entries st) \<and> dm_len (ks_entries st) \<le> unat (ks_max_entries st))"

abbreviation entry_of :: "'e KeyedStore \<Rightarrow> RateLimitKey \<Rightarrow> 'e option" where
  "entry_of st k \<equiv> dm_get (ks_entries st) k"

text \<open>
  What a call may do to a store besides the entry of its own key: nothing but remove expired entries.
\<close>

definition only_expiry :: "('e \<Rightarrow> Instant) \<Rightarrow> Instant \<Rightarrow> RateLimitKey \<Rightarrow> 'e KeyedStore \<Rightarrow> 'e KeyedStore \<Rightarrow> bool" where
  "only_expiry last_seen now key st st' \<longleftrightarrow>
     ks_max_entries st' = ks_max_entries st \<and> ks_ttl st' = ks_ttl st
     \<and> (\<forall>k. k \<noteq> key \<longrightarrow> entry_of st' k = entry_of st k
          \<or> entry_of st' k = None \<and> (\<exists>e. entry_of st k = Some e \<and> ks_ttl st \<le> now - last_seen e))"

text \<open>A sequence of calls, with the answers.\<close>

fun limiter_run ::
  "('e KeyedStore \<Rightarrow> RateLimitKey \<Rightarrow> CallEnv \<Rightarrow> 'r \<times> 'e KeyedStore) \<Rightarrow> 'e KeyedStore
     \<Rightarrow> (RateLimitKey \<times> CallEnv) list \<Rightarrow> 'r list \<times> 'e KeyedStore" where
  "limiter_run check st [] = ([], st)"
| "limiter_run check st ((k, env) # calls) =
     (let (r, st') = check st k env; (rs, st'') = limiter_run check st' calls in (r # rs, st''))"

lemma limiter_run_Cons:
  "fst (limiter_run check st ((k, env) # calls))
     = fst (check st k env) # fst (limiter_run check (snd (check st k env)) calls)"
  "snd (limiter_run check st ((k, env) # calls)) = snd (limiter_run check (snd (check st k env)) calls)"
  by (simp_all add: split_beta)

declare limiter_run.simps(2) [simp del] limiter_run_Cons [simp]

locale limiter_store =
  fixes check :: "'e KeyedStore \<Rightarrow> RateLimitKey \<Rightarrow> CallEnv \<Rightarrow> (unit, u64) result \<times> 'e KeyedStore"
    and last_seen :: "'e \<Rightarrow> Instant"
  assumes check_wf: "store_wf st \<Longrightarrow> store_wf (snd (check st k env))"
    and check_others: "store_wf st \<Longrightarrow> only_expiry last_seen (ce_now env) k st (snd (check st k env))"
    and check_full: "store_wf st \<Longrightarrow> entry_of st k = None \<Longrightarrow> store_full st \<Longrightarrow>
      (\<And>k' e. entry_of st k' = Some e \<Longrightarrow> ce_now env - last_seen e < ks_ttl st) \<Longrightarrow>
      fst (check st k env) = Err 1 \<and> ks_entries (snd (check st k env)) = ks_entries st"
begin

lemma run_wf: "store_wf st \<Longrightarrow> store_wf (snd (limiter_run check st calls))"
proof (induction calls arbitrary: st)
  case (Cons c calls)
  then show ?case by (cases c) (simp add: check_wf)
qed simp

lemma run_config:
  "store_wf st \<Longrightarrow> ks_ttl (snd (limiter_run check st calls)) = ks_ttl st
     \<and> ks_max_entries (snd (limiter_run check st calls)) = ks_max_entries st"
proof (induction calls arbitrary: st)
  case (Cons c calls)
  obtain k env where c: "c = (k, env)" by (cases c)
  show ?case
    using Cons.IH [OF check_wf [OF Cons.prems, of k env]] check_others [OF Cons.prems, of env k]
    by (simp add: c only_expiry_def)
qed simp

lemma run_bounded:
  "store_wf st \<Longrightarrow> dm_len (ks_entries (snd (limiter_run check st calls))) \<le> unat (ks_max_entries st)"
  using run_wf [of st calls] run_config [of st calls] by (simp add: store_wf_def)

text \<open>Calls for other keys, however many, leave an entry alone until its time to live is over.\<close>

lemma run_isolated:
  assumes "store_wf st" and "entry_of st k = Some e"
    and "list_all (\<lambda>(k', env). k' \<noteq> k \<and> ce_now env - last_seen e < ks_ttl st) calls"
  shows "entry_of (snd (limiter_run check st calls)) k = Some e"
  using assms
proof (induction calls arbitrary: st)
  case (Cons c calls)
  obtain k' env where c: "c = (k', env)" by (cases c)
  have "k' \<noteq> k" "ce_now env - last_seen e < ks_ttl st" using Cons.prems(3) by (simp_all add: c)
  then have "entry_of (snd (check st k' env)) k = Some e" "ks_ttl (snd (check st k' env)) = ks_ttl st"
    using check_others [OF Cons.prems(1), of env k'] Cons.prems(2) by (auto simp: only_expiry_def)
  with Cons.IH [OF check_wf [OF Cons.prems(1)]] Cons.prems(3) show ?case by (simp add: c)
qed simp

end

subsection \<open>The shared parts\<close>

lemma cleanup_get:
  "dm_wf (ks_entries st) \<Longrightarrow> entry_of (cleanup seen now st) k =
     (case entry_of st k of None \<Rightarrow> None | Some e \<Rightarrow> (if now - seen e < ks_ttl st then Some e else None))"
  by (simp add: cleanup_def dm.get_retain)

lemma cleanup_wf: "store_wf st \<Longrightarrow> store_wf (cleanup seen now st)"
  by (simp add: store_wf_def cleanup_def dm.wf_retain dm.retain_bounded)

definition expiry :: "('e \<Rightarrow> Instant) \<Rightarrow> Instant \<Rightarrow> 'e KeyedStore \<Rightarrow> 'e KeyedStore \<Rightarrow> bool" where
  "expiry seen now st st' \<longleftrightarrow>
     store_wf st' \<and> ks_max_entries st' = ks_max_entries st \<and> ks_ttl st' = ks_ttl st
     \<and> (\<forall>k. entry_of st' k = entry_of st k
          \<or> entry_of st' k = None \<and> (\<exists>e. entry_of st k = Some e \<and> ks_ttl st \<le> now - seen e))"

lemma expiry_refl: "store_wf st \<Longrightarrow> expiry seen now st st"
  by (simp add: expiry_def)

lemma expiry_trans: "expiry seen now st1 st2 \<Longrightarrow> expiry seen now st2 st3 \<Longrightarrow> expiry seen now st1 st3"
  unfolding expiry_def by (smt (verit, ccfv_SIG) option.distinct(1))

lemma cleanup_expiry:
  assumes "store_wf st"
  shows "expiry seen now st (cleanup seen now (st \<lparr> ks_last_cleanup := t \<rparr>))"
proof -
  have wf: "store_wf (st \<lparr> ks_last_cleanup := t \<rparr>)" using assms by (simp add: store_wf_def)
  have "dm_wf (ks_entries (st \<lparr> ks_last_cleanup := t \<rparr>))" using assms by (simp add: store_wf_def)
  from cleanup_get [OF this, of seen now] cleanup_wf [OF wf, of seen now] show ?thesis
    by (auto simp: expiry_def cleanup_def split: option.splits if_splits)
qed

lemma maybe_cleanup_expiry: "store_wf st \<Longrightarrow> expiry seen (ce_now env) st (maybe_cleanup seen env st)"
  by (simp add: maybe_cleanup_def cleanup_expiry expiry_refl)

lemma maybe_cleanup_when_full_expiry:
  "store_wf st \<Longrightarrow> expiry seen (ce_now env) st (maybe_cleanup_when_full seen env st)"
  by (simp add: maybe_cleanup_when_full_def cleanup_expiry expiry_refl)

lemma make_room_expiry:
  "store_wf st \<Longrightarrow> make_room seen env st = (b, st') \<Longrightarrow>
     expiry seen (ce_now env) st st' \<and> (b \<longleftrightarrow> \<not> store_full st')"
  using maybe_cleanup_when_full_expiry [of st seen env]
  by (auto simp: make_room_def Let_def expiry_refl split: if_splits)

lemma store_put_wf:
  "store_wf st \<Longrightarrow> entry_of st k \<noteq> None \<or> \<not> store_full st \<Longrightarrow> store_wf (store_put k e st)"
  by (auto simp: store_wf_def store_put_def store_full_def dm.wf_insert intro: dm.insert_bounded)

lemma store_put_get: "entry_of (store_put k e st) k' = (if k' = k then Some e else entry_of st k')"
  by (simp add: store_put_def dm.get_insert)

lemma store_put_config [simp]:
  "ks_ttl (store_put k e st) = ks_ttl st" "ks_max_entries (store_put k e st) = ks_max_entries st"
  by (simp_all add: store_put_def)

lemma expiry_only: "expiry seen now st st' \<Longrightarrow> only_expiry seen now k st st'"
  by (simp add: expiry_def only_expiry_def)

lemma expiry_put_only: "expiry seen now st st' \<Longrightarrow> only_expiry seen now k st (store_put k e st')"
  by (auto simp: expiry_def only_expiry_def store_put_get)

lemma expiry_none: "expiry seen now st st' \<Longrightarrow> entry_of st k = None \<Longrightarrow> entry_of st' k = None"
  unfolding expiry_def by metis

lemma expiry_keeps:
  assumes "expiry seen now st st'" and "entry_of st k = Some e" and "now - seen e < ks_ttl st"
  shows "entry_of st' k = Some e"
proof -
  have "entry_of st' k = entry_of st k
      \<or> entry_of st' k = None \<and> (\<exists>e. entry_of st k = Some e \<and> ks_ttl st \<le> now - seen e)"
    using assms(1) by (simp add: expiry_def)
  with assms(2,3) show ?thesis by auto
qed

lemma only_expiry_keeps:
  assumes "only_expiry seen now k' st st'" and "k \<noteq> k'" and "entry_of st k = Some e" and "now - seen e < ks_ttl st"
  shows "entry_of st' k = Some e"
proof -
  have "entry_of st' k = entry_of st k
      \<or> entry_of st' k = None \<and> (\<exists>e. entry_of st k = Some e \<and> ks_ttl st \<le> now - seen e)"
    using assms(1,2) by (simp add: only_expiry_def)
  with assms(3,4) show ?thesis by auto
qed

text \<open>Nothing expires in a store whose entries were all seen within the time to live.\<close>

lemma live_cleanup:
  assumes "dm_wf (ks_entries st)" "\<And>k e. entry_of st k = Some e \<Longrightarrow> now - seen e < ks_ttl st"
  shows "ks_entries (cleanup seen now st) = ks_entries st"
proof -
  have "now - seen (snd x) < ks_ttl st" if "x \<in> set (ks_entries st)" for x
    using assms that by (cases x) (auto simp: dm_get_def dm_wf_def)
  then show ?thesis by (auto simp: cleanup_def dm_retain_def filter_id_conv split: prod.splits)
qed

lemma live_maybe_cleanup:
  assumes "store_wf st" "\<And>k e. entry_of st k = Some e \<Longrightarrow> ce_now env - seen e < ks_ttl st"
  shows "ks_entries (maybe_cleanup seen env st) = ks_entries st"
    and "ks_entries (maybe_cleanup_when_full seen env st) = ks_entries st"
proof -
  have "ks_entries (cleanup seen (ce_now env) (st \<lparr> ks_last_cleanup := ce_now env \<rparr>)) = ks_entries st"
    using live_cleanup [of "st \<lparr> ks_last_cleanup := ce_now env \<rparr>" "ce_now env" seen] assms
    by (simp add: store_wf_def)
  then show "ks_entries (maybe_cleanup seen env st) = ks_entries st"
    and "ks_entries (maybe_cleanup_when_full seen env st) = ks_entries st"
    by (simp_all add: maybe_cleanup_def maybe_cleanup_when_full_def)
qed

lemma live_make_room:
  assumes "store_wf st" "\<And>k e. entry_of st k = Some e \<Longrightarrow> ce_now env - seen e < ks_ttl st"
    and "store_full st"
  shows "\<exists>st'. make_room seen env st = (False, st') \<and> ks_entries st' = ks_entries st"
proof -
  have "ks_max_entries (maybe_cleanup_when_full seen env st) = ks_max_entries st"
    using maybe_cleanup_when_full_expiry [OF assms(1), of seen env] by (simp add: expiry_def)
  then show ?thesis
    using live_maybe_cleanup(2) [OF assms(1,2)] assms(3)
    by (simp add: make_room_def Let_def store_full_def)
qed

subsection \<open>Both stores keep the promise\<close>

lemma check_and_record_expiry:
  assumes "store_wf st"
  shows "store_wf (snd (check_and_record d st k env))
    \<and> only_expiry se_last_seen (ce_now env) k st (snd (check_and_record d st k env))"
proof -
  define st1 where "st1 = maybe_cleanup se_last_seen env st"
  have ex1: "expiry se_last_seen (ce_now env) st st1"
    unfolding st1_def by (rule maybe_cleanup_expiry [OF assms])
  then have wf1: "store_wf st1" by (simp add: expiry_def)
  obtain b st2 where room: "make_room se_last_seen env st1 = (b, st2)" by (cases "make_room se_last_seen env st1")
  have ex2: "expiry se_last_seen (ce_now env) st st2" and b: "b \<longleftrightarrow> \<not> store_full st2"
    using make_room_expiry [OF wf1 room] expiry_trans [OF ex1] by auto
  then have wf2: "store_wf st2" by (simp add: expiry_def)
  show ?thesis
    unfolding check_and_record_def Let_def st1_def [symmetric]
    using b ex1 ex2 wf1 wf2
    by (auto simp: room expiry_put_only expiry_only store_put_wf split: option.split bool.split)
qed

lemma try_consume_expiry:
  assumes "store_wf st"
  shows "store_wf (snd (try_consume cfg st k env))
    \<and> only_expiry be_last_seen (ce_now env) k st (snd (try_consume cfg st k env))"
proof -
  define st1 where "st1 = maybe_cleanup be_last_seen env st"
  have ex1: "expiry be_last_seen (ce_now env) st st1"
    unfolding st1_def by (rule maybe_cleanup_expiry [OF assms])
  then have wf1: "store_wf st1" by (simp add: expiry_def)
  obtain b st2 where room: "make_room be_last_seen env st1 = (b, st2)" by (cases "make_room be_last_seen env st1")
  have ex2: "expiry be_last_seen (ce_now env) st st2" and b: "b \<longleftrightarrow> \<not> store_full st2"
    using make_room_expiry [OF wf1 room] expiry_trans [OF ex1] by auto
  then have wf2: "store_wf st2" by (simp add: expiry_def)
  show ?thesis
    unfolding try_consume_def bucket_lookup_def bucket_admit_new_def Let_def st1_def [symmetric]
    using b ex1 ex2 wf1 wf2
    by (auto simp: room expiry_put_only expiry_only store_put_wf split: option.split bool.split prod.split)
qed

lemma live_after_cleanup:
  assumes "store_wf st" and "\<And>k e. entry_of st k = Some e \<Longrightarrow> ce_now env - seen e < ks_ttl st"
    and "store_full st"
  shows "\<exists>st'. make_room seen env (maybe_cleanup seen env st) = (False, st')
    \<and> ks_entries st' = ks_entries st \<and> ks_entries (maybe_cleanup seen env st) = ks_entries st"
proof -
  note same = live_maybe_cleanup(1) [OF assms(1,2)]
  have ex: "expiry seen (ce_now env) st (maybe_cleanup seen env st)" by (rule maybe_cleanup_expiry [OF assms(1)])
  then have "store_full (maybe_cleanup seen env st)"
    using assms(3) same by (simp add: expiry_def store_full_def)
  then have "\<exists>st'. make_room seen env (maybe_cleanup seen env st) = (False, st')
      \<and> ks_entries st' = ks_entries (maybe_cleanup seen env st)"
    using ex assms(2) same by (intro live_make_room) (simp_all add: expiry_def)
  with same show ?thesis by simp
qed

interpretation simple: limiter_store "check_and_record d" se_last_seen for d
proof (unfold_locales, goal_cases)
  case (3 st k env)
  with live_after_cleanup [of st env se_last_seen] show ?case by (auto simp: check_and_record_def)
qed (use check_and_record_expiry in blast)+

interpretation bucket: limiter_store "try_consume cfg" be_last_seen for cfg
proof (unfold_locales, goal_cases)
  case (3 st k env)
  with live_after_cleanup [of st env be_last_seen] show ?case
    by (auto simp: try_consume_def bucket_lookup_def bucket_admit_new_def)
qed (use try_consume_expiry in blast)+

section \<open>Spacing of the simple limiter\<close>

text \<open>The store remembers an admission of \<open>k\<close> at time \<open>t0\<close>.\<close>

definition guarded :: "Duration \<Rightarrow> KeyedSimpleEntry KeyedStore \<Rightarrow> RateLimitKey \<Rightarrow> Instant \<Rightarrow> bool" where
  "guarded d st k t0 = (case entry_of st k of None \<Rightarrow> False | Some e \<Rightarrow> t0 + d \<le> next_allowed e \<and> t0 \<le> se_last_seen e)"

lemma admission_guards:
  "check_and_record d st k env = (Ok (), st') \<Longrightarrow> guarded d st' k (ce_now env)"
  by (auto simp: check_and_record_def Let_def guarded_def store_put_get
      split: option.splits if_splits prod.splits bool.splits)

lemma guarded_step:
  assumes wf: "store_wf st" and g: "guarded d st k t0" and d: "d \<le> ks_ttl st"
    and now: "t0 \<le> ce_now env" "ce_now env < t0 + d"
  shows "guarded d (snd (check_and_record d st k' env)) k t0"
    and "k' = k \<Longrightarrow> \<not> is_ok (fst (check_and_record d st k' env))"
proof -
  obtain e where e: "entry_of st k = Some e" "t0 + d \<le> next_allowed e" "t0 \<le> se_last_seen e"
    using g by (auto simp: guarded_def split: option.splits)
  have live: "ce_now env - se_last_seen e < ks_ttl st" using now d e(3) by simp
  have kept: "entry_of (maybe_cleanup se_last_seen env st) k = Some e"
    using maybe_cleanup_expiry [OF wf] e(1) live by (rule expiry_keeps)
  have own: "check_and_record d st k env =
      (Err (at_least_one_sec (as_secs_f64 (next_allowed e - ce_now env))),
       store_put k (e \<lparr> se_last_seen := ce_now env \<rparr>) (maybe_cleanup se_last_seen env st))"
    using kept e(2) now by (simp add: check_and_record_def Let_def)
  show "k' = k \<Longrightarrow> \<not> is_ok (fst (check_and_record d st k' env))" using own by simp
  show "guarded d (snd (check_and_record d st k' env)) k t0"
  proof (cases "k' = k")
    case True
    then show ?thesis using own e now by (simp add: guarded_def store_put_get)
  next
    case False
    then have "entry_of (snd (check_and_record d st k' env)) k = Some e"
      using check_and_record_expiry [OF wf, of d k' env] e(1) live by (metis only_expiry_keeps)
    then show ?thesis using e by (simp add: guarded_def)
  qed
qed

abbreviation call_time :: "RateLimitKey \<times> CallEnv \<Rightarrow> Instant" where
  "call_time c \<equiv> ce_now (snd c)"

lemma guarded_run:
  assumes "store_wf st" "guarded d st k t0" "d \<le> ks_ttl st" "sorted (t0 # map call_time calls)"
    and "j < length calls" "fst (calls ! j) = k" "is_ok (fst (limiter_run (check_and_record d) st calls) ! j)"
  shows "t0 + d \<le> call_time (calls ! j)"
  using assms
proof (induction calls arbitrary: st j)
  case (Cons c calls)
  obtain k' env where c: "c = (k', env)" by (cases c)
  show ?case
  proof (cases "t0 + d \<le> ce_now env")
    case True
    have "ce_now env \<le> call_time ((c # calls) ! j)"
      using Cons.prems(4,5) by (cases j) (auto simp: c)
    with True show ?thesis by simp
  next
    case False
    have now: "t0 \<le> ce_now env" "ce_now env < t0 + d" using Cons.prems(4) False by (auto simp: c)
    note step = guarded_step [OF Cons.prems(1-3) now]
    obtain i where j: "j = Suc i" using Cons.prems(6,7) step(2) [of k'] by (cases j) (auto simp: c)
    have "ks_ttl (snd (check_and_record d st k' env)) = ks_ttl st"
      using check_and_record_expiry [OF Cons.prems(1), of d k' env] by (simp add: only_expiry_def)
    with Cons.prems Cons.IH [of "snd (check_and_record d st k' env)" i] step(1) [of k'] show ?thesis
      by (auto simp: c j simple.check_wf)
  qed
qed simp


section \<open>The budget of the token bucket\<close>

text \<open>The unit roundoff, and the rate with the rounding of a refill added.\<close>

definition roundoff :: rat where
  "roundoff = 1 / 2 ^ 53"

definition rate_up :: "BucketConfig \<Rightarrow> rat" where
  "rate_up cfg = bucket_rate cfg * (1 + roundoff) ^ 3"

lemma f64_bounds: "0 \<le> x \<Longrightarrow> 0 \<le> f64 x" "0 \<le> x \<Longrightarrow> f64 x \<le> x * (1 + roundoff)"
  using rnd_nonneg [of 53 x] rnd_le [of 53 x] by (simp_all add: roundoff_def)

lemma roundoff_pos: "0 < roundoff"
  by (simp add: roundoff_def)

lemma as_secs_f64_bounds:
  "0 \<le> as_secs_f64 d" "as_secs_f64 d \<le> of_nat d / 1000000000 * (1 + roundoff) ^ 2"
proof -
  let ?s = "of_nat (d div 1000000000) :: rat" and ?n = "of_nat (d mod 1000000000) / 1000000000 :: rat"
  have "d = 1000000000 * (d div 1000000000) + d mod 1000000000" by simp
  then have "(of_nat d :: rat) = 1000000000 * ?s + of_nat (d mod 1000000000)"
    by (metis of_nat_add of_nat_mult of_nat_numeral)
  then have split: "of_nat d / 1000000000 = ?s + ?n" by simp
  have in_pos: "0 \<le> f64 ?s" "0 \<le> f64 ?n" by (simp_all add: f64_bounds)
  have "f64 ?s + f64 ?n \<le> ?s * (1 + roundoff) + ?n * (1 + roundoff)"
    by (intro add_mono f64_bounds) simp_all
  then have le: "f64 ?s + f64 ?n \<le> of_nat d / 1000000000 * (1 + roundoff)"
    by (simp add: split distrib_right)
  show "0 \<le> as_secs_f64 d" unfolding as_secs_f64_def using in_pos by (intro f64_bounds) simp
  have "as_secs_f64 d \<le> (f64 ?s + f64 ?n) * (1 + roundoff)"
    unfolding as_secs_f64_def using in_pos by (intro f64_bounds) simp
  also have "\<dots> \<le> of_nat d / 1000000000 * (1 + roundoff) * (1 + roundoff)"
    using le roundoff_pos by (intro mult_right_mono) simp_all
  finally show "as_secs_f64 d \<le> of_nat d / 1000000000 * (1 + roundoff) ^ 2"
    by (simp add: power2_eq_square mult.assoc)
qed

lemma bucket_rate_nonneg: "0 \<le> bucket_rate cfg"
  unfolding bucket_rate_def by (intro f64_bounds divide_nonneg_nonneg as_secs_f64_bounds of_nat_0_le_iff)

lemma cap_nonneg: "0 \<le> cap_f64 cfg"
  unfolding cap_f64_def by (intro f64_bounds of_nat_0_le_iff)

lemma f64_cap: "f64 (cap_f64 cfg) = cap_f64 cfg"
  unfolding cap_f64_def by (rule rnd_idem) (simp, rule of_nat_0_le_iff)

lemma added_bounds:
  "0 \<le> f64 (as_secs_f64 d * bucket_rate cfg)"
  "f64 (as_secs_f64 d * bucket_rate cfg) \<le> of_nat d / 1000000000 * rate_up cfg"
proof -
  have pos: "0 \<le> as_secs_f64 d * bucket_rate cfg"
    by (intro mult_nonneg_nonneg as_secs_f64_bounds bucket_rate_nonneg)
  then show "0 \<le> f64 (as_secs_f64 d * bucket_rate cfg)" by (rule f64_bounds)
  have "f64 (as_secs_f64 d * bucket_rate cfg) \<le> as_secs_f64 d * bucket_rate cfg * (1 + roundoff)"
    using pos by (rule f64_bounds)
  also have "\<dots> \<le> of_nat d / 1000000000 * (1 + roundoff) ^ 2 * bucket_rate cfg * (1 + roundoff)"
    using as_secs_f64_bounds(2) bucket_rate_nonneg roundoff_pos by (intro mult_right_mono) simp_all
  finally show "f64 (as_secs_f64 d * bucket_rate cfg) \<le> of_nat d / 1000000000 * rate_up cfg"
    by (simp add: rate_up_def power2_eq_square power3_eq_cube mult_ac)
qed

lemma bucket_take_budget:
  assumes "0 \<le> tokens e" and "tokens e \<le> cap_f64 cfg" and take: "bucket_take cfg now e = (r, e')"
  shows "0 \<le> tokens e'" and "tokens e' \<le> cap_f64 cfg"
    and "last_refill e' = now" and "be_last_seen e' = now"
    and "of_bool (is_ok r) + tokens e'
      \<le> tokens e + of_nat (now - last_refill e) / 1000000000 * rate_up cfg + 2 * roundoff * cap_f64 cfg"
proof -
  define added where "added = f64 (as_secs_f64 (now - last_refill e) * bucket_rate cfg)"
  define t where "t = min (f64 (tokens e + added)) (cap_f64 cfg)"
  have added: "0 \<le> added" "added \<le> of_nat (now - last_refill e) / 1000000000 * rate_up cfg"
    unfolding added_def by (rule added_bounds)+
  have t0: "0 \<le> t" "t \<le> cap_f64 cfg"
    unfolding t_def using assms(1) added(1) by (simp_all add: f64_bounds cap_nonneg)
  have cap_err: "0 \<le> roundoff * cap_f64 cfg" using roundoff_pos cap_nonneg [of cfg] by simp
  have t: "t \<le> tokens e + added + roundoff * cap_f64 cfg"
  proof (cases "tokens e + added \<le> cap_f64 cfg")
    case True
    have "t \<le> (tokens e + added) * (1 + roundoff)"
      using f64_bounds(2) [of "tokens e + added"] assms(1) added(1) by (simp add: t_def)
    moreover have "(tokens e + added) * roundoff \<le> roundoff * cap_f64 cfg"
      using True roundoff_pos by (simp add: mult.commute)
    ultimately show ?thesis by (simp add: distrib_left)
  qed (use t0 cap_err in linarith)
  have taken: "f64 (t - 1) \<le> t - 1 + roundoff * cap_f64 cfg" "0 \<le> f64 (t - 1)" if "1 \<le> t"
  proof -
    have "f64 (t - 1) \<le> (t - 1) * (1 + roundoff)" using that by (intro f64_bounds) simp
    moreover have "(t - 1) * roundoff \<le> roundoff * cap_f64 cfg"
      using t0 roundoff_pos by (simp add: mult.commute)
    ultimately show "f64 (t - 1) \<le> t - 1 + roundoff * cap_f64 cfg" by (simp add: distrib_left)
    show "0 \<le> f64 (t - 1)" using that by (intro f64_bounds) simp
  qed
  have le_cap: "f64 (t - 1) \<le> cap_f64 cfg" if "1 \<le> t"
    using rnd_mono [of 53 "t - 1" "cap_f64 cfg"] that t0 by (simp add: f64_cap)
  have res: "(r, e') = (if t \<ge> 1
      then (Ok (), \<lparr> tokens = f64 (t - 1), last_refill = now, be_last_seen = now \<rparr>)
      else (Err (at_least_one_sec (f64 (f64 (1 - t) / bucket_rate cfg))),
            \<lparr> tokens = t, last_refill = now, be_last_seen = now \<rparr>))"
    unfolding take [symmetric] bucket_take_def Let_def added_def [symmetric] t_def [symmetric] ..
  show "0 \<le> tokens e'" and "tokens e' \<le> cap_f64 cfg" and "last_refill e' = now" and "be_last_seen e' = now"
    using res t0 taken le_cap by (auto split: if_splits)
  show "of_bool (is_ok r) + tokens e'
      \<le> tokens e + of_nat (now - last_refill e) / 1000000000 * rate_up cfg + 2 * roundoff * cap_f64 cfg"
    using res t0 t taken(1) added(2) cap_err by (auto split: if_splits)
qed

text \<open>
  What the bucket of a key can still give out until \<open>t_end\<close>, when all calls come after \<open>t_start\<close>.
\<close>

definition bucket_avail ::
  "BucketConfig \<Rightarrow> Instant \<Rightarrow> Instant \<Rightarrow> KeyedBucketEntry option \<Rightarrow> rat" where
  "bucket_avail cfg t_start t_end entry =
     (case entry of
        None \<Rightarrow> cap_f64 cfg + of_nat (t_end - t_start) / 1000000000 * rate_up cfg
      | Some e \<Rightarrow> tokens e + of_nat (t_end - last_refill e) / 1000000000 * rate_up cfg)"

definition bucket_inv :: "BucketConfig \<Rightarrow> Instant \<Rightarrow> Instant \<Rightarrow> KeyedBucketEntry option \<Rightarrow> bool" where
  "bucket_inv cfg t_start now entry =
     (case entry of
        None \<Rightarrow> True
      | Some e \<Rightarrow> 0 \<le> tokens e \<and> tokens e \<le> cap_f64 cfg \<and> be_last_seen e = last_refill e
          \<and> t_start \<le> last_refill e \<and> last_refill e \<le> now)"

lemma rate_up_nonneg: "0 \<le> rate_up cfg"
  using bucket_rate_nonneg [of cfg] roundoff_pos by (simp add: rate_up_def)

lemma avail_nonneg: "bucket_inv cfg t_start now entry \<Longrightarrow> 0 \<le> bucket_avail cfg t_start t_end entry"
  using rate_up_nonneg [of cfg] cap_nonneg [of cfg]
  by (auto simp: bucket_avail_def bucket_inv_def split: option.splits)

lemma elapsed_split:
  assumes "a \<le> b" "b \<le> c"
  shows "(of_nat (c - a) :: rat) = of_nat (b - a) + of_nat (c - b)"
  using assms by (simp flip: of_nat_add)

lemma take_avail:
  assumes "bucket_inv cfg t_start now (Some e)" and "now \<le> t_end" and "bucket_take cfg now e = (r, e')"
  shows "bucket_inv cfg t_start now (Some e')"
    and "of_bool (is_ok r) + bucket_avail cfg t_start t_end (Some e')
      \<le> bucket_avail cfg t_start t_end (Some e) + 2 * roundoff * cap_f64 cfg"
proof -
  have e: "0 \<le> tokens e" "tokens e \<le> cap_f64 cfg" "last_refill e \<le> now" "t_start \<le> last_refill e"
    using assms(1) by (auto simp: bucket_inv_def)
  note b = bucket_take_budget [OF e(1,2) assms(3)]
  show "bucket_inv cfg t_start now (Some e')" using b(1-4) e by (simp add: bucket_inv_def)
  show "of_bool (is_ok r) + bucket_avail cfg t_start t_end (Some e')
      \<le> bucket_avail cfg t_start t_end (Some e) + 2 * roundoff * cap_f64 cfg"
    using b(5) elapsed_split [OF e(3) assms(2)] b(3)
    by (simp add: bucket_avail_def add_divide_distrib distrib_right)
qed

lemma new_avail:
  assumes "t_start \<le> now" "now \<le> t_end" "1 \<le> cap_f64 cfg"
    and e: "e = \<lparr> tokens = f64 (cap_f64 cfg - 1), last_refill = now, be_last_seen = now \<rparr>"
  shows "bucket_inv cfg t_start now (Some e)"
    and "1 + bucket_avail cfg t_start t_end (Some e)
      \<le> bucket_avail cfg t_start t_end None + 2 * roundoff * cap_f64 cfg"
proof -
  have "f64 (cap_f64 cfg - 1) \<le> cap_f64 cfg"
    using rnd_mono [of 53 "cap_f64 cfg - 1" "cap_f64 cfg"] assms(3) by (simp add: f64_cap)
  then show "bucket_inv cfg t_start now (Some e)"
    using assms by (simp add: bucket_inv_def f64_bounds)
  have "f64 (cap_f64 cfg - 1) \<le> (cap_f64 cfg - 1) * (1 + roundoff)" using assms(3) by (intro f64_bounds) simp
  also have "\<dots> \<le> cap_f64 cfg - 1 + 2 * roundoff * cap_f64 cfg"
    using roundoff_pos cap_nonneg [of cfg] by (simp add: algebra_simps)
  finally have "f64 (cap_f64 cfg - 1) \<le> cap_f64 cfg - 1 + 2 * roundoff * cap_f64 cfg" .
  moreover have "of_nat (t_end - now) / 1000000000 * rate_up cfg \<le> of_nat (t_end - t_start) / 1000000000 * rate_up cfg"
    using assms(1) rate_up_nonneg by (intro mult_right_mono divide_right_mono) simp_all
  ultimately show "1 + bucket_avail cfg t_start t_end (Some e)
      \<le> bucket_avail cfg t_start t_end None + 2 * roundoff * cap_f64 cfg"
    by (simp add: bucket_avail_def e)
qed

lemma inv_live:
  assumes "bucket_inv cfg t_start now (Some e)" and "now - t_start < ttl"
  shows "now - be_last_seen e < ttl"
proof -
  have "be_last_seen e = last_refill e" "t_start \<le> last_refill e" using assms(1) by (simp_all add: bucket_inv_def)
  with assms(2) show ?thesis by linarith
qed

lemma consume_other:
  assumes wf: "store_wf st" and "k' \<noteq> k" and inv: "bucket_inv cfg t_start (ce_now env) (entry_of st k)"
    and "ce_now env - t_start < ks_ttl st"
  shows "entry_of (snd (try_consume cfg st k' env)) k = entry_of st k"
proof (cases "entry_of st k")
  case None
  then show ?thesis using try_consume_expiry [OF wf, of cfg k' env] \<open>k' \<noteq> k\<close> unfolding only_expiry_def by metis
next
  case (Some e)
  then have "ce_now env - be_last_seen e < ks_ttl st" using inv assms(4) by (intro inv_live) simp_all
  then show ?thesis
    using only_expiry_keeps [of be_last_seen "ce_now env" k' st _ k e] try_consume_expiry [OF wf, of cfg k' env]
      \<open>k' \<noteq> k\<close> Some by simp
qed

lemma consume_own:
  assumes wf: "store_wf st" and inv: "bucket_inv cfg t_start (ce_now env) (entry_of st k)"
    and t: "t_start \<le> ce_now env" "ce_now env \<le> t_end" "ce_now env - t_start < ks_ttl st"
    and run: "try_consume cfg st k env = (r, st')"
  shows "bucket_inv cfg t_start (ce_now env) (entry_of st' k)
    \<and> of_bool (is_ok r) + bucket_avail cfg t_start t_end (entry_of st' k)
      \<le> bucket_avail cfg t_start t_end (entry_of st k) + 2 * roundoff * cap_f64 cfg"
proof -
  define st1 where "st1 = maybe_cleanup be_last_seen env st"
  have ex: "expiry be_last_seen (ce_now env) st st1" unfolding st1_def by (rule maybe_cleanup_expiry [OF wf])
  show ?thesis
  proof (cases "entry_of st k")
    case (Some e)
    then have "entry_of st1 k = Some e"
      using inv t(3) by (intro expiry_keeps [OF ex] inv_live) simp_all
    moreover obtain r2 e' where take: "bucket_take cfg (ce_now env) e = (r2, e')"
      by (cases "bucket_take cfg (ce_now env) e")
    ultimately have "r = r2" "entry_of st' k = Some e'"
      using run by (auto simp: try_consume_def bucket_lookup_def st1_def [symmetric] store_put_get)
    then show ?thesis using take_avail [OF _ t(2) take] inv Some by simp
  next
    case None
    then have none: "entry_of st1 k = None" by (rule expiry_none [OF ex])
    obtain b st2 where room: "make_room be_last_seen env st1 = (b, st2)" by (cases "make_room be_last_seen env st1")
    have "store_wf st1" using ex by (simp add: expiry_def)
    then have "entry_of st2 k = None" using make_room_expiry [OF _ room] expiry_none none by blast
    moreover have "0 \<le> 2 * roundoff * cap_f64 cfg" using roundoff_pos cap_nonneg [of cfg] by simp
    ultimately show ?thesis
      using run none None new_avail [OF t(1,2), of cfg]
      by (auto simp: try_consume_def bucket_lookup_def bucket_admit_new_def st1_def [symmetric] room
          bucket_inv_def store_put_get split: bool.splits if_splits)
  qed
qed

text \<open>The requests of \<open>k\<close> that were admitted, and all requests of \<open>k\<close>.\<close>

definition admitted :: "RateLimitKey \<Rightarrow> (RateLimitKey \<times> CallEnv) list \<Rightarrow> (unit, u64) result list \<Rightarrow> nat" where
  "admitted k calls rs = cnt (\<lambda>(c, r). fst c = k \<and> is_ok r) (zip calls rs)"

definition asked :: "RateLimitKey \<Rightarrow> (RateLimitKey \<times> CallEnv) list \<Rightarrow> nat" where
  "asked k calls = cnt (\<lambda>c. fst c = k) calls"

lemma bucket_run_budget:
  assumes "store_wf st" and "bucket_inv cfg t_start t0 (entry_of st k)" and "t_start \<le> t0"
    and "sorted (t0 # map call_time calls)" and "list_all (\<lambda>c. call_time c \<le> t_end) calls"
    and "t_end - t_start < ks_ttl st"
  shows "of_nat (admitted k calls (fst (limiter_run (try_consume cfg) st calls)))
    \<le> bucket_avail cfg t_start t_end (entry_of st k) + of_nat (asked k calls) * (2 * roundoff * cap_f64 cfg)"
  using assms
proof (induction calls arbitrary: st t0)
  case Nil
  then show ?case by (simp add: admitted_def asked_def avail_nonneg)
next
  case (Cons c calls)
  obtain k' env where c: "c = (k', env)" by (cases c)
  obtain r st' where run: "try_consume cfg st k' env = (r, st')" by (cases "try_consume cfg st k' env")
  have t: "t_start \<le> ce_now env" "ce_now env \<le> t_end" "ce_now env - t_start < ks_ttl st"
    using Cons.prems(3-6) by (auto simp: c)
  have inv: "bucket_inv cfg t_start (ce_now env) (entry_of st k)"
    using Cons.prems(2,4) by (auto simp: bucket_inv_def c split: option.splits)
  have wf': "store_wf st'" and ttl: "ks_ttl st' = ks_ttl st"
    using try_consume_expiry [OF Cons.prems(1), of cfg k' env] run by (simp_all add: only_expiry_def)
  have step: "bucket_inv cfg t_start (ce_now env) (entry_of st' k)
      \<and> of_bool (k' = k \<and> is_ok r) + bucket_avail cfg t_start t_end (entry_of st' k)
        \<le> bucket_avail cfg t_start t_end (entry_of st k) + of_bool (k' = k) * (2 * roundoff * cap_f64 cfg)"
  proof (cases "k' = k")
    case True
    then show ?thesis using consume_own [OF Cons.prems(1) inv t] run by simp
  next
    case False
    then show ?thesis using consume_other [OF Cons.prems(1) False inv t(3)] run inv by simp
  qed
  have "of_nat (admitted k calls (fst (limiter_run (try_consume cfg) st' calls)))
      \<le> bucket_avail cfg t_start t_end (entry_of st' k) + of_nat (asked k calls) * (2 * roundoff * cap_f64 cfg)"
    using Cons.IH [OF wf' conjunct1 [OF step] t(1)] Cons.prems(4-6) ttl by (simp add: c)
  with step show ?case
    by (simp add: c run admitted_def asked_def distrib_right)
qed



text \<open>
  A full table refuses keys it does not know instead of forgetting one it knows: if no entry is expired,
  a new key gets \<open>Retry-After: 1\<close> and the table stays as it is.
\<close>

theorem limiter_fail_closed:
  assumes "store_wf st" and "entry_of st k = None" and "store_full st"
    and "\<And>k' e. entry_of st k' = Some e \<Longrightarrow> ce_now env - be_last_seen e < ks_ttl st"
  shows "fst (try_consume cfg st k env) = Err 1 \<and> ks_entries (snd (try_consume cfg st k env)) = ks_entries st"
  using bucket.check_full [OF assms] .

text \<open>
  Unless forwarding headers are trusted, the key depends on the connection and the authenticated identity
  only: no header of the request changes it.
\<close>

theorem rate_limit_key_unspoofable:
  "extract_rate_limit_key (req \<lparr> req_headers := h \<rparr>) key_by False = extract_rate_limit_key req key_by False
   \<and> (is_unspecified ip = False \<longrightarrow> ext_socket_addr (req_ext req) = Some a \<longrightarrow> socket_ip a = ip \<longrightarrow>
      extract_ip_key req trust = KeyIp (canonical_client_ip ip))"
  by (auto simp: extract_rate_limit_key_def extract_san_key_def extract_ip_key_def Let_def
      split: RateLimitKeyStrategy.split option.split)

section \<open>Limits of the guarantees\<close>

definition slow_config :: BucketConfig where
  "slow_config = \<lparr> bc_capacity = 1, bc_refill_tokens = 1, bc_interval = secs 161 \<rparr>"

lemma as_secs_whole: "n \<le> 2 ^ 53 \<Longrightarrow> as_secs_f64 (secs n) = of_nat n"
  by (simp add: as_secs_f64_def rnd_of_nat)

lemma slow_rate: "bucket_rate slow_config = 7161003134204018 / 2 ^ 60"
proof -
  have "rnd 53 (1 / 161) = of_int 7161003134204018 / 2 ^ 60"
    by (rule rnd_eqI_frac) simp_all
  then show ?thesis
    using as_secs_whole [of 161] by (simp add: bucket_rate_def slow_config_def)
qed

lemma slow_wait: "f64 (1 / bucket_rate slow_config) = 161"
proof -
  have "rnd 53 (1 / bucket_rate slow_config) = of_int 5664683906301952 / 2 ^ 45"
    by (rule rnd_eqI_frac) (simp_all add: slow_rate)
  then show ?thesis by simp
qed

definition almost_one :: rat where
  "almost_one = 1 - 1 / 2 ^ 53"

lemma slow_refill: "f64 (161 * bucket_rate slow_config) = almost_one"
proof -
  have "rnd 53 (161 * bucket_rate slow_config) = of_int 9007199254740991 / 2 ^ 53"
    by (rule rnd_eqI_frac) (simp_all add: slow_rate)
  then show ?thesis by (simp add: almost_one_def)
qed

lemma almost_one: "f64 almost_one = almost_one" "almost_one < 1"
proof -
  have "rnd 53 almost_one = of_int 9007199254740991 / 2 ^ 53"
    by (rule rnd_eqI_frac) (simp_all add: almost_one_def)
  then show "f64 almost_one = almost_one" by (simp add: almost_one_def)
qed (simp add: almost_one_def)

lemma almost_one_wait: "at_least_one_sec (f64 (f64 (1 - almost_one) / bucket_rate slow_config)) = 1"
proof -
  have "rnd 53 (1 / 1024) = of_int 4503599627370496 / 2 ^ 62" by (rule rnd_eqI_frac) simp_all
  moreover have "f64 (1 - almost_one) \<le> f64 (1 / 1024)" by (rule rnd_mono) (simp_all add: almost_one_def)
  ultimately have "f64 (1 - almost_one) \<le> 1 / 1024" by simp
  then have "f64 (1 - almost_one) / bucket_rate slow_config \<le> 1" by (simp add: slow_rate)
  moreover have "0 \<le> f64 (1 - almost_one) / bucket_rate slow_config"
    using almost_one(2) by (intro divide_nonneg_nonneg f64_bounds bucket_rate_nonneg) simp
  ultimately have "f64 (f64 (1 - almost_one) / bucket_rate slow_config) \<le> f64 1" by (intro rnd_mono) simp_all
  then have "\<lceil>f64 (f64 (1 - almost_one) / bucket_rate slow_config)\<rceil> \<le> 1" by (simp add: ceiling_le_iff)
  then show ?thesis by (simp add: at_least_one_sec_def max_def)
qed

abbreviation bucket_at :: "rat \<Rightarrow> Instant \<Rightarrow> KeyedBucketEntry" where
  "bucket_at n t \<equiv> \<lparr> tokens = n, last_refill = t, be_last_seen = t \<rparr>"

text \<open>
  A client that was refused and comes back after exactly the time in \<open>Retry-After\<close> can be refused again:
  with one token per 161 seconds the rounded rate is slightly too small, and after 161 seconds the bucket
  holds a little less than one token.
\<close>

theorem retry_after_too_short:
  "bucket_take slow_config t (bucket_at 0 t) = (Err 161, bucket_at 0 t)
   \<and> bucket_take slow_config (t + secs 161) (bucket_at 0 t) = (Err 1, bucket_at almost_one (t + secs 161))"
proof -
  have cap: "cap_f64 slow_config = 1" by (simp add: cap_f64_def slow_config_def)
  have "as_secs_f64 0 = 0" "as_secs_f64 161000000000 = 161"
    using as_secs_whole [of 0] as_secs_whole [of 161] by simp_all
  then show ?thesis
    using slow_wait slow_refill almost_one almost_one_wait
    by (simp add: bucket_take_def cap Let_def at_least_one_sec_def)
qed

text \<open>
  The lookup of a key and the insertion of a new entry are two separate steps. Requests of one new client
  that all look before the first of them inserts are all admitted, so that a bucket of capacity one
  lets any number of simultaneous first requests pass.
\<close>

definition now_env :: "Instant \<Rightarrow> CallEnv" where
  "now_env t = \<lparr> ce_now = t, ce_lock1 = True, ce_lock2 = True \<rparr>"

theorem bucket_first_request_race:
  "bucket_lookup slow_config (store_new 10000 ttl t) k (now_env t) = (None, store_new 10000 ttl t)
   \<and> fst (limiter_run (bucket_admit_new slow_config) (store_new 10000 ttl t) (replicate n (k, now_env t)))
       = replicate n (Ok ())"
proof -
  have cap: "cap_f64 slow_config = 1" by (simp add: cap_f64_def slow_config_def)
  have one: "bucket_admit_new slow_config st k (now_env t) = (Ok (), store_put k (bucket_at 0 t) st)"
    if "dm_len (ks_entries st) \<le> 1" "ks_max_entries st = 10000" for st
    using that by (simp add: bucket_admit_new_def make_room_def store_full_def cap now_env_def)
  have len: "dm_len (ks_entries (store_put k (bucket_at 0 t) st)) \<le> 1"
    if "ks_entries st = [] \<or> ks_entries st = [(k, bucket_at 0 t)]" for st
    using that by (auto simp: store_put_def dm_exec)
  have run: "fst (limiter_run (bucket_admit_new slow_config) st (replicate n (k, now_env t))) = replicate n (Ok ())"
    if "ks_entries st = [] \<or> ks_entries st = [(k, bucket_at 0 t)]" "ks_max_entries st = 10000" for st
    using that
  proof (induction n arbitrary: st)
    case (Suc n)
    have "dm_len (ks_entries st) \<le> 1" using Suc.prems(1) by (auto simp: dm_exec)
    moreover have "ks_entries (store_put k (bucket_at 0 t) st) = [(k, bucket_at 0 t)]"
      using Suc.prems(1) by (auto simp: store_put_def dm_exec)
    ultimately show ?case using one Suc by simp
  qed simp
  show ?thesis
    using run [of "store_new 10000 ttl t"]
    by (simp add: bucket_lookup_def maybe_cleanup_def store_new_def now_env_def dm_get_def)
qed

text \<open>
  A bucket that is idle for the time to live is forgotten and starts full again, however many tokens it
  had: a time to live shorter than the time to refill the bucket raises the rate.
\<close>

theorem bucket_idle_reset:
  assumes "store_wf st" and "entry_of st k = Some e" and "ks_ttl st \<le> ce_now env - be_last_seen e"
    and "ce_lock1 env" and "ce_now env - ks_last_cleanup st > secs 10" and "1 \<le> cap_f64 cfg"
  shows "fst (try_consume cfg st k env) = Ok ()
    \<and> entry_of (snd (try_consume cfg st k env)) k = Some (bucket_at (f64 (cap_f64 cfg - 1)) (ce_now env))"
proof -
  define st1 where "st1 = cleanup be_last_seen (ce_now env) (st \<lparr> ks_last_cleanup := ce_now env \<rparr>)"
  have st1: "maybe_cleanup be_last_seen env st = st1" using assms(4,5) by (simp add: maybe_cleanup_def st1_def)
  have gone: "entry_of st1 k = None"
    using cleanup_get [of "st \<lparr> ks_last_cleanup := ce_now env \<rparr>" be_last_seen "ce_now env" k] assms(1-3)
    by (simp add: st1_def store_wf_def)
  have "\<not> store_full st1"
  proof -
    have "(k, e) \<in> set (ks_entries st)" using assms(2) by (simp add: dm_get_def map_of_SomeD)
    then have "length (filter (\<lambda>(_, e). ce_now env - be_last_seen e < ks_ttl st) (ks_entries st)) < length (ks_entries st)"
      using assms(3) by (intro length_filter_less [of "(k, e)"]) auto
    then show ?thesis
      using assms(1) by (simp add: store_full_def st1_def cleanup_def store_wf_def dm_retain_def dm_len_def)
  qed
  then show ?thesis
    using gone assms(6)
    by (simp add: try_consume_def bucket_lookup_def st1 bucket_admit_new_def make_room_def store_put_get)
qed

section \<open>Examples\<close>

lemmas limiter_exec = store_new_def store_put_def store_wf_def store_full_def now_env_def make_room_def
  maybe_cleanup_def maybe_cleanup_when_full_def cleanup_def dm_exec




theorem limiter_fail_closed_witness:
  "fst (try_consume slow_config (store_put KeyGlobal (bucket_at 0 0) (store_new 1 (secs 300) 0))
      (KeyUser ''a'') (now_env 5)) = Err 1"
  using limiter_fail_closed [of "store_put KeyGlobal (bucket_at 0 0) (store_new 1 (secs 300) 0)" "KeyUser ''a''"
      "now_env 5" slow_config]
  by (simp add: limiter_exec split: if_splits)

theorem bucket_idle_reset_witness:
  "fst (try_consume \<lparr> bc_capacity = 1, bc_refill_tokens = 1, bc_interval = secs 3600 \<rparr>
      (store_put KeyGlobal (bucket_at 0 0) (store_new 9 (secs 300) 0)) KeyGlobal (now_env (secs 301))) = Ok ()"
  using bucket_idle_reset [of "store_put KeyGlobal (bucket_at 0 0) (store_new 9 (secs 300) 0)" KeyGlobal "bucket_at 0 0"
      "now_env (secs 301)" "\<lparr> bc_capacity = 1, bc_refill_tokens = 1, bc_interval = secs 3600 \<rparr>"]
  by (simp add: limiter_exec cap_f64_def)

theorem rate_limit_key_unspoofable_witness:
  "extract_ip_key (demo_request ''GET'' ''/'' \<lparr> req_ext := req_ext (demo_request ''GET'' ''/'')
      \<lparr> ext_socket_addr := Some (SocketV4 0x0A000001 80) \<rparr> \<rparr>) True = KeyIp (V4 0x0A000001)"
  using rate_limit_key_unspoofable [where req = "demo_request ''GET'' ''/'' \<lparr> req_ext := req_ext (demo_request ''GET'' ''/'')
      \<lparr> ext_socket_addr := Some (SocketV4 0x0A000001 80) \<rparr> \<rparr>" and ip = "V4 0x0A000001" and a = "SocketV4 0x0A000001 80" and trust = True]
  by simp

end
