(* ===== verification/Jwt_Auth.thy ===== *)
theory Jwt_Auth
  imports Http
begin

text \<open>
  JWT authentication (\<open>server/src/middleware/jwt.rs\<close> and \<open>verify_jwt\<close> of \<open>common/src/lib.rs\<close>): where the
  token is taken from, its verification against the configured keys, the revocation list, and the
  mapping of the token's OIDs to roles. The mapping is the one \<open>ConnectionHandler::new\<close>
  (\<open>server/src/lib.rs\<close>) uses for client certificates, so the handler of a connection is modelled here too.

  Decoding a token is the work of the \<open>jsonwebtoken\<close> library and is a parameter: \<open>decode\<close> takes the token,
  a key, the validation settings and the time. \<open>decode_law\<close> states what the library documents.
\<close>

section \<open>Verification\<close>

record Validation =
  val_iss :: "string list option"      \<comment> \<open>\<open>set_issuer\<close>\<close>
  val_aud :: "string list option"      \<comment> \<open>\<open>set_audience\<close>\<close>
  val_validate_aud :: bool
  val_validate_exp :: bool
  val_leeway :: u64

type_synonym 'key decoder = "string \<Rightarrow> 'key \<Rightarrow> Validation \<Rightarrow> u64 \<Rightarrow> Claims option"

text \<open>A comma-separated setting: trimmed, without empty parts.\<close>

definition setting_list :: "string \<Rightarrow> string list" where
  "setting_list s = filter (\<lambda>w. w \<noteq> []) (map trim (split_on CHR '','' s))"

text \<open>\<open>Validation::new\<close> checks the expiry with a leeway of 60 seconds, which \<open>verify_jwt\<close> keeps.\<close>

definition jwt_validation :: "string \<Rightarrow> string \<Rightarrow> Validation" where
  "jwt_validation expected_issuer expected_audience =
     (let iss_list = setting_list expected_issuer; aud_list = setting_list expected_audience
      in \<lparr> val_iss = (if iss_list \<noteq> [] then Some iss_list else None),
           val_aud = (if aud_list \<noteq> [] then Some aud_list else None),
           val_validate_aud = (aud_list \<noteq> []), val_validate_exp = True,
           val_leeway = 60 \<rparr>)"

fun try_keys :: "'key decoder \<Rightarrow> string \<Rightarrow> Validation \<Rightarrow> u64 \<Rightarrow> 'key list \<Rightarrow> Claims option" where
  "try_keys decode token validation now [] = None"
| "try_keys decode token validation now (key # keys) =
     (case decode token key validation now of
        Some claims \<Rightarrow> Some claims
      | None \<Rightarrow> try_keys decode token validation now keys)"

definition verify_jwt :: "'key decoder \<Rightarrow> u64 \<Rightarrow> string \<Rightarrow> 'key list \<Rightarrow> string \<Rightarrow> string \<Rightarrow> Claims option" where
  "verify_jwt decode now token keys expected_issuer expected_audience =
     try_keys decode token (jwt_validation expected_issuer expected_audience) now keys"

section \<open>Revocation\<close>

record JwtRevocationStore =
  revoked :: "(string, u64) dashmap"
  rv_last_cleanup :: u64

definition MAX_REVOKED_ENTRIES :: nat where
  "MAX_REVOKED_ENTRIES = 50000"

definition REVOCATION_CLEANUP_INTERVAL_SECS :: u64 where
  "REVOCATION_CLEANUP_INTERVAL_SECS = 30"

definition MAX_JTI_LEN :: nat where
  "MAX_JTI_LEN = 256"

definition revocation_new :: JwtRevocationStore where
  "revocation_new = \<lparr> revoked = [], rv_last_cleanup = 0 \<rparr>"

definition saturating_sub_u64 :: "u64 \<Rightarrow> u64 \<Rightarrow> u64" where
  "saturating_sub_u64 a b = (if b \<le> a then a - b else 0)"

definition cleanup_expired :: "u64 \<Rightarrow> JwtRevocationStore \<Rightarrow> JwtRevocationStore" where
  "cleanup_expired now st = st \<lparr> revoked := dm_retain (\<lambda>_ expires. now < expires) (revoked st) \<rparr>"

text \<open>
  The clock is read again inside \<open>cleanup_expired\<close>; \<open>won\<close> is whether the \<open>compare_exchange\<close> of the cleanup
  time succeeds.
\<close>

definition revoke :: "u64 \<Rightarrow> u64 \<Rightarrow> bool \<Rightarrow> string \<Rightarrow> u64 \<Rightarrow> JwtRevocationStore \<Rightarrow> JwtRevocationStore" where
  "revoke now now2 won jti expires_at st =
     (if jti = [] \<or> length jti > MAX_JTI_LEN then st
      else
        let st1 =
          (if (dm_len (revoked st) \<ge> MAX_REVOKED_ENTRIES
               \<or> saturating_sub_u64 now (rv_last_cleanup st) \<ge> REVOCATION_CLEANUP_INTERVAL_SECS) \<and> won
           then cleanup_expired now2 (st \<lparr> rv_last_cleanup := now \<rparr>) else st)
        in if dm_len (revoked st1) < MAX_REVOKED_ENTRIES \<or> dm_contains_key (revoked st1) jti
           then st1 \<lparr> revoked := dm_insert jti expires_at (revoked st1) \<rparr> else st1)"

definition is_revoked :: "u64 \<Rightarrow> string \<Rightarrow> JwtRevocationStore \<Rightarrow> bool \<times> JwtRevocationStore" where
  "is_revoked now jti st =
     (case dm_get (revoked st) jti of
        Some expires \<Rightarrow>
          (if now < expires then (True, st) else (False, st \<lparr> revoked := dm_remove jti (revoked st) \<rparr>))
      | None \<Rightarrow> (False, st))"

section \<open>Roles\<close>

definition oid_roles :: "(string \<times> UserRole) list \<Rightarrow> string list \<Rightarrow> UserRole list" where
  "oid_roles oid_mapping oids =
     (let roles = filter (\<lambda>role. role \<noteq> guest)
          (map (\<lambda>oid. case map_of oid_mapping oid of Some role \<Rightarrow> role | None \<Rightarrow> guest) oids)
      in if roles = [] then [guest] else roles)"

section \<open>The service\<close>

record 'key JwtAuthService =
  jwt_decoding_keys :: "'key list"
  jwt_server_name :: string
  jwt_oid_mapping :: "(string \<times> UserRole) list"
  jwt_cookie_fallback :: "string option"
  jwt_redirect_on_failure :: "string option"
  jwt_expected_issuer :: string
  jwt_expected_audience :: string
  jwt_revoke_on_paths :: "string list"

definition unauthorized_response :: "string option \<Rightarrow> Response" where
  "unauthorized_response redirect =
     (case redirect of
        Some url \<Rightarrow>
          (if is_visible_ascii url
           then \<lparr> resp_status = 302, resp_headers = [(''location'', url)], resp_body = full_body [] \<rparr>
           else \<lparr> resp_status = 401, resp_headers = [], resp_body = full_body ''Unauthorized'' \<rparr>)
      | None \<Rightarrow> \<lparr> resp_status = 401, resp_headers = [], resp_body = full_body ''Unauthorized'' \<rparr>)"

definition bearer_token :: "HeaderMap \<Rightarrow> string option" where
  "bearer_token headers =
     (case hm_get ''authorization'' headers of
        Some v \<Rightarrow> (if is_visible_ascii v then map_option trim (strip_prefix ''Bearer '' v) else None)
      | None \<Rightarrow> None)"

fun first_some :: "('a \<Rightarrow> 'b option) \<Rightarrow> 'a list \<Rightarrow> 'b option" where
  "first_some f [] = None"
| "first_some f (x # xs) = (case f x of Some y \<Rightarrow> Some y | None \<Rightarrow> first_some f xs)"

definition cookie_token :: "string \<Rightarrow> HeaderMap \<Rightarrow> string option" where
  "cookie_token cookie_name headers =
     first_some
       (\<lambda>v. if is_visible_ascii v
            then first_some (\<lambda>cookie. map_option trim (strip_prefix (cookie_name @ ''='') (trim cookie))) (split_on CHR '';'' v)
            else None)
       (hm_get_all ''cookie'' headers)"

definition jwt_token :: "'key JwtAuthService \<Rightarrow> HeaderMap \<Rightarrow> string option" where
  "jwt_token svc headers =
     (case bearer_token headers of
        Some token \<Rightarrow> Some token
      | None \<Rightarrow>
          (case jwt_cookie_fallback svc of
             Some cookie_name \<Rightarrow> cookie_token cookie_name headers
           | None \<Rightarrow> None))"

text \<open>
  What a call finds outside: the decoder, whether the blocking task ran to its end, and the clock at
  the verification, at the revocation check and in the two reads of \<open>revoke\<close>.
\<close>

record 'key JwtEnv =
  je_decode :: "'key decoder"
  je_joined :: bool
  je_now_verify :: u64
  je_now_check :: u64
  je_now_revoke :: u64
  je_now_cleanup :: u64
  je_won :: bool

definition jwt_reject :: "'key JwtAuthService \<Rightarrow> JwtRevocationStore \<Rightarrow> MetricsRegistry \<Rightarrow> gate \<times> JwtRevocationStore \<times> MetricsRegistry" where
  "jwt_reject svc st reg =
     (Blocked (unauthorized_response (jwt_redirect_on_failure svc)), st, inc_blocked_auth_rbac (jwt_server_name svc) reg)"

definition logout_expiry :: "'key JwtEnv \<Rightarrow> Claims \<Rightarrow> u64" where
  "logout_expiry env claims = (if claim_exp claims > 0 then claim_exp claims else je_now_revoke env + 3600)"

definition jwt_forward ::
  "'key JwtAuthService \<Rightarrow> 'key JwtEnv \<Rightarrow> Claims \<Rightarrow> Request \<Rightarrow> JwtRevocationStore \<Rightarrow> MetricsRegistry
     \<Rightarrow> gate \<times> JwtRevocationStore \<times> MetricsRegistry" where
  "jwt_forward svc env claims req st reg =
     (let st' =
        (if uri_path (req_uri req) \<in> set (jwt_revoke_on_paths svc)
         then (case claim_jti claims of
                 Some jti \<Rightarrow> revoke (je_now_revoke env) (je_now_cleanup env) (je_won env) jti (logout_expiry env claims) st
               | None \<Rightarrow> st)
         else st);
          ext = req_ext req \<lparr> ext_claims := Some claims,
            ext_roles_shared := Some (oid_roles (jwt_oid_mapping svc) (claim_oids claims)) \<rparr>
      in (Allowed (req \<lparr> req_ext := ext \<rparr>), st', reg))"

definition jwt_call ::
  "'key JwtAuthService \<Rightarrow> 'key JwtEnv \<Rightarrow> Request \<Rightarrow> JwtRevocationStore \<Rightarrow> MetricsRegistry
     \<Rightarrow> gate \<times> JwtRevocationStore \<times> MetricsRegistry" where
  "jwt_call svc env req st reg =
     (case jwt_token svc (req_headers req) of
        None \<Rightarrow> jwt_reject svc st reg
      | Some token \<Rightarrow>
          (case (if je_joined env
                 then verify_jwt (je_decode env) (je_now_verify env) token (jwt_decoding_keys svc)
                        (jwt_expected_issuer svc) (jwt_expected_audience svc)
                 else None) of
             None \<Rightarrow> jwt_reject svc st reg
           | Some claims \<Rightarrow>
               (case claim_jti claims of
                  Some jti \<Rightarrow>
                    (case is_revoked (je_now_check env) jti st of
                       (True, st') \<Rightarrow> jwt_reject svc st' reg
                     | (False, st') \<Rightarrow> jwt_forward svc env claims req st' reg)
                | None \<Rightarrow> jwt_forward svc env claims req st reg)))"

section \<open>The handler of a connection\<close>

record ConnectionHandler =
  ch_client_addr :: SocketAddr
  ch_client_roles :: "UserRole list"
  ch_client_cert_pem :: "string option"
  ch_client_cert_san :: "string option"
  ch_client_oids :: "string list"

definition connection_handler_new ::
  "SocketAddr \<Rightarrow> string list \<Rightarrow> string option \<Rightarrow> string option \<Rightarrow> (string \<times> UserRole) list \<Rightarrow> ConnectionHandler" where
  "connection_handler_new addr oids client_cert_pem client_cert_san oid_mapping =
     \<lparr> ch_client_addr = addr, ch_client_roles = oid_roles oid_mapping oids,
       ch_client_cert_pem = client_cert_pem, ch_client_cert_san = client_cert_san, ch_client_oids = oids \<rparr>"

definition inject_cert :: "ConnectionHandler \<Rightarrow> Extensions \<Rightarrow> Extensions" where
  "inject_cert h ext =
     ext \<lparr> ext_client_pem := (case ch_client_cert_pem h of Some pem \<Rightarrow> Some pem | None \<Rightarrow> ext_client_pem ext),
           ext_client_san := (case ch_client_cert_san h of Some san \<Rightarrow> Some san | None \<Rightarrow> ext_client_san ext),
           ext_client_oids := (if ch_client_oids h \<noteq> [] then Some (ch_client_oids h) else ext_client_oids ext) \<rparr>"

definition handler_inject :: "ConnectionHandler \<Rightarrow> Extensions \<Rightarrow> Extensions" where
  "handler_inject h ext =
     inject_cert h (ext \<lparr> ext_socket_addr := Some (ch_client_addr h), ext_roles_shared := Some (ch_client_roles h) \<rparr>)"

definition handler_handle ::
  "(Request \<Rightarrow> (Response, SrvError) result) \<Rightarrow> ConnectionHandler \<Rightarrow> Request \<Rightarrow> (Response, SrvError) result" where
  "handler_handle inner h req =
     (case inner (req \<lparr> req_ext := handler_inject h (req_ext req) \<rparr>) of
        Ok resp \<Rightarrow> Ok (resp \<lparr> resp_headers := hm_insert ''cache-control'' ''no-store'' (resp_headers resp) \<rparr>)
      | Err e \<Rightarrow> Err e)"

section \<open>Soundness\<close>

text \<open>
  What the library promises of a token it accepts: it is signed with the key, its issuer and its audience
  are among the allowed ones, and it has not expired longer ago than the leeway. A token without an
  audience is not constrained.
\<close>

definition decode_law :: "'key decoder \<Rightarrow> ('key \<Rightarrow> string \<Rightarrow> Claims \<Rightarrow> bool) \<Rightarrow> bool" where
  "decode_law decode sig_ok \<longleftrightarrow>
     (\<forall>token key validation now claims. decode token key validation now = Some claims \<longrightarrow>
        sig_ok key token claims
        \<and> (case val_iss validation of None \<Rightarrow> True | Some l \<Rightarrow> claim_iss claims \<in> set l)
        \<and> (case (val_aud validation, claim_aud claims) of
             (Some l, Some a) \<Rightarrow> val_validate_aud validation \<longrightarrow> a \<in> set l | _ \<Rightarrow> True)
        \<and> (val_validate_exp validation \<longrightarrow> unat now \<le> unat (claim_exp claims) + unat (val_leeway validation)))"

lemma try_keys_Some:
  "try_keys decode token v now keys = Some claims \<Longrightarrow> \<exists>key \<in> set keys. decode token key v now = Some claims"
  by (induction keys) (auto split: option.splits)

lemma try_keys_None:
  "try_keys decode token v now keys = None \<longleftrightarrow> (\<forall>key \<in> set keys. decode token key v now = None)"
  by (induction keys) (auto split: option.splits)

lemma verify_jwt_sound:
  assumes "decode_law decode sig_ok" and "verify_jwt decode now token keys iss aud = Some claims"
  shows "\<exists>key \<in> set keys. sig_ok key token claims
    \<and> (setting_list iss = [] \<or> claim_iss claims \<in> set (setting_list iss))
    \<and> (setting_list aud = [] \<or> claim_aud claims = None \<or> claim_aud claims \<in> Some ` set (setting_list aud))
    \<and> unat now \<le> unat (claim_exp claims) + 60"
proof -
  obtain key where key: "key \<in> set keys" "decode token key (jwt_validation iss aud) now = Some claims"
    using assms(2) try_keys_Some unfolding verify_jwt_def by metis
  have "sig_ok key token claims
      \<and> (case val_iss (jwt_validation iss aud) of None \<Rightarrow> True | Some l \<Rightarrow> claim_iss claims \<in> set l)
      \<and> (case (val_aud (jwt_validation iss aud), claim_aud claims) of
           (Some l, Some a) \<Rightarrow> val_validate_aud (jwt_validation iss aud) \<longrightarrow> a \<in> set l | _ \<Rightarrow> True)
      \<and> (val_validate_exp (jwt_validation iss aud) \<longrightarrow>
           unat now \<le> unat (claim_exp claims) + unat (val_leeway (jwt_validation iss aud)))"
    using assms(1) key(2) unfolding decode_law_def by blast
  then have "sig_ok key token claims
    \<and> (setting_list iss = [] \<or> claim_iss claims \<in> set (setting_list iss))
    \<and> (setting_list aud = [] \<or> claim_aud claims = None \<or> claim_aud claims \<in> Some ` set (setting_list aud))
    \<and> unat now \<le> unat (claim_exp claims) + 60"
    by (cases "setting_list iss = []"; cases "setting_list aud = []")
       (auto simp: jwt_validation_def Let_def split: option.splits)
  with key(1) show ?thesis by blast
qed

lemma is_revoked_cases:
  "is_revoked now jti st = (b, st') \<Longrightarrow>
     b \<longleftrightarrow> (case dm_get (revoked st) jti of None \<Rightarrow> False | Some e \<Rightarrow> now < e)"
  by (auto simp: is_revoked_def split: option.splits if_splits)

text \<open>C8: 
  A request passes the layer only with a token that one of the configured keys signed, from an allowed
  issuer and for an allowed audience, expired by at most the leeway and not on the revocation list; it
  then carries exactly the claims of that token and the roles of its OIDs, and is otherwise unchanged.
\<close>

theorem jwt_call_sound:
  assumes "decode_law (je_decode env) sig_ok"
    and "jwt_call svc env req st reg = (Allowed req', st', reg')"
  shows "\<exists>token claims. jwt_token svc (req_headers req) = Some token
    \<and> (\<exists>key \<in> set (jwt_decoding_keys svc). sig_ok key token claims)
    \<and> (setting_list (jwt_expected_issuer svc) = []
         \<or> claim_iss claims \<in> set (setting_list (jwt_expected_issuer svc)))
    \<and> (setting_list (jwt_expected_audience svc) = [] \<or> claim_aud claims = None
         \<or> claim_aud claims \<in> Some ` set (setting_list (jwt_expected_audience svc)))
    \<and> unat (je_now_verify env) \<le> unat (claim_exp claims) + 60
    \<and> (case claim_jti claims of None \<Rightarrow> True
       | Some jti \<Rightarrow> (case dm_get (revoked st) jti of None \<Rightarrow> True | Some e \<Rightarrow> e \<le> je_now_check env))
    \<and> req' = req \<lparr> req_ext := req_ext req \<lparr> ext_claims := Some claims,
         ext_roles_shared := Some (oid_roles (jwt_oid_mapping svc) (claim_oids claims)) \<rparr> \<rparr>
    \<and> reg' = reg"
proof -
  obtain token claims where token: "jwt_token svc (req_headers req) = Some token"
    and claims: "verify_jwt (je_decode env) (je_now_verify env) token (jwt_decoding_keys svc)
        (jwt_expected_issuer svc) (jwt_expected_audience svc) = Some claims"
    using assms(2) by (auto simp: jwt_call_def jwt_reject_def split: option.splits if_splits)
  have rev: "case claim_jti claims of None \<Rightarrow> True
       | Some jti \<Rightarrow> (case dm_get (revoked st) jti of None \<Rightarrow> True | Some e \<Rightarrow> e \<le> je_now_check env)"
    using assms(2) token claims
    by (auto simp: jwt_call_def jwt_reject_def is_revoked_def split: option.splits if_splits)
  have req': "req' = req \<lparr> req_ext := req_ext req \<lparr> ext_claims := Some claims,
         ext_roles_shared := Some (oid_roles (jwt_oid_mapping svc) (claim_oids claims)) \<rparr> \<rparr> \<and> reg' = reg"
    using assms(2) token claims
    by (auto simp: jwt_call_def jwt_reject_def jwt_forward_def Let_def split: option.splits if_splits prod.splits bool.splits)
  from verify_jwt_sound [OF assms(1) claims] token rev req' show ?thesis by blast
qed

text \<open>
  The roles of a token or certificate: the mapped roles of its OIDs in their order, without guests, and
  the guest role alone when none is mapped. In particular an unknown OID never adds a role.
\<close>

theorem oid_roles_exact:
  "oid_roles m oids \<noteq> []
   \<and> (guest \<in> set (oid_roles m oids) \<longleftrightarrow> oid_roles m oids = [guest])
   \<and> set (oid_roles m oids) - {guest} = {role. role \<noteq> guest \<and> (\<exists>oid \<in> set oids. map_of m oid = Some role)}"
proof -
  define roles where "roles = filter (\<lambda>role. role \<noteq> guest)
    (map (\<lambda>oid. case map_of m oid of Some role \<Rightarrow> role | None \<Rightarrow> guest) oids)"
  have rs: "oid_roles m oids = (if roles = [] then [guest] else roles)" by (simp add: oid_roles_def roles_def)
  have set_roles: "set roles = {role. role \<noteq> guest \<and> (\<exists>oid \<in> set oids. map_of m oid = Some role)}"
    by (force simp: roles_def split: option.splits)
  have g: "guest \<notin> set roles" by (simp add: roles_def)
  show ?thesis
  proof (cases "roles = []")
    case True
    then show ?thesis unfolding set_roles [symmetric] by (simp add: rs)
  next
    case False
    then have "oid_roles m oids = roles" by (simp add: rs)
    then show ?thesis unfolding set_roles [symmetric] using g False by force
  qed
qed

section \<open>The revocation list\<close>

datatype RevocationOp =
    OpRevoke u64 u64 bool string u64
  | OpCheck u64 string
  | OpCleanup u64

fun revocation_step :: "RevocationOp \<Rightarrow> JwtRevocationStore \<Rightarrow> JwtRevocationStore" where
  "revocation_step (OpRevoke now now2 won jti expires) st = revoke now now2 won jti expires st"
| "revocation_step (OpCheck now jti) st = snd (is_revoked now jti st)"
| "revocation_step (OpCleanup now) st = cleanup_expired now st"

text \<open>An operation that happens before time \<open>e\<close> and does not shorten the revocation of \<open>jti\<close>.\<close>

fun op_before :: "string \<Rightarrow> u64 \<Rightarrow> RevocationOp \<Rightarrow> bool" where
  "op_before jti e (OpRevoke now now2 won j expires) = (now2 < e \<and> (j = jti \<longrightarrow> e \<le> expires))"
| "op_before jti e (OpCheck now j) = (now < e)"
| "op_before jti e (OpCleanup now) = (now < e)"

definition revoked_until :: "string \<Rightarrow> u64 \<Rightarrow> JwtRevocationStore \<Rightarrow> bool" where
  "revoked_until jti e st =
     (dm_wf (revoked st) \<and> (case dm_get (revoked st) jti of None \<Rightarrow> False | Some e' \<Rightarrow> e \<le> e'))"

lemma cleanup_until: "now < e \<Longrightarrow> revoked_until jti e st \<Longrightarrow> revoked_until jti e (cleanup_expired now st)"
  by (auto simp: revoked_until_def cleanup_expired_def dm.wf_retain dm.get_retain split: option.splits)

lemma cleanup_field [simp]: "revoked_until jti e (st \<lparr> rv_last_cleanup := t \<rparr>) = revoked_until jti e st"
  by (simp add: revoked_until_def)

lemma insert_until:
  "revoked_until jti e st \<Longrightarrow> (j = jti \<longrightarrow> e \<le> x) \<Longrightarrow>
     revoked_until jti e (st \<lparr> revoked := dm_insert j x (revoked st) \<rparr>)"
  by (auto simp: revoked_until_def dm.wf_insert dm.get_insert split: option.splits)

lemma step_until: "op_before jti e x \<Longrightarrow> revoked_until jti e st \<Longrightarrow> revoked_until jti e (revocation_step x st)"
proof (cases x)
  case (OpRevoke now now2 won j expires)
  assume "op_before jti e x" and "revoked_until jti e st"
  with OpRevoke show ?thesis
    by (auto simp: revoke_def Let_def intro!: insert_until cleanup_until)
next
  case (OpCheck now j)
  assume a: "op_before jti e x" "revoked_until jti e st"
  show ?thesis
  proof (cases "j = jti")
    case True
    obtain e' where "dm_get (revoked st) jti = Some e'" "e \<le> e'"
      using a(2) by (auto simp: revoked_until_def split: option.splits)
    moreover have "now < e" using a(1) OpCheck by simp
    ultimately have "snd (is_revoked now j st) = st" using True by (simp add: is_revoked_def)
    with a(2) OpCheck show ?thesis by simp
  next
    case False
    then have "revoked_until jti e (st \<lparr> revoked := dm_remove j (revoked st) \<rparr>)"
      using a(2) by (simp add: revoked_until_def dm.wf_remove dm.get_remove)
    with a(2) OpCheck show ?thesis by (simp add: is_revoked_def split: option.split)
  qed
qed (simp add: cleanup_until)

lemma steps_until:
  "list_all (op_before jti e) ops \<Longrightarrow> revoked_until jti e st \<Longrightarrow> revoked_until jti e (fold revocation_step ops st)"
  by (induction ops arbitrary: st) (auto intro: step_until)

lemma revoke_until:
  assumes "dm_wf (revoked st)" and "jti \<noteq> []" and "length jti \<le> MAX_JTI_LEN"
    and "dm_len (revoked st) < MAX_REVOKED_ENTRIES"
  shows "revoked_until jti e (revoke now now2 won jti e st)"
proof -
  define st1 where "st1 = (if (dm_len (revoked st) \<ge> MAX_REVOKED_ENTRIES
      \<or> saturating_sub_u64 now (rv_last_cleanup st) \<ge> REVOCATION_CLEANUP_INTERVAL_SECS) \<and> won
    then cleanup_expired now2 (st \<lparr> rv_last_cleanup := now \<rparr>) else st)"
  have "dm_wf (revoked st1)" "dm_len (revoked st1) < MAX_REVOKED_ENTRIES"
    using assms(1,4) le_less_trans [OF dm.len_retain] by (auto simp: st1_def cleanup_expired_def dm.wf_retain)
  then show ?thesis
    using assms(2,3)
    by (simp add: revoke_def st1_def [symmetric] Let_def revoked_until_def dm.wf_insert dm.get_insert)
qed


text \<open>
  The list keeps a revocation only while the clock is before the expiry of the token, but a token is
  accepted for up to the leeway after its expiry. A revoked token is therefore accepted again in that
  time.
\<close>

theorem revoked_token_revives:
  assumes "jwt_token svc (req_headers req) = Some token" and "je_joined env"
    and "verify_jwt (je_decode env) (je_now_verify env) token (jwt_decoding_keys svc)
           (jwt_expected_issuer svc) (jwt_expected_audience svc) = Some claims"
    and "claim_jti claims = Some jti" and "dm_get (revoked st) jti = None" and "dm_wf (revoked st)"
    and "claim_exp claims \<le> je_now_check env"
  shows "\<exists>req'. fst (jwt_call svc env req (revoke now now2 won jti (claim_exp claims) st) reg) = Allowed req'"
proof -
  define st' where "st' = revoke now now2 won jti (claim_exp claims) st"
  have "dm_get (revoked st') jti = None \<or> dm_get (revoked st') jti = Some (claim_exp claims)"
    using assms(5,6)
    by (auto simp: st'_def revoke_def Let_def cleanup_expired_def dm.get_insert dm.get_retain split: option.splits)
  then have "\<not> fst (is_revoked (je_now_check env) jti st')"
    using leD [OF assms(7)] by (auto simp: is_revoked_def)
  then obtain st'' where "is_revoked (je_now_check env) jti st' = (False, st'')"
    by (cases "is_revoked (je_now_check env) jti st'") auto
  then show ?thesis
    unfolding st'_def [symmetric]
    using assms(1-4) by (simp add: jwt_call_def jwt_forward_def Let_def)
qed

text \<open>
  Some revocations are dropped without an error to the caller: those of a token whose identifier is empty
  or longer than 256 bytes, and, while the list is full of unexpired entries, those of any further token.
\<close>

theorem revocation_dropped:
  "revoke now now2 won [] e st = st
   \<and> (length jti > MAX_JTI_LEN \<longrightarrow> revoke now now2 won jti e st = st)
   \<and> (MAX_REVOKED_ENTRIES \<le> dm_len (revoked st) \<longrightarrow> dm_get (revoked st) jti = None
      \<longrightarrow> (\<forall>x \<in> set (revoked st). now2 < snd x)
      \<longrightarrow> revoked (revoke now now2 won jti e st) = revoked st)"
proof -
  have "revoked (revoke now now2 won jti e st) = revoked st"
    if "MAX_REVOKED_ENTRIES \<le> dm_len (revoked st)" "dm_get (revoked st) jti = None"
      "\<forall>x \<in> set (revoked st). now2 < snd x"
  proof -
    have "dm_retain (\<lambda>_ expires. now2 < expires) (revoked st) = revoked st"
      using that(3) by (auto simp: dm_retain_def filter_id_conv split: prod.splits)
    then show ?thesis
      using that(1,2) by (simp add: revoke_def Let_def cleanup_expired_def dm_contains_key_def)
  qed
  then show ?thesis by (auto simp: revoke_def)
qed

section \<open>Connections\<close>

text \<open>
  Every request of a connection reaches the layers with the address of the peer and the roles of its
  certificate, whatever extensions it had, and every response leaves with the single value \<open>no-store\<close>
  for \<open>Cache-Control\<close>.
\<close>

theorem connection_handler_identity:
  "ext_socket_addr (handler_inject h ext) = Some (ch_client_addr h)
   \<and> ext_roles_shared (handler_inject h ext) = Some (ch_client_roles h)
   \<and> ext_claims (handler_inject h ext) = ext_claims ext
   \<and> (case handler_handle inner h req of
        Ok resp \<Rightarrow>
          hm_get_all ''cache-control'' (resp_headers resp) = [''no-store'']
          \<and> (\<exists>resp'. inner (req \<lparr> req_ext := handler_inject h (req_ext req) \<rparr>) = Ok resp'
               \<and> resp_status resp = resp_status resp' \<and> resp_body resp = resp_body resp')
      | Err e \<Rightarrow> inner (req \<lparr> req_ext := handler_inject h (req_ext req) \<rparr>) = Err e)"
proof -
  have "ext_socket_addr (handler_inject h ext) = Some (ch_client_addr h)"
    "ext_roles_shared (handler_inject h ext) = Some (ch_client_roles h)"
    "ext_claims (handler_inject h ext) = ext_claims ext"
    by (simp_all add: handler_inject_def inject_cert_def)
  then show ?thesis
    by (cases "inner (req \<lparr> req_ext := handler_inject h (req_ext req) \<rparr>)")
       (simp_all add: handler_handle_def hm_get_all_insert)
qed

section \<open>Examples\<close>

text \<open>A decoder with a single valid token, for the key 7.\<close>

definition demo_claims :: Claims where
  "demo_claims = \<lparr> claim_sub = ''u'', claim_iss = ''praeco'', claim_aud = None, claim_exp = 1000,
     claim_oids = [''1'', ''9''], claim_jti = Some ''t1'' \<rparr>"

definition demo_decode :: "nat decoder" where
  "demo_decode token key validation now =
     (if token = ''tok'' \<and> key = 7
         \<and> (case val_iss validation of None \<Rightarrow> True | Some l \<Rightarrow> ''praeco'' \<in> set l)
         \<and> now \<le> 1000 + val_leeway validation \<and> val_leeway validation \<le> 60
      then Some demo_claims else None)"

definition demo_jwt :: "nat JwtAuthService" where
  "demo_jwt = \<lparr> jwt_decoding_keys = [3, 7], jwt_server_name = ''s'', jwt_oid_mapping = [(''1'', UserRole ''admin'')],
     jwt_cookie_fallback = None, jwt_redirect_on_failure = None, jwt_expected_issuer = ''praeco'',
     jwt_expected_audience = [], jwt_revoke_on_paths = [''/logout''] \<rparr>"

definition demo_jwt_env :: "u64 \<Rightarrow> nat JwtEnv" where
  "demo_jwt_env now = \<lparr> je_decode = demo_decode, je_joined = True, je_now_verify = now, je_now_check = now,
     je_now_revoke = now, je_now_cleanup = now, je_won = True \<rparr>"

definition demo_jwt_request :: Request where
  "demo_jwt_request = demo_request ''GET'' ''/a'' \<lparr> req_headers := [(''authorization'', ''Bearer tok'')] \<rparr>"

lemma demo_decode_law: "decode_law demo_decode (\<lambda>key token claims. key = 7 \<and> token = ''tok'' \<and> claims = demo_claims)"
proof -
  have "unat now \<le> 1000 + unat l" if "now \<le> 1000 + l" "l \<le> 60" for now l :: u64
  proof -
    have "unat l \<le> 60" using that(2) by (simp add: word_le_nat_alt)
    then have "unat (1000 + l) = 1000 + unat l" by (simp add: unat_word_ariths)
    with that(1) show ?thesis by (simp add: word_le_nat_alt)
  qed
  then show ?thesis
    by (auto simp: decode_law_def demo_decode_def demo_claims_def split: if_splits option.splits)
qed

lemma demo_jwt_verifies:
  "jwt_token demo_jwt (req_headers demo_jwt_request) = Some ''tok''"
  "verify_jwt demo_decode 1000 ''tok'' [3, 7] ''praeco'' [] = Some demo_claims"
  by (code_simp, code_simp)

theorem jwt_call_sound_witness:
  "\<exists>req' claims. fst (jwt_call demo_jwt (demo_jwt_env 1000) demo_jwt_request revocation_new []) = Allowed req'
     \<and> ext_claims (req_ext req') = Some claims \<and> claim_iss claims \<in> set (setting_list ''praeco'')"
proof -
  obtain req' st' reg' where call:
    "jwt_call demo_jwt (demo_jwt_env 1000) demo_jwt_request revocation_new [] = (Allowed req', st', reg')"
    using demo_jwt_verifies
    by (simp add: jwt_call_def demo_jwt_env_def demo_jwt_def demo_claims_def is_revoked_def revocation_new_def
        jwt_forward_def Let_def)
  have law: "decode_law (je_decode (demo_jwt_env 1000)) (\<lambda>key token claims. key = 7 \<and> token = ''tok'' \<and> claims = demo_claims)"
    using demo_decode_law by (simp add: demo_jwt_env_def)
  have iss: "''praeco'' \<in> set (setting_list ''praeco'')" by code_simp
  from jwt_call_sound [OF law call] obtain claims where "claims = demo_claims"
      "req' = demo_jwt_request \<lparr> req_ext := req_ext demo_jwt_request \<lparr> ext_claims := Some claims,
         ext_roles_shared := Some (oid_roles (jwt_oid_mapping demo_jwt) (claim_oids claims)) \<rparr> \<rparr>"
    by blast
  then show ?thesis using call iss by (simp add: demo_claims_def)
qed


theorem revoked_token_revives_witness:
  "\<exists>req'. fst (jwt_call demo_jwt (demo_jwt_env 1000) demo_jwt_request
      (revoke 1 1 True ''t1'' 1000 revocation_new) []) = Allowed req'"
  using revoked_token_revives [of demo_jwt demo_jwt_request "''tok''" "demo_jwt_env 1000" demo_claims "''t1''"
      revocation_new 1 1 True "[]"] demo_jwt_verifies
  by (simp add: demo_jwt_env_def demo_jwt_def demo_claims_def revocation_new_def)

theorem revocation_dropped_witness:
  "revoke 1 1 True (replicate 257 CHR ''a'') 9 revocation_new = revocation_new"
  using revocation_dropped [of 1 1 True 9 revocation_new "replicate 257 CHR ''a''"] by (simp add: MAX_JTI_LEN_def)

end
