(* ===== verification/Body_Limit.thy ===== *)
theory Body_Limit
  imports Http_Proxy
begin

text \<open>
  The size limit of request bodies (\<open>server/src/middleware/limit.rs\<close>, \<open>MaxPayloadLayer\<close>): the check of
  the declared length, the body wrapper that counts the bytes that really arrive, and the answer when
  the inner service fails on the limit. A body that declares gRPC is limited per message: the wrapper
  follows the five-byte message prefixes through the chunks the transport happens to deliver. The
  main lemma compares it with a parser that sees the whole byte stream at once.
\<close>

section \<open>Model\<close>

abbreviation u32_from_be_bytes :: "u8 list \<Rightarrow> u32" where
  "u32_from_be_bytes \<equiv> from_be_bytes"

datatype GrpcFramingState =
    Header "u8 list" nat     \<comment> \<open>\<open>buf\<close> of five bytes, \<open>pos\<close>\<close>
  | Payload nat              \<comment> \<open>\<open>remaining\<close>\<close>

record LimitedBody =
  lb_max_bytes :: usize
  lb_current_bytes :: usize
  lb_grpc_state :: "GrpcFramingState option"

text \<open>
  The loop over one chunk. The remaining input is \<open>data[offset..]\<close>. A slice of \<open>buf\<close> beyond its five
  bytes panics.
\<close>

datatype ScanResult =
    Scanned GrpcFramingState
  | TooLarge nat GrpcFramingState
  | ScanPanic

fun framing_rank :: "GrpcFramingState \<Rightarrow> nat" where
  "framing_rank (Header _ pos) = (if pos = 5 then 2 else 0)"
| "framing_rank (Payload _) = 1"

function grpc_scan :: "usize \<Rightarrow> u8 list \<Rightarrow> GrpcFramingState \<Rightarrow> ScanResult" where
  "grpc_scan max_bytes [] state = Scanned state"
| "grpc_scan max_bytes (d # data) (Header buf pos) =
     (if pos > 5 then ScanPanic
      else
        let to_copy = min (5 - pos) (length (d # data));
            buf' = take pos buf @ take to_copy (d # data) @ drop (pos + to_copy) buf;
            pos' = pos + to_copy;
            rest = drop to_copy (d # data)
        in if pos' = 5
           then (let msg_len = unat (u32_from_be_bytes (drop 1 buf'))
                 in if msg_len > unat max_bytes then TooLarge msg_len (Header buf' pos')
                    else grpc_scan max_bytes rest (Payload msg_len))
           else grpc_scan max_bytes rest (Header buf' pos'))"
| "grpc_scan max_bytes (d # data) (Payload remaining) =
     (let consumed = min (length (d # data)) remaining;
          remaining' = remaining - consumed;
          rest = drop consumed (d # data)
      in if remaining' = 0 then grpc_scan max_bytes rest (Header (replicate 5 0) 0)
         else grpc_scan max_bytes rest (Payload remaining'))"
  by pat_completeness auto
termination
proof (relation "inv_image (less_than <*lex*> less_than)
    (\<lambda>(_, data, state). (length data, framing_rank state))", goal_cases)
  case 1
  then show ?case by auto
next
  case (2 mx d data buf pos)
  then show ?case by (cases "pos = 5") (simp_all add: min_def)
next
  case (3 mx d data buf pos)
  then show ?case by (simp add: min_def split: if_split_asm)
next
  case (4 mx d data r)
  then show ?case by (cases "r = 0") (simp_all add: min_def)
next
  case (5 mx d data r)
  then show ?case by (cases "r = 0") (simp_all add: min_def)
qed

definition limited_poll_frame ::
  "LimitedBody \<Rightarrow> (Frame, SrvError) result \<Rightarrow> (Frame, SrvError) result option \<times> LimitedBody" where
  "limited_poll_frame lb polled =
     (case polled of
        Ok (Data data) \<Rightarrow>
          (case lb_grpc_state lb of
             Some state \<Rightarrow>
               (case grpc_scan (lb_max_bytes lb) data state of
                  Scanned state' \<Rightarrow> (Some polled, lb \<lparr> lb_grpc_state := Some state' \<rparr>)
                | TooLarge msg_len state' \<Rightarrow>
                    (Some (Err (PayloadTooLarge (of_nat msg_len) (lb_max_bytes lb))),
                     lb \<lparr> lb_grpc_state := Some state' \<rparr>)
                | ScanPanic \<Rightarrow> (None, lb))
           | None \<Rightarrow>
               (let lb' = lb \<lparr> lb_current_bytes := lb_current_bytes lb + of_nat (length data) \<rparr>
                in if lb_current_bytes lb' > lb_max_bytes lb'
                   then (Some (Err (PayloadTooLarge (lb_current_bytes lb') (lb_max_bytes lb'))), lb')
                   else (Some polled, lb')))
      | _ \<Rightarrow> (Some polled, lb))"

text \<open>What the wrapped body yields when all of it is polled; \<open>None\<close> is a panic.\<close>

fun limited_frames :: "LimitedBody \<Rightarrow> SrvBody \<Rightarrow> SrvBody option" where
  "limited_frames lb [] = Some []"
| "limited_frames lb (polled # body) =
     (case limited_poll_frame lb polled of
        (None, _) \<Rightarrow> None
      | (Some out, lb') \<Rightarrow> map_option (\<lambda>outs. out # outs) (limited_frames lb' body))"

definition build_413_response :: "string \<Rightarrow> Response" where
  "build_413_response msg = \<lparr> resp_status = 413, resp_headers = [], resp_body = full_body msg \<rparr>"

definition parse_usize :: "string \<Rightarrow> usize option" where
  "parse_usize s = map_option of_nat (parse_unsigned (2 ^ 64) s)"

definition declares_grpc :: "HeaderMap \<Rightarrow> bool" where
  "declares_grpc headers =
     (case hm_get ''content-type'' headers of
        None \<Rightarrow> False
      | Some v \<Rightarrow> is_visible_ascii v \<and> starts_with ''application/grpc'' (to_ascii_lowercase (trim v)))"

definition declared_too_large :: "usize \<Rightarrow> HeaderMap \<Rightarrow> bool" where
  "declared_too_large max_bytes headers =
     (case hm_get ''content-length'' headers of
        None \<Rightarrow> False
      | Some v \<Rightarrow>
          (case parse_usize (if is_visible_ascii v then v else []) of
             None \<Rightarrow> False
           | Some content_length \<Rightarrow> content_length > max_bytes))"

definition LimitedBody_new :: "usize \<Rightarrow> bool \<Rightarrow> LimitedBody" where
  "LimitedBody_new max_bytes is_grpc =
     \<lparr> lb_max_bytes = max_bytes, lb_current_bytes = 0,
       lb_grpc_state = (if is_grpc then Some (Header (replicate 5 0) 0) else None) \<rparr>"

text \<open>
  \<open>MaxPayloadService::call\<close> hands the request on with its body wrapped; the result pairs the gate with
  the wrapper's initial state.
\<close>

definition max_payload_call :: "usize \<Rightarrow> Request \<Rightarrow> (Response, Request \<times> LimitedBody) sum" where
  "max_payload_call max_bytes req =
     (if declared_too_large max_bytes (req_headers req)
      then Inl (build_413_response ''Payload too large (Header check)'')
      else Inr (req, LimitedBody_new max_bytes (declares_grpc (req_headers req))))"

definition max_payload_outcome :: "(Response, SrvError) result \<Rightarrow> (Response, SrvError) result" where
  "max_payload_outcome r =
     (case r of
        Ok resp \<Rightarrow> Ok resp
      | Err e \<Rightarrow>
          (if (case e of PayloadTooLarge _ _ \<Rightarrow> True | _ \<Rightarrow> False)
              \<or> str_contains ''Payload Limit Exceeded'' (srv_error_string e)
           then Ok (build_413_response ''Payload too large (Streaming check)'')
           else Err e))"

section \<open>Bodies that are counted as a whole\<close>

text \<open>What a counted body yields for its frame number \<open>i\<close>.\<close>

fun within :: "usize \<Rightarrow> nat \<Rightarrow> (Frame, SrvError) result \<Rightarrow> (Frame, SrvError) result" where
  "within mx sum_len (Ok (Data d)) =
     (if sum_len \<le> unat mx then Ok (Data d) else Err (PayloadTooLarge (of_nat sum_len) mx))"
| "within mx sum_len polled = polled"

definition counted_frame :: "nat \<Rightarrow> usize \<Rightarrow> SrvBody \<Rightarrow> nat \<Rightarrow> (Frame, SrvError) result" where
  "counted_frame n mx body i = within mx (n + length (body_bytes (take (Suc i) body))) (body ! i)"

definition counted_frames :: "nat \<Rightarrow> usize \<Rightarrow> SrvBody \<Rightarrow> SrvBody" where
  "counted_frames n mx body = map (counted_frame n mx body) [0 ..< length body]"

lemma counted_frames_simps [simp]:
  "counted_frames n mx [] = []"
  "counted_frames n mx (x # body)
     = within mx (n + length (frame_bytes x)) x # counted_frames (n + length (frame_bytes x)) mx body"
proof -
  have "counted_frames n mx (x # body)
      = counted_frame n mx (x # body) 0 # map (\<lambda>i. counted_frame n mx (x # body) (Suc i)) [0 ..< length body]"
    by (simp add: counted_frames_def map_upt_Suc del: upt_Suc)
  then show "counted_frames n mx (x # body)
     = within mx (n + length (frame_bytes x)) x # counted_frames (n + length (frame_bytes x)) mx body"
    by (simp add: counted_frames_def counted_frame_def add.assoc)
qed (simp add: counted_frames_def)

lemma unat_of_nat_64: "n < 2 ^ 64 \<Longrightarrow> unat (of_nat n :: usize) = n"
  by (simp add: unat_of_nat)

lemma limited_counted:
  assumes "lb_grpc_state lb = None" and "unat (lb_current_bytes lb) = n"
    and "n + length (body_bytes body) < 2 ^ 64"
  shows "limited_frames lb body = Some (counted_frames n (lb_max_bytes lb) body)"
  using assms
proof (induction body arbitrary: lb n)
  case Nil
  then show ?case by simp
next
  case (Cons x body)
  show ?case
  proof (cases "\<exists>d. x = Ok (Data d)")
    case True
    then obtain d where x: "x = Ok (Data d)" by blast
    define c where "c = lb_current_bytes lb + (of_nat (length d) :: usize)"
    have "lb_current_bytes lb = of_nat n" unfolding Cons.prems(2) [symmetric] by simp
    then have c: "c = of_nat (n + length d)" by (simp add: c_def)
    have "n + length d < 2 ^ 64" using Cons.prems(3) x by simp
    then have u: "unat c = n + length d" unfolding c by (rule unat_of_nat_64)
    have gt: "(c > lb_max_bytes lb) = (\<not> n + length d \<le> unat (lb_max_bytes lb))"
      by (simp add: word_less_nat_alt u not_le)
    have "limited_frames (lb \<lparr> lb_current_bytes := c \<rparr>) body
        = Some (counted_frames (n + length d) (lb_max_bytes lb) body)"
      using Cons.IH [of "lb \<lparr> lb_current_bytes := c \<rparr>" "n + length d"] Cons.prems x u by simp
    then show ?thesis
      using Cons.prems(1) x gt
      by (simp add: limited_poll_frame_def Let_def flip: c_def) (simp add: c)
  next
    case False
    then have "limited_poll_frame lb x = (Some x, lb)"
      by (auto simp: limited_poll_frame_def split: result.splits Frame.splits)
    moreover have "frame_bytes x = [] \<and> within mx sum_len x = x" for mx sum_len
      using False by (cases x rule: frame_bytes.cases) auto
    ultimately show ?thesis using Cons by simp
  qed
qed


text \<open>
  The body of a request that does not declare gRPC is limited as a whole: a data frame is passed on
  exactly while the bytes up to its end are within the limit, every later data frame is replaced by
  the error with the number of bytes seen, and frames without data are passed on.
\<close>

theorem counted_body_exact:
  assumes "max_payload_call max_bytes req = Inr (req', lb)"
    and "\<not> declares_grpc (req_headers req)"
    and "length (body_bytes (req_body req)) < 2 ^ 64"
  shows "req' = req \<and>
    limited_frames lb (req_body req)
      = Some (counted_frames 0 max_bytes (req_body req))"
proof -
  have "req' = req" and lb: "lb = LimitedBody_new max_bytes False"
    using assms(1,2) by (auto simp: max_payload_call_def split: if_splits)
  then show ?thesis
    using limited_counted [of lb 0 "req_body req"] assms(3) by (simp add: LimitedBody_new_def)
qed

section \<open>Bodies that are limited per message\<close>

text \<open>
  The reference: on the whole byte stream, every message whose five-byte prefix is complete declares
  at most \<open>mx\<close> bytes.
\<close>

function grpc_messages_ok :: "nat \<Rightarrow> u8 list \<Rightarrow> bool" where
  "grpc_messages_ok mx bytes =
     (if length bytes < 5 then True
      else let msg_len = unat (u32_from_be_bytes (take 4 (drop 1 bytes)))
           in msg_len \<le> mx \<and> grpc_messages_ok mx (drop (5 + msg_len) bytes))"
  by pat_completeness auto
termination
  by (relation "measure (length \<circ> snd)") auto

declare grpc_messages_ok.simps [simp del]

lemma grpc_messages_ok_short: "length bytes < 5 \<Longrightarrow> grpc_messages_ok mx bytes"
  by (simp add: grpc_messages_ok.simps)

lemma grpc_messages_ok_prefixed:
  assumes "length hdr = 5"
  shows "grpc_messages_ok mx (hdr @ bytes) \<longleftrightarrow>
    unat (u32_from_be_bytes (drop 1 hdr)) \<le> mx
    \<and> grpc_messages_ok mx (drop (unat (u32_from_be_bytes (drop 1 hdr))) bytes)"
proof -
  have "take 4 (drop 1 (hdr @ bytes)) = drop 1 hdr" using assms by (simp add: take_drop)
  then show ?thesis using assms by (subst grpc_messages_ok.simps) (simp add: Let_def)
qed

text \<open>The reference continued from a state of the wrapper.\<close>

fun state_ok :: "nat \<Rightarrow> GrpcFramingState \<Rightarrow> u8 list \<Rightarrow> bool" where
  "state_ok mx (Header buf pos) bytes = grpc_messages_ok mx (take pos buf @ bytes)"
| "state_ok mx (Payload remaining) bytes = grpc_messages_ok mx (drop remaining bytes)"

text \<open>After an oversized prefix the wrapper stays in a full \<open>Header\<close>.\<close>

fun framing_wf :: "usize \<Rightarrow> GrpcFramingState \<Rightarrow> bool" where
  "framing_wf mx (Header buf pos) =
     (length buf = 5 \<and> (pos < 5 \<or> pos = 5 \<and> unat mx < unat (u32_from_be_bytes (drop 1 buf))))"
| "framing_wf mx (Payload _) = True"

fun framing_stuck :: "GrpcFramingState \<Rightarrow> bool" where
  "framing_stuck (Header buf pos) = (pos = 5)"
| "framing_stuck (Payload _) = False"

lemma state_ok_Nil: "framing_wf mx st \<Longrightarrow> state_ok (unat mx) st [] \<longleftrightarrow> \<not> framing_stuck st"
proof (cases st)
  case (Header buf pos)
  assume "framing_wf mx st"
  with Header show ?thesis
    using grpc_messages_ok_prefixed [of buf "unat mx" "[]"] by (auto intro: grpc_messages_ok_short)
qed (simp add: grpc_messages_ok_short)

definition scan_state :: "ScanResult \<Rightarrow> GrpcFramingState option" where
  "scan_state r = (case r of Scanned st \<Rightarrow> Some st | TooLarge _ st \<Rightarrow> Some st | ScanPanic \<Rightarrow> None)"

definition scan_agrees :: "usize \<Rightarrow> GrpcFramingState \<Rightarrow> u8 list \<Rightarrow> ScanResult \<Rightarrow> bool" where
  "scan_agrees mx st data r =
     (\<exists>st'. scan_state r = Some st' \<and> framing_wf mx st'
        \<and> (\<forall>rm. state_ok (unat mx) st (data @ rm) = state_ok (unat mx) st' rm)
        \<and> (data \<noteq> [] \<longrightarrow> (r = Scanned st' \<longleftrightarrow> \<not> framing_stuck st')))"

lemma scan_agrees_header:
  fixes d :: u8
  assumes wf: "length buf = 5" "pos < 5"
    and to_copy: "to_copy = min (5 - pos) (length (d # data))"
    and buf': "buf' = take pos buf @ take to_copy (d # data) @ drop (pos + to_copy) buf"
  shows "length buf' = 5"
    and "take (pos + to_copy) buf' @ drop to_copy (d # data) @ rm = take pos buf @ (d # data) @ rm"
proof -
  have le: "to_copy \<le> length (d # data)" "pos + to_copy \<le> 5" using wf(2) by (auto simp: to_copy)
  then show "length buf' = 5" using wf(1) by (simp add: buf' del: length_Cons)
  have "take (pos + to_copy) buf' = take pos buf @ take to_copy (d # data)"
    using wf(1) le by (simp add: buf' min_def del: length_Cons)
  moreover have "take to_copy (d # data) @ drop to_copy (d # data) @ rm = (d # data) @ rm"
    by (metis append.assoc append_take_drop_id)
  ultimately show "take (pos + to_copy) buf' @ drop to_copy (d # data) @ rm = take pos buf @ (d # data) @ rm"
    by (metis append.assoc)
qed

lemma scan_agrees_trans:
  assumes "scan_agrees mx st2 rest r" and "framing_wf mx st2"
    and "\<And>rm. state_ok (unat mx) st (data @ rm) = state_ok (unat mx) st2 (rest @ rm)"
    and "rest = [] \<Longrightarrow> \<not> framing_stuck st2" and "rest = [] \<Longrightarrow> r = Scanned st2"
  shows "scan_agrees mx st data r"
  using assms unfolding scan_agrees_def by (cases "rest = []") (auto simp: scan_state_def)

lemma grpc_scan_agrees: "framing_wf mx st \<Longrightarrow> scan_agrees mx st data (grpc_scan mx data st)"
proof (induction mx data st rule: grpc_scan.induct)
  case (1 mx st)
  then show ?case by (simp add: scan_agrees_def scan_state_def)
next
  case (2 mx d data buf pos)
  define to_copy where "to_copy = min (5 - pos) (length (d # data))"
  define buf' where "buf' = take pos buf @ take to_copy (d # data) @ drop (pos + to_copy) buf"
  define rest where "rest = drop to_copy (d # data)"
  define msg_len where "msg_len = unat (u32_from_be_bytes (drop 1 buf'))"
  have scan: "grpc_scan mx (d # data) (Header buf pos) =
      (if pos + to_copy = 5
       then (if msg_len > unat mx then TooLarge msg_len (Header buf' (pos + to_copy))
             else grpc_scan mx rest (Payload msg_len))
       else grpc_scan mx rest (Header buf' (pos + to_copy)))"
    using "2.prems" by (auto simp: Let_def to_copy_def buf'_def rest_def msg_len_def)
  show ?case
  proof (cases "pos = 5")
    case True
    then have "to_copy = 0" "buf' = buf" "msg_len = unat (u32_from_be_bytes (drop 1 buf))"
      using "2.prems" by (simp_all add: to_copy_def buf'_def msg_len_def)
    then show ?thesis
      using "2.prems" True grpc_messages_ok_prefixed [of buf "unat mx"]
      unfolding scan scan_agrees_def by (simp add: scan_state_def)
  next
    case False
    then have pos: "length buf = 5" "pos < 5" using "2.prems" by auto
    note hd = scan_agrees_header [OF pos to_copy_def buf'_def]
    have same: "state_ok (unat mx) (Header buf pos) ((d # data) @ rm)
        = state_ok (unat mx) (Header buf' (pos + to_copy)) (rest @ rm)" for rm
      using hd(2) [of rm] unfolding rest_def state_ok.simps by (simp only:)
    show ?thesis
    proof (cases "pos + to_copy = 5")
      case full: True
      have pre: "state_ok (unat mx) (Header buf' 5) (rest @ rm) \<longleftrightarrow>
          msg_len \<le> unat mx \<and> state_ok (unat mx) (Payload msg_len) (rest @ rm)" for rm
        using grpc_messages_ok_prefixed [OF hd(1)] hd(1) by (simp add: msg_len_def)
      show ?thesis
      proof (cases "msg_len > unat mx")
        case True
        then have "\<not> state_ok (unat mx) (Header buf' 5) rm" for rm
          using grpc_messages_ok_prefixed [OF hd(1)] hd(1) by (simp add: msg_len_def)
        then show ?thesis
          using True full hd(1) same pre unfolding scan scan_agrees_def
          by (simp add: scan_state_def msg_len_def)
      next
        case ok: False
        have "scan_agrees mx (Payload msg_len) rest (grpc_scan mx rest (Payload msg_len))"
          by (rule "2.IH"(1) [OF _ to_copy_def buf'_def refl rest_def full msg_len_def])
             (use pos ok in simp_all)
        then show ?thesis
          unfolding scan using full ok same pre
          by (auto intro!: scan_agrees_trans [of mx "Payload msg_len" rest])
      qed
    next
      case part: False
      then have lt: "pos + to_copy < 5" using pos(2) by (simp add: to_copy_def)
      have "scan_agrees mx (Header buf' (pos + to_copy)) rest (grpc_scan mx rest (Header buf' (pos + to_copy)))"
        by (rule "2.IH"(2) [OF _ to_copy_def buf'_def refl rest_def part])
           (use pos lt hd(1) in simp_all)
      then show ?thesis
        unfolding scan using part lt hd(1) same
        by (auto intro!: scan_agrees_trans [of mx "Header buf' (pos + to_copy)" rest])
    qed
  qed
next
  case (3 mx d data remaining)
  define consumed where "consumed = min (length (d # data)) remaining"
  define rest where "rest = drop consumed (d # data)"
  define st2 where
    "st2 = (if remaining - consumed = 0 then Header (replicate 5 0) 0 else Payload (remaining - consumed))"
  have scan: "grpc_scan mx (d # data) (Payload remaining) = grpc_scan mx rest st2"
    by (simp add: Let_def consumed_def rest_def st2_def del: length_Cons)
  have st2: "framing_wf mx st2" "\<not> framing_stuck st2" by (simp_all add: st2_def)
  have "scan_agrees mx st2 rest (grpc_scan mx rest st2)"
    using "3.IH"(1) [OF consumed_def refl rest_def] "3.IH"(2) [OF consumed_def refl rest_def]
    by (cases "remaining - consumed = 0") (simp_all only: st2_def if_True if_False framing_wf.simps, simp_all)
  moreover have "state_ok (unat mx) (Payload remaining) ((d # data) @ rm) = state_ok (unat mx) st2 (rest @ rm)" for rm
    by (cases "remaining \<le> length (d # data)")
      (simp_all add: st2_def rest_def consumed_def min_def del: length_Cons append_Cons)
  ultimately show ?case
    unfolding scan using st2 by - (rule scan_agrees_trans [of mx st2 rest], simp_all only: grpc_scan.simps simp_thms)
qed

lemma grpc_scan_spec:
  assumes "framing_wf mx st"
  obtains st' where "framing_wf mx st'"
    and "\<And>rm. state_ok (unat mx) st (data @ rm) = state_ok (unat mx) st' rm"
    and "grpc_scan mx data st = Scanned st' \<and> (data \<noteq> [] \<longrightarrow> state_ok (unat mx) st data)
      \<or> (\<exists>n. grpc_scan mx data st = TooLarge n st' \<and> \<not> state_ok (unat mx) st data)"
proof -
  obtain st' where st': "scan_state (grpc_scan mx data st) = Some st'" "framing_wf mx st'"
      "\<forall>rm. state_ok (unat mx) st (data @ rm) = state_ok (unat mx) st' rm"
      "data \<noteq> [] \<longrightarrow> (grpc_scan mx data st = Scanned st' \<longleftrightarrow> \<not> framing_stuck st')"
    using grpc_scan_agrees [OF assms] unfolding scan_agrees_def by blast
  have "state_ok (unat mx) st data \<longleftrightarrow> \<not> framing_stuck st'"
    using st'(3) [rule_format, of "[]"] state_ok_Nil [OF st'(2)] by simp
  with st' show ?thesis
    by (intro that [of st']) (auto simp: scan_state_def split: ScanResult.splits)
qed

definition frame_passes :: "nat \<Rightarrow> GrpcFramingState \<Rightarrow> SrvBody \<Rightarrow> SrvBody \<Rightarrow> nat \<Rightarrow> bool" where
  "frame_passes mx st body outs i =
     (if frame_bytes (body ! i) = [] \<or> state_ok mx st (body_bytes (take (Suc i) body)) then outs ! i = body ! i
      else (\<exists>n m. outs ! i = Err (PayloadTooLarge n m)))"

lemma limited_grpc:
  assumes "lb_grpc_state lb = Some st" and "framing_wf (lb_max_bytes lb) st"
  shows "\<exists>outs. limited_frames lb body = Some outs \<and> length outs = length body
    \<and> (\<forall>i < length body. frame_passes (unat (lb_max_bytes lb)) st body outs i)"
  using assms
proof (induction body arbitrary: lb st)
  case Nil
  then show ?case by simp
next
  case (Cons x body)
  let ?mx = "lb_max_bytes lb"
  obtain st' where st': "framing_wf ?mx st'"
    and same: "\<And>rm. state_ok (unat ?mx) st (frame_bytes x @ rm) = state_ok (unat ?mx) st' rm"
    and res: "grpc_scan ?mx (frame_bytes x) st = Scanned st' \<and> (frame_bytes x \<noteq> [] \<longrightarrow> state_ok (unat ?mx) st (frame_bytes x))
      \<or> (\<exists>n. grpc_scan ?mx (frame_bytes x) st = TooLarge n st' \<and> \<not> state_ok (unat ?mx) st (frame_bytes x))"
    using grpc_scan_spec [OF Cons.prems(2), of "frame_bytes x"] by metis
  define lb' where "lb' = lb \<lparr> lb_grpc_state := Some st' \<rparr>"
  have "\<exists>out. limited_poll_frame lb x = (Some out, lb') \<and>
      (if frame_bytes x = [] \<or> state_ok (unat ?mx) st (frame_bytes x) then out = x
       else (\<exists>n m. out = Err (PayloadTooLarge n m)))"
  proof (cases "\<exists>d. x = Ok (Data d)")
    case True
    with res Cons.prems(1) show ?thesis by (auto simp: limited_poll_frame_def lb'_def)
  next
    case False
    then have "frame_bytes x = []" by (cases x rule: frame_bytes.cases) auto
    moreover have "lb' = lb"
      using res Cons.prems(1) \<open>frame_bytes x = []\<close> by (auto simp: lb'_def)
    ultimately show ?thesis
      using False by (auto simp: limited_poll_frame_def split: result.splits Frame.splits)
  qed
  then obtain out where out: "limited_poll_frame lb x = (Some out, lb')"
    and first: "frame_passes (unat ?mx) st (x # body) (out # outs) 0" for outs
    by (auto simp: frame_passes_def)
  have "lb_grpc_state lb' = Some st'" "lb_max_bytes lb' = ?mx" by (simp_all add: lb'_def)
  then obtain outs where outs: "limited_frames lb' body = Some outs" "length outs = length body"
    "\<forall>i < length body. frame_passes (unat ?mx) st' body outs i"
    using Cons.IH [of lb' st'] st' by auto
  have "frame_passes (unat ?mx) st (x # body) (out # outs) i" if "i < length (x # body)" for i
  proof (cases i)
    case 0
    then show ?thesis using first by simp
  next
    case (Suc j)
    with that outs(3) show ?thesis by (simp add: frame_passes_def same)
  qed
  then show ?case using out outs by (intro exI [of _ "out # outs"]) simp
qed

text \<open>C13: 
  For a request that declares gRPC, the decision on a data frame does not depend on how the stream is
  cut into frames: the frame is passed on exactly if every message prefix in the bytes up to its end
  declares a length within the limit, and is replaced by the size error otherwise. No slice is ever
  out of range.
\<close>

theorem grpc_framing_equivalence:
  assumes "max_payload_call max_bytes req = Inr (req', lb)"
    and "declares_grpc (req_headers req)"
  shows "\<exists>outs. limited_frames lb (req_body req) = Some outs \<and> length outs = length (req_body req)
    \<and> (\<forall>i < length (req_body req).
         if frame_bytes (req_body req ! i) = []
            \<or> grpc_messages_ok (unat max_bytes) (body_bytes (take (Suc i) (req_body req)))
         then outs ! i = req_body req ! i
         else (\<exists>n m. outs ! i = Err (PayloadTooLarge n m)))"
proof -
  have lb: "lb = LimitedBody_new max_bytes True"
    using assms by (auto simp: max_payload_call_def split: if_splits)
  have "state_ok (unat max_bytes) (Header (replicate 5 0) 0) = grpc_messages_ok (unat max_bytes)" by auto
  with limited_grpc [of lb "Header (replicate 5 0) 0" "req_body req"] show ?thesis
    unfolding lb by (simp add: LimitedBody_new_def frame_passes_def)
qed

theorem counted_body_exact_witness:
  "(case max_payload_call 3 (demo_request ''POST'' ''/u'' \<lparr> req_body := [Ok (Data [1, 2]), Ok (Data [3, 4])] \<rparr>) of
      Inr (_, lb) \<Rightarrow> limited_frames lb [Ok (Data [1, 2]), Ok (Data [3, 4])]
        = Some [Ok (Data [1, 2]), Err (PayloadTooLarge 4 3)]
    | Inl _ \<Rightarrow> False)"
proof -
  let ?r = "demo_request ''POST'' ''/u'' \<lparr> req_body := [Ok (Data [1, 2]), Ok (Data [3, 4])] \<rparr>"
  have call: "max_payload_call 3 ?r = Inr (?r, LimitedBody_new 3 False)"
    by (simp add: max_payload_call_def declared_too_large_def declares_grpc_def demo_request_def hm_get_def)
  have "\<not> declares_grpc (req_headers ?r)" "length (body_bytes (req_body ?r)) < 2 ^ 64"
    by (simp_all add: declares_grpc_def demo_request_def hm_get_def)
  with counted_body_exact [OF call] call show ?thesis by simp
qed

text \<open>The five bytes of an empty gRPC message, and a request that declares gRPC.\<close>

definition empty_message :: "u8 list" where
  "empty_message = [0, 0, 0, 0, 0]"

definition grpc_request :: "SrvBody \<Rightarrow> Request" where
  "grpc_request body =
     demo_request ''POST'' ''/upload'' \<lparr> req_headers := [(''content-type'', ''application/grpc'')], req_body := body \<rparr>"

lemma grpc_request_call:
  "max_payload_call mx (grpc_request body) = Inr (grpc_request body, LimitedBody_new mx True)"
  "declares_grpc (req_headers (grpc_request body))"
  "req_body (grpc_request body) = body"
proof -
  show dg: "declares_grpc (req_headers (grpc_request body))"
    by (simp add: grpc_request_def declares_grpc_def hm_get_def) code_simp
  show "max_payload_call mx (grpc_request body) = Inr (grpc_request body, LimitedBody_new mx True)"
    using dg by (simp add: max_payload_call_def declared_too_large_def grpc_request_def hm_get_def)
qed (simp add: grpc_request_def)

theorem grpc_framing_equivalence_witness:
  "\<exists>outs. limited_frames (LimitedBody_new 1 True)
       [Ok (Data [0, 0, 0]), Ok (Data [0, 1, 7, 0, 0, 0, 0]), Ok (Data [2])] = Some outs
     \<and> outs ! 1 = Ok (Data [0, 1, 7, 0, 0, 0, 0]) \<and> (\<exists>n m. outs ! 2 = Err (PayloadTooLarge n m))"
proof -
  let ?b = "[Ok (Data [0, 0, 0]), Ok (Data [0, 1, 7, 0, 0, 0, 0]), Ok (Data [2])] :: SrvBody"
  have ok: "grpc_messages_ok 1 [0, 0, 0, 0, 1, 7, 0, 0, 0, 0]" and bad: "\<not> grpc_messages_ok 1 [0, 0, 0, 0, 1, 7, 0, 0, 0, 0, 2]"
    by code_simp+
  obtain outs where "limited_frames (LimitedBody_new 1 True) ?b = Some outs"
    and pass: "\<And>i. i < 3 \<Longrightarrow> if frame_bytes (?b ! i) = [] \<or> grpc_messages_ok 1 (body_bytes (take (Suc i) ?b))
      then outs ! i = ?b ! i else (\<exists>n m. outs ! i = Err (PayloadTooLarge n m))"
    using grpc_framing_equivalence [OF grpc_request_call(1,2), of 1 ?b] grpc_request_call(3) [of ?b] by auto
  moreover have "outs ! 1 = Ok (Data [0, 1, 7, 0, 0, 0, 0])" using pass [of 1] ok by simp
  moreover have "\<exists>n m. outs ! 2 = Err (PayloadTooLarge n m)" using pass [of 2] bad by (simp add: numeral_2_eq_2)
  ultimately show ?thesis by blast
qed

section \<open>The declared type lifts the total limit\<close>

lemma grpc_messages_ok_empties: "grpc_messages_ok mx (concat (replicate n empty_message))"
proof (induction n)
  case 0
  then show ?case by (simp add: grpc_messages_ok_short)
next
  case (Suc n)
  have "u32_from_be_bytes (drop 1 empty_message) = 0"
    by (simp add: empty_message_def from_be_bytes_def)
  with Suc grpc_messages_ok_prefixed [of empty_message mx "concat (replicate n empty_message)"]
  show ?case by (simp add: empty_message_def)
qed

lemma scan_empty_message:
  "grpc_scan mx empty_message (Header (replicate 5 0) 0) = Scanned (Payload 0)"
  "grpc_scan mx empty_message (Payload 0) = Scanned (Payload 0)"
  by (simp_all add: empty_message_def from_be_bytes_def numeral_eq_Suc)

text \<open>
  With the content type \<open>application/grpc\<close> the size of the whole body is not limited at all, whatever the
  route serves: a stream of empty messages of any length is passed on under every limit.
\<close>

theorem grpc_type_lifts_total_limit:
  "max_payload_call mx (grpc_request (replicate n (Ok (Data empty_message)))) =
     Inr (grpc_request (replicate n (Ok (Data empty_message))), LimitedBody_new mx True)
   \<and> limited_frames (LimitedBody_new mx True) (replicate n (Ok (Data empty_message)))
     = Some (replicate n (Ok (Data empty_message)))
   \<and> length (body_bytes (replicate n (Ok (Data empty_message)))) = 5 * n"
proof -
  have run: "limited_frames lb (replicate n (Ok (Data empty_message))) = Some (replicate n (Ok (Data empty_message)))"
    if "lb_grpc_state lb = Some (Header (replicate 5 0) 0) \<or> lb_grpc_state lb = Some (Payload 0)" for lb n
    using that by (induction n arbitrary: lb) (auto simp: limited_poll_frame_def scan_empty_message)
  have "length (body_bytes (replicate n (Ok (Data empty_message)))) = 5 * n"
    by (induction n) (simp_all add: empty_message_def)
  with run [of "LimitedBody_new mx True" n] grpc_request_call(1) show ?thesis
    by (simp add: LimitedBody_new_def)
qed

text \<open>
  An inner service that fails because the wrapped body reported the limit is answered with 413; every
  other result is passed on, except an error whose text contains the words of the size error.
\<close>

theorem max_payload_outcome_spec:
  "max_payload_outcome (Ok resp) = Ok resp
   \<and> max_payload_outcome (Err (PayloadTooLarge n m)) = Ok (build_413_response ''Payload too large (Streaming check)'')
   \<and> (case max_payload_outcome (Err e) of
        Ok r \<Rightarrow> resp_status r = 413 \<and> str_contains ''Payload Limit Exceeded'' (srv_error_string e)
      | Err e' \<Rightarrow> e' = e \<and> \<not> str_contains ''Payload Limit Exceeded'' (srv_error_string e))"
proof -
  have "srv_error_string (PayloadTooLarge n m) = ''Payload Limit Exceeded'' @ '': '' @ show_nat (unat n) @ '' > '' @ show_nat (unat m)"
    for n m by simp
  then have "str_contains ''Payload Limit Exceeded'' (srv_error_string (PayloadTooLarge n m))" for n m
    unfolding str_contains_iff by (metis append_Nil)
  then show ?thesis
    by (cases e) (auto simp: max_payload_outcome_def build_413_response_def simp del: srv_error_string.simps)
qed

end
