(* ===== verification/Grpc_Web.thy ===== *)
theory Grpc_Web
  imports Body_Limit
begin

text \<open>
  JSON-to-gRPC transcoding: \<open>handle_grpc_web\<close> of \<open>server/src/middleware/router/grpc_web.rs\<close>. The handler
  finds the schema of the upstream (a cache with a time to live, a refetch, and the stale copy when the
  refetch fails), picks service and method from the path, turns the JSON body into one gRPC message,
  sends it with failover, and turns the answer back into JSON.

  The schema and the conversion between JSON and Protobuf belong to libraries and are the fields of
  \<open>GrpcCodec\<close>; the reflection client (\<open>build_grpc_pool\<close>), the clock and the reading of the answer are in
  \<open>GrpcWebEnv\<close>. Node selection, guards and the outgoing request are those of the other handlers.
\<close>

section \<open>Parameters\<close>

datatype 'desc MethodLookup = ServiceNotFound | MethodNotFound | MethodFound 'desc

record ('pool, 'desc, 'msg) GrpcCodec =
  gc_method :: "'pool \<Rightarrow> string \<Rightarrow> string \<Rightarrow> 'desc MethodLookup"
  gc_from_json :: "'desc \<Rightarrow> u8 list \<Rightarrow> ('msg, string) result"
  gc_encode :: "'msg \<Rightarrow> (u8 list, string) result"
  gc_decode :: "'desc \<Rightarrow> u8 list \<Rightarrow> ('msg, string) result"
  gc_to_json :: "'msg \<Rightarrow> (string, string) result"
  gc_status_text :: "nat \<Rightarrow> string"

datatype Collected = CollectedBytes "u8 list" | CollectFailed string | CollectTimeout

type_synonym 'pool CachedPool = "('pool \<times> nat) option"

record 'pool GrpcWebEnv =
  gw_attempt_env :: AttemptEnv
  gw_clock1 :: nat                                   \<comment> \<open>at the first look into the cache\<close>
  gw_clock2 :: nat                                   \<comment> \<open>at the second look, under the fetch lock\<close>
  gw_clock3 :: nat                                   \<comment> \<open>when a fetched schema is stored\<close>
  gw_cache_others :: "'pool CachedPool \<Rightarrow> 'pool CachedPool"   \<comment> \<open>other tasks, between the two looks\<close>
  gw_fetch :: "Uri \<Rightarrow> ('pool, string) result"
  gw_collect :: "SrvBody \<Rightarrow> Collected"

section \<open>Schema\<close>

definition fresh_pool :: "nat \<Rightarrow> nat \<Rightarrow> 'pool CachedPool \<Rightarrow> 'pool option" where
  "fresh_pool ttl now cache =
     (case cache of
        Some (pool, created_at) \<Rightarrow> (if now - created_at < ttl then Some pool else None)
      | None \<Rightarrow> None)"

definition resolve_pool :: "nat \<Rightarrow> 'pool GrpcWebEnv \<Rightarrow> Uri \<Rightarrow> 'pool CachedPool \<Rightarrow> 'pool option \<times> 'pool CachedPool" where
  "resolve_pool ttl env uri cache =
     (case fresh_pool ttl (gw_clock1 env) cache of
        Some pool \<Rightarrow> (Some pool, cache)
      | None \<Rightarrow>
          (let cache2 = gw_cache_others env cache
           in case fresh_pool ttl (gw_clock2 env) cache2 of
                Some pool \<Rightarrow> (Some pool, cache2)
              | None \<Rightarrow>
                  (case gw_fetch env uri of
                     Ok new_pool \<Rightarrow> (Some new_pool, Some (new_pool, gw_clock3 env))
                   | Err _ \<Rightarrow>
                       (case cache2 of
                          Some (pool, _) \<Rightarrow> (Some pool, cache2)
                        | None \<Rightarrow> (None, cache2)))))"

section \<open>The call\<close>

definition trim_start_slashes :: "string \<Rightarrow> string" where
  "trim_start_slashes s = dropWhile (\<lambda>c. c = CHR ''/'') s"

text \<open>Service and method: the last two segments of the path.\<close>

definition gw_target :: "string \<Rightarrow> string \<Rightarrow> (string \<times> string) option" where
  "gw_target meth path =
     (let uri_parts = split_on CHR ''/'' (trim_start_slashes path)
      in if meth \<noteq> ''POST'' \<or> length uri_parts < 2 then None
         else Some (uri_parts ! (length uri_parts - 2), uri_parts ! (length uri_parts - 1)))"

definition grpc_frame :: "u8 list \<Rightarrow> u8 list" where
  "grpc_frame payload = 0 # to_be_bytes 4 (of_nat (length payload) :: u32) @ payload"

definition grpc_unframe :: "u8 list \<Rightarrow> (u8 list, string) result" where
  "grpc_unframe bytes =
     (if length bytes < 5 then Err ''Invalid gRPC Response''
      else let payload_len = unat (u32_from_be_bytes (take 4 (drop 1 bytes)))
           in if length bytes < 5 + payload_len then Err ''Truncated gRPC Response''
              else Ok (take payload_len (drop 5 bytes)))"

text \<open>The outgoing message, or the error response.\<close>

definition gw_message ::
  "('pool, 'desc, 'msg) GrpcCodec \<Rightarrow> 'pool \<Rightarrow> string \<Rightarrow> string \<Rightarrow> RequestBody
     \<Rightarrow> ('desc \<times> string \<times> u8 list, Response) result" where
  "gw_message codec pool meth path body =
     (case gw_target meth path of
        None \<Rightarrow> Err (build_error_response ''Please use POST /Fully.Qualified.Service/Method for gRPC'' 400)
      | Some (service_name, method_name) \<Rightarrow>
          (case gc_method codec pool service_name method_name of
             MethodNotFound \<Rightarrow> Err (build_error_response ''gRPC Method Not Found'' 404)
           | ServiceNotFound \<Rightarrow> Err (build_error_response ''gRPC Service Not Found'' 404)
           | MethodFound desc \<Rightarrow>
               (case body of
                  RStream _ \<Rightarrow> Err (build_error_response ''Streaming not supported for gRPC transcoding yet'' 500)
                | Buffered req_body_bytes \<Rightarrow>
                    (case gc_from_json codec desc req_body_bytes of
                       Err e \<Rightarrow> Err (build_error_response (''Invalid JSON payload: '' @ e) 400)
                     | Ok msg \<Rightarrow>
                         (case gc_encode codec msg of
                            Err e \<Rightarrow> Err (build_error_response (''Encode error: '' @ e) 500)
                          | Ok payload \<Rightarrow>
                              Ok (desc, ''/'' @ service_name @ ''/'' @ method_name, grpc_frame payload))))))"

definition gw_uri :: "ProxyIo \<Rightarrow> Uri \<Rightarrow> string \<Rightarrow> (Uri, Response) result" where
  "gw_uri io base target_path =
     (case io_parse io target_path of
        Err e \<Rightarrow> Err (build_error_response (''Invalid gRPC target path: '' @ e) 400)
      | Ok (p, q) \<Rightarrow>
          (case io_from_parts io (base \<lparr> uri_path := p, uri_query := q \<rparr>) of
             Err e \<Rightarrow> Err (build_error_response (''Invalid gRPC target URI: '' @ e) 400)
           | Ok u \<Rightarrow> Ok u))"

definition gw_headers :: "ProxyIo \<Rightarrow> HeaderMap \<Rightarrow> HeaderMap" where
  "gw_headers io h =
     (let h1 = hm_remove ''upgrade'' (hm_remove ''transfer-encoding'' (hm_remove ''connection'' (hm_remove ''content-length'' h)));
          h2 = io_inject io (hm_insert ''te'' ''trailers'' (hm_insert ''content-type'' ''application/grpc'' h1))
      in case hm_get ''traceparent'' h2 of
           Some trace_id \<Rightarrow> (if hm_contains_key ''x-trace-id'' h2 then h2 else hm_insert ''x-trace-id'' trace_id h2)
         | None \<Rightarrow> h2)"

section \<open>The answer\<close>

definition gw_response :: "('pool, 'desc, 'msg) GrpcCodec \<Rightarrow> (SrvBody \<Rightarrow> Collected) \<Rightarrow> 'desc \<Rightarrow> Response \<Rightarrow> Response" where
  "gw_response codec collect desc res =
     (if resp_status res \<noteq> 200
      then build_error_response (''Backend Error: '' @ gc_status_text codec (resp_status res)) (resp_status res)
      else
        (case collect (resp_body res) of
           CollectFailed e \<Rightarrow> build_error_response (''Failed to read gRPC body: '' @ e) 502
         | CollectTimeout \<Rightarrow> build_error_response ''Gateway Timeout reading gRPC response body'' 504
         | CollectedBytes res_body_bytes \<Rightarrow>
             (case grpc_unframe res_body_bytes of
                Err e \<Rightarrow> build_error_response e 502
              | Ok raw \<Rightarrow>
                  (case gc_decode codec desc raw of
                     Err e \<Rightarrow> build_error_response (''Parse error: '' @ e) 502
                   | Ok msg \<Rightarrow>
                       (case gc_to_json codec msg of
                          Err e \<Rightarrow> build_error_response (''JSON encode error: '' @ e) 500
                        | Ok response_json \<Rightarrow>
                            \<lparr> resp_status = 200, resp_headers = [(''content-type'', ''application/json'')],
                              resp_body = full_body response_json \<rparr>)))))"

section \<open>The loop\<close>

record ('pool, 'desc, 'msg) GrpcWebCall =
  gwc_codec :: "('pool, 'desc, 'msg) GrpcCodec"
  gwc_io :: ProxyIo
  gwc_env :: "nat \<Rightarrow> 'pool GrpcWebEnv"
  gwc_ttl :: nat
  gwc_method :: string
  gwc_uri :: Uri
  gwc_client :: "SocketAddr option"
  gwc_max_retries :: nat

type_synonym 'pool gw_state = "ProxyState \<times> 'pool CachedPool"

datatype 'pool gw_turn = GwContinue "'pool gw_state" | GwDone "Response option" "'pool gw_state"

text \<open>A response, or \<open>None\<close> for the panic of an empty node list.\<close>

definition gw_finish :: "Uri \<Rightarrow> ProxyState \<Rightarrow> 'pool CachedPool \<Rightarrow> Response \<Rightarrow> 'pool gw_turn" where
  "gw_finish uri st cache resp =
     GwDone (Some resp) (st \<lparr> ps_target := conn_guard_drop uri (ps_target st) \<rparr>, cache)"

definition gw_send ::
  "('pool, 'desc, 'msg) GrpcWebCall \<Rightarrow> 'pool GrpcWebEnv \<Rightarrow> nat \<Rightarrow> Uri \<Rightarrow> 'desc \<Rightarrow> ProxyRequest
     \<Rightarrow> ProxyState \<Rightarrow> 'pool CachedPool \<Rightarrow> 'pool gw_turn" where
  "gw_send c env i uri desc req st cache =
     (let ae = gw_attempt_env env; t = ps_target st
      in case ae_send ae req of
           NoAnswer \<Rightarrow> gw_finish uri st cache (build_error_response ''Gateway Timeout'' 504)
         | Answer ms res \<Rightarrow>
             gw_finish uri (st \<lparr> ps_target := upd_node i (record_latency_ms ms) t \<rparr>) cache
               (gw_response (gwc_codec c) (gw_collect env) desc res)
         | SendError _ _ \<Rightarrow>
             (let st' = st \<lparr> ps_target := target_mark_dead (ae_end ae) uri t, ps_failed := ps_failed st @ [uri] \<rparr>
              in if ps_attempts st' \<le> gwc_max_retries c
                 then GwContinue (st' \<lparr> ps_target := conn_guard_drop uri (count_retry i (ps_target st')) \<rparr>, cache)
                 else gw_finish uri st' cache (build_error_response ''Bad Gateway'' 502)))"

text \<open>What happens on the chosen node, with its connection guard taken.\<close>

definition gw_on_node ::
  "('pool, 'desc, 'msg) GrpcWebCall \<Rightarrow> 'pool GrpcWebEnv \<Rightarrow> nat \<Rightarrow> Uri \<Rightarrow> HeaderMap
     \<Rightarrow> ProxyState \<Rightarrow> 'pool CachedPool \<Rightarrow> 'pool gw_turn" where
  "gw_on_node c env i uri headers st cache =
     (case resolve_pool (gwc_ttl c) env uri cache of
        (None, cache') \<Rightarrow> gw_finish uri st cache' (build_error_response ''Failed to fetch gRPC schema'' 502)
      | (Some pool, cache') \<Rightarrow>
          (case gw_message (gwc_codec c) pool (gwc_method c) (uri_path (gwc_uri c)) (ps_body st) of
             Err resp \<Rightarrow> gw_finish uri st cache' resp
           | Ok (desc, target_path, frame) \<Rightarrow>
               (case gw_uri (gwc_io c) uri target_path of
                  Err resp \<Rightarrow> gw_finish uri st cache' resp
                | Ok target_uri \<Rightarrow>
                    (let req = \<lparr> px_method = ''POST'', px_uri = target_uri, px_version = HTTP_2,
                                 px_headers = gw_headers (gwc_io c) (set_host uri headers),
                                 px_body = buffered_frames frame \<rparr>;
                         st' = st \<lparr> ps_target := ae_others (gw_attempt_env env) (ps_target st),
                                    ps_sent := ps_sent st @ [(i, req)] \<rparr>
                     in gw_send c env i uri desc req st' cache'))))"

definition gw_attempt :: "('pool, 'desc, 'msg) GrpcWebCall \<Rightarrow> 'pool gw_state \<Rightarrow> 'pool gw_turn" where
  "gw_attempt c s =
     (let st = fst s; cache = snd s;
          env = gwc_env c (ps_attempts st); ae = gw_attempt_env env;
          st1 = st \<lparr> ps_headers := (if ps_attempts st = gwc_max_retries c then [] else ps_headers st),
                     ps_attempts := Suc (ps_attempts st) \<rparr>
      in case next_upstream (io_hash (gwc_io c)) (ae_rng ae) (ae_now ae) (gwc_client c) (ps_failed st) (ps_target st) of
           (None, t) \<Rightarrow> GwDone None (st1 \<lparr> ps_target := t \<rparr>, cache)
         | (Some i, t) \<Rightarrow>
             (let uri = node_uri (upstreams t ! i)
              in gw_on_node c env i uri (ps_headers st) (st1 \<lparr> ps_target := conn_guard_new uri t \<rparr>) cache))"

lemma gw_on_node_continue:
  assumes "gw_on_node c env i uri headers st cache = GwContinue s'"
  shows "ps_attempts (fst s') = ps_attempts st \<and> ps_attempts st \<le> gwc_max_retries c"
  using assms
  by (auto simp: gw_on_node_def gw_send_def gw_finish_def Let_def
      split: prod.splits option.splits result.splits SendResult.splits if_splits)

lemma gw_attempt_continue:
  assumes "gw_attempt c s = GwContinue s'"
  shows "ps_attempts (fst s') = Suc (ps_attempts (fst s)) \<and> ps_attempts (fst s') \<le> gwc_max_retries c"
  using assms unfolding gw_attempt_def Let_def
  by (auto dest: gw_on_node_continue split: prod.splits option.splits)

function gw_loop :: "('pool, 'desc, 'msg) GrpcWebCall \<Rightarrow> 'pool gw_state \<Rightarrow> Response option \<times> 'pool gw_state" where
  "gw_loop c s = (case gw_attempt c s of GwDone r s' \<Rightarrow> (r, s') | GwContinue s' \<Rightarrow> gw_loop c s')"
  by pat_completeness auto
termination
proof (relation "measure (\<lambda>(c, s). Suc (gwc_max_retries c) - ps_attempts (fst s))")
  fix c :: "('pool, 'desc, 'msg) GrpcWebCall" and s s' :: "'pool gw_state"
  assume "gw_attempt c s = GwContinue s'"
  from gw_attempt_continue [OF this]
  show "((c, s'), (c, s)) \<in> measure (\<lambda>(c, s). Suc (gwc_max_retries c) - ps_attempts (fst s))" by auto
qed simp

declare gw_loop.simps [simp del]

definition handle_grpc_web ::
  "('pool, 'desc, 'msg) GrpcWebCall \<Rightarrow> RouteTarget \<Rightarrow> 'pool CachedPool \<Rightarrow> RequestBody \<Rightarrow> HeaderMap
     \<Rightarrow> Response option \<times> 'pool gw_state" where
  "handle_grpc_web c target cache body headers =
     gw_loop (c \<lparr> gwc_max_retries := unat (max_retries target) \<rparr>)
       (\<lparr> ps_target = target, ps_failed = [], ps_attempts = 0, ps_headers = headers, ps_body = body, ps_sent = [] \<rparr>, cache)"

section \<open>Frames\<close>

text \<open>
  A message framed for the wire is read back as it was, and the size limiter accepts its frame exactly
  when the message itself is within the limit.
\<close>

theorem grpc_frame_roundtrip:
  assumes "length payload < 2 ^ 32"
  shows "grpc_unframe (grpc_frame payload) = Ok payload
    \<and> (grpc_messages_ok mx (grpc_frame payload) \<longleftrightarrow> length payload \<le> mx)"
proof -
  let ?w = "of_nat (length payload) :: u32" and ?hdr = "(0 :: u8) # to_be_bytes 4 (of_nat (length payload) :: u32)"
  have w: "unat ?w = length payload" using assms by (simp add: unat_of_nat)
  have hdr: "length ?hdr = 5" "drop 1 ?hdr = to_be_bytes 4 ?w" by simp_all
  have be: "u32_from_be_bytes (to_be_bytes 4 ?w) = ?w" by (rule from_to_be_bytes) simp
  have frame: "grpc_frame payload = ?hdr @ payload" by (simp add: grpc_frame_def)
  have "grpc_unframe (grpc_frame payload) = Ok payload"
    unfolding grpc_unframe_def frame using hdr be w by (simp add: Let_def)
  moreover have "grpc_messages_ok mx (grpc_frame payload) \<longleftrightarrow> length payload \<le> mx"
    unfolding frame using grpc_messages_ok_prefixed [OF hdr(1), of mx payload] hdr(2) be w
    by (simp add: grpc_messages_ok_short)
  ultimately show ?thesis ..
qed

theorem grpc_frame_roundtrip_witness:
  "grpc_unframe (grpc_frame [1, 2, 3]) = Ok [1, 2, 3] \<and> \<not> grpc_messages_ok 2 (grpc_frame [1, 2, 3])"
  using grpc_frame_roundtrip [of "[1, 2, 3]" 2] by simp

section \<open>The loop\<close>

definition gw_env_ok :: "('pool, 'desc, 'msg) GrpcWebCall \<Rightarrow> bool" where
  "gw_env_ok c \<longleftrightarrow>
     (\<forall>n t. length (upstreams (ae_others (gw_attempt_env (gwc_env c n)) t)) = length (upstreams t))
     \<and> (\<forall>n k. 0 < k \<longrightarrow> gen_range (ae_rng (gw_attempt_env (gwc_env c n))) k < k)"

text \<open>A request on the wire: one gRPC message over HTTP/2 for the service and method of the path.\<close>

definition gw_sent_ok :: "('pool, 'desc, 'msg) GrpcWebCall \<Rightarrow> nat \<times> ProxyRequest \<Rightarrow> bool" where
  "gw_sent_ok c s =
     (px_method (snd s) = ''POST'' \<and> px_version (snd s) = HTTP_2
      \<and> gwc_method c = ''POST''
      \<and> (\<exists>payload msg. gc_encode (gwc_codec c) msg = Ok payload \<and> px_body (snd s) = buffered_frames (grpc_frame payload)))"

lemma upd_node_length [simp]: "length (upstreams (upd_node i f t)) = length (upstreams t)"
  by (simp add: upd_node_def)

lemma update_first_length [simp]: "length (update_first P f xs) = length xs"
  by (induction xs) auto

lemma gw_target_length [simp]:
  "length (upstreams (conn_guard_new u t)) = length (upstreams t)"
  "length (upstreams (conn_guard_drop u t)) = length (upstreams t)"
  "length (upstreams (target_mark_dead now u t)) = length (upstreams t)"
  "length (upstreams (count_retry i t)) = length (upstreams t)"
  by (simp_all add: conn_guard_new_def conn_guard_drop_def target_mark_dead_def count_retry_def)

definition gw_inv :: "('pool, 'desc, 'msg) GrpcWebCall \<Rightarrow> ProxyState \<Rightarrow> bool" where
  "gw_inv c st \<longleftrightarrow> upstreams (ps_target st) \<noteq> [] \<and> length (ps_sent st) \<le> ps_attempts st
     \<and> ps_attempts st \<le> Suc (gwc_max_retries c) \<and> list_all (gw_sent_ok c) (ps_sent st)"

lemma gw_message_Ok:
  "gw_message codec pool meth path body = Ok (desc, target_path, frame) \<Longrightarrow>
     meth = ''POST'' \<and> (\<exists>payload msg. gc_encode codec msg = Ok payload \<and> frame = grpc_frame payload)
     \<and> (\<exists>s m. gw_target meth path = Some (s, m) \<and> target_path = ''/'' @ s @ ''/'' @ m)"
  by (auto simp: gw_message_def gw_target_def Let_def
      split: option.splits MethodLookup.splits RequestBody.splits result.splits if_splits) blast

lemma gw_send_cases:
  assumes "gw_send c env i uri desc req st cache = turn"
  shows "(\<exists>resp st'. turn = GwDone (Some resp) (st', cache)
            \<and> length (upstreams (ps_target st')) = length (upstreams (ps_target st))
            \<and> ps_sent st' = ps_sent st \<and> ps_attempts st' = ps_attempts st)
    \<or> (\<exists>st'. turn = GwContinue (st', cache) \<and> ps_attempts st \<le> gwc_max_retries c
            \<and> length (upstreams (ps_target st')) = length (upstreams (ps_target st))
            \<and> ps_sent st' = ps_sent st \<and> ps_attempts st' = ps_attempts st)"
  using assms by (auto simp: gw_send_def gw_finish_def Let_def split: SendResult.splits if_splits)

lemma gw_upstreams_empty [simp]:
  "upstreams (conn_guard_new u t) = [] \<longleftrightarrow> upstreams t = []"
  "upstreams (conn_guard_drop u t) = [] \<longleftrightarrow> upstreams t = []"
  using gw_target_length by (metis length_0_conv)+

lemma gw_on_node_cases:
  assumes inv: "gw_inv c st" "length (ps_sent st) < ps_attempts st"
    and oth: "\<And>t. length (upstreams (ae_others (gw_attempt_env env) t)) = length (upstreams t)"
  shows "\<exists>st' cache'. gw_inv c st' \<and> ps_attempts st' = ps_attempts st
    \<and> ((\<exists>resp. gw_on_node c env i uri headers st cache = GwDone (Some resp) (st', cache'))
       \<or> gw_on_node c env i uri headers st cache = GwContinue (st', cache') \<and> ps_attempts st' \<le> gwc_max_retries c)"
proof -
  have fin: "\<exists>st'. gw_inv c st' \<and> ps_attempts st' = ps_attempts st
      \<and> gw_finish uri st cache' resp = GwDone (Some resp) (st', cache')" for resp cache'
    using inv by (simp add: gw_finish_def gw_inv_def)
  obtain pool cache' where pool: "resolve_pool (gwc_ttl c) env uri cache = (pool, cache')" by fastforce
  show ?thesis
  proof (cases pool)
    case None
    then show ?thesis using pool fin by (force simp: gw_on_node_def)
  next
    case (Some p)
    show ?thesis
    proof (cases "gw_message (gwc_codec c) p (gwc_method c) (uri_path (gwc_uri c)) (ps_body st)")
      case (Err resp)
      then show ?thesis using pool Some fin by (force simp: gw_on_node_def)
    next
      case (Ok m)
      obtain desc target_path frame where m: "m = (desc, target_path, frame)" by (cases m)
      show ?thesis
      proof (cases "gw_uri (gwc_io c) uri target_path")
        case (Err resp)
        then show ?thesis using pool Some Ok m fin by (force simp: gw_on_node_def)
      next
        case uri: (Ok target_uri)
        define req where "req = \<lparr> px_method = ''POST'', px_uri = target_uri, px_version = HTTP_2,
          px_headers = gw_headers (gwc_io c) (set_host uri headers), px_body = buffered_frames frame \<rparr>"
        define st' where "st' = st \<lparr> ps_target := ae_others (gw_attempt_env env) (ps_target st),
          ps_sent := ps_sent st @ [(i, req)] \<rparr>"
        have run: "gw_on_node c env i uri headers st cache = gw_send c env i uri desc req st' cache'"
          using pool Some Ok m uri by (simp add: gw_on_node_def req_def st'_def Let_def)
        have "gw_sent_ok c (i, req)"
          using gw_message_Ok [OF Ok [unfolded m]] by (auto simp: gw_sent_ok_def req_def)
        moreover have "upstreams (ae_others (gw_attempt_env env) (ps_target st)) \<noteq> []"
          using inv oth [of "ps_target st"] by (metis gw_inv_def length_0_conv)
        ultimately have "gw_inv c st'" using inv by (simp add: gw_inv_def st'_def)
        moreover have "ps_attempts st' = ps_attempts st" by (simp add: st'_def)
        ultimately show ?thesis
          using gw_send_cases [OF run [symmetric]] unfolding gw_inv_def by (metis length_0_conv)
      qed
    qed
  qed
qed

lemma gw_attempt_cases:
  assumes inv: "gw_inv c st" and ok: "gw_env_ok c" and att: "ps_attempts st \<le> gwc_max_retries c"
  shows "\<exists>st' cache'. gw_inv c st' \<and> ps_attempts st' = Suc (ps_attempts st)
    \<and> ((\<exists>resp. gw_attempt c (st, cache) = GwDone (Some resp) (st', cache'))
       \<or> gw_attempt c (st, cache) = GwContinue (st', cache') \<and> ps_attempts st' \<le> gwc_max_retries c)"
proof -
  define env where "env = gwc_env c (ps_attempts st)"
  define ae where "ae = gw_attempt_env env"
  have rng: "\<And>k. 0 < k \<Longrightarrow> gen_range (ae_rng ae) k < k"
    and oth: "\<And>t. length (upstreams (ae_others (gw_attempt_env env) t)) = length (upstreams t)"
    using ok by (simp_all add: gw_env_ok_def ae_def env_def)
  have "upstreams (ps_target st) \<noteq> []" using inv by (simp add: gw_inv_def)
  from next_upstream_mem [OF this rng]
  obtain i t where pick: "next_upstream (io_hash (gwc_io c)) (ae_rng ae) (ae_now ae) (gwc_client c) (ps_failed st) (ps_target st)
      = (Some i, t)" by metis
  have ups: "upstreams t = upstreams (ps_target st)"
    using next_upstream_upstreams [of "io_hash (gwc_io c)" "ae_rng ae" "ae_now ae" "gwc_client c" "ps_failed st" "ps_target st"] pick
    by simp
  define st2 where "st2 = st \<lparr> ps_headers := (if ps_attempts st = gwc_max_retries c then [] else ps_headers st),
      ps_attempts := Suc (ps_attempts st), ps_target := conn_guard_new (node_uri (upstreams t ! i)) t \<rparr>"
  have "gw_inv c st2" "length (ps_sent st2) < ps_attempts st2" "ps_attempts st2 = Suc (ps_attempts st)"
    using inv att ups by (simp_all add: gw_inv_def st2_def)
  moreover have "gw_attempt c (st, cache) =
      gw_on_node c env i (node_uri (upstreams t ! i)) (ps_headers st) st2 cache"
    unfolding gw_attempt_def Let_def fst_conv snd_conv env_def [symmetric] ae_def [symmetric] pick prod.case option.case
    by (simp add: st2_def)
  ultimately show ?thesis using gw_on_node_cases [OF _ _ oth, of c st2] by metis
qed

lemma gw_loop_post:
  assumes "gw_inv c st" and "gw_env_ok c" and "ps_attempts st \<le> gwc_max_retries c"
  shows "\<exists>resp st' cache'. gw_loop c (st, cache) = (Some resp, (st', cache')) \<and> gw_inv c st'"
  using assms
proof (induction "Suc (gwc_max_retries c) - ps_attempts st" arbitrary: st cache rule: less_induct)
  case less
  from gw_attempt_cases [OF less.prems, of cache] obtain st' cache' where st': "gw_inv c st'"
      "ps_attempts st' = Suc (ps_attempts st)"
    and turn: "(\<exists>resp. gw_attempt c (st, cache) = GwDone (Some resp) (st', cache'))
       \<or> gw_attempt c (st, cache) = GwContinue (st', cache') \<and> ps_attempts st' \<le> gwc_max_retries c" by blast
  from turn show ?case
  proof
    assume "\<exists>resp. gw_attempt c (st, cache) = GwDone (Some resp) (st', cache')"
    then show ?thesis using st' by (auto simp: gw_loop.simps [of c "(st, cache)"])
  next
    assume cont: "gw_attempt c (st, cache) = GwContinue (st', cache') \<and> ps_attempts st' \<le> gwc_max_retries c"
    then have "Suc (gwc_max_retries c) - ps_attempts st' < Suc (gwc_max_retries c) - ps_attempts st"
      using st'(2) less.prems(3) by linarith
    from less.hyps [OF this st'(1) less.prems(2)] cont show ?thesis
      by (simp add: gw_loop.simps [of c "(st, cache)"])
  qed
qed

text \<open>C29: 
  Transcoding always answers, with at most one request per attempt and at most \<open>max_retries + 1\<close> attempts.
  Everything it sends is a \<open>POST\<close> over HTTP/2 whose body is a single framed message.
\<close>

theorem grpc_web_returns:
  assumes "upstreams target \<noteq> []" and "gw_env_ok c"
  shows "\<exists>resp s. handle_grpc_web c target cache body headers = (Some resp, s)
    \<and> length (ps_sent (fst s)) \<le> Suc (unat (max_retries target))
    \<and> list_all (\<lambda>(i, req). px_method req = ''POST'' \<and> px_version req = HTTP_2
        \<and> (\<exists>payload msg. gc_encode (gwc_codec c) msg = Ok payload \<and> px_body req = buffered_frames (grpc_frame payload)))
      (ps_sent (fst s))"
proof -
  let ?c = "c \<lparr> gwc_max_retries := unat (max_retries target) \<rparr>"
  let ?st = "\<lparr> ps_target = target, ps_failed = [], ps_attempts = 0, ps_headers = headers, ps_body = body, ps_sent = [] \<rparr>"
  have "gw_inv ?c ?st" using assms(1) by (simp add: gw_inv_def)
  moreover have "gw_env_ok ?c" using assms(2) by (simp add: gw_env_ok_def)
  moreover have "ps_attempts ?st \<le> gwc_max_retries ?c" by simp
  ultimately obtain resp st' cache' where "gw_loop ?c (?st, cache) = (Some resp, (st', cache'))" and inv: "gw_inv ?c st'"
    using gw_loop_post by blast
  moreover have "length (ps_sent st') \<le> Suc (unat (max_retries target))" using inv by (simp add: gw_inv_def)
  moreover have "list_all (\<lambda>(i, req). px_method req = ''POST'' \<and> px_version req = HTTP_2
        \<and> (\<exists>payload msg. gc_encode (gwc_codec c) msg = Ok payload \<and> px_body req = buffered_frames (grpc_frame payload)))
      (ps_sent st')"
    using inv unfolding gw_inv_def by (auto simp: gw_sent_ok_def elim!: list.pred_mono_strong)
  ultimately show ?thesis by (simp add: handle_grpc_web_def)
qed

section \<open>What the path and the answer do not show\<close>

lemma split_on_join:
  assumes "d \<notin> set m"
  shows "split_on d (pre @ d # m) = split_on d pre @ [m]"
  using assms
proof (induction pre)
  case Nil
  then show ?case by (simp add: split_on_id)
next
  case (Cons c pre)
  then show ?case by (cases "split_on d pre") auto
qed

text \<open>
  The call that is made depends on the last two segments of the path only. Whatever stands before them
  selects the route and the access rule, but not the service and method that are called.
\<close>

theorem grpc_web_target_suffix:
  assumes "CHR ''/'' \<notin> set service" and "CHR ''/'' \<notin> set method_name" and "service \<noteq> []"
  shows "gw_target ''POST'' (prefix @ ''/'' @ service @ ''/'' @ method_name) = Some (service, method_name)"
proof -
  obtain p where p: "trim_start_slashes (prefix @ ''/'' @ service @ ''/'' @ method_name) = service @ ''/'' @ method_name
      \<or> trim_start_slashes (prefix @ ''/'' @ service @ ''/'' @ method_name) = p @ ''/'' @ service @ ''/'' @ method_name"
  proof (cases "\<forall>c \<in> set prefix. c = CHR ''/''")
    case True
    have "dropWhile (\<lambda>c. c = CHR ''/'') (service @ ''/'' @ method_name) = service @ ''/'' @ method_name"
      using assms(1,3) by (cases service) auto
    then have "trim_start_slashes (prefix @ ''/'' @ service @ ''/'' @ method_name) = service @ ''/'' @ method_name"
      using True by (simp add: trim_start_slashes_def dropWhile_append2)
    then show ?thesis using that by blast
  next
    case False
    then obtain c where "c \<in> set prefix" "c \<noteq> CHR ''/''" by blast
    then have "trim_start_slashes (prefix @ ''/'' @ service @ ''/'' @ method_name)
        = dropWhile (\<lambda>c. c = CHR ''/'') prefix @ ''/'' @ service @ ''/'' @ method_name"
      unfolding trim_start_slashes_def by (rule dropWhile_append1)
    then show ?thesis using that by blast
  qed
  have one: "split_on CHR ''/'' (service @ ''/'' @ method_name) = [service, method_name]"
    using split_on_join [OF assms(2), of service] assms(1) by (simp add: split_on_id)
  have two: "split_on CHR ''/'' (p @ ''/'' @ service @ ''/'' @ method_name) = split_on CHR ''/'' p @ [service, method_name]"
    using split_on_join [OF assms(2), of "p @ ''/'' @ service"] split_on_join [OF assms(1), of p] by simp
  show ?thesis
    using p
  proof
    assume "trim_start_slashes (prefix @ ''/'' @ service @ ''/'' @ method_name) = service @ ''/'' @ method_name"
    then show ?thesis using one unfolding gw_target_def by simp
  next
    assume "trim_start_slashes (prefix @ ''/'' @ service @ ''/'' @ method_name) = p @ ''/'' @ service @ ''/'' @ method_name"
    then show ?thesis using two unfolding gw_target_def by (simp add: nth_append)
  qed
qed

theorem grpc_web_target_suffix_witness:
  "gw_target ''POST'' ''/public/pkg.Admin/Delete'' = Some (''pkg.Admin'', ''Delete'')"
  using grpc_web_target_suffix [of "''pkg.Admin''" "''Delete''" "''/public''"] by simp

text \<open>
  The status of the call is not looked at: headers and trailers of the answer, where gRPC reports an error,
  do not change the response, so that a message followed by an error status is answered with 200.
\<close>

theorem grpc_web_ignores_status:
  "gw_response codec (\<lambda>b. CollectedBytes (body_bytes b)) desc
     \<lparr> resp_status = 200, resp_headers = h, resp_body = frames @ [Ok (Trailers [(''grpc-status'', code)])] \<rparr>
   = gw_response codec (\<lambda>b. CollectedBytes (body_bytes b)) desc
     \<lparr> resp_status = 200, resp_headers = [], resp_body = frames \<rparr>"
  by (simp add: gw_response_def)

text \<open>Schema, codec and environment of an example: one method, identity coding.\<close>

definition demo_codec :: "(unit, unit, u8 list) GrpcCodec" where
  "demo_codec = \<lparr> gc_method = (\<lambda>_ s m. if s = ''S'' then (if m = ''M'' then MethodFound () else MethodNotFound) else ServiceNotFound),
     gc_from_json = (\<lambda>_ bs. Ok bs), gc_encode = (\<lambda>m. Ok m), gc_decode = (\<lambda>_ bs. Ok bs),
     gc_to_json = (\<lambda>_. Ok ''{}''), gc_status_text = (\<lambda>_. ''error'') \<rparr>"

definition demo_web_call :: "(nat \<Rightarrow> SendResult) \<Rightarrow> (unit, unit, u8 list) GrpcWebCall" where
  "demo_web_call answer =
     \<lparr> gwc_codec = demo_codec, gwc_io = demo_io answer,
       gwc_env = (\<lambda>n. \<lparr> gw_attempt_env = io_env (demo_io answer) n, gw_clock1 = 0, gw_clock2 = 0, gw_clock3 = 0,
         gw_cache_others = (\<lambda>c. c), gw_fetch = (\<lambda>_. Ok ()), gw_collect = (\<lambda>b. CollectedBytes (body_bytes b)) \<rparr>),
       gwc_ttl = 600, gwc_method = ''POST'', gwc_uri = demo_uri \<lparr> uri_path := ''/S/M'' \<rparr>, gwc_client = None,
       gwc_max_retries = 0 \<rparr>"

lemma demo_web_ok: "gw_env_ok (demo_web_call answer)"
  by (simp add: gw_env_ok_def demo_web_call_def demo_io_def demo_rng_def)

theorem grpc_web_returns_witness:
  "\<exists>resp s. handle_grpc_web (demo_web_call demo_answers) demo_target None (Buffered [1]) [] = (Some resp, s)
     \<and> length (ps_sent (fst s)) \<le> 3"
proof -
  have "Suc (unat (max_retries demo_target)) = 3" by (simp add: demo_target_def)
  then show ?thesis using grpc_web_returns [OF demo_upstreams demo_web_ok] by metis
qed

text \<open>
  A \<open>POST\<close> is sent again after any failure of the connection, also when the first node may have processed
  it: here the connection to the first node is reset, and the second node gets the same message.
\<close>

definition reset_then_ok :: "nat \<Rightarrow> SendResult" where
  "reset_then_ok k =
     (if k = 0 then SendError 1 \<lparr> ce_is_connect = False,
        ce_chain = [\<lparr> en_srv = None, en_hyper_user = False, en_io = Some ConnectionReset, en_msg = ''reset'' \<rparr>] \<rparr>
      else Answer 3 demo_answer)"

theorem grpc_web_resends_post:
  "map (\<lambda>(i, req). (i, px_method req, px_body req))
     (ps_sent (fst (snd (handle_grpc_web (demo_web_call reset_then_ok) demo_target None (Buffered [1]) []))))
   = [(0, ''POST'', buffered_frames (grpc_frame [1])), (1, ''POST'', buffered_frames (grpc_frame [1]))]"
  by code_simp

end
