(* ===== verification/Admin.thy ===== *)
theory Admin
  imports Server_Config Jwt_Auth "HOL-Library.Signed_Division"
begin

text \<open>
  The administration and telemetry endpoint, \<open>server/src/middleware/admin.rs\<close>: the status snapshot with
  its counters (\<open>collect_admin_status\<close>), the Prometheus text (\<open>format_prometheus_metrics\<close>), the
  circuit-breaker control action of a POST (\<open>apply_optional_control_action\<close> with its own percent
  decoding) and the request handler.

  The upstream nodes are shared by every clone of a server configuration; the handler gets the servers
  of the global configuration, or the one of its own server when there is no global one, and returns
  them with the nodes the action changed. Parameters are the printer of the \<open>http\<close> crate for URIs, the
  JSON serializer and the clock, which gives the same second to all reads of one snapshot.
\<close>

section \<open>The status snapshot\<close>

record AdminSummary =
  as_total_servers :: usize
  as_total_routes :: usize
  as_total_upstreams :: usize
  as_healthy_upstreams :: usize
  as_open_circuits :: usize
  as_half_open_circuits :: usize
  as_active_connections :: usize
  as_total_requests :: u64
  as_total_upstream_requests :: u64
  as_total_upstream_failures :: u64
  as_total_circuit_trips :: u64
  as_total_failover_retries :: u64
  as_total_blocked_requests :: u64
  as_revoked_jwt_tokens :: usize

record AdminServerPkiStatus =
  aps_server_cert_valid_until_unix :: "int option"
  aps_server_cert_days_remaining :: "int option"
  aps_crl_next_update_unix :: "int option"
  aps_crl_expired :: "bool option"
  aps_crl_revoked_certs_count :: usize

record AdminUpstreamStatus =
  aus_uri :: string
  aus_circuit_state :: string
  aus_is_alive :: bool
  aus_is_available :: bool
  aus_active_connections :: usize
  aus_total_requests :: u64
  aus_total_failures :: u64
  aus_circuit_trips :: u64
  aus_failover_retries :: u64
  aus_last_response_ms :: u64
  aus_ema_response_ms :: u64
  aus_consecutive_failures :: usize
  aus_last_failure_time :: u64
  aus_cooldown_remaining_secs :: u64
  aus_half_open_probe_in_flight :: bool
  aus_health_score :: usize

record AdminRouteStatus =
  ars_prefix :: string
  ars_backend_type :: string
  ars_strategy :: string
  ars_cooldown_seconds :: u64
  ars_max_retries :: usize
  ars_failure_threshold :: usize
  ars_max_retry_buffer_bytes :: usize
  ars_active_health_check_interval :: u64
  ars_failover_retries :: u64
  ars_upstreams :: "AdminUpstreamStatus list"

record AdminServerStatus =
  ass_name :: string
  ass_protocol :: string
  ass_service :: string
  ass_authentication :: string
  ass_listen :: string
  ass_enabled_layers :: "string list"
  ass_traffic_and_security :: ServerMetrics
  ass_pki :: AdminServerPkiStatus
  ass_routes :: "AdminRouteStatus list"

record AdminStatusResponse =
  asr_status :: string
  asr_uptime_seconds :: u64
  asr_timestamp_unix :: u64
  asr_summary :: AdminSummary
  asr_servers :: "AdminServerStatus list"

text \<open>The derived \<open>Debug\<close> texts.\<close>

fun backend_debug :: "RouteBackendType \<Rightarrow> string" where
  "backend_debug Rest = ''Rest''"
| "backend_debug GrpcPassthrough = ''GrpcPassthrough''"
| "backend_debug GrpcTranscoding = ''GrpcTranscoding''"
| "backend_debug AdminBackend = ''Admin''"

fun strategy_debug :: "LbStrategy \<Rightarrow> string" where
  "strategy_debug RoundRobin = ''RoundRobin''"
| "strategy_debug Random = ''Random''"
| "strategy_debug LeastConnections = ''LeastConnections''"
| "strategy_debug Sticky = ''Sticky''"
| "strategy_debug HighestScore = ''HighestScore''"

fun protocol_debug :: "Protocol \<Rightarrow> string" where
  "protocol_debug HttpProto = ''Http''" | "protocol_debug HttpsProto = ''Https''"

fun service_debug :: "ServiceType \<Rightarrow> string" where
  "service_debug Echo = ''Echo''"
| "service_debug Router = ''Router''"
| "service_debug Idp = ''Idp''"
| "service_debug StaticFiles = ''StaticFiles''"
| "service_debug AdminService = ''Admin''"

fun authentication_debug :: "AuthenticationMethod \<Rightarrow> string" where
  "authentication_debug NoAuthentication = ''None''"
| "authentication_debug Jwt = ''Jwt''"
| "authentication_debug ClientCert = ''ClientCert''"
| "authentication_debug OptionalClientCert = ''OptionalClientCert''"

fun circuit_str :: "CircuitState \<Rightarrow> string" where
  "circuit_str Closed = ''Closed''" | "circuit_str Open = ''Open''" | "circuit_str HalfOpen = ''HalfOpen''"

record AdminEnv =
  adm_now :: u64
  adm_uptime :: u64
  adm_uri_string :: "Uri \<Rightarrow> string"
  adm_to_json :: "AdminStatusResponse \<Rightarrow> string option"

definition upstream_status :: "AdminEnv \<Rightarrow> u64 \<Rightarrow> UpstreamNode \<Rightarrow> AdminUpstreamStatus" where
  "upstream_status env cooldown node =
     \<lparr> aus_uri = adm_uri_string env (node_uri node),
       aus_circuit_state = circuit_str (circuit_state node),
       aus_is_alive = is_alive node,
       aus_is_available = is_available cooldown (adm_now env) node,
       aus_active_connections = active_connections node,
       aus_total_requests = node_requests node,
       aus_total_failures = total_failures node,
       aus_circuit_trips = circuit_trips node,
       aus_failover_retries = failover_retries node,
       aus_last_response_ms = last_response_ms node,
       aus_ema_response_ms = ema_response_ms node,
       aus_consecutive_failures = consecutive_failures node,
       aus_last_failure_time = last_failure_time node,
       aus_cooldown_remaining_secs =
         (if \<not> is_alive node \<and> last_failure_time node > 0
          then saturating_sub_u64 (last_failure_time node + cooldown) (adm_now env) else 0),
       aus_half_open_probe_in_flight = half_open_probe_in_flight node,
       aus_health_score = current_score node \<rparr>"

definition count_upstream :: "AdminSummary \<Rightarrow> UpstreamNode \<Rightarrow> AdminSummary" where
  "count_upstream summary node =
     summary\<lparr> as_total_upstreams := as_total_upstreams summary + 1,
       as_healthy_upstreams := as_healthy_upstreams summary + of_bool (circuit_state node = Closed),
       as_open_circuits := as_open_circuits summary + of_bool (circuit_state node = Open),
       as_half_open_circuits := as_half_open_circuits summary + of_bool (circuit_state node = HalfOpen),
       as_active_connections := as_active_connections summary + active_connections node,
       as_total_upstream_requests := as_total_upstream_requests summary + node_requests node,
       as_total_upstream_failures := as_total_upstream_failures summary + total_failures node,
       as_total_circuit_trips := as_total_circuit_trips summary + circuit_trips node,
       as_total_failover_retries := as_total_failover_retries summary + failover_retries node \<rparr>"

definition route_status :: "AdminEnv \<Rightarrow> ParsedRoute \<Rightarrow> AdminRouteStatus" where
  "route_status env route =
     (let t = route_target route in
      \<lparr> ars_prefix = route_prefix route,
        ars_backend_type = backend_debug (route_backend_type route),
        ars_strategy = strategy_debug (strategy t),
        ars_cooldown_seconds = cooldown_seconds t,
        ars_max_retries = max_retries t,
        ars_failure_threshold = failure_threshold t,
        ars_max_retry_buffer_bytes = max_retry_buffer_bytes t,
        ars_active_health_check_interval = active_health_check_interval t,
        ars_failover_retries = foldl (\<lambda>n node. n + failover_retries node) 0 (upstreams t),
        ars_upstreams = map (upstream_status env (cooldown_seconds t)) (upstreams t) \<rparr>)"

text \<open>The loop over the routes; the administration routes themselves are skipped.\<close>

fun collect_routes :: "AdminEnv \<Rightarrow> AdminSummary \<Rightarrow> ParsedRoute list \<Rightarrow> AdminSummary \<times> AdminRouteStatus list" where
  "collect_routes env summary [] = (summary, [])"
| "collect_routes env summary (route # routes) =
     (if route_backend_type route = AdminBackend then collect_routes env summary routes
      else
        (let summary1 = summary\<lparr> as_total_routes := as_total_routes summary + 1 \<rparr>;
             summary2 = foldl count_upstream summary1 (upstreams (route_target route));
             (summary', statuses) = collect_routes env summary2 routes
         in (summary', route_status env route # statuses)))"

definition i64_wrap :: "int \<Rightarrow> int" where
  "i64_wrap x = signed_take_bit 63 x"

definition pki_status :: "u64 \<Rightarrow> ServerPkiInfo \<Rightarrow> AdminServerPkiStatus" where
  "pki_status now info =
     (let now_i64 = sint now in
      \<lparr> aps_server_cert_valid_until_unix = server_cert_valid_until_unix info,
        aps_server_cert_days_remaining =
          map_option (\<lambda>exp. i64_wrap (exp - now_i64) sdiv 86400) (server_cert_valid_until_unix info),
        aps_crl_next_update_unix = crl_next_update_unix info,
        aps_crl_expired = map_option (\<lambda>next_upd. now_i64 > next_upd) (crl_next_update_unix info),
        aps_crl_revoked_certs_count = crl_revoked_certs_count info \<rparr>)"

definition listen_str :: "('c, 'r) ServerConfig \<Rightarrow> string" where
  "listen_str srv =
     (case srv_tunnel srv of
        Some tunnel \<Rightarrow> ''tunnel://'' @ tun_sni_domain tunnel @ '' ('' @ tun_target_url tunnel @ '')''
      | None \<Rightarrow> unwrap_or ''0.0.0.0'' (srv_ip srv) @ '':'' @ show_nat (unat (unwrap_or 0 (srv_port srv))))"

definition collect_server ::
  "AdminEnv \<Rightarrow> MetricsRegistry \<Rightarrow> AdminSummary \<Rightarrow> ('c, 'r) ServerConfig \<Rightarrow> AdminSummary \<times> AdminServerStatus" where
  "collect_server env reg summary srv =
     (let m = for_server (srv_name srv) reg;
          summary1 = summary\<lparr> as_total_requests := as_total_requests summary + total_requests m,
            as_total_blocked_requests := as_total_blocked_requests summary
              + (blocked_ip_filter m + blocked_inspection m + blocked_auth_rbac m + rate_limited m) \<rparr>;
          (summary2, routes) = collect_routes env summary1 (srv_parsed_routes srv)
      in (summary2,
          \<lparr> ass_name = srv_name srv, ass_protocol = protocol_debug (srv_protocol srv),
            ass_service = service_debug (srv_service srv),
            ass_authentication = authentication_debug (srv_authentication srv),
            ass_listen = listen_str srv, ass_enabled_layers = layers_enabled (srv_layers srv),
            ass_traffic_and_security = m, ass_pki = pki_status (adm_now env) (srv_pki_info srv),
            ass_routes = routes \<rparr>))"

fun collect_servers ::
  "AdminEnv \<Rightarrow> MetricsRegistry \<Rightarrow> AdminSummary \<Rightarrow> ('c, 'r) ServerConfig list \<Rightarrow> AdminSummary \<times> AdminServerStatus list" where
  "collect_servers env reg summary [] = (summary, [])"
| "collect_servers env reg summary (srv # srvs) =
     (let (summary1, status) = collect_server env reg summary srv;
          (summary2, statuses) = collect_servers env reg summary1 srvs
      in (summary2, status # statuses))"

definition AdminSummary_new :: "usize \<Rightarrow> usize \<Rightarrow> AdminSummary" where
  "AdminSummary_new servers revoked_tokens =
     \<lparr> as_total_servers = servers, as_total_routes = 0, as_total_upstreams = 0, as_healthy_upstreams = 0,
       as_open_circuits = 0, as_half_open_circuits = 0, as_active_connections = 0, as_total_requests = 0,
       as_total_upstream_requests = 0, as_total_upstream_failures = 0, as_total_circuit_trips = 0,
       as_total_failover_retries = 0, as_total_blocked_requests = 0, as_revoked_jwt_tokens = revoked_tokens \<rparr>"

text \<open>The servers the handler sees: the global configuration, or its own server.\<close>

record ('c, 'r) AdminState =
  adm_global :: "('c, 'r) ServerConfig list option"
  adm_fallback :: "('c, 'r) ServerConfig option"

definition status_servers :: "('c, 'r) AdminState \<Rightarrow> ('c, 'r) ServerConfig list" where
  "status_servers st =
     (case adm_global st of
        Some servers \<Rightarrow> filter srv_enabled servers
      | None \<Rightarrow> (case adm_fallback st of Some srv \<Rightarrow> [srv] | None \<Rightarrow> []))"

definition collect_admin_status ::
  "AdminEnv \<Rightarrow> MetricsRegistry \<Rightarrow> JwtRevocationStore \<Rightarrow> ('c, 'r) AdminState \<Rightarrow> AdminStatusResponse" where
  "collect_admin_status env reg store st =
     (let servers_slice = status_servers st;
          (summary, servers) =
            collect_servers env reg
              (AdminSummary_new (of_nat (length servers_slice)) (of_nat (dm_len (revoked store)))) servers_slice
      in \<lparr> asr_status = ''ok'', asr_uptime_seconds = adm_uptime env, asr_timestamp_unix = adm_now env,
           asr_summary = summary, asr_servers = servers \<rparr>)"

section \<open>Prometheus text\<close>

abbreviation newline :: char where
  "newline \<equiv> CHR 0x0A"

definition metric_head :: "string \<Rightarrow> string \<Rightarrow> string \<Rightarrow> string" where
  "metric_head name help typ =
     (''# HELP '' @ name @ '' '' @ help @ [newline]) @ (''# TYPE '' @ name @ '' '' @ typ @ [newline])"

definition label_pair :: "string \<Rightarrow> string \<Rightarrow> string" where
  "label_pair key val = key @ ''='' @ [CHR 0x22] @ val @ [CHR 0x22]"

definition sample_line :: "string \<Rightarrow> string \<Rightarrow> string \<Rightarrow> string" where
  "sample_line name labels val = name @ ''{'' @ labels @ ''} '' @ val"

definition server_sample :: "string \<Rightarrow> AdminServerStatus \<Rightarrow> string \<Rightarrow> string" where
  "server_sample name srv val = sample_line name (label_pair ''server'' (ass_name srv)) val @ [newline]"

definition blocked_sample :: "AdminServerStatus \<Rightarrow> string \<Rightarrow> u64 \<Rightarrow> string" where
  "blocked_sample srv reason n =
     sample_line ''praeco_server_blocked_requests_total''
       (label_pair ''server'' (ass_name srv) @ '','' @ label_pair ''reason'' reason) (show_nat (unat n)) @ [newline]"

definition upstream_labels :: "AdminServerStatus \<Rightarrow> AdminRouteStatus \<Rightarrow> AdminUpstreamStatus \<Rightarrow> string" where
  "upstream_labels srv route up =
     label_pair ''server'' (ass_name srv) @ '','' @ label_pair ''route'' (ars_prefix route) @ '',''
     @ label_pair ''upstream'' (aus_uri up)"

definition all_upstreams ::
  "AdminServerStatus list \<Rightarrow> (AdminServerStatus \<times> AdminRouteStatus \<times> AdminUpstreamStatus) list" where
  "all_upstreams servers =
     concat (map (\<lambda>srv. concat (map (\<lambda>route. map (\<lambda>up. (srv, route, up)) (ars_upstreams route)) (ass_routes srv))) servers)"

definition upstream_samples :: "string \<Rightarrow> (AdminUpstreamStatus \<Rightarrow> string) \<Rightarrow> AdminServerStatus list \<Rightarrow> string" where
  "upstream_samples name val servers =
     concat (map (\<lambda>(srv, route, up). sample_line name (upstream_labels srv route up) (val up) @ [newline])
       (all_upstreams servers))"

definition show_int :: "int \<Rightarrow> string" where
  "show_int i = (if i < 0 then CHR ''-'' # show_nat (nat (- i)) else show_nat (nat i))"

definition state_num :: "string \<Rightarrow> string" where
  "state_num s = (if s = ''Closed'' then ''0'' else if s = ''Open'' then ''1'' else if s = ''HalfOpen'' then ''2'' else ''0'')"

definition format_prometheus_metrics :: "AdminStatusResponse \<Rightarrow> string" where
  "format_prometheus_metrics status =
     (let servers = asr_servers status in
      metric_head ''praeco_uptime_seconds'' ''Process uptime in seconds.'' ''gauge''
      @ (''praeco_uptime_seconds '' @ show_nat (unat (asr_uptime_seconds status)) @ [newline]) @ [newline]
      @ metric_head ''praeco_revoked_jwt_tokens'' ''Number of active revoked JWT tokens in the denylist.'' ''gauge''
      @ (''praeco_revoked_jwt_tokens '' @ show_nat (unat (as_revoked_jwt_tokens (asr_summary status))) @ [newline]) @ [newline]
      @ metric_head ''praeco_server_requests_total'' ''Total incoming HTTP/gRPC requests per server.'' ''counter''
      @ concat (map (\<lambda>srv. server_sample ''praeco_server_requests_total'' srv
            (show_nat (unat (total_requests (ass_traffic_and_security srv))))) servers) @ [newline]
      @ metric_head ''praeco_server_blocked_requests_total'' ''Blocked requests per server by security layer.'' ''counter''
      @ concat (map (\<lambda>srv.
            blocked_sample srv ''ip_filter'' (blocked_ip_filter (ass_traffic_and_security srv))
            @ blocked_sample srv ''inspection'' (blocked_inspection (ass_traffic_and_security srv))
            @ blocked_sample srv ''auth_rbac'' (blocked_auth_rbac (ass_traffic_and_security srv))
            @ blocked_sample srv ''rate_limited'' (rate_limited (ass_traffic_and_security srv))) servers) @ [newline]
      @ metric_head ''praeco_server_cert_days_remaining'' ''Days remaining until the server TLS certificate expires.'' ''gauge''
      @ concat (map (\<lambda>srv. case aps_server_cert_days_remaining (ass_pki srv) of
            Some days \<Rightarrow> server_sample ''praeco_server_cert_days_remaining'' srv (show_int days)
          | None \<Rightarrow> []) servers) @ [newline]
      @ metric_head ''praeco_upstream_circuit_state'' ''Circuit breaker state per upstream (0=Closed, 1=Open, 2=HalfOpen).'' ''gauge''
      @ upstream_samples ''praeco_upstream_circuit_state'' (\<lambda>up. state_num (aus_circuit_state up)) servers @ [newline]
      @ metric_head ''praeco_upstream_alive'' ''Whether the upstream node is marked alive (1=alive, 0=dead).'' ''gauge''
      @ upstream_samples ''praeco_upstream_alive'' (\<lambda>up. if aus_is_alive up then ''1'' else ''0'') servers @ [newline]
      @ metric_head ''praeco_upstream_active_connections'' ''Active in-flight requests to the upstream node.'' ''gauge''
      @ upstream_samples ''praeco_upstream_active_connections'' (\<lambda>up. show_nat (unat (aus_active_connections up))) servers @ [newline]
      @ metric_head ''praeco_upstream_requests_total'' ''Total requests dispatched to the upstream node.'' ''counter''
      @ upstream_samples ''praeco_upstream_requests_total'' (\<lambda>up. show_nat (unat (aus_total_requests up))) servers @ [newline]
      @ metric_head ''praeco_upstream_failures_total'' ''Total failures observed on the upstream node.'' ''counter''
      @ upstream_samples ''praeco_upstream_failures_total'' (\<lambda>up. show_nat (unat (aus_total_failures up))) servers @ [newline]
      @ metric_head ''praeco_upstream_circuit_trips_total'' ''Total times the upstream circuit breaker tripped to OPEN.'' ''counter''
      @ upstream_samples ''praeco_upstream_circuit_trips_total'' (\<lambda>up. show_nat (unat (aus_circuit_trips up))) servers @ [newline]
      @ metric_head ''praeco_upstream_ema_response_ms'' ''Exponential moving average response latency in milliseconds.'' ''gauge''
      @ upstream_samples ''praeco_upstream_ema_response_ms'' (\<lambda>up. show_nat (unat (aus_ema_response_ms up))) servers @ [newline]
      @ metric_head ''praeco_upstream_consecutive_failures'' ''Consecutive outlier failures observed on the upstream node.'' ''gauge''
      @ upstream_samples ''praeco_upstream_consecutive_failures'' (\<lambda>up. show_nat (unat (aus_consecutive_failures up))) servers)"

section \<open>Percent decoding\<close>

text \<open>
  \<open>String::from_utf8_lossy\<close>: each maximal prefix of a sequence that cannot be completed is replaced by
  U+FFFD. \<open>utf8_tail\<close> says whether a lead byte is completed and how many bytes after it are consumed.
\<close>

definition is_cont :: "char \<Rightarrow> bool" where
  "is_cont c = (128 \<le> byte_of c \<and> byte_of c < 192)"

definition utf8_second :: "nat \<Rightarrow> char \<Rightarrow> bool" where
  "utf8_second b c =
     (let d = byte_of c in
      if b = 224 then 160 \<le> d \<and> d < 192
      else if b = 237 then 128 \<le> d \<and> d < 160
      else if b = 240 then 144 \<le> d \<and> d < 192
      else if b = 244 then 128 \<le> d \<and> d < 144
      else 128 \<le> d \<and> d < 192)"

definition utf8_tail :: "nat \<Rightarrow> string \<Rightarrow> bool \<times> nat" where
  "utf8_tail b s =
     (let needed = (if 194 \<le> b \<and> b < 224 then 1 else if 224 \<le> b \<and> b < 240 then 2 else if 240 \<le> b \<and> b < 245 then 3 else 0)
      in if needed = 0 \<or> s = [] \<or> \<not> utf8_second b (hd s) then (False, 0)
         else let n = Suc (length (takeWhile is_cont (take (needed - 1) (tl s)))) in (n = needed, n))"

function from_utf8_lossy :: "string \<Rightarrow> string" where
  "from_utf8_lossy [] = []"
| "from_utf8_lossy (c # s) =
     (if byte_of c < 128 then c # from_utf8_lossy s
      else (case utf8_tail (byte_of c) s of
              (True, n) \<Rightarrow> c # take n s @ from_utf8_lossy (drop n s)
            | (False, n) \<Rightarrow> [CHR 0xEF, CHR 0xBF, CHR 0xBD] @ from_utf8_lossy (drop n s)))"
  by pat_completeness auto
termination by (relation "measure length") auto

definition hex_digit :: "char \<Rightarrow> nat option" where
  "hex_digit c =
     (let b = byte_of c in
      if 48 \<le> b \<and> b \<le> 57 then Some (b - 48)
      else if 97 \<le> b \<and> b \<le> 102 then Some (b - 87)
      else if 65 \<le> b \<and> b \<le> 70 then Some (b - 55)
      else None)"

text \<open>\<open>u8::from_str_radix\<close> on two characters, which also accepts a plus sign and one digit.\<close>

definition hex_pair :: "char \<Rightarrow> char \<Rightarrow> nat option" where
  "hex_pair h l =
     (if h = CHR ''+'' then hex_digit l
      else (case (hex_digit h, hex_digit l) of (Some x, Some y) \<Rightarrow> Some (16 * x + y) | _ \<Rightarrow> None))"

fun decode_bytes :: "string \<Rightarrow> string" where
  "decode_bytes [] = []"
| "decode_bytes (b # rest) =
     (if b = CHR ''%'' then
        (case rest of
           h # l # more_bytes \<Rightarrow>
             (case hex_pair h l of
                Some v \<Rightarrow> char_of v # decode_bytes more_bytes
              | None \<Rightarrow> CHR ''%'' # decode_bytes more_bytes)
         | _ \<Rightarrow> [CHR ''%''])
      else if b = CHR ''+'' then CHR '' '' # decode_bytes rest
      else b # decode_bytes rest)"

definition urlencoding_decode :: "string \<Rightarrow> string" where
  "urlencoding_decode input = from_utf8_lossy (decode_bytes input)"

section \<open>The control action and the handler\<close>

definition action_step :: "string option \<times> string option \<Rightarrow> string \<Rightarrow> string option \<times> string option" where
  "action_step acc pair =
     (case split_once CHR ''='' pair of
        None \<Rightarrow> acc
      | Some (k, v) \<Rightarrow>
          (if k = ''action'' then (Some v, snd acc)
           else if k = ''upstream'' then (fst acc, Some (urlencoding_decode v))
           else acc))"

definition node_action :: "string \<Rightarrow> u64 \<Rightarrow> UpstreamNode \<Rightarrow> UpstreamNode" where
  "node_action act now node =
     (if act = ''mark_dead'' \<or> act = ''open'' then mark_dead now node
      else if act = ''mark_alive'' \<or> act = ''close'' \<or> act = ''reset'' then mark_alive node
      else node)"

definition names_node :: "AdminEnv \<Rightarrow> string \<Rightarrow> UpstreamNode \<Rightarrow> bool" where
  "names_node env up_str node =
     (let node_uri_str = adm_uri_string env (node_uri node)
      in node_uri_str = up_str \<or> trim_end_slashes node_uri_str = trim_end_slashes up_str)"

definition map_nodes :: "(UpstreamNode \<Rightarrow> UpstreamNode) \<Rightarrow> ('c, 'r) ServerConfig \<Rightarrow> ('c, 'r) ServerConfig" where
  "map_nodes f srv =
     srv\<lparr> srv_parsed_routes :=
       map (\<lambda>route. route\<lparr> route_target := (route_target route)\<lparr> upstreams := map f (upstreams (route_target route)) \<rparr> \<rparr>)
         (srv_parsed_routes srv) \<rparr>"

definition apply_optional_control_action ::
  "AdminEnv \<Rightarrow> string \<Rightarrow> ('c, 'r) AdminState \<Rightarrow> ('c, 'r) AdminState" where
  "apply_optional_control_action env query st =
     (case foldl action_step (None, None) (split_on CHR ''&'' query) of
        (Some act, Some up_str) \<Rightarrow>
          (let change = map_nodes (\<lambda>node. if names_node env up_str node then node_action act (adm_now env) node else node)
           in case adm_global st of
                Some servers \<Rightarrow> st\<lparr> adm_global := Some (map change servers) \<rparr>
              | None \<Rightarrow> st\<lparr> adm_fallback := map_option change (adm_fallback st) \<rparr>)
      | _ \<Rightarrow> st)"

definition admin_response :: "nat \<Rightarrow> string \<Rightarrow> string \<Rightarrow> Response" where
  "admin_response status content_type body =
     \<lparr> resp_status = status,
       resp_headers = [(''content-type'', content_type)] @ (if status = 200 then [(''cache-control'', ''no-store'')] else []),
       resp_body = full_body body \<rparr>"

definition wants_prometheus :: "string \<Rightarrow> string \<Rightarrow> HeaderMap \<Rightarrow> bool" where
  "wants_prometheus path query headers =
     (ends_with ''/metrics'' path \<or> str_contains ''format=prometheus'' query
      \<or> (case hm_get ''accept'' headers of
           Some a \<Rightarrow> is_visible_ascii a
             \<and> (str_contains ''application/openmetrics-text'' a \<or> str_contains ''version=0.0.4'' a)
         | None \<Rightarrow> False))"

definition health_payload :: "u64 \<Rightarrow> string" where
  "health_payload uptime =
     ''{'' @ [CHR 0x22] @ ''status'' @ [CHR 0x22] @ '':'' @ [CHR 0x22] @ ''ok'' @ [CHR 0x22] @ '',''
     @ [CHR 0x22] @ ''uptime_seconds'' @ [CHR 0x22] @ '':'' @ show_nat (unat uptime) @ ''}''"

definition handle_admin_request ::
  "AdminEnv \<Rightarrow> MetricsRegistry \<Rightarrow> JwtRevocationStore \<Rightarrow> Uri \<Rightarrow> string \<Rightarrow> HeaderMap \<Rightarrow> ('c, 'r) AdminState
     \<Rightarrow> Response \<times> ('c, 'r) AdminState" where
  "handle_admin_request env reg store uri meth headers st =
     (if meth \<noteq> ''GET'' \<and> meth \<noteq> ''POST'' \<and> meth \<noteq> ''HEAD''
      then (admin_response 405 ''text/plain; charset=utf-8'' ''Method Not Allowed'', st)
      else
        (let path = uri_path uri; query = unwrap_or [] (uri_query uri)
         in if ends_with ''/healthz'' path \<or> path = ''/health''
            then (admin_response 200 ''application/json'' (health_payload (adm_uptime env)), st)
            else
              (let st' = (if meth = ''POST'' \<and> query \<noteq> [] then apply_optional_control_action env query st else st);
                   snapshot = collect_admin_status env reg store st'
               in if wants_prometheus path query headers
                  then (admin_response 200 ''text/plain; version=0.0.4; charset=utf-8'' (format_prometheus_metrics snapshot), st')
                  else (admin_response 200 ''application/json'' (unwrap_or ''{}'' (adm_to_json env snapshot)), st'))))"

text \<open>\<open>AdminService::call\<close>, the handler as a service of its own.\<close>

definition admin_service_call ::
  "AdminEnv \<Rightarrow> MetricsRegistry \<Rightarrow> JwtRevocationStore \<Rightarrow> Request \<Rightarrow> ('c, 'r) AdminState
     \<Rightarrow> (Response, SrvError) result \<times> ('c, 'r) AdminState" where
  "admin_service_call env reg store req st =
     (case handle_admin_request env reg store (req_uri req) (req_method req) (req_headers req) st of
        (resp, st') \<Rightarrow> (Ok resp, st'))"

section \<open>The counters of the snapshot\<close>

text \<open>The nodes the snapshot is about: those of the routes that are not administration routes.\<close>

definition shown_nodes :: "('c, 'r) ServerConfig \<Rightarrow> UpstreamNode list" where
  "shown_nodes srv =
     concat (map (\<lambda>r. upstreams (route_target r)) (filter (\<lambda>r. route_backend_type r \<noteq> AdminBackend) (srv_parsed_routes srv)))"

text \<open>The contribution of some nodes and routes to a summary.\<close>

definition add_nodes :: "AdminSummary \<Rightarrow> usize \<Rightarrow> UpstreamNode list \<Rightarrow> AdminSummary" where
  "add_nodes summary routes nodes =
     summary\<lparr> as_total_routes := as_total_routes summary + routes,
       as_total_upstreams := as_total_upstreams summary + of_nat (length nodes),
       as_healthy_upstreams := as_healthy_upstreams summary + of_nat (cnt (\<lambda>n. circuit_state n = Closed) nodes),
       as_open_circuits := as_open_circuits summary + of_nat (cnt (\<lambda>n. circuit_state n = Open) nodes),
       as_half_open_circuits := as_half_open_circuits summary + of_nat (cnt (\<lambda>n. circuit_state n = HalfOpen) nodes),
       as_active_connections := as_active_connections summary + sum_list (map active_connections nodes),
       as_total_upstream_requests := as_total_upstream_requests summary + sum_list (map node_requests nodes),
       as_total_upstream_failures := as_total_upstream_failures summary + sum_list (map total_failures nodes),
       as_total_circuit_trips := as_total_circuit_trips summary + sum_list (map circuit_trips nodes),
       as_total_failover_retries := as_total_failover_retries summary + sum_list (map failover_retries nodes) \<rparr>"

lemma cnt_append [simp]: "cnt P (xs @ ys) = cnt P xs + cnt P ys"
  by (induction xs) auto

lemma add_nodes_add_nodes: "add_nodes (add_nodes s r1 ns1) r2 ns2 = add_nodes s (r1 + r2) (ns1 @ ns2)"
  by (simp add: add_nodes_def add.assoc)

lemma add_nodes_none: "add_nodes s 0 [] = s"
  by (simp add: add_nodes_def)

lemma count_upstream_add: "count_upstream s n = add_nodes s 0 [n]"
  by (simp add: count_upstream_def add_nodes_def)

lemma foldl_count_upstream: "foldl count_upstream s ns = add_nodes s 0 ns"
proof (induction ns arbitrary: s)
  case Nil
  then show ?case by (simp add: add_nodes_none)
next
  case (Cons n ns)
  then show ?case by (simp add: count_upstream_add add_nodes_add_nodes)
qed

lemma add_route: "s\<lparr> as_total_routes := as_total_routes s + 1 \<rparr> = add_nodes s 1 []"
  by (simp add: add_nodes_def)

lemma collect_routes_spec:
  "collect_routes env s routes =
     (let shown = filter (\<lambda>r. route_backend_type r \<noteq> AdminBackend) routes
      in (add_nodes s (of_nat (length shown)) (concat (map (\<lambda>r. upstreams (route_target r)) shown)), map (route_status env) shown))"
  by (induction routes arbitrary: s) (simp_all add: add_nodes_none foldl_count_upstream add_route add_nodes_add_nodes Let_def)

definition shown_routes :: "('c, 'r) ServerConfig \<Rightarrow> ParsedRoute list" where
  "shown_routes srv = filter (\<lambda>r. route_backend_type r \<noteq> AdminBackend) (srv_parsed_routes srv)"

definition blocked_total :: "ServerMetrics \<Rightarrow> u64" where
  "blocked_total m = blocked_ip_filter m + blocked_inspection m + blocked_auth_rbac m + rate_limited m"

definition add_traffic :: "AdminSummary \<Rightarrow> ServerMetrics list \<Rightarrow> AdminSummary" where
  "add_traffic s ms =
     s\<lparr> as_total_requests := as_total_requests s + sum_list (map total_requests ms),
        as_total_blocked_requests := as_total_blocked_requests s + sum_list (map blocked_total ms) \<rparr>"

lemma add_traffic_add_nodes: "add_traffic (add_nodes s r ns) ms = add_nodes (add_traffic s ms) r ns"
  by (simp add: add_traffic_def add_nodes_def)

lemma add_traffic_add_traffic: "add_traffic (add_traffic s ms1) ms2 = add_traffic s (ms1 @ ms2)"
  by (simp add: add_traffic_def add.assoc)

lemma collect_server_summary:
  "fst (collect_server env reg s srv) =
     add_nodes (add_traffic s [for_server (srv_name srv) reg]) (of_nat (length (shown_routes srv))) (shown_nodes srv)"
  by (simp add: collect_server_def collect_routes_spec Let_def add_traffic_def blocked_total_def shown_routes_def shown_nodes_def)

lemma collect_servers_summary:
  "fst (collect_servers env reg s srvs) =
     add_nodes (add_traffic s (map (\<lambda>srv. for_server (srv_name srv) reg) srvs))
       (of_nat (length (concat (map shown_routes srvs)))) (concat (map shown_nodes srvs))"
proof (induction srvs arbitrary: s)
  case Nil
  then show ?case by (simp add: add_nodes_def add_traffic_def)
next
  case (Cons srv srvs)
  have "fst (collect_servers env reg s (srv # srvs)) = fst (collect_servers env reg (fst (collect_server env reg s srv)) srvs)"
    by (simp split: prod.splits)
  also have "\<dots> = add_nodes (add_traffic (add_nodes (add_traffic s [for_server (srv_name srv) reg])
        (of_nat (length (shown_routes srv))) (shown_nodes srv)) (map (\<lambda>srv. for_server (srv_name srv) reg) srvs))
       (of_nat (length (concat (map shown_routes srvs)))) (concat (map shown_nodes srvs))"
    unfolding Cons.IH collect_server_summary ..
  finally show ?case
    by (simp add: add_traffic_add_nodes add_traffic_add_traffic add_nodes_add_nodes del: map_append)
qed

lemma foldl_plus: "foldl (\<lambda>n x. n + f x) a xs = a + sum_list (map f xs)" for a :: "'a :: comm_monoid_add"
  by (induction xs arbitrary: a) (simp_all add: ac_simps)

lemma collect_server_status:
  "ass_routes (snd (collect_server env reg s srv)) = map (route_status env) (shown_routes srv)"
  by (simp add: collect_server_def collect_routes_spec Let_def shown_routes_def)

lemma collect_servers_routes:
  "map ass_routes (snd (collect_servers env reg s srvs)) = map (\<lambda>srv. map (route_status env) (shown_routes srv)) srvs"
proof (induction srvs arbitrary: s)
  case (Cons srv srvs)
  have "snd (collect_servers env reg s (srv # srvs)) =
      snd (collect_server env reg s srv) # snd (collect_servers env reg (fst (collect_server env reg s srv)) srvs)"
    by (simp split: prod.splits)
  then show ?case using Cons.IH by (simp add: collect_server_status)
qed simp

lemma circuit_cnt:
  "length ns = cnt (\<lambda>n. circuit_state n = Closed) ns + cnt (\<lambda>n. circuit_state n = Open) ns + cnt (\<lambda>n. circuit_state n = HalfOpen) ns"
proof (induction ns)
  case (Cons n ns)
  then show ?case by (cases "circuit_state n") simp_all
qed simp

text \<open>
  The summary of a snapshot is exact: with the routes and nodes of the enabled servers (administration
  routes left out) it holds their numbers, the numbers of nodes per circuit state add up to the number
  of nodes, and its traffic totals are the sums of what the servers and nodes hold; the failover total
  is also the sum of the totals shown for the routes. All sums are taken in 64 bits, as the code does.
\<close>

theorem admin_summary_exact:
  fixes st :: "('c, 'r) AdminState"
  shows "let servers = status_servers st; nodes = concat (map shown_nodes servers);
             status = collect_admin_status env reg store st; summary = asr_summary status;
             routes = concat (map ass_routes (asr_servers status))
    in as_total_servers summary = of_nat (length servers)
    \<and> as_total_routes summary = of_nat (length routes)
    \<and> as_total_upstreams summary = of_nat (length nodes)
    \<and> as_total_upstreams summary
        = as_healthy_upstreams summary + as_open_circuits summary + as_half_open_circuits summary
    \<and> as_open_circuits summary = of_nat (cnt (\<lambda>n. circuit_state n = Open) nodes)
    \<and> as_half_open_circuits summary = of_nat (cnt (\<lambda>n. circuit_state n = HalfOpen) nodes)
    \<and> as_active_connections summary = sum_list (map active_connections nodes)
    \<and> as_total_upstream_failures summary = sum_list (map total_failures nodes)
    \<and> as_total_failover_retries summary = sum_list (map ars_failover_retries routes)
    \<and> as_total_requests summary = sum_list (map (\<lambda>srv. total_requests (for_server (srv_name srv) reg)) servers)
    \<and> as_total_blocked_requests summary = sum_list (map (\<lambda>srv. blocked_total (for_server (srv_name srv) reg)) servers)"
proof -
  define servers where "servers = status_servers st"
  define nodes where "nodes = concat (map shown_nodes servers)"
  define status where "status = collect_admin_status env reg store st"
  let ?s0 = "AdminSummary_new (of_nat (length servers)) (of_nat (dm_len (revoked store)))"
  have status: "asr_summary status = fst (collect_servers env reg ?s0 servers)"
    "asr_servers status = snd (collect_servers env reg ?s0 servers)"
    by (simp_all add: status_def collect_admin_status_def servers_def Let_def split: prod.splits)
  have summary: "asr_summary status = add_nodes (add_traffic ?s0 (map (\<lambda>srv. for_server (srv_name srv) reg) servers))
       (of_nat (length (concat (map shown_routes servers)))) nodes"
    unfolding status nodes_def by (rule collect_servers_summary)
  have routes: "map ass_routes (asr_servers status) = map (\<lambda>srv. map (route_status env) (shown_routes srv)) servers"
    unfolding status by (rule collect_servers_routes)
  have retries: "sum_list (map failover_retries (concat (map (\<lambda>r. upstreams (route_target r)) rs)))
      = sum_list (map ars_failover_retries (map (route_status env) rs))" for rs
    by (induction rs) (simp_all add: route_status_def Let_def foldl_plus)
  have all_retries: "sum_list (map failover_retries (concat (map shown_nodes srvs)))
      = sum_list (map ars_failover_retries (concat (map (\<lambda>srv. map (route_status env) (shown_routes srv)) srvs)))"
    for srvs :: "('c, 'r) ServerConfig list"
    by (induction srvs) (simp_all add: shown_nodes_def shown_routes_def retries [simplified])
  have len: "length (concat (map (\<lambda>srv. map (route_status env) (shown_routes srv)) srvs)) = length (concat (map shown_routes srvs))"
    for srvs :: "('c, 'r) ServerConfig list"
    by (induction srvs) simp_all
  have upstreams: "(of_nat (length nodes) :: usize) = of_nat (cnt (\<lambda>n. circuit_state n = Closed) nodes)
      + of_nat (cnt (\<lambda>n. circuit_state n = Open) nodes) + of_nat (cnt (\<lambda>n. circuit_state n = HalfOpen) nodes)"
    unfolding circuit_cnt [of nodes] by simp
  show ?thesis
    unfolding Let_def servers_def [symmetric] status_def [symmetric] nodes_def [symmetric]
    unfolding summary routes len all_retries [symmetric] nodes_def [symmetric]
    using upstreams by (simp add: add_nodes_def add_traffic_def AdminSummary_new_def o_def)
qed

section \<open>Percent decoding reads percent encoding\<close>

definition hex_char :: "nat \<Rightarrow> char" where
  "hex_char n = char_of (if n < 10 then 48 + n else 55 + n)"

definition percent_encode_char :: "char \<Rightarrow> string" where
  "percent_encode_char c =
     (if is_unreserved (of_char c) then [c] else [CHR ''%'', hex_char (byte_of c div 16), hex_char (byte_of c mod 16)])"

definition percent_encode :: "string \<Rightarrow> string" where
  "percent_encode s = concat (map percent_encode_char s)"

lemma hex_char_byte: "n < 16 \<Longrightarrow> byte_of (hex_char n) = (if n < 10 then 48 + n else 55 + n)"
  by (simp add: hex_char_def)

lemma hex_digit_char: "n < 16 \<Longrightarrow> hex_digit (hex_char n) = Some n"
  by (simp add: hex_digit_def hex_char_byte Let_def)

lemma byte_neq: "byte_of c \<noteq> byte_of d \<Longrightarrow> c \<noteq> d"
  by auto

lemma hex_char_plain: "n < 16 \<Longrightarrow> hex_char n \<noteq> CHR ''+''"
  by (rule byte_neq) (simp add: hex_char_byte)

lemma unreserved_byte:
  assumes "is_unreserved (of_char c)"
  shows "byte_of c \<noteq> 37 \<and> byte_of c \<noteq> 43 \<and> byte_of c \<noteq> 38 \<and> byte_of c \<noteq> 61"
proof -
  have "byte_of c \<noteq> n" if "\<not> is_unreserved (of_nat n)" for n
    using that assms unfolding of_char_u8 by auto
  moreover have "\<not> is_unreserved (of_nat 37)" "\<not> is_unreserved (of_nat 43)" "\<not> is_unreserved (of_nat 38)" "\<not> is_unreserved (of_nat 61)"
    by (simp_all add: is_unreserved_def)
  ultimately show ?thesis by blast
qed

lemma decode_encode_char: "decode_bytes (percent_encode_char c @ s) = c # decode_bytes s"
proof (cases "is_unreserved (of_char c)")
  case True
  then have "c \<noteq> CHR ''%''" "c \<noteq> CHR ''+''" using unreserved_byte [OF True] by auto
  then show ?thesis using True by (simp add: percent_encode_char_def)
next
  case False
  have lt: "byte_of c div 16 < 16" "byte_of c mod 16 < 16"
    using byte_of_bound [of c] by (simp_all only: less_mult_imp_div_less)
  have "hex_pair (hex_char (byte_of c div 16)) (hex_char (byte_of c mod 16)) = Some (byte_of c)"
    using lt by (simp add: hex_pair_def hex_char_plain hex_digit_char)
  then show ?thesis using False by (simp add: percent_encode_char_def)
qed

lemma decode_encode: "decode_bytes (percent_encode s) = s"
  by (induction s) (simp_all add: percent_encode_def decode_encode_char)

lemma from_utf8_lossy_ascii: "is_ascii s \<Longrightarrow> from_utf8_lossy s = s"
  by (induction s) (simp_all add: is_ascii_def)

text \<open>
  Percent decoding undoes percent encoding of ASCII text, which is what URIs are made of.
\<close>

theorem urlencoding_roundtrip:
  assumes "is_ascii s"
  shows "urlencoding_decode (percent_encode s) = s"
  by (simp add: urlencoding_decode_def decode_encode from_utf8_lossy_ascii assms)

theorem urlencoding_roundtrip_witness:
  "percent_encode ''http://a:1/x y'' = ''http%3A%2F%2Fa%3A1%2Fx%20y''
   \<and> urlencoding_decode (percent_encode ''http://a:1/x y'') = ''http://a:1/x y''"
proof
  show "percent_encode ''http://a:1/x y'' = ''http%3A%2F%2Fa%3A1%2Fx%20y''" by code_simp
  show "urlencoding_decode (percent_encode ''http://a:1/x y'') = ''http://a:1/x y''"
    by (rule urlencoding_roundtrip) code_simp
qed

text \<open>
  An escape that is not two hexadecimal digits is not kept: the two characters after the percent sign are
  lost, and a plus sign with one digit is taken for an escape.
\<close>

theorem urlencoding_bad_escape:
  "urlencoding_decode ''a%zzb'' = ''a%b'' \<and> urlencoding_decode ''http:%//host'' = ''http:%host''
   \<and> urlencoding_decode ''%+A'' = [CHR 0x0A]"
  by code_simp

section \<open>The control action\<close>

lemma split_once_append: "d \<notin> set a \<Longrightarrow> split_once d (a @ d # b) = Some (a, b)"
  by (induction a) auto

lemma percent_encode_plain: "CHR ''&'' \<notin> set (percent_encode s)"
proof -
  have "CHR ''&'' \<notin> set (percent_encode_char c)" for c
  proof (cases "is_unreserved (of_char c)")
    case True
    then show ?thesis using unreserved_byte [OF True] by (auto simp: percent_encode_char_def)
  next
    case False
    have "n < 16 \<Longrightarrow> hex_char n \<noteq> CHR ''&''" for n by (rule byte_neq) (simp add: hex_char_byte)
    moreover have "byte_of c div 16 < 16" "byte_of c mod 16 < 16"
      using byte_of_bound [of c] by (simp_all only: less_mult_imp_div_less)
    ultimately have "CHR ''&'' \<noteq> hex_char (byte_of c div 16)" "CHR ''&'' \<noteq> hex_char (byte_of c mod 16)" by metis+
    then show ?thesis using False by (simp add: percent_encode_char_def)
  qed
  then show ?thesis by (simp add: percent_encode_def)
qed

lemma action_parsed:
  assumes "CHR ''&'' \<notin> set act" "is_ascii target"
  shows "foldl action_step (None, None)
      (split_on CHR ''&'' (''action='' @ act @ ''&upstream='' @ percent_encode target)) = (Some act, Some target)"
proof -
  have "split_on CHR ''&'' ((''action='' @ act) @ CHR ''&'' # (''upstream='' @ percent_encode target))
      = [''action='' @ act, ''upstream='' @ percent_encode target]"
    using split_on_append [of "CHR ''&''" "''action='' @ act"] split_on_id [of "CHR ''&''" "''upstream='' @ percent_encode target"]
      assms(1) percent_encode_plain [of target] by simp
  moreover have "split_once CHR ''='' (''action'' @ CHR ''='' # act) = Some (''action'', act)"
    "split_once CHR ''='' (''upstream'' @ CHR ''='' # percent_encode target) = Some (''upstream'', percent_encode target)"
    by (rule split_once_append, simp)+
  moreover have "urlencoding_decode (percent_encode target) = target"
    by (simp add: urlencoding_decode_def decode_encode from_utf8_lossy_ascii assms)
  ultimately show ?thesis by (simp add: action_step_def)
qed

definition server_nodes :: "('c, 'r) ServerConfig \<Rightarrow> UpstreamNode list" where
  "server_nodes srv = concat (map (\<lambda>r. upstreams (route_target r)) (srv_parsed_routes srv))"

lemma server_nodes_map: "server_nodes (map_nodes f srv) = map f (server_nodes srv)"
  by (simp add: server_nodes_def map_nodes_def map_concat o_def)

lemma map_nodes_else: "(map_nodes f srv)\<lparr> srv_parsed_routes := rs \<rparr> = srv\<lparr> srv_parsed_routes := rs \<rparr>"
  by (simp add: map_nodes_def)

text \<open>C38: 
  A POST with a control action (and any path but the health check) changes, in every server of the
  global configuration, exactly the nodes whose URI is the given one up to trailing slashes: \<open>mark_dead\<close>
  and \<open>open\<close> mark them dead, \<open>mark_alive\<close>, \<open>close\<close> and \<open>reset\<close> alive, any other action changes nothing.
  GET and HEAD never change a node.
\<close>

theorem admin_control_exact:
  assumes "adm_global st = Some servers" "CHR ''&'' \<notin> set act" "is_ascii target"
    and "uri_query uri = Some (''action='' @ act @ ''&upstream='' @ percent_encode target)"
    and "\<not> ends_with ''/healthz'' (uri_path uri)" "uri_path uri \<noteq> ''/health''"
  shows "(\<exists>servers'. adm_global (snd (handle_admin_request env reg store uri ''POST'' headers st)) = Some servers'
      \<and> list_all2 (\<lambda>s s'. s'\<lparr> srv_parsed_routes := [] \<rparr> = s\<lparr> srv_parsed_routes := [] \<rparr>
          \<and> list_all2 (\<lambda>n n'. n' =
              (if names_node env target n \<and> act \<in> {''mark_dead'', ''open''} then mark_dead (adm_now env) n
               else if names_node env target n \<and> act \<in> {''mark_alive'', ''close'', ''reset''} then mark_alive n
               else n)) (server_nodes s) (server_nodes s')) servers servers')
    \<and> snd (handle_admin_request env reg store uri ''GET'' headers st) = st
    \<and> snd (handle_admin_request env reg store uri ''HEAD'' headers st) = st"
proof -
  let ?f = "\<lambda>node. if names_node env target node then node_action act (adm_now env) node else node"
  have st': "adm_global (snd (handle_admin_request env reg store uri ''POST'' headers st)) = Some (map (map_nodes ?f) servers)"
    using assms action_parsed [OF assms(2,3)]
    by (simp add: handle_admin_request_def apply_optional_control_action_def unwrap_or_def Let_def)
  have nodes: "list_all2 (\<lambda>n n'. n' =
              (if names_node env target n \<and> act \<in> {''mark_dead'', ''open''} then mark_dead (adm_now env) n
               else if names_node env target n \<and> act \<in> {''mark_alive'', ''close'', ''reset''} then mark_alive n
               else n)) (server_nodes s) (server_nodes (map_nodes ?f s))" for s :: "('a, 'b) ServerConfig"
    unfolding server_nodes_map by (auto simp: list_all2_conv_all_nth node_action_def)
  have "list_all2 (\<lambda>s s'. s'\<lparr> srv_parsed_routes := [] \<rparr> = s\<lparr> srv_parsed_routes := [] \<rparr>
          \<and> list_all2 (\<lambda>n n'. n' =
              (if names_node env target n \<and> act \<in> {''mark_dead'', ''open''} then mark_dead (adm_now env) n
               else if names_node env target n \<and> act \<in> {''mark_alive'', ''close'', ''reset''} then mark_alive n
               else n)) (server_nodes s) (server_nodes s')) servers (map (map_nodes ?f) servers)"
    by (simp only: list.rel_map list.rel_refl_strong nodes map_nodes_else simp_thms)
  then show ?thesis using st'
    by (auto simp: handle_admin_request_def Let_def)
qed

definition demo_admin_env :: AdminEnv where
  "demo_admin_env =
     \<lparr> adm_now = 200, adm_uptime = 7, adm_uri_string = (\<lambda>u. ''http://'' @ unwrap_or [] (uri_authority u) @ ''/''), adm_to_json = (\<lambda>_. None) \<rparr>"

definition demo_admin_server :: "(string, string) ServerConfig" where
  "demo_admin_server = (demo_server HttpsProto Jwt)\<lparr> srv_parsed_routes :=
     [\<lparr> route_prefix = ''/api'', route_target = demo_target, route_allowed_roles = [], route_backend_type = Rest \<rparr>] \<rparr>"

definition demo_admin_uri :: Uri where
  "demo_admin_uri = \<lparr> uri_scheme = None, uri_authority = None, uri_path = ''/status'',
     uri_query = Some (''action=mark_dead&upstream='' @ percent_encode ''http://b:1'') \<rparr>"

theorem admin_control_exact_witness:
  "map (map is_alive) (map server_nodes (unwrap_or [] (adm_global (snd (handle_admin_request demo_admin_env [] revocation_new
      demo_admin_uri ''POST'' [] \<lparr> adm_global = Some [demo_admin_server], adm_fallback = None \<rparr>)))))
   = [[True, False, False]]"
proof -
  let ?st = "\<lparr> adm_global = Some [demo_admin_server], adm_fallback = None \<rparr>"
  have nodes: "server_nodes demo_admin_server = [demo_node ''a:1'', demo_node ''b:1'', mark_dead 100 (demo_node ''c:1'')]"
    by (simp add: server_nodes_def demo_admin_server_def demo_target_def)
  have named: "\<not> names_node demo_admin_env ''http://b:1'' (demo_node ''a:1'')"
    "names_node demo_admin_env ''http://b:1'' (demo_node ''b:1'')"
    "\<not> names_node demo_admin_env ''http://b:1'' (mark_dead 100 (demo_node ''c:1''))"
    by code_simp+
  have alive: "is_alive (demo_node ''a:1'')" "\<not> is_alive (mark_dead 100 (demo_node ''c:1''))"
    by code_simp+
  obtain servers' where s: "adm_global (snd (handle_admin_request demo_admin_env [] revocation_new demo_admin_uri ''POST'' [] ?st)) = Some servers'"
    "list_all2 (\<lambda>s s'. s'\<lparr> srv_parsed_routes := [] \<rparr> = s\<lparr> srv_parsed_routes := [] \<rparr>
          \<and> list_all2 (\<lambda>n n'. n' =
              (if names_node demo_admin_env ''http://b:1'' n \<and> ''mark_dead'' \<in> {''mark_dead'', ''open''} then mark_dead (adm_now demo_admin_env) n
               else if names_node demo_admin_env ''http://b:1'' n \<and> ''mark_dead'' \<in> {''mark_alive'', ''close'', ''reset''} then mark_alive n
               else n)) (server_nodes s) (server_nodes s')) [demo_admin_server] servers'"
    using admin_control_exact [of ?st "[demo_admin_server]" "''mark_dead''" "''http://b:1''" demo_admin_uri demo_admin_env "[]" revocation_new "[]"]
    by (auto simp: demo_admin_uri_def is_ascii_def ends_with_def)
  then obtain s' where "servers' = [s']"
    "server_nodes s' = [demo_node ''a:1'', mark_dead (adm_now demo_admin_env) (demo_node ''b:1''), mark_dead 100 (demo_node ''c:1'')]"
    by (auto simp: list_all2_Cons1 nodes named)
  then show ?thesis using s(1) alive by (simp add: unwrap_or_def mark_dead_def Let_def)
qed

end
