(* ===== verification/Admin_Metrics.thy ===== *)
theory Admin_Metrics
  imports Admin
begin

text \<open>
  What the Prometheus text of \<open>server/src/middleware/admin.rs\<close> holds: the lines of every upstream metric
  are exactly the samples of the upstreams.
\<close>

section \<open>The Prometheus text\<close>

definition line_of :: "string \<Rightarrow> (AdminUpstreamStatus \<Rightarrow> string) \<Rightarrow> AdminServerStatus \<times> AdminRouteStatus \<times> AdminUpstreamStatus \<Rightarrow> string" where
  "line_of name val = (\<lambda>(srv, route, up). sample_line name (upstream_labels srv route up) (val up))"

definition text_of :: "string list \<Rightarrow> string" where
  "text_of ls = concat (map (\<lambda>l. l @ [newline]) ls)"

lemma text_of_append: "text_of (ls @ ms) = text_of ls @ text_of ms"
  by (simp add: text_of_def)

lemma split_text_of: "\<forall>l \<in> set ls. newline \<notin> set l \<Longrightarrow> split_on newline (text_of ls) = ls @ [[]]"
  by (induction ls) (simp_all add: text_of_def split_on_append)

text \<open>The upstream metrics, with the value each shows.\<close>

definition upstream_metrics :: "(string \<times> (AdminUpstreamStatus \<Rightarrow> string)) list" where
  "upstream_metrics =
     [(''praeco_upstream_circuit_state'', \<lambda>up. state_num (aus_circuit_state up)),
      (''praeco_upstream_alive'', \<lambda>up. if aus_is_alive up then ''1'' else ''0''),
      (''praeco_upstream_active_connections'', \<lambda>up. show_nat (unat (aus_active_connections up))),
      (''praeco_upstream_requests_total'', \<lambda>up. show_nat (unat (aus_total_requests up))),
      (''praeco_upstream_failures_total'', \<lambda>up. show_nat (unat (aus_total_failures up))),
      (''praeco_upstream_circuit_trips_total'', \<lambda>up. show_nat (unat (aus_circuit_trips up))),
      (''praeco_upstream_ema_response_ms'', \<lambda>up. show_nat (unat (aus_ema_response_ms up))),
      (''praeco_upstream_consecutive_failures'', \<lambda>up. show_nat (unat (aus_consecutive_failures up)))]"

text \<open>A piece of the text: its lines, of which the upstream samples are the given ones.\<close>

definition piece :: "string \<Rightarrow> string list \<Rightarrow> bool" where
  "piece s samples =
     (\<exists>ls. s = text_of ls \<and> (\<forall>l \<in> set ls. newline \<notin> set l) \<and> filter (starts_with ''praeco_upstream_'') ls = samples)"

lemma pieceE:
  assumes "piece s k"
  obtains ls where "s = text_of ls" "\<forall>l \<in> set ls. newline \<notin> set l" "filter (starts_with ''praeco_upstream_'') ls = k"
  using assms unfolding piece_def by (elim exE conjE)

lemma piece_append:
  assumes "piece s k1" "piece t k2"
  shows "piece (s @ t) (k1 @ k2)"
proof -
  obtain ls where ls: "s = text_of ls" "\<forall>l \<in> set ls. newline \<notin> set l" "filter (starts_with ''praeco_upstream_'') ls = k1"
    using assms(1) by (rule pieceE)
  obtain ms where ms: "t = text_of ms" "\<forall>l \<in> set ms. newline \<notin> set l" "filter (starts_with ''praeco_upstream_'') ms = k2"
    using assms(2) by (rule pieceE)
  show ?thesis unfolding piece_def by (rule exI [of _ "ls @ ms"]) (use ls ms in \<open>auto simp: text_of_append\<close>)
qed

lemma piece_append_other: "piece s [] \<Longrightarrow> piece t [] \<Longrightarrow> piece (s @ t) []"
  using piece_append [of s "[]" t "[]"] by simp

lemma piece_other: "newline \<notin> set l \<Longrightarrow> \<not> starts_with ''praeco_upstream_'' l \<Longrightarrow> piece (l @ [newline]) []"
  unfolding piece_def by (rule exI [of _ "[l]"]) (simp add: text_of_def)

lemma piece_newline: "piece [newline] []"
  using piece_other [of "[]"] by simp

lemma piece_concat: "(\<And>x. x \<in> set xs \<Longrightarrow> piece (f x) []) \<Longrightarrow> piece (concat (map f xs)) []"
proof (induction xs)
  case Nil
  then show ?case unfolding piece_def by (intro exI [of _ "[]"]) (simp add: text_of_def)
next
  case (Cons x xs)
  then show ?case using piece_append [of "f x" "[]" _ "[]"] by simp
qed

lemma digit_plain: "d < 16 \<Longrightarrow> newline \<noteq> digit_char d"
  by (rule byte_neq) simp

lemma show_nat_plain: "newline \<notin> set (show_nat n)"
proof -
  have "newline \<notin> set (show_radix 10 n)"
  proof (induction n rule: less_induct)
    case (less n)
    have "n mod 10 < 16" by (rule less_trans [of _ 10]) simp_all
    then have last_digit: "newline \<noteq> digit_char (n mod 10)" by (rule digit_plain)
    show ?case
    proof (cases "n < 10")
      case True
      then show ?thesis using digit_plain [of n] by (subst show_radix.simps) (simp del: digit_char.simps)
    next
      case False
      then show ?thesis using less [of "n div 10"] last_digit by (subst show_radix.simps) (simp del: digit_char.simps)
    qed
  qed
  then show ?thesis by (simp add: show_nat_def)
qed

lemma show_int_plain: "newline \<notin> set (show_int i)"
  by (simp add: show_int_def show_nat_plain)

lemma piece_head:
  assumes "newline \<notin> set name" "newline \<notin> set help" "newline \<notin> set typ"
  shows "piece (metric_head name help typ) []"
proof -
  have "piece (''# HELP '' @ name @ '' '' @ help @ [newline]) []" "piece (''# TYPE '' @ name @ '' '' @ typ @ [newline]) []"
    using assms piece_other [of "''# HELP '' @ name @ '' '' @ help"] piece_other [of "''# TYPE '' @ name @ '' '' @ typ"] by simp_all
  from piece_append [OF this] show ?thesis by (simp only: metric_head_def append_Nil)
qed

definition plain_names :: "AdminServerStatus list \<Rightarrow> bool" where
  "plain_names servers =
     list_all (\<lambda>srv. newline \<notin> set (ass_name srv)
       \<and> list_all (\<lambda>route. newline \<notin> set (ars_prefix route) \<and> list_all (\<lambda>up. newline \<notin> set (aus_uri up)) (ars_upstreams route))
           (ass_routes srv)) servers"

lemma sample_plain:
  "newline \<notin> set (sample_line name labels val) \<longleftrightarrow> newline \<notin> set name \<and> newline \<notin> set labels \<and> newline \<notin> set val"
  by (auto simp: sample_line_def)

lemma label_plain: "newline \<notin> set (label_pair key val) \<longleftrightarrow> newline \<notin> set key \<and> newline \<notin> set val"
  by (auto simp: label_pair_def)

lemma piece_server_sample:
  assumes "newline \<notin> set (ass_name srv)" "newline \<notin> set val" "newline \<notin> set name"
    and "\<And>l. \<not> starts_with ''praeco_upstream_'' (sample_line name l val)"
  shows "piece (server_sample name srv val) []"
  unfolding server_sample_def by (rule piece_other) (use assms in \<open>simp_all add: sample_plain label_plain\<close>)

lemma piece_blocked_sample:
  assumes "newline \<notin> set (ass_name srv)" "newline \<notin> set reason"
  shows "piece (blocked_sample srv reason n) []"
  unfolding blocked_sample_def
  by (rule piece_other) (use assms in \<open>simp_all add: sample_plain label_plain show_nat_plain, simp add: sample_line_def\<close>)

lemma all_upstreams_plain:
  "plain_names servers \<Longrightarrow> (srv, route, up) \<in> set (all_upstreams servers) \<Longrightarrow> newline \<notin> set (upstream_labels srv route up)"
  by (auto simp: plain_names_def all_upstreams_def list_all_iff upstream_labels_def label_plain)

lemma piece_upstreams:
  assumes "plain_names servers" "newline \<notin> set name" "\<And>up. newline \<notin> set (val up)" "starts_with ''praeco_upstream_'' name"
  shows "piece (upstream_samples name val servers) (map (line_of name val) (all_upstreams servers))"
proof -
  have "upstream_samples name val servers = text_of (map (line_of name val) (all_upstreams servers))"
    by (auto simp: upstream_samples_def text_of_def line_of_def intro!: arg_cong [where f = concat])
  moreover have "\<forall>l \<in> set (map (line_of name val) (all_upstreams servers)). newline \<notin> set l"
    using assms all_upstreams_plain [OF assms(1)] by (auto simp: line_of_def sample_plain)
  moreover have "filter (starts_with ''praeco_upstream_'') (map (line_of name val) (all_upstreams servers))
      = map (line_of name val) (all_upstreams servers)"
    using assms(4) by (auto simp: filter_id_conv line_of_def sample_line_def starts_with_iff)
  ultimately show ?thesis unfolding piece_def by blast
qed

lemma piece_metric:
  assumes "plain_names servers" "newline \<notin> set name" "newline \<notin> set help" "newline \<notin> set typ"
    "\<And>up. newline \<notin> set (val up)" "starts_with ''praeco_upstream_'' name"
  shows "piece (metric_head name help typ @ upstream_samples name val servers) (map (line_of name val) (all_upstreams servers))"
  using piece_append [OF piece_head [OF assms(2,3,4)] piece_upstreams [OF assms(1,2,5,6)]] by simp

lemma piece_metric_block:
  assumes "plain_names servers" "newline \<notin> set name" "newline \<notin> set help" "newline \<notin> set typ"
    "\<And>up. newline \<notin> set (val up)" "starts_with ''praeco_upstream_'' name" "piece t k"
  shows "piece (metric_head name help typ @ upstream_samples name val servers @ [newline] @ t)
    (map (line_of name val) (all_upstreams servers) @ k)"
  using piece_append [OF piece_append [OF piece_metric [OF assms(1-6)] piece_newline] assms(7)] by simp

lemma piece_other_block:
  assumes "piece s []" "piece r []" "piece t k"
  shows "piece (s @ r @ [newline] @ t) k"
  using piece_append [OF assms(1) piece_append [OF assms(2) piece_append [OF piece_newline assms(3)]]] by simp

definition upstream_lines :: "AdminServerStatus list \<Rightarrow> string list" where
  "upstream_lines servers = concat (map (\<lambda>(name, val). map (line_of name val) (all_upstreams servers)) upstream_metrics)"

lemma prometheus_piece:
  assumes "plain_names (asr_servers status)"
  shows "piece (format_prometheus_metrics status) (upstream_lines (asr_servers status))"
proof -
  have names: "newline \<notin> set (ass_name srv)" if "srv \<in> set (asr_servers status)" for srv
    using assms that by (simp add: plain_names_def list_all_iff)
  have bits: "newline \<notin> set (state_num s)" for s by (simp add: state_num_def)
  have days: "piece (case d of Some days \<Rightarrow> server_sample ''praeco_server_cert_days_remaining'' srv (show_int days) | None \<Rightarrow> []) []"
    if "srv \<in> set (asr_servers status)" for srv d
    using names [OF that] piece_concat [of "[]"]
    by (cases d) (auto intro!: piece_server_sample simp: show_int_plain sample_line_def)
  have blocked: "piece (blocked_sample srv r1 n1 @ blocked_sample srv r2 n2 @ blocked_sample srv r3 n3 @ blocked_sample srv r4 n4) []"
    if "srv \<in> set (asr_servers status)" "\<forall>r \<in> {r1, r2, r3, r4}. newline \<notin> set r" for srv r1 r2 r3 r4 n1 n2 n3 n4
    using names [OF that(1)] that(2) by (auto intro!: piece_append_other piece_blocked_sample)
  have counter: "piece (name @ show_nat n @ [newline]) []"
    if "newline \<notin> set name" "\<And>t. \<not> starts_with ''praeco_upstream_'' (name @ t)" for name n
    using piece_other [of "name @ show_nat n"] that show_nat_plain [of n] by simp
  have requests: "piece (server_sample ''praeco_server_requests_total'' srv (show_nat n)) []"
    if "srv \<in> set (asr_servers status)" for srv n
    by (rule piece_server_sample) (use names [OF that] in \<open>simp_all add: show_nat_plain sample_line_def\<close>)
  have requests: "piece (concat (map (\<lambda>srv. server_sample ''praeco_server_requests_total'' srv
            (show_nat (unat (total_requests (ass_traffic_and_security srv))))) (asr_servers status))) []"
    by (rule piece_concat) (rule requests)
  have days: "piece (concat (map (\<lambda>srv. case aps_server_cert_days_remaining (ass_pki srv) of
            Some days \<Rightarrow> server_sample ''praeco_server_cert_days_remaining'' srv (show_int days)
          | None \<Rightarrow> []) (asr_servers status))) []"
    by (rule piece_concat) (rule days)
  have blocked: "piece (concat (map (\<lambda>srv.
            blocked_sample srv ''ip_filter'' (blocked_ip_filter (ass_traffic_and_security srv))
            @ blocked_sample srv ''inspection'' (blocked_inspection (ass_traffic_and_security srv))
            @ blocked_sample srv ''auth_rbac'' (blocked_auth_rbac (ass_traffic_and_security srv))
            @ blocked_sample srv ''rate_limited'' (rate_limited (ass_traffic_and_security srv))) (asr_servers status))) []"
    by (rule piece_concat) (rule blocked, assumption, simp)
  show ?thesis
    unfolding format_prometheus_metrics_def Let_def upstream_lines_def upstream_metrics_def list.map concat.simps case_prod_conv append_Nil2
    by (rule piece_other_block [OF piece_head counter piece_other_block [OF piece_head counter
         piece_other_block [OF piece_head requests piece_other_block [OF piece_head blocked
         piece_other_block [OF piece_head days
         piece_metric_block [OF assms _ _ _ _ _ piece_metric_block [OF assms _ _ _ _ _ piece_metric_block [OF assms _ _ _ _ _
         piece_metric_block [OF assms _ _ _ _ _ piece_metric_block [OF assms _ _ _ _ _ piece_metric_block [OF assms _ _ _ _ _
         piece_metric_block [OF assms _ _ _ _ _ piece_metric [OF assms]]]]]]]]]]]]])
      (simp_all add: show_nat_plain bits)
qed

lemma filter_piece:
  assumes "piece s k" "starts_with ''praeco_upstream_'' p"
  shows "filter (starts_with p) (split_on newline s) = filter (starts_with p) k"
proof -
  obtain ls where ls: "s = text_of ls" "\<forall>l \<in> set ls. newline \<notin> set l" "filter (starts_with ''praeco_upstream_'') ls = k"
    using assms(1) by (rule pieceE)
  have "\<not> starts_with p []" using assms(2) by (auto simp: starts_with_iff)
  then have "filter (starts_with p) (split_on newline s) = filter (starts_with p) ls"
    unfolding ls(1) split_text_of [OF ls(2)] by simp
  also have "\<dots> = filter (starts_with p) k"
    unfolding ls(3) [symmetric] filter_filter using assms(2) by (intro filter_cong) (auto simp: starts_with_iff)
  finally show ?thesis .
qed

lemma starts_with_brace:
  "CHR ''{'' \<notin> set n \<Longrightarrow> CHR ''{'' \<notin> set m \<Longrightarrow> starts_with (n @ ''{'') (m @ ''{'' @ r) \<longleftrightarrow> n = m"
proof (induction n arbitrary: m)
  case Nil
  then show ?case by (cases m) auto
next
  case (Cons c n)
  then show ?case by (cases m) auto
qed

lemma concat_skip: "n \<notin> set (map fst ms) \<Longrightarrow> concat (map (\<lambda>(m, w). if n = m then f m w else []) ms) = []"
  by (induction ms) auto

lemma concat_pick:
  "distinct (map fst ms) \<Longrightarrow> (n, v) \<in> set ms \<Longrightarrow> concat (map (\<lambda>(m, w). if n = m then f m w else []) ms) = f n v"
proof (induction ms)
  case (Cons p ms)
  obtain m w where p: "p = (m, w)" by (cases p)
  show ?case
  proof (cases "n = m")
    case True
    then have "n \<notin> set (map fst ms)" using Cons.prems(1) p by simp
    moreover have "v = w" using Cons.prems(2) True p calculation by (auto simp: image_iff)
    ultimately show ?thesis using True p concat_skip [of n ms f] by simp
  next
    case False
    then show ?thesis using Cons p by simp
  qed
qed simp

text \<open>
  The Prometheus text lists every upstream metric completely: when no name holds a line break, the lines
  of the text that are samples of the metric are exactly one line for each upstream of each route of each
  server, in order, with the value of that upstream. No sample is lost, doubled or given to another metric.
\<close>

theorem prometheus_samples_exact:
  assumes "(name, val) \<in> set upstream_metrics" "plain_names (asr_servers status)"
  shows "filter (starts_with (name @ ''{'')) (split_on newline (format_prometheus_metrics status))
    = map (\<lambda>(srv, route, up). name @ ''{'' @ upstream_labels srv route up @ ''} '' @ val up) (all_upstreams (asr_servers status))"
proof -
  have start: "starts_with ''praeco_upstream_'' (name @ ''{'')"
    using assms(1) by (auto simp: upstream_metrics_def)
  have plain: "CHR ''{'' \<notin> set m" if "(m, v) \<in> set upstream_metrics" for m v
    using that by (auto simp: upstream_metrics_def)
  have same: "filter (starts_with (name @ ''{'')) (map (line_of m v) xs) = (if name = m then map (line_of m v) xs else [])"
    if "(m, v) \<in> set upstream_metrics" for m v xs
  proof -
    have "starts_with (name @ ''{'') (line_of m v x) \<longleftrightarrow> name = m" for x
      using starts_with_brace [OF plain [OF assms(1)] plain [OF that]]
      by (cases x) (simp add: line_of_def sample_line_def)
    then show ?thesis by (auto simp: filter_id_conv filter_empty_conv)
  qed
  have "filter (starts_with (name @ ''{'')) (upstream_lines (asr_servers status))
      = concat (map (\<lambda>(m, v). if name = m then map (line_of m v) (all_upstreams (asr_servers status)) else []) upstream_metrics)"
    unfolding upstream_lines_def filter_concat map_map
    by (intro arg_cong [where f = concat] map_cong refl) (use same in auto)
  also have "\<dots> = map (line_of name val) (all_upstreams (asr_servers status))"
    by (rule concat_pick [OF _ assms(1)]) (simp add: upstream_metrics_def)
  finally show ?thesis
    unfolding filter_piece [OF prometheus_piece [OF assms(2)] start] by (simp add: line_of_def sample_line_def)
qed

definition demo_status :: AdminStatusResponse where
  "demo_status = collect_admin_status demo_admin_env [] revocation_new \<lparr> adm_global = Some [demo_admin_server], adm_fallback = None \<rparr>"

theorem prometheus_samples_exact_witness:
  "map (\<lambda>l. drop (length l - 14) l)
     (filter (starts_with ''praeco_upstream_alive{'') (split_on newline (format_prometheus_metrics demo_status)))
   = map (\<lambda>(a, b). a @ '':1/'' @ [CHR 0x22] @ ''} '' @ b) [(''ttp://a'', ''1''), (''ttp://b'', ''1''), (''ttp://c'', ''0'')]"
proof -
  have plain: "plain_names (asr_servers demo_status)" by code_simp
  have metric: "(''praeco_upstream_alive'', \<lambda>up. if aus_is_alive up then ''1'' else ''0'') \<in> set upstream_metrics"
    by (simp add: upstream_metrics_def)
  have "filter (starts_with ''praeco_upstream_alive{'') (split_on newline (format_prometheus_metrics demo_status))
    = map (\<lambda>(srv, route, up). ''praeco_upstream_alive'' @ ''{'' @ upstream_labels srv route up @ ''} ''
        @ (if aus_is_alive up then ''1'' else ''0'')) (all_upstreams (asr_servers demo_status))"
    using prometheus_samples_exact [OF metric plain] by (simp only: append_Cons append_Nil)
  moreover have "map (\<lambda>l. drop (length l - 14) l) (map (\<lambda>(srv, route, up). ''praeco_upstream_alive'' @ ''{'' @ upstream_labels srv route up @ ''} ''
        @ (if aus_is_alive up then ''1'' else ''0'')) (all_upstreams (asr_servers demo_status)))
     = map (\<lambda>(a, b). a @ '':1/'' @ [CHR 0x22] @ ''} '' @ b) [(''ttp://a'', ''1''), (''ttp://b'', ''1''), (''ttp://c'', ''0'')]"
    by code_simp
  ultimately show ?thesis by simp
qed

end
