(* ===== verification/Idp_Session.thy ===== *)
theory Idp_Session
  imports Http
begin

text \<open>
  The login sessions of the identity provider, \<open>server/src/middleware/idp/session.rs\<close>: a browser creates
  a session and polls it with its secret, a device with a certificate confirms it with the code the
  browser shows, and the next poll takes the confirmed claims out of the store.

  An operation that visits the table more than once is given by its atomic parts, as the locks of the
  table make them: \<open>verify_check\<close> and the removal that may follow it, \<open>confirm_attach\<close>, \<open>poll_check\<close> and
  \<open>poll_take\<close>. The functions of the source are their compositions; the relation \<open>sess_step\<close> interleaves
  the parts of any number of requests. Random identifiers, secrets and codes are arguments, as are the
  instants the clock gives.
\<close>

section \<open>Data\<close>

definition MAX_LOGIN_REQUESTS_PER_MINUTE :: u32 where
  "MAX_LOGIN_REQUESTS_PER_MINUTE = 15"

definition RATE_LIMIT_WINDOW :: Duration where
  "RATE_LIMIT_WINDOW = secs 60"

definition DEFAULT_MAX_ACTIVE_SESSIONS :: nat where
  "DEFAULT_MAX_ACTIVE_SESSIONS = 5000"

definition CLEANUP_THROTTLE_INTERVAL :: Duration where
  "CLEANUP_THROTTLE_INTERVAL = secs 10"

definition MAX_CONFIRM_ATTEMPTS :: u8 where
  "MAX_CONFIRM_ATTEMPTS = 3"

definition constant_time_eq :: "string \<Rightarrow> string \<Rightarrow> bool" where
  "constant_time_eq a b =
     (if length a \<noteq> length b then False
      else foldl (\<lambda>res (x, y). res OR (of_char x XOR of_char y)) (0 :: u8) (zip a b) = 0)"

text \<open>The code of six random indices into the character set.\<close>

definition CHARSET :: string where
  "CHARSET = ''23456789ABCDEFGHJKLMNPQRSTUVWXYZ''"

fun code_loop :: "nat \<Rightarrow> nat list \<Rightarrow> string" where
  "code_loop i [] = []"
| "code_loop i (r # rs) = (if i = 3 then ''-'' else []) @ [CHARSET ! r] @ code_loop (Suc i) rs"

definition generate_user_code :: "nat list \<Rightarrow> string" where
  "generate_user_code draws = code_loop 0 draws"

record SessionInfo =
  si_session_id :: string
  si_poll_secret :: string
  si_user_code :: string

datatype SessionStatus = Pending | Confirmed Claims

record SessionEntry =
  sn_created_at :: Instant
  sn_poll_secret :: string
  sn_user_code :: string
  sn_failed_attempts :: u8
  sn_aud :: "string option"
  sn_client_ip :: "IpAddr option"
  sn_status :: SessionStatus

datatype CreateSessionError = RateLimited | CapacityExceeded

datatype PollError = PollNotFound | PollUnauthorized

datatype ConfirmError = ConfirmNotFound | ConfirmExpired | InvalidUserCode | AlreadyConfirmed

record SessionStore =
  ss_sessions :: "(string, SessionEntry) dashmap"
  ss_ip_rate_limits :: "(IpAddr, u32 \<times> Instant) dashmap"
  ss_ttl :: Duration
  ss_max_active :: nat
  ss_last_cleanup :: Instant

definition SessionStore_new :: "u64 \<Rightarrow> Instant \<Rightarrow> SessionStore" where
  "SessionStore_new ttl_seconds now =
     \<lparr> ss_sessions = [], ss_ip_rate_limits = [], ss_ttl = secs (unat ttl_seconds),
       ss_max_active = DEFAULT_MAX_ACTIVE_SESSIONS, ss_last_cleanup = now \<rparr>"

section \<open>Creation\<close>

definition cleanup_expired_force :: "Instant \<Rightarrow> SessionStore \<Rightarrow> SessionStore" where
  "cleanup_expired_force now st =
     st\<lparr> ss_sessions := dm_retain (\<lambda>_ v. now - sn_created_at v \<le> ss_ttl st) (ss_sessions st),
         ss_ip_rate_limits := dm_retain (\<lambda>_ (count, start). now - start \<le> RATE_LIMIT_WINDOW) (ss_ip_rate_limits st) \<rparr>"

text \<open>The instants one call reads, whether it gets the cleanup lock, and what it draws.\<close>

record CreateEnv =
  cs_lock :: bool
  cs_t_cleanup :: Instant
  cs_t_full :: Instant
  cs_t_rate :: Instant
  cs_t_capacity :: Instant
  cs_t_created :: Instant
  cs_session_id :: string
  cs_poll_secret :: string
  cs_draws :: "nat list"

definition maybe_cleanup_expired :: "CreateEnv \<Rightarrow> SessionStore \<Rightarrow> SessionStore" where
  "maybe_cleanup_expired env st =
     (if cs_lock env \<and> cs_t_cleanup env - ss_last_cleanup st \<ge> CLEANUP_THROTTLE_INTERVAL
      then cleanup_expired_force (cs_t_cleanup env) (st\<lparr> ss_last_cleanup := cs_t_cleanup env \<rparr>)
      else st)"

definition rate_table_full :: "IpAddr \<Rightarrow> SessionStore \<Rightarrow> bool" where
  "rate_table_full ip st =
     (\<not> dm_contains_key (ss_ip_rate_limits st) ip \<and> dm_len (ss_ip_rate_limits st) \<ge> ss_max_active st * 2)"

text \<open>The visit of the entry of an address: the new entry, and whether the request is within the rate.\<close>

definition rate_visit :: "Instant \<Rightarrow> (u32 \<times> Instant) option \<Rightarrow> bool \<times> u32 \<times> Instant" where
  "rate_visit now entry =
     (let (count, start) = (case entry of Some e \<Rightarrow> e | None \<Rightarrow> (0, now))
      in if now - start > RATE_LIMIT_WINDOW then (True, 1, now)
         else (\<not> count + 1 > MAX_LOGIN_REQUESTS_PER_MINUTE, count + 1, start))"

definition rate_check :: "CreateEnv \<Rightarrow> IpAddr option \<Rightarrow> SessionStore \<Rightarrow> (unit, CreateSessionError) result \<times> SessionStore" where
  "rate_check env client_ip st =
     (case client_ip of
        None \<Rightarrow> (Ok (), st)
      | Some ip \<Rightarrow>
          (let st1 = (if rate_table_full ip st then cleanup_expired_force (cs_t_full env) st else st)
           in if rate_table_full ip st \<and> rate_table_full ip st1 then (Err CapacityExceeded, st1)
              else (case rate_visit (cs_t_rate env) (dm_get (ss_ip_rate_limits st1) ip) of
                      (within, entry) \<Rightarrow>
                        (if within then Ok () else Err RateLimited,
                         st1\<lparr> ss_ip_rate_limits := dm_insert ip entry (ss_ip_rate_limits st1) \<rparr>))))"

definition new_entry :: "Instant \<Rightarrow> string \<Rightarrow> string \<Rightarrow> string option \<Rightarrow> IpAddr option \<Rightarrow> SessionEntry" where
  "new_entry now secret code aud client_ip =
     \<lparr> sn_created_at = now, sn_poll_secret = secret, sn_user_code = code, sn_failed_attempts = 0,
       sn_aud = aud, sn_client_ip = client_ip, sn_status = Pending \<rparr>"

definition insert_session :: "CreateEnv \<Rightarrow> string option \<Rightarrow> IpAddr option \<Rightarrow> SessionStore \<Rightarrow> SessionInfo \<times> SessionStore" where
  "insert_session env aud client_ip st =
     (let user_code = generate_user_code (cs_draws env)
      in (\<lparr> si_session_id = cs_session_id env, si_poll_secret = cs_poll_secret env, si_user_code = user_code \<rparr>,
          st\<lparr> ss_sessions := dm_insert (cs_session_id env)
                (new_entry (cs_t_created env) (cs_poll_secret env) user_code aud client_ip) (ss_sessions st) \<rparr>))"

definition create_session ::
  "CreateEnv \<Rightarrow> IpAddr option \<Rightarrow> string option \<Rightarrow> SessionStore \<Rightarrow> (SessionInfo, CreateSessionError) result \<times> SessionStore" where
  "create_session env raw_ip aud st0 =
     (let client_ip = map_option canonical_client_ip raw_ip;
          st = maybe_cleanup_expired env st0
      in case rate_check env client_ip st of
           (Err e, st1) \<Rightarrow> (Err e, st1)
         | (Ok _, st1) \<Rightarrow>
             (let full = (dm_len (ss_sessions st1) \<ge> ss_max_active st1);
                  st2 = (if full then cleanup_expired_force (cs_t_capacity env) st1 else st1)
              in if full \<and> dm_len (ss_sessions st2) \<ge> ss_max_active st2 then (Err CapacityExceeded, st2)
                 else (case insert_session env aud client_ip st2 of (info, st3) \<Rightarrow> (Ok info, st3))))"

section \<open>Confirmation\<close>

definition clean_code :: "string \<Rightarrow> string" where
  "clean_code code = map to_ascii_upper (filter (\<lambda>c. c \<noteq> CHR ''-'') code)"

definition code_matches :: "string option \<Rightarrow> SessionEntry \<Rightarrow> bool" where
  "code_matches user_code entry =
     (case user_code of
        Some code \<Rightarrow> trim code \<noteq> [] \<and> constant_time_eq (clean_code code) (clean_code (sn_user_code entry))
      | None \<Rightarrow> False)"

definition saturating_inc :: "u8 \<Rightarrow> u8" where
  "saturating_inc n = (if n = - 1 then n else n + 1)"

text \<open>What \<open>verify_session_code\<close> decides under the lock of the entry; \<open>VRemove\<close> releases the lock and then
  removes the session.\<close>

datatype VerifyOutcome = VOk | VErr ConfirmError | VRemove ConfirmError

definition verify_check :: "Instant \<Rightarrow> string \<Rightarrow> string option \<Rightarrow> SessionStore \<Rightarrow> VerifyOutcome \<times> SessionStore" where
  "verify_check now session_id user_code st =
     (case dm_get (ss_sessions st) session_id of
        None \<Rightarrow> (VErr ConfirmNotFound, st)
      | Some entry \<Rightarrow>
          (if now - sn_created_at entry > ss_ttl st then (VRemove ConfirmExpired, st)
           else if sn_status entry \<noteq> Pending then (VErr AlreadyConfirmed, st)
           else if \<not> code_matches user_code entry then
             (let attempts = saturating_inc (sn_failed_attempts entry);
                  st' = st\<lparr> ss_sessions := dm_insert session_id (entry\<lparr> sn_failed_attempts := attempts \<rparr>) (ss_sessions st) \<rparr>
              in (if attempts \<ge> MAX_CONFIRM_ATTEMPTS then VRemove InvalidUserCode else VErr InvalidUserCode, st'))
           else (VOk, st)))"

definition remove_session :: "string \<Rightarrow> SessionStore \<Rightarrow> SessionStore" where
  "remove_session session_id st = st\<lparr> ss_sessions := dm_remove session_id (ss_sessions st) \<rparr>"

definition verify_session_code ::
  "Instant \<Rightarrow> string \<Rightarrow> string option \<Rightarrow> SessionStore \<Rightarrow> (unit, ConfirmError) result \<times> SessionStore" where
  "verify_session_code now session_id user_code st =
     (case verify_check now session_id user_code st of
        (VOk, st') \<Rightarrow> (Ok (), st')
      | (VErr e, st') \<Rightarrow> (Err e, st')
      | (VRemove e, st') \<Rightarrow> (Err e, remove_session session_id st'))"

definition with_aud :: "string option \<Rightarrow> Claims \<Rightarrow> Claims" where
  "with_aud aud claims = (case aud of Some a \<Rightarrow> claims\<lparr> claim_aud := Some a \<rparr> | None \<Rightarrow> claims)"

definition confirm_attach :: "string \<Rightarrow> Claims \<Rightarrow> SessionStore \<Rightarrow> (unit, ConfirmError) result \<times> SessionStore" where
  "confirm_attach session_id claims st =
     (case dm_get (ss_sessions st) session_id of
        None \<Rightarrow> (Err ConfirmNotFound, st)
      | Some entry \<Rightarrow>
          (if sn_status entry \<noteq> Pending then (Err AlreadyConfirmed, st)
           else (Ok (), st\<lparr> ss_sessions := dm_insert session_id
                  (entry\<lparr> sn_status := Confirmed (with_aud (sn_aud entry) claims) \<rparr>) (ss_sessions st) \<rparr>)))"

definition confirm_session ::
  "Instant \<Rightarrow> string \<Rightarrow> string option \<Rightarrow> Claims \<Rightarrow> SessionStore \<Rightarrow> (unit, ConfirmError) result \<times> SessionStore" where
  "confirm_session now session_id user_code claims st =
     (case verify_session_code now session_id user_code st of
        (Err e, st') \<Rightarrow> (Err e, st')
      | (Ok _, st') \<Rightarrow> confirm_attach session_id claims st')"

section \<open>Polling\<close>

datatype PollOutcome = PErr PollError | PRemove | PPending | PTake

definition poll_check :: "Instant \<Rightarrow> string \<Rightarrow> string \<Rightarrow> SessionStore \<Rightarrow> PollOutcome" where
  "poll_check now session_id poll_secret st =
     (case dm_get (ss_sessions st) session_id of
        None \<Rightarrow> PErr PollNotFound
      | Some entry \<Rightarrow>
          (if \<not> constant_time_eq (sn_poll_secret entry) poll_secret then PErr PollUnauthorized
           else if now - sn_created_at entry > ss_ttl st then PRemove
           else (case sn_status entry of Pending \<Rightarrow> PPending | Confirmed _ \<Rightarrow> PTake)))"

definition poll_take :: "string \<Rightarrow> string \<Rightarrow> SessionStore \<Rightarrow> Claims option \<times> SessionStore" where
  "poll_take session_id poll_secret st =
     (case dm_get (ss_sessions st) session_id of
        None \<Rightarrow> (None, st)
      | Some entry \<Rightarrow>
          (case sn_status entry of
             Confirmed claims \<Rightarrow>
               (if constant_time_eq (sn_poll_secret entry) poll_secret
                then (Some claims, remove_session session_id st) else (None, st))
           | Pending \<Rightarrow> (None, st)))"

definition get_and_consume ::
  "Instant \<Rightarrow> string \<Rightarrow> string \<Rightarrow> SessionStore \<Rightarrow> (SessionStatus, PollError) result \<times> SessionStore" where
  "get_and_consume now session_id poll_secret st =
     (case poll_check now session_id poll_secret st of
        PErr e \<Rightarrow> (Err e, st)
      | PRemove \<Rightarrow> (Err PollNotFound, remove_session session_id st)
      | PPending \<Rightarrow> (Ok Pending, st)
      | PTake \<Rightarrow>
          (case poll_take session_id poll_secret st of
             (Some claims, st') \<Rightarrow> (Ok (Confirmed claims), st')
           | (None, st') \<Rightarrow> (Err PollNotFound, st')))"

definition get_session_user_code :: "Instant \<Rightarrow> string \<Rightarrow> SessionStore \<Rightarrow> string option" where
  "get_session_user_code now session_id st =
     (case dm_get (ss_sessions st) session_id of
        None \<Rightarrow> None
      | Some entry \<Rightarrow> (if now - sn_created_at entry \<le> ss_ttl st then Some (sn_user_code entry) else None))"

section \<open>Comparison and codes\<close>

lemma or_zero: "(x :: u8) OR y = 0 \<longleftrightarrow> x = 0 \<and> y = 0"
  by (auto simp: bit_eq_iff bit_or_iff)

lemma u8_of_char: "(of_char c :: u8) = of_nat (byte_of c)"
  by (metis of_nat_of_char)

lemma u8_of_char_inj: "(of_char x :: u8) = of_char y \<longleftrightarrow> x = y"
proof
  assume "(of_char x :: u8) = of_char y"
  then have "(of_nat (byte_of x) :: u8) = of_nat (byte_of y)" by (simp only: u8_of_char)
  then have "byte_of x mod 256 = byte_of y mod 256" by (simp only: word_of_nat_eq_iff take_bit_eq_mod) simp
  then show "x = y" by simp
qed simp

lemma xor_zero: "(x :: u8) XOR y = 0 \<longleftrightarrow> x = y"
  by (metis xor.right_neutral xor.assoc xor_self_eq)

lemma ct_fold_zero:
  "foldl (\<lambda>res (x, y). res OR (of_char x XOR of_char y)) r ps = (0 :: u8) \<longleftrightarrow> r = 0 \<and> list_all (\<lambda>(x, y). x = y) ps"
proof (induction ps arbitrary: r)
  case (Cons p ps)
  obtain x y where "p = (x, y)" by (cases p)
  then show ?case using Cons [of "r OR (of_char x XOR of_char y)"] by (simp add: or_zero xor_zero u8_of_char_inj)
qed simp

text \<open>
  The constant-time comparison, which folds the differences of all bytes into one, is equality.
\<close>

theorem constant_time_eq_iff: "constant_time_eq a b \<longleftrightarrow> a = b"
proof (cases "length a = length b")
  case True
  then have "list_all (\<lambda>(x, y). x = y) (zip a b) \<longleftrightarrow> a = b"
    by (induction a b rule: list_induct2) auto
  then show ?thesis using True by (simp add: constant_time_eq_def ct_fold_zero)
qed (auto simp: constant_time_eq_def)

lemma charset:
  "list_all (\<lambda>c. c \<noteq> CHR ''-'' \<and> to_ascii_upper c = c) CHARSET" "distinct CHARSET" "length CHARSET = 32"
  by code_simp+

lemma charset_plain: "i < 32 \<Longrightarrow> CHARSET ! i \<noteq> CHR ''-'' \<and> to_ascii_upper (CHARSET ! i) = CHARSET ! i"
  using charset(1) unfolding list_all_length charset(3) by blast

lemma clean_code_loop: "\<forall>i \<in> set ds. i < 32 \<Longrightarrow> clean_code (code_loop k ds) = map (\<lambda>i. CHARSET ! i) ds"
  by (induction k ds rule: code_loop.induct) (auto simp: clean_code_def charset_plain)

lemma charset_inj: "inj_on (\<lambda>i. CHARSET ! i) {..<32}"
  using nth_eq_iff_index_eq [OF charset(2)] unfolding charset(3) by (auto simp: inj_on_def)

text \<open>
  A code is six characters of the set with a dash in the middle, and two draws give codes that compare
  equal only if they are the same draw: the check distinguishes all 32 to the sixth codes.
\<close>

theorem user_code_injective:
  assumes "length d = 6" "length e = 6" "\<forall>i \<in> set d. i < 32" "\<forall>i \<in> set e. i < 32"
  shows "length (generate_user_code d) = 7 \<and> generate_user_code d ! 3 = CHR ''-''
    \<and> (clean_code (generate_user_code d) = clean_code (generate_user_code e) \<longleftrightarrow> d = e)"
proof -
  have "inj_on (\<lambda>i. CHARSET ! i) (set d \<union> set e)"
    using assms(3,4) by (intro inj_on_subset [OF charset_inj]) auto
  then have same: "map (\<lambda>i. CHARSET ! i) d = map (\<lambda>i. CHARSET ! i) e \<longleftrightarrow> d = e"
    by (rule inj_on_map_eq_map)
  obtain d1 d2 d3 d4 d5 d6 where "d = [d1, d2, d3, d4, d5, d6]"
    using assms(1) by (auto simp: numeral_eq_Suc length_Suc_conv)
  then have "length (generate_user_code d) = 7 \<and> generate_user_code d ! 3 = CHR ''-''"
    by (simp add: generate_user_code_def)
  then show ?thesis
    unfolding generate_user_code_def clean_code_loop [OF assms(3)] clean_code_loop [OF assms(4)] same by simp
qed

theorem user_code_injective_witness:
  "generate_user_code [0, 1, 2, 8, 9, 31] = ''234-ABZ''
   \<and> clean_code (generate_user_code [0, 1, 2, 8, 9, 31]) \<noteq> clean_code (generate_user_code [0, 1, 2, 8, 9, 30])"
proof
  show "generate_user_code [0, 1, 2, 8, 9, 31] = ''234-ABZ''" by code_simp
  show "clean_code (generate_user_code [0, 1, 2, 8, 9, 31]) \<noteq> clean_code (generate_user_code [0, 1, 2, 8, 9, 30])"
    using user_code_injective [of "[0, 1, 2, 8, 9, 31]" "[0, 1, 2, 8, 9, 30]"] by simp
qed

section \<open>The well-formed store\<close>

text \<open>
  The tables hold one entry per key and are bounded, and no stored session has used up its attempts.
\<close>

definition sess_wf :: "SessionStore \<Rightarrow> bool" where
  "sess_wf st \<longleftrightarrow>
     dm_wf (ss_sessions st) \<and> dm_wf (ss_ip_rate_limits st)
     \<and> dm_len (ss_sessions st) \<le> ss_max_active st \<and> dm_len (ss_ip_rate_limits st) \<le> 2 * ss_max_active st
     \<and> (\<forall>sid e. dm_get (ss_sessions st) sid = Some e \<longrightarrow> sn_failed_attempts e < MAX_CONFIRM_ATTEMPTS)"

lemma wf_new: "sess_wf (SessionStore_new ttl now)"
  by (simp add: sess_wf_def SessionStore_new_def)

lemma wf_force: "sess_wf st \<Longrightarrow> sess_wf (cleanup_expired_force now st)"
  by (auto simp: sess_wf_def cleanup_expired_force_def dm.wf_retain dm.get_retain dm.retain_bounded split: option.splits if_splits)

lemma wf_maybe_cleanup: "sess_wf st \<Longrightarrow> sess_wf (maybe_cleanup_expired env st)"
proof -
  assume "sess_wf st"
  then have "sess_wf (st\<lparr> ss_last_cleanup := t \<rparr>)" for t by (simp add: sess_wf_def)
  then show ?thesis using \<open>sess_wf st\<close> by (simp add: maybe_cleanup_expired_def wf_force)
qed

lemma force_max [simp]: "ss_max_active (cleanup_expired_force now st) = ss_max_active st"
  by (simp add: cleanup_expired_force_def)

lemma wf_rate_check:
  assumes "sess_wf st"
  shows "sess_wf (snd (rate_check env ip st))"
proof (cases ip)
  case None
  then show ?thesis using assms by (simp add: rate_check_def)
next
  case (Some a)
  define st1 where "st1 = (if rate_table_full a st then cleanup_expired_force (cs_t_full env) st else st)"
  have wf1: "sess_wf st1" using assms wf_force by (simp add: st1_def)
  have room: "dm_get (ss_ip_rate_limits st1) a \<noteq> None \<or> dm_len (ss_ip_rate_limits st1) < 2 * ss_max_active st1"
    if "\<not> rate_table_full a st1"
    using that by (auto simp: rate_table_full_def dm_contains_key_def)
  have ins: "sess_wf (st1\<lparr> ss_ip_rate_limits := dm_insert a v (ss_ip_rate_limits st1) \<rparr>)" if "\<not> rate_table_full a st1" for v
    using wf1 room [OF that] by (auto simp: sess_wf_def dm.wf_insert dm.len_insert)
  show ?thesis
    using wf1 ins Some by (auto simp: rate_check_def Let_def st1_def split: prod.splits if_splits)
qed

lemma wf_insert_session:
  "sess_wf st \<Longrightarrow> dm_len (ss_sessions st) < ss_max_active st \<Longrightarrow> sess_wf (snd (insert_session env aud ip st))"
  by (auto simp: sess_wf_def insert_session_def new_entry_def Let_def dm.wf_insert dm.len_insert dm.get_insert
      MAX_CONFIRM_ATTEMPTS_def split: if_splits)

lemma wf_create:
  assumes "sess_wf st"
  shows "sess_wf (snd (create_session env ip aud st))"
proof -
  define st1 where "st1 = snd (rate_check env (map_option canonical_client_ip ip) (maybe_cleanup_expired env st))"
  have wf1: "sess_wf st1" unfolding st1_def by (intro wf_rate_check wf_maybe_cleanup assms)
  have wf2: "sess_wf (cleanup_expired_force t st1)" for t by (rule wf_force [OF wf1])
  show ?thesis
    using wf1 wf2 wf_insert_session [OF wf1] wf_insert_session [OF wf2]
    by (auto simp: create_session_def Let_def st1_def case_prod_beta not_le split: result.splits if_splits)
qed

lemma wf_remove: "sess_wf st \<Longrightarrow> sess_wf (remove_session sid st)"
  by (auto simp: sess_wf_def remove_session_def dm.wf_remove dm.get_remove dm.remove_bounded split: if_splits)

lemma wf_update:
  assumes "sess_wf st" "dm_get (ss_sessions st) sid = Some e" "sn_failed_attempts e' < MAX_CONFIRM_ATTEMPTS"
  shows "sess_wf (st\<lparr> ss_sessions := dm_insert sid e' (ss_sessions st) \<rparr>)"
  using assms by (auto simp: sess_wf_def dm.wf_insert dm.len_insert dm.get_insert split: if_splits)

lemma attempts_below: "n < MAX_CONFIRM_ATTEMPTS \<Longrightarrow> saturating_inc n = n + 1"
  by (auto simp: saturating_inc_def MAX_CONFIRM_ATTEMPTS_def)

lemma delete_update_same: "AList.delete k (AList.update k v m) = AList.delete k m"
  by (induction m) auto

lemma attempts_order: "\<not> MAX_CONFIRM_ATTEMPTS \<le> 1" "\<not> MAX_CONFIRM_ATTEMPTS \<le> 2" "MAX_CONFIRM_ATTEMPTS \<le> 3"
  by (simp_all add: MAX_CONFIRM_ATTEMPTS_def word_le_nat_alt)

lemma wf_verify:
  assumes "sess_wf st"
  shows "sess_wf (snd (verify_session_code now sid code st))"
proof -
  have drop_insert: "remove_session sid (st\<lparr> ss_sessions := dm_insert sid e (ss_sessions st) \<rparr>) = remove_session sid st" for e
    by (simp add: remove_session_def dm_remove_def dm_insert_def delete_update_same)
  show ?thesis
    using assms wf_remove [OF assms, of sid] wf_update [OF assms, of sid]
    by (auto simp: verify_session_code_def verify_check_def Let_def drop_insert not_le split: option.splits)
qed

lemma wf_attach:
  assumes "sess_wf st"
  shows "sess_wf (snd (confirm_attach sid claims st))"
proof (cases "dm_get (ss_sessions st) sid")
  case (Some e)
  moreover have "sn_failed_attempts e < MAX_CONFIRM_ATTEMPTS" using assms Some by (simp add: sess_wf_def)
  ultimately show ?thesis using wf_update [OF assms Some] assms by (simp add: confirm_attach_def)
qed (simp add: confirm_attach_def assms)

lemma wf_confirm: "sess_wf st \<Longrightarrow> sess_wf (snd (confirm_session now sid code claims st))"
  using wf_verify [of st now sid code] wf_attach
  by (auto simp: confirm_session_def split: prod.splits result.splits)

lemma wf_poll: "sess_wf st \<Longrightarrow> sess_wf (snd (get_and_consume now sid secret st))"
  using wf_remove [of st sid]
  by (auto simp: get_and_consume_def poll_take_def split: PollOutcome.splits option.splits SessionStatus.splits prod.splits)

text \<open>
  The store is well-formed at the start and stays so under every operation: one entry per session and
  per address, at most the configured number of sessions and twice as many addresses, and no session
  whose attempts at the code are used up.
\<close>

theorem session_store_wf:
  "sess_wf (SessionStore_new ttl t0)
   \<and> (sess_wf st \<longrightarrow>
        sess_wf (snd (create_session env ip aud st)) \<and> sess_wf (snd (verify_session_code now sid code st))
        \<and> sess_wf (snd (confirm_session now sid code claims st)) \<and> sess_wf (snd (get_and_consume now sid secret st)))"
  by (simp add: wf_new wf_create wf_verify wf_confirm wf_poll)

definition demo_create_env :: "Instant \<Rightarrow> string \<Rightarrow> string \<Rightarrow> CreateEnv" where
  "demo_create_env now sid secret =
     \<lparr> cs_lock = True, cs_t_cleanup = now, cs_t_full = now, cs_t_rate = now, cs_t_capacity = now, cs_t_created = now,
       cs_session_id = sid, cs_poll_secret = secret, cs_draws = [0, 1, 2, 8, 9, 31] \<rparr>"

definition demo_store :: SessionStore where
  "demo_store = snd (create_session (demo_create_env 7 ''s1'' ''p1'') None (Some ''app'') (SessionStore_new 2 0))"

theorem session_store_wf_witness:
  "dm_len (ss_sessions demo_store) = 1 \<and> sess_wf (snd (verify_session_code 8 ''s1'' (Some ''no'') demo_store))"
proof
  show "dm_len (ss_sessions demo_store) = 1"
    by (simp add: demo_store_def create_session_def rate_check_def maybe_cleanup_expired_def SessionStore_new_def
        demo_create_env_def insert_session_def CLEANUP_THROTTLE_INTERVAL_def DEFAULT_MAX_ACTIVE_SESSIONS_def dm_exec Let_def)
  have "sess_wf demo_store"
    unfolding demo_store_def using session_store_wf [of 2 0 "SessionStore_new 2 0"] by blast
  then show "sess_wf (snd (verify_session_code 8 ''s1'' (Some ''no'') demo_store))"
    using session_store_wf [of 2 0 demo_store] by blast
qed

section \<open>Attempts and expiry\<close>

lemma code_matches_iff:
  "code_matches (Some code) e \<longleftrightarrow> trim code \<noteq> [] \<and> clean_code code = clean_code (sn_user_code e)"
  by (simp add: code_matches_def constant_time_eq_iff)

text \<open>
  One after the other, three wrong codes end a session: the first two are refused and counted, the third
  removes the session, so that no later code is accepted.
\<close>

theorem user_code_lockout:
  assumes "sess_wf st" "dm_get (ss_sessions st) sid = Some e" "sn_status e = Pending" "sn_failed_attempts e = 0"
    and "\<forall>now \<in> {t1, t2, t3}. now - sn_created_at e \<le> ss_ttl st"
    and "\<forall>c \<in> {c1, c2, c3}. \<not> code_matches c e"
  shows "let (r1, st1) = verify_session_code t1 sid c1 st; (r2, st2) = verify_session_code t2 sid c2 st1;
             (r3, st3) = verify_session_code t3 sid c3 st2
    in r1 = Err InvalidUserCode \<and> r2 = Err InvalidUserCode \<and> r3 = Err InvalidUserCode
      \<and> dm_get (ss_sessions st2) sid \<noteq> None \<and> dm_get (ss_sessions st3) sid = None
      \<and> fst (confirm_session t4 sid c4 claims st3) = Err ConfirmNotFound"
proof -
  let ?st1 = "st\<lparr> ss_sessions := dm_insert sid (e\<lparr> sn_failed_attempts := 1 \<rparr>) (ss_sessions st) \<rparr>"
  let ?st2 = "?st1\<lparr> ss_sessions := dm_insert sid (e\<lparr> sn_failed_attempts := 2 \<rparr>) (ss_sessions ?st1) \<rparr>"
  have match: "code_matches c (e\<lparr> sn_failed_attempts := n \<rparr>) = code_matches c e" for c n
    by (simp add: code_matches_def split: option.splits)
  have inc: "saturating_inc 0 = 1" "saturating_inc 1 = 2" "saturating_inc 2 = 3" by (simp_all add: saturating_inc_def)
  have v1: "verify_session_code t1 sid c1 st = (Err InvalidUserCode, ?st1)"
    using assms by (simp add: verify_session_code_def verify_check_def inc attempts_order)
  have v2: "verify_session_code t2 sid c2 ?st1 = (Err InvalidUserCode, ?st2)"
    using assms by (simp add: verify_session_code_def verify_check_def inc attempts_order dm.get_insert match)
  have v3: "fst (verify_session_code t3 sid c3 ?st2) = Err InvalidUserCode"
    "dm_get (ss_sessions (snd (verify_session_code t3 sid c3 ?st2))) sid = None"
    using assms by (simp_all add: verify_session_code_def verify_check_def inc attempts_order dm.get_insert match
        remove_session_def dm.get_remove dm.wf_insert sess_wf_def)
  have gone: "fst (confirm_session t4 sid c4 claims s) = Err ConfirmNotFound" if "dm_get (ss_sessions s) sid = None" for s
    using that by (simp add: confirm_session_def verify_session_code_def verify_check_def)
  show ?thesis
    unfolding v1 Let_def case_prod_conv v2 using v3 gone [OF v3(2)] by (simp add: case_prod_beta dm.get_insert)
qed

definition demo_entry :: SessionEntry where
  "demo_entry = new_entry 7 ''p1'' ''234-ABZ'' (Some ''app'') None"

lemma demo_code: "generate_user_code [0, 1, 2, 8, 9, 31] = ''234-ABZ''"
  by code_simp

lemma demo_store_eq:
  "demo_store = \<lparr> ss_sessions = [(''s1'', demo_entry)], ss_ip_rate_limits = [], ss_ttl = secs 2, ss_max_active = 5000, ss_last_cleanup = 0 \<rparr>"
  by (simp add: demo_store_def create_session_def rate_check_def maybe_cleanup_expired_def SessionStore_new_def demo_code [simplified]
      demo_create_env_def insert_session_def CLEANUP_THROTTLE_INTERVAL_def DEFAULT_MAX_ACTIVE_SESSIONS_def dm_exec Let_def demo_entry_def)

lemma demo_matches:
  "\<not> code_matches (Some ''AAA-AAA'') demo_entry" "\<not> code_matches None demo_entry" "code_matches (Some ''234abz'') demo_entry"
  by code_simp+

theorem user_code_lockout_witness:
  "dm_get (ss_sessions (snd (verify_session_code 9 ''s1'' None (snd (verify_session_code 8 ''s1'' None
      (snd (verify_session_code 8 ''s1'' (Some ''AAA-AAA'') demo_store))))))) ''s1'' = None"
proof -
  have wf: "sess_wf demo_store" unfolding demo_store_def by (intro wf_create wf_new)
  have get: "dm_get (ss_sessions demo_store) ''s1'' = Some demo_entry" "ss_ttl demo_store = secs 2"
    by (simp_all add: demo_store_eq dm_exec)
  have entry: "sn_status demo_entry = Pending" "sn_failed_attempts demo_entry = 0" "sn_created_at demo_entry = 7"
    by (simp_all add: demo_entry_def new_entry_def)
  from user_code_lockout [OF wf get(1) entry(1,2), of 8 8 9 "Some ''AAA-AAA''" None None 0 None undefined] show ?thesis
    using demo_matches by (simp add: get entry case_prod_beta Let_def)
qed

text \<open>
  The limit is not kept under concurrency. The third wrong code releases the entry before it removes the
  session; a code checked in between is still compared. Here a fourth guess is right, confirms the
  session, and the poll of the browser takes the claims before the removal happens.
\<close>

theorem user_code_guess_race:
  "let (o1, s1) = verify_check 8 ''s1'' None demo_store;
       (o2, s2) = verify_check 8 ''s1'' None s1;
       (o3, s3) = verify_check 8 ''s1'' None s2;
       (o4, s4) = verify_check 9 ''s1'' (Some ''234abz'') s3;
       (r, s5) = confirm_attach ''s1'' claims s4;
       (taken, s6) = poll_take ''s1'' ''p1'' s5
   in o3 = VRemove InvalidUserCode \<and> o4 = VOk \<and> r = Ok () \<and> poll_check 9 ''s1'' ''p1'' s5 = PTake
     \<and> taken = Some (claims\<lparr> claim_aud := Some ''app'' \<rparr>)"
proof -
  have match: "code_matches c (demo_entry\<lparr> sn_failed_attempts := n \<rparr>) = code_matches c demo_entry" for c n
    by (simp add: code_matches_def split: option.splits)
  have entry: "sn_created_at demo_entry = 7" "sn_status demo_entry = Pending" "sn_failed_attempts demo_entry = 0"
    "sn_poll_secret demo_entry = ''p1''" "sn_aud demo_entry = Some ''app''"
    by (simp_all add: demo_entry_def new_entry_def)
  have inc: "saturating_inc 0 = 1" "saturating_inc 1 = 2" "saturating_inc 2 = 3" by (simp_all add: saturating_inc_def)
  show ?thesis
    by (simp add: demo_store_eq verify_check_def confirm_attach_def poll_take_def poll_check_def dm_exec entry inc match demo_matches
        attempts_order constant_time_eq_iff with_aud_def)
qed

text \<open>
  A session lives for its time to live and no longer: after it, no poll returns its claims, no code
  confirms it and its code is not shown, even before the cleanup has removed it.
\<close>

theorem session_expires:
  assumes "dm_wf (ss_sessions st)" "dm_get (ss_sessions st) sid = Some e" "now - sn_created_at e > ss_ttl st"
  shows "\<not> is_ok (fst (get_and_consume now sid secret st)) \<and> fst (confirm_session now sid code claims st) = Err ConfirmExpired
    \<and> get_session_user_code now sid st = None \<and> dm_get (ss_sessions (cleanup_expired_force now st)) sid = None"
proof -
  have "dm_get (ss_sessions (cleanup_expired_force now st)) sid = None"
    using assms by (simp add: cleanup_expired_force_def dm.get_retain)
  then show ?thesis
    using assms by (auto simp: get_and_consume_def poll_check_def confirm_session_def verify_session_code_def verify_check_def
        get_session_user_code_def split: prod.splits)
qed

definition demo_device :: Claims where
  "demo_device = \<lparr> claim_sub = ''phone'', claim_iss = ''idp'', claim_aud = None, claim_exp = 0, claim_oids = [], claim_jti = None \<rparr>"

theorem session_expires_witness:
  "fst (confirm_session (secs 3) ''s1'' (Some ''234-ABZ'') demo_device demo_store) = Err ConfirmExpired"
proof -
  have "dm_wf (ss_sessions demo_store)" "dm_get (ss_sessions demo_store) ''s1'' = Some demo_entry" "ss_ttl demo_store = secs 2"
    by (simp_all add: demo_store_eq dm_exec dm_wf_def)
  moreover have "sn_created_at demo_entry = 7" by (simp add: demo_entry_def new_entry_def)
  ultimately show ?thesis using session_expires [of demo_store "''s1''" demo_entry "secs 3"] by simp
qed

section \<open>Interleaved requests\<close>

text \<open>
  What a request still has to do after it has visited the table: remove a session, attach claims to a
  session whose code it has verified, or take a session it has seen confirmed. A request may also be
  dropped. The log is a history of the visits; session identifiers are fresh, being drawn from 192 bits.
\<close>

datatype SessTask = RemoveTask string | AttachTask string string | TakeTask string string

datatype SessEvent =
    Created string string string "string option"   \<comment> \<open>session, poll secret, user code, audience\<close>
  | Verified string string                         \<comment> \<open>session, the code that was sent\<close>
  | Attached string Claims
  | Delivered string string Claims                 \<comment> \<open>session, the secret of the poll\<close>

type_synonym sess_state = "SessionStore \<times> SessTask list \<times> SessEvent list"

definition created_sids :: "SessEvent list \<Rightarrow> string list" where
  "created_sids log = List.map_filter (\<lambda>e. case e of Created sid _ _ _ \<Rightarrow> Some sid | _ \<Rightarrow> None) log"

inductive sess_step :: "sess_state \<Rightarrow> sess_state \<Rightarrow> bool" where
  create:
    "sid \<notin> set (created_sids log) \<Longrightarrow>
     sess_step (st, ts, log)
       (st\<lparr> ss_sessions := dm_insert sid (new_entry now secret code aud ip) (ss_sessions st) \<rparr>, ts, log @ [Created sid secret code aud])"
| rated: "sess_step (st, ts, log) (st\<lparr> ss_ip_rate_limits := rates, ss_last_cleanup := t \<rparr>, ts, log)"
| cleanup: "sess_step (st, ts, log) (cleanup_expired_force now st, ts, log)"
| verified:
    "verify_check now sid (Some code) st = (VOk, st') \<Longrightarrow>
     sess_step (st, ts, log) (st', ts @ [AttachTask sid code], log @ [Verified sid code])"
| refused: "verify_check now sid code st = (VErr err, st') \<Longrightarrow> sess_step (st, ts, log) (st', ts, log)"
| locked_out: "verify_check now sid code st = (VRemove err, st') \<Longrightarrow> sess_step (st, ts, log) (st', ts @ [RemoveTask sid], log)"
| attached:
    "AttachTask sid code \<in> set ts \<Longrightarrow> confirm_attach sid claims st = (Ok (), st') \<Longrightarrow>
     dm_get (ss_sessions st) sid = Some e \<Longrightarrow>
     sess_step (st, ts, log) (st', remove1 (AttachTask sid code) ts, log @ [Attached sid (with_aud (sn_aud e) claims)])"
| removed: "RemoveTask sid \<in> set ts \<Longrightarrow> sess_step (st, ts, log) (remove_session sid st, remove1 (RemoveTask sid) ts, log)"
| polled: "poll_check now sid secret st = PTake \<Longrightarrow> sess_step (st, ts, log) (st, ts @ [TakeTask sid secret], log)"
| poll_expired: "poll_check now sid secret st = PRemove \<Longrightarrow> sess_step (st, ts, log) (st, ts @ [RemoveTask sid], log)"
| taken:
    "TakeTask sid secret \<in> set ts \<Longrightarrow> poll_take sid secret st = (Some claims, st') \<Longrightarrow>
     sess_step (st, ts, log) (st', remove1 (TakeTask sid secret) ts, log @ [Delivered sid secret claims])"
| dropped: "t \<in> set ts \<Longrightarrow> sess_step (st, ts, log) (st, remove1 t ts, log)"

definition code_sent :: "SessEvent list \<Rightarrow> string \<Rightarrow> string \<Rightarrow> bool" where
  "code_sent log sid code \<longleftrightarrow> (\<exists>secret ucode aud. Created sid secret ucode aud \<in> set log \<and> clean_code code = clean_code ucode)"

definition deliveries :: "string \<Rightarrow> SessEvent list \<Rightarrow> nat" where
  "deliveries sid log = cnt (\<lambda>e. case e of Delivered s _ _ \<Rightarrow> s = sid | _ \<Rightarrow> False) log"

definition attached_ok :: "SessEvent list \<Rightarrow> string \<Rightarrow> Claims \<Rightarrow> bool" where
  "attached_ok log sid c \<longleftrightarrow>
     (\<exists>code secret ucode aud. Created sid secret ucode aud \<in> set log \<and> Verified sid code \<in> set log
        \<and> clean_code code = clean_code ucode \<and> (aud \<noteq> None \<longrightarrow> claim_aud c = aud))"

text \<open>The invariant of the runs: of the table, of the pending requests, and of the log.\<close>

definition entry_ok :: "SessEvent list \<Rightarrow> string \<Rightarrow> SessionEntry \<Rightarrow> bool" where
  "entry_ok log sid e \<longleftrightarrow>
     Created sid (sn_poll_secret e) (sn_user_code e) (sn_aud e) \<in> set log
     \<and> (\<forall>c. sn_status e = Confirmed c \<longrightarrow> Attached sid c \<in> set log) \<and> deliveries sid log = 0"

definition store_ok :: "SessionStore \<Rightarrow> SessEvent list \<Rightarrow> bool" where
  "store_ok st log \<longleftrightarrow> dm_wf (ss_sessions st) \<and> (\<forall>sid e. dm_get (ss_sessions st) sid = Some e \<longrightarrow> entry_ok log sid e)"

definition tasks_ok :: "SessTask list \<Rightarrow> SessEvent list \<Rightarrow> bool" where
  "tasks_ok ts log \<longleftrightarrow> (\<forall>sid code. AttachTask sid code \<in> set ts \<longrightarrow> Verified sid code \<in> set log)"

definition event_ok :: "SessEvent list \<Rightarrow> SessEvent \<Rightarrow> bool" where
  "event_ok log ev = (case ev of
      Created _ _ _ _ \<Rightarrow> True
    | Verified sid code \<Rightarrow> code_sent log sid code
    | Attached sid c \<Rightarrow> attached_ok log sid c
    | Delivered sid secret c \<Rightarrow> Attached sid c \<in> set log \<and> (\<exists>ucode aud. Created sid secret ucode aud \<in> set log))"

definition log_ok :: "SessEvent list \<Rightarrow> bool" where
  "log_ok log \<longleftrightarrow> distinct (created_sids log) \<and> (\<forall>ev \<in> set log. event_ok log ev) \<and> (\<forall>sid. deliveries sid log \<le> 1)"

lemma created_sids_append [simp]: "created_sids (l1 @ l2) = created_sids l1 @ created_sids l2"
  by (simp add: created_sids_def List.map_filter_def)

lemma created_sids_single [simp]:
  "created_sids [Created sid secret code aud] = [sid]" "created_sids [Verified sid code] = []"
  "created_sids [Attached sid c] = []" "created_sids [Delivered sid secret c] = []" "created_sids [] = []"
  by (simp_all add: created_sids_def List.map_filter_def)

lemma created_sids_mem: "Created sid secret code aud \<in> set log \<Longrightarrow> sid \<in> set (created_sids log)"
  by (force simp: created_sids_def List.map_filter_def)

lemma deliveries_append [simp]: "deliveries sid (l1 @ l2) = deliveries sid l1 + deliveries sid l2"
  by (induction l1) (auto simp: deliveries_def)

lemma deliveries_single [simp]:
  "deliveries s [Created sid secret code aud] = 0" "deliveries s [Verified sid code] = 0" "deliveries s [Attached sid c] = 0"
  "deliveries s [Delivered sid secret c] = of_bool (s = sid)" "deliveries s [] = 0"
  by (auto simp: deliveries_def)

lemma deliveries_mem: "deliveries sid log \<noteq> 0 \<longleftrightarrow> (\<exists>secret c. Delivered sid secret c \<in> set log)"
  by (induction log) (auto simp: deliveries_def split: SessEvent.splits)

lemma code_sent_mono: "code_sent log sid code \<Longrightarrow> code_sent (log @ l2) sid code"
  by (auto simp: code_sent_def)

lemma attached_ok_mono: "attached_ok log sid c \<Longrightarrow> attached_ok (log @ l2) sid c"
  by (fastforce simp: attached_ok_def)

lemma in_remove1: "x \<in> set (remove1 y xs) \<Longrightarrow> x \<in> set xs"
  using set_remove1_subset [of y xs] by blast

lemma event_ok_mono: "event_ok log ev \<Longrightarrow> event_ok (log @ l2) ev"
  by (auto simp: event_ok_def code_sent_mono attached_ok_mono split: SessEvent.splits)

lemma log_ok_snoc:
  assumes "log_ok log" "event_ok (log @ [ev]) ev" "distinct (created_sids (log @ [ev]))" "\<And>sid. deliveries sid (log @ [ev]) \<le> 1"
  shows "log_ok (log @ [ev])"
  using assms event_ok_mono by (auto simp: log_ok_def)

lemma entry_ok_snoc:
  assumes "entry_ok log sid e" "deliveries sid [ev] = 0"
  shows "entry_ok (log @ [ev]) sid e"
  using assms by (auto simp: entry_ok_def)

lemma tasks_ok_snoc: "tasks_ok ts log \<Longrightarrow> tasks_ok ts (log @ [ev])"
  by (auto simp: tasks_ok_def)

lemma tasks_ok_remove1: "tasks_ok ts log \<Longrightarrow> tasks_ok (remove1 t ts) log"
  by (auto simp: tasks_ok_def dest: in_remove1)

lemmas snocs = tasks_ok_snoc tasks_ok_remove1 entry_ok_snoc

text \<open>Most operations only drop sessions and change attempts: what the invariant reads of an entry stays.\<close>

definition keeps :: "SessionStore \<Rightarrow> SessionStore \<Rightarrow> bool" where
  "keeps st st' \<longleftrightarrow> (dm_wf (ss_sessions st) \<longrightarrow> dm_wf (ss_sessions st')
     \<and> (\<forall>sid e'. dm_get (ss_sessions st') sid = Some e' \<longrightarrow>
          (\<exists>e. dm_get (ss_sessions st) sid = Some e \<and> sn_poll_secret e' = sn_poll_secret e \<and> sn_user_code e' = sn_user_code e
             \<and> sn_aud e' = sn_aud e \<and> sn_status e' = sn_status e)))"

lemma store_ok_keeps: "store_ok st log \<Longrightarrow> keeps st st' \<Longrightarrow> store_ok st' log"
  by (fastforce simp: store_ok_def keeps_def entry_ok_def)

lemma keeps_force: "keeps st (cleanup_expired_force now st)"
  by (auto simp: keeps_def cleanup_expired_force_def dm_laws split: option.splits if_splits)

lemma keeps_remove: "keeps st (remove_session sid st)"
  by (auto simp: keeps_def remove_session_def dm_laws split: if_splits)

lemma keeps_verify: "verify_check now sid code st = (out, st') \<Longrightarrow> keeps st st'"
  by (auto simp: keeps_def verify_check_def Let_def dm_laws split: option.splits if_splits)

lemma verify_okD:
  "verify_check now sid (Some code) st = (VOk, st') \<Longrightarrow>
   st' = st \<and> (\<exists>e. dm_get (ss_sessions st) sid = Some e \<and> clean_code code = clean_code (sn_user_code e))"
  by (auto simp: verify_check_def Let_def code_matches_iff split: option.splits if_splits)

lemma attachD:
  assumes "confirm_attach sid claims st = (Ok (), st')" "dm_get (ss_sessions st) sid = Some e"
  shows "st' = st\<lparr> ss_sessions := dm_insert sid (e\<lparr> sn_status := Confirmed (with_aud (sn_aud e) claims) \<rparr>) (ss_sessions st) \<rparr>"
  using assms by (auto simp: confirm_attach_def split: if_splits)

lemma takeD:
  assumes "poll_take sid secret st = (Some claims, st')"
  shows "st' = remove_session sid st \<and> (\<exists>e. dm_get (ss_sessions st) sid = Some e \<and> sn_status e = Confirmed claims \<and> sn_poll_secret e = secret)"
  using assms by (auto simp: poll_take_def constant_time_eq_iff split: option.splits SessionStatus.splits if_splits)

definition sess_inv :: "sess_state \<Rightarrow> bool" where
  "sess_inv s \<longleftrightarrow> (case s of (st, ts, log) \<Rightarrow> store_ok st log \<and> tasks_ok ts log \<and> log_ok log)"

lemma inv_create:
  assumes "sess_inv (st, ts, log)" "sid \<notin> set (created_sids log)"
  shows "sess_inv (st\<lparr> ss_sessions := dm_insert sid (new_entry now secret code aud ip) (ss_sessions st) \<rparr>, ts, log @ [Created sid secret code aud])"
proof -
  let ?ev = "Created sid secret code aud"
  have "deliveries sid log = 0"
    using assms deliveries_mem [of sid log] created_sids_mem [of sid]
    by (force simp: sess_inv_def log_ok_def event_ok_def)
  then have "entry_ok (log @ [?ev]) sid (new_entry now secret code aud ip)"
    by (simp add: entry_ok_def new_entry_def)
  then have "store_ok (st\<lparr> ss_sessions := dm_insert sid (new_entry now secret code aud ip) (ss_sessions st) \<rparr>) (log @ [?ev])"
    using assms(1) by (auto simp: sess_inv_def store_ok_def dm_laws snocs)
  moreover have "log_ok (log @ [?ev])"
    using assms by (intro log_ok_snoc) (auto simp: sess_inv_def event_ok_def log_ok_def)
  ultimately show ?thesis using assms(1) by (simp add: sess_inv_def snocs)
qed

lemma inv_verified:
  assumes "sess_inv (st, ts, log)" "verify_check now sid (Some code) st = (VOk, st')"
  shows "sess_inv (st', ts @ [AttachTask sid code], log @ [Verified sid code])"
proof -
  from verify_okD [OF assms(2)] obtain e where e: "st' = st" "dm_get (ss_sessions st) sid = Some e"
    "clean_code code = clean_code (sn_user_code e)" by blast
  have "code_sent log sid code"
    using assms(1) e unfolding sess_inv_def store_ok_def entry_ok_def code_sent_def by fastforce
  then have "log_ok (log @ [Verified sid code])"
    using assms(1) by (intro log_ok_snoc) (auto simp: sess_inv_def event_ok_def log_ok_def code_sent_mono)
  then show ?thesis
    using assms(1) e(1) by (auto simp: sess_inv_def store_ok_def snocs tasks_ok_def)
qed

lemma with_aud_aud: "aud \<noteq> None \<Longrightarrow> claim_aud (with_aud aud c) = aud"
  by (auto simp: with_aud_def)

lemma created_unique:
  "distinct (created_sids log) \<Longrightarrow> Created sid s1 u1 a1 \<in> set log \<Longrightarrow> Created sid s2 u2 a2 \<in> set log \<Longrightarrow> s1 = s2 \<and> u1 = u2 \<and> a1 = a2"
proof (induction log)
  case (Cons ev log)
  have "created_sids (ev # log) = created_sids [ev] @ created_sids log" using created_sids_append [of "[ev]" log] by simp
  then show ?case using Cons created_sids_mem [of sid _ _ _ log] by auto
qed simp

lemma inv_attached:
  assumes "sess_inv (st, ts, log)" "AttachTask sid code \<in> set ts" "confirm_attach sid claims st = (Ok (), st')"
    "dm_get (ss_sessions st) sid = Some e"
  shows "sess_inv (st', remove1 (AttachTask sid code) ts, log @ [Attached sid (with_aud (sn_aud e) claims)])"
proof -
  let ?c = "with_aud (sn_aud e) claims"
  have e: "entry_ok log sid e" using assms(1,4) by (auto simp: sess_inv_def store_ok_def)
  have v: "Verified sid code \<in> set log" using assms(1,2) by (auto simp: sess_inv_def tasks_ok_def)
  then have "code_sent log sid code" using assms(1) by (fastforce simp: sess_inv_def log_ok_def event_ok_def)
  then have "clean_code code = clean_code (sn_user_code e)"
    using assms(1) e created_unique unfolding code_sent_def sess_inv_def log_ok_def entry_ok_def by fastforce
  then have "attached_ok log sid ?c"
    using e v with_aud_aud unfolding entry_ok_def attached_ok_def by blast
  then have "log_ok (log @ [Attached sid ?c])"
    using assms(1) by (intro log_ok_snoc) (auto simp: sess_inv_def event_ok_def log_ok_def attached_ok_mono)
  moreover have "entry_ok (log @ [Attached sid ?c]) sid (e\<lparr> sn_status := Confirmed ?c \<rparr>)"
    using e by (simp add: entry_ok_def)
  then have "store_ok st' (log @ [Attached sid ?c])"
    using assms(1) unfolding attachD [OF assms(3,4)] by (auto simp: sess_inv_def store_ok_def dm_laws snocs)
  ultimately show ?thesis using assms(1) by (simp add: sess_inv_def snocs)
qed

lemma inv_taken:
  assumes "sess_inv (st, ts, log)" "poll_take sid secret st = (Some claims, st')"
  shows "sess_inv (st', remove1 (TakeTask sid secret) ts, log @ [Delivered sid secret claims])"
proof -
  from takeD [OF assms(2)] obtain e where e: "st' = remove_session sid st" "dm_get (ss_sessions st) sid = Some e"
    "sn_status e = Confirmed claims" "sn_poll_secret e = secret" by blast
  have ok: "entry_ok log sid e" using assms(1) e(2) by (auto simp: sess_inv_def store_ok_def)
  have "deliveries s (log @ [Delivered sid secret claims]) \<le> 1" for s
    using ok assms(1) by (simp add: entry_ok_def sess_inv_def log_ok_def)
  moreover have "event_ok (log @ [Delivered sid secret claims]) (Delivered sid secret claims)"
    using ok e(3,4) by (auto simp: entry_ok_def event_ok_def)
  ultimately have "log_ok (log @ [Delivered sid secret claims])"
    using assms(1) by (intro log_ok_snoc) (auto simp: sess_inv_def log_ok_def)
  moreover have "store_ok st' (log @ [Delivered sid secret claims])"
    using assms(1) unfolding e(1) by (auto simp: sess_inv_def store_ok_def remove_session_def dm_laws snocs split: if_splits)
  ultimately show ?thesis using assms(1) by (simp add: sess_inv_def snocs)
qed

lemma inv_step: "sess_step s s' \<Longrightarrow> sess_inv s \<Longrightarrow> sess_inv s'"
proof (induction rule: sess_step.induct)
  case (rated st ts log rates t)
  then show ?case by (simp add: sess_inv_def store_ok_def)
next
  case (cleanup st ts log now)
  then show ?case using store_ok_keeps [OF _ keeps_force] by (simp add: sess_inv_def)
next
  case (refused now sid code st err st' ts log)
  then show ?case using store_ok_keeps [OF _ keeps_verify] by (auto simp: sess_inv_def)
next
  case (locked_out now sid code st err st' ts log)
  then show ?case using store_ok_keeps [OF _ keeps_verify] by (auto simp: sess_inv_def tasks_ok_def)
next
  case (removed sid ts st log)
  then show ?case using store_ok_keeps [OF _ keeps_remove] by (simp add: sess_inv_def snocs)
qed (simp_all add: inv_create inv_verified inv_attached inv_taken, auto simp: sess_inv_def tasks_ok_def dest: in_remove1)

lemma inv_run: "sess_step\<^sup>*\<^sup>* s s' \<Longrightarrow> sess_inv s \<Longrightarrow> sess_inv s'"
  by (induction rule: rtranclp_induct) (auto simp: inv_step)

lemma inv_start: "sess_inv (SessionStore_new ttl t0, [], [])"
  by (simp add: sess_inv_def store_ok_def tasks_ok_def log_ok_def SessionStore_new_def dm_wf_def)

section \<open>Requests run alone are runs\<close>

lemma two_steps: "sess_step a b \<Longrightarrow> sess_step b c \<Longrightarrow> sess_step\<^sup>*\<^sup>* a c"
  by (rule converse_rtranclp_into_rtranclp [OF _ r_into_rtranclp])

lemma run_force: "sess_step\<^sup>*\<^sup>* (st, ts, log) (cleanup_expired_force now st, ts, log)"
  by (rule r_into_rtranclp) (rule sess_step.cleanup)

lemma run_maybe_cleanup: "sess_step\<^sup>*\<^sup>* (st, ts, log) (maybe_cleanup_expired env st, ts, log)"
proof -
  have "sess_step (st, ts, log) (st\<lparr> ss_last_cleanup := t \<rparr>, ts, log)" for t
    using sess_step.rated [where st = st and rates = "ss_ip_rate_limits st" and t = t] by simp
  then have "sess_step\<^sup>*\<^sup>* (st, ts, log) (cleanup_expired_force t (st\<lparr> ss_last_cleanup := t \<rparr>), ts, log)" for t
    by (rule converse_rtranclp_into_rtranclp [OF _ run_force])
  then show ?thesis by (simp add: maybe_cleanup_expired_def)
qed

lemma run_rate_check: "sess_step\<^sup>*\<^sup>* (st, ts, log) (snd (rate_check env ip st), ts, log)"
proof -
  have rates: "sess_step (s, ts, log) (s\<lparr> ss_ip_rate_limits := m \<rparr>, ts, log)" for s m
    using sess_step.rated [where st = s and rates = m and t = "ss_last_cleanup s"] by simp
  have rates2: "sess_step\<^sup>*\<^sup>* (st, ts, log) ((cleanup_expired_force t st)\<lparr> ss_ip_rate_limits := m \<rparr>, ts, log)" for t m
    by (rule rtranclp.rtrancl_into_rtrancl [OF run_force rates])
  show ?thesis
    using r_into_rtranclp [of sess_step, OF rates] rates2 run_force
    by (simp add: rate_check_def Let_def case_prod_beta split: option.splits)
qed

lemma run_insert_session:
  assumes "cs_session_id env \<notin> set (created_sids log)"
  shows "case insert_session env aud ip st of (info, st') \<Rightarrow>
    sess_step\<^sup>*\<^sup>* (st, ts, log) (st', ts, log @ [Created (si_session_id info) (si_poll_secret info) (si_user_code info) aud])"
  by (simp add: insert_session_def Let_def r_into_rtranclp sess_step.create [OF assms])

text \<open>
  The step relation describes the operations: a login, a confirmation or a poll that runs alone, called
  on any store, is a sequence of steps that records what the operation returned.
\<close>

lemma login_is_run:
  assumes "cs_session_id env \<notin> set (created_sids log)"
  shows "case create_session env ip aud st of (r, st') \<Rightarrow>
    sess_step\<^sup>*\<^sup>* (st, ts, log) (st', ts, log @ (case r of Ok info \<Rightarrow> [Created (si_session_id info) (si_poll_secret info) (si_user_code info) aud] | Err _ \<Rightarrow> []))"
proof -
  let ?ip = "map_option canonical_client_ip ip"
  define st1 where "st1 = snd (rate_check env ?ip (maybe_cleanup_expired env st))"
  have r1: "sess_step\<^sup>*\<^sup>* (st, ts, log) (st1, ts, log)"
    unfolding st1_def by (rule rtranclp_trans [OF run_maybe_cleanup run_rate_check])
  have r2: "sess_step\<^sup>*\<^sup>* (st, ts, log) (cleanup_expired_force t st1, ts, log)" for t
    by (rule rtranclp_trans [OF r1 run_force])
  note ins = run_insert_session [OF assms, where aud = aud and ip = ?ip and ts = ts]
  show ?thesis
    using r1 r2 rtranclp_trans [OF r1] rtranclp_trans [OF r2] ins [where st = st1] ins [where st = "cleanup_expired_force (cs_t_capacity env) st1"]
    by (auto simp: create_session_def Let_def st1_def case_prod_beta split: result.splits)
qed

lemma confirm_is_run:
  assumes "confirm_session now sid (Some code) claims st = (Ok (), st')"
  shows "\<exists>e. dm_get (ss_sessions st) sid = Some e
    \<and> sess_step\<^sup>*\<^sup>* (st, [], log) (st', [], log @ [Verified sid code, Attached sid (with_aud (sn_aud e) claims)])"
proof -
  have v: "verify_check now sid (Some code) st = (VOk, st)" "confirm_attach sid claims st = (Ok (), st')"
    using assms verify_okD [of now sid code st]
    by (auto simp: confirm_session_def verify_session_code_def split: prod.splits VerifyOutcome.splits result.splits)
  then obtain e where e: "dm_get (ss_sessions st) sid = Some e" using verify_okD by blast
  have s1: "sess_step (st, [], log) (st, [] @ [AttachTask sid code], log @ [Verified sid code])"
    using v(1) by (rule sess_step.verified)
  have "sess_step (st, [] @ [AttachTask sid code], log @ [Verified sid code])
     (st', remove1 (AttachTask sid code) ([] @ [AttachTask sid code]), (log @ [Verified sid code]) @ [Attached sid (with_aud (sn_aud e) claims)])"
    using v(2) e by (intro sess_step.attached) simp_all
  then have "sess_step\<^sup>*\<^sup>* (st, [], log) (st', [], log @ [Verified sid code, Attached sid (with_aud (sn_aud e) claims)])"
    using two_steps [OF s1] by simp
  then show ?thesis using e by blast
qed

lemma poll_is_run:
  assumes "get_and_consume now sid secret st = (Ok (Confirmed claims), st')"
  shows "sess_step\<^sup>*\<^sup>* (st, [], log) (st', [], log @ [Delivered sid secret claims])"
proof -
  have v: "poll_check now sid secret st = PTake" "poll_take sid secret st = (Some claims, st')"
    using assms by (auto simp: get_and_consume_def split: PollOutcome.splits prod.splits option.splits)
  have s1: "sess_step (st, [], log) (st, [] @ [TakeTask sid secret], log)"
    using v(1) by (rule sess_step.polled)
  have "sess_step (st, [] @ [TakeTask sid secret], log)
     (st', remove1 (TakeTask sid secret) ([] @ [TakeTask sid secret]), log @ [Delivered sid secret claims])"
    using v(2) by (intro sess_step.taken) simp_all
  then show ?thesis
    using two_steps [OF s1] by simp
qed

lemma demo_login_run:
  "sess_step\<^sup>*\<^sup>* (SessionStore_new 2 0, [], []) (demo_store, [], [Created ''s1'' ''p1'' ''234-ABZ'' (Some ''app'')])"
proof -
  have r: "fst (create_session (demo_create_env 7 ''s1'' ''p1'') None (Some ''app'') (SessionStore_new 2 0))
      = Ok \<lparr> si_session_id = ''s1'', si_poll_secret = ''p1'', si_user_code = ''234-ABZ'' \<rparr>"
    by (simp add: create_session_def rate_check_def maybe_cleanup_expired_def SessionStore_new_def demo_code [simplified]
      demo_create_env_def insert_session_def CLEANUP_THROTTLE_INTERVAL_def DEFAULT_MAX_ACTIVE_SESSIONS_def dm_exec Let_def)
  show ?thesis
    using login_is_run [where env = "demo_create_env 7 ''s1'' ''p1''" and log = "[]" and ip = None and aud = "Some ''app''" and st = "SessionStore_new 2 0" and ts = "[]"]
    by (simp add: case_prod_beta r demo_store_def [symmetric])
qed

text \<open>C9: 
  Claims that a poll delivers, under any interleaving of the requests: the session was created with the
  secret the poll sent; a device sent the code shown for that session; the claims are the ones attached
  to the session after that, with the audience the login asked for; and a session delivers once.
\<close>

theorem session_agreement:
  assumes "sess_step\<^sup>*\<^sup>* (SessionStore_new ttl t0, [], []) (st, ts, log)" "Delivered sid secret claims \<in> set log"
  shows "\<exists>ucode aud code. Created sid secret ucode aud \<in> set log \<and> Verified sid code \<in> set log
    \<and> clean_code code = clean_code ucode \<and> Attached sid claims \<in> set log \<and> (aud \<noteq> None \<longrightarrow> claim_aud claims = aud)
    \<and> deliveries sid log = 1"
proof -
  have inv: "log_ok log" using inv_run [OF assms(1) inv_start] by (simp add: sess_inv_def)
  then have ev: "event_ok log (Delivered sid secret claims)" using assms(2) by (auto simp: log_ok_def)
  then obtain ucode aud where cr: "Created sid secret ucode aud \<in> set log" and at: "Attached sid claims \<in> set log"
    by (auto simp: event_ok_def)
  then have "attached_ok log sid claims" using inv by (fastforce simp: log_ok_def event_ok_def)
  then obtain code s2 u2 a2 where v: "Created sid s2 u2 a2 \<in> set log" "Verified sid code \<in> set log"
    "clean_code code = clean_code u2" "a2 \<noteq> None \<longrightarrow> claim_aud claims = a2"
    unfolding attached_ok_def by blast
  have same: "u2 = ucode" "a2 = aud" using created_unique [OF _ v(1) cr] inv by (simp_all add: log_ok_def)
  have "deliveries sid log \<le> 1" "deliveries sid log \<noteq> 0"
    using inv assms(2) deliveries_mem by (auto simp: log_ok_def)
  then have "deliveries sid log = 1" by linarith
  then show ?thesis using cr at v(2-4) same by blast
qed


theorem session_agreement_witness:
  "\<exists>st. sess_step\<^sup>*\<^sup>* (SessionStore_new 2 0, [], []) (st, [], [Created ''s1'' ''p1'' ''234-ABZ'' (Some ''app''), Verified ''s1'' ''234abz'',
       Attached ''s1'' (demo_device\<lparr> claim_aud := Some ''app'' \<rparr>), Delivered ''s1'' ''p1'' (demo_device\<lparr> claim_aud := Some ''app'' \<rparr>)])
     \<and> deliveries ''s1'' [Created ''s1'' ''p1'' ''234-ABZ'' (Some ''app''), Verified ''s1'' ''234abz'',
       Attached ''s1'' (demo_device\<lparr> claim_aud := Some ''app'' \<rparr>), Delivered ''s1'' ''p1'' (demo_device\<lparr> claim_aud := Some ''app'' \<rparr>)] = 1"
proof -
  let ?c = "demo_device\<lparr> claim_aud := Some ''app'' \<rparr>"
  let ?st = "demo_store\<lparr> ss_sessions := [(''s1'', demo_entry\<lparr> sn_status := Confirmed ?c \<rparr>)] \<rparr>"
  have entry: "sn_created_at demo_entry = 7" "sn_status demo_entry = Pending" "sn_poll_secret demo_entry = ''p1''" "sn_aud demo_entry = Some ''app''"
    by (simp_all add: demo_entry_def new_entry_def)
  have get: "dm_get (ss_sessions demo_store) ''s1'' = Some demo_entry" by (simp add: demo_store_eq dm_exec)
  have c: "confirm_session 9 ''s1'' (Some ''234abz'') demo_device demo_store = (Ok (), ?st)"
    by (simp add: confirm_session_def verify_session_code_def verify_check_def confirm_attach_def demo_store_eq dm_exec entry demo_matches with_aud_def)
  have p: "get_and_consume 9 ''s1'' ''p1'' ?st = (Ok (Confirmed ?c), remove_session ''s1'' ?st)"
    by (simp add: get_and_consume_def poll_check_def poll_take_def demo_store_eq dm_exec entry constant_time_eq_iff)
  have "with_aud (sn_aud demo_entry) demo_device = ?c" by (simp add: entry with_aud_def)
  then have "sess_step\<^sup>*\<^sup>* (demo_store, [], [Created ''s1'' ''p1'' ''234-ABZ'' (Some ''app'')])
     (?st, [], [Created ''s1'' ''p1'' ''234-ABZ'' (Some ''app'')] @ [Verified ''s1'' ''234abz'', Attached ''s1'' ?c])"
    using confirm_is_run [OF c, of "[Created ''s1'' ''p1'' ''234-ABZ'' (Some ''app'')]"] get by auto
  from rtranclp_trans [OF rtranclp_trans [OF demo_login_run this] poll_is_run [OF p]]
  have run: "sess_step\<^sup>*\<^sup>* (SessionStore_new 2 0, [], []) (remove_session ''s1'' ?st, [], [Created ''s1'' ''p1'' ''234-ABZ'' (Some ''app''),
       Verified ''s1'' ''234abz'', Attached ''s1'' ?c, Delivered ''s1'' ''p1'' ?c])" by simp
  from session_agreement [OF run, of "''s1''" "''p1''" ?c] run show ?thesis by auto
qed

end
