(* ===== verification/Idp.thy ===== *)
theory Idp
  imports Idp_Session Jwt_Auth Server_Config
begin

text \<open>
  The identity provider service, \<open>server/src/middleware/idp/mod.rs\<close>, and its claims webhook,
  \<open>idp/webhook.rs\<close>: the login page and key set, login, status poll and confirmation over the session
  store, direct token issue for a client certificate, and revocation.

  \<open>idp_call\<close> is \<open>IdpService::call\<close>: it returns a finished response or a future that waits for the webhook,
  whose answer \<open>idp_future_poll\<close> processes on the store it then finds. A \<open>Response\<close> that cannot be built
  because a header value is not allowed makes the \<open>unwrap\<close> of the source panic: \<open>Panicked\<close>.

  Parameters: signing and decoding of tokens (jsonwebtoken), the common name of a certificate
  (x509-parser), PEM and base64, JSON and the limited body of the webhook answer, the random
  identifiers, and the clocks.
\<close>

section \<open>The claims webhook\<close>

definition MAX_WEBHOOK_BODY_SIZE :: nat where
  "MAX_WEBHOOK_BODY_SIZE = 65536"

datatype WebhookError =
    WebhookRequestFailed string
  | WebhookHttp string
  | WebhookJson string
  | WebhookStatus nat
  | WebhookTimeout
  | WebhookBody string

record WebhookClient =
  wh_url :: string
  wh_timeout :: Duration

definition webhook_url_ok :: "string \<Rightarrow> bool" where
  "webhook_url_ok url =
     (starts_with ''https://'' url \<or> starts_with ''http://127.0.0.1'' url \<or> starts_with ''http://localhost'' url)"

text \<open>\<open>load_tls\<close> is the loading of the trust anchors and of the client certificate.\<close>

definition WebhookClient_new :: "(IdpParams \<Rightarrow> (unit, string) result) \<Rightarrow> IdpParams \<Rightarrow> (WebhookClient option, string) result" where
  "WebhookClient_new load_tls params =
     (case idp_claims_webhook_url params of
        None \<Rightarrow> Ok None
      | Some url \<Rightarrow>
          (if \<not> webhook_url_ok url
           then Err ''claims_webhook_url must use HTTPS for secure claims transport (plain HTTP is only allowed for localhost / 127.0.0.1)''
           else (case load_tls params of
                   Err e \<Rightarrow> Err e
                 | Ok _ \<Rightarrow> Ok (Some \<lparr> wh_url = url, wh_timeout = unat (idp_claims_webhook_timeout_ms params) * 1000000 \<rparr>))))"

record WebhookLib =
  wl_to_vec :: "string \<Rightarrow> string list \<Rightarrow> (u8 list, string) result"      \<comment> \<open>JSON of subject and OIDs\<close>
  wl_parse_uri :: "string \<Rightarrow> (Uri, string) result"
  wl_collect :: "nat \<Rightarrow> SrvBody \<Rightarrow> (u8 list, string) result"            \<comment> \<open>\<open>Limited::new\<close> and \<open>collect\<close>\<close>
  wl_from_slice :: "u8 list \<Rightarrow> (string list, string) result"             \<comment> \<open>the OIDs of the JSON answer\<close>

definition no_extensions :: Extensions where
  "no_extensions =
     \<lparr> ext_socket_addr = None, ext_claims = None, ext_client_pem = None, ext_client_san = None, ext_client_oids = None,
       ext_roles_shared = None, ext_roles_inline = None, ext_roles_legacy = None, ext_trace_id = None \<rparr>"

text \<open>The request to the webhook; sending it is the future that \<open>webhook_timed\<close> completes.\<close>

definition fetch_claims :: "WebhookLib \<Rightarrow> WebhookClient \<Rightarrow> string \<Rightarrow> string list \<Rightarrow> (Request, WebhookError) result" where
  "fetch_claims lib wh sub cert_oids =
     (case wl_to_vec lib sub cert_oids of
        Err e \<Rightarrow> Err (WebhookJson e)
      | Ok bytes \<Rightarrow>
          (case wl_parse_uri lib (wh_url wh) of
             Err e \<Rightarrow> Err (WebhookHttp e)
           | Ok uri \<Rightarrow>
               Ok \<lparr> req_method = ''POST'', req_uri = uri, req_headers = [(''content-type'', ''application/json'')],
                    req_ext = no_extensions, req_body = (if bytes = [] then [] else [Ok (Data bytes)]) \<rparr>))"

definition is_success :: "nat \<Rightarrow> bool" where
  "is_success status = (200 \<le> status \<and> status < 300)"

definition webhook_work :: "WebhookLib \<Rightarrow> (Response, string) result \<Rightarrow> (string list, WebhookError) result" where
  "webhook_work lib answer =
     (case answer of
        Err e \<Rightarrow> Err (WebhookRequestFailed e)
      | Ok resp \<Rightarrow>
          (if \<not> is_success (resp_status resp) then Err (WebhookStatus (resp_status resp))
           else (case wl_collect lib MAX_WEBHOOK_BODY_SIZE (resp_body resp) of
                   Err e \<Rightarrow> Err (WebhookBody e)
                 | Ok bytes \<Rightarrow>
                     (case wl_from_slice lib bytes of
                        Err e \<Rightarrow> Err (WebhookJson e)
                      | Ok oids \<Rightarrow> Ok oids))))"

definition webhook_timed :: "WebhookLib \<Rightarrow> bool \<Rightarrow> (Response, string) result \<Rightarrow> (string list, WebhookError) result" where
  "webhook_timed lib elapsed answer = (if elapsed then Err WebhookTimeout else webhook_work lib answer)"

section \<open>The service\<close>

record ('sk, 'key) IdpService =
  is_params :: IdpParams
  is_encoding_key :: 'sk
  is_decoding_keys :: "'key list"
  is_server_name :: string
  is_jwks_payload :: "string option"
  is_webhook_client :: "WebhookClient option"

definition ED25519_SPKI_PREFIX :: "u8 list" where
  "ED25519_SPKI_PREFIX = [0x30, 0x2a, 0x30, 0x05, 0x06, 0x03, 0x2b, 0x65, 0x70, 0x03, 0x21, 0x00]"

definition raw_public_key :: "u8 list \<Rightarrow> u8 list option" where
  "raw_public_key der =
     (if length der = 44 \<and> take 12 der = ED25519_SPKI_PREFIX then Some (drop 12 der)
      else if length der = 32 then Some der
      else None)"

definition jwks_of :: "string \<Rightarrow> string" where
  "jwks_of x = ''{\"keys\":[{\"kty\":\"OKP\",\"crv\":\"Ed25519\",\"use\":\"sig\",\"kid\":\"praeco-key-1\",\"x\":\"'' @ x @ ''\"}]}''"

text \<open>What the constructor reads: the keys, and the public key file as PEM contents (\<open>None\<close>: unreadable
  or not PEM).\<close>

record ('sk, 'key) IdpLoad =
  il_load_tls :: "IdpParams \<Rightarrow> (unit, string) result"
  il_encoding_key :: "string \<Rightarrow> ('sk, string) result"
  il_decoding_keys :: "string list \<Rightarrow> ('key list, string) result"
  il_pem_contents :: "string \<Rightarrow> u8 list option"
  il_base64 :: "u8 list \<Rightarrow> string"

definition IdpService_new ::
  "('sk, 'key) IdpLoad \<Rightarrow> IdpParams \<Rightarrow> string \<Rightarrow> Instant \<Rightarrow> (('sk, 'key) IdpService \<times> SessionStore, string) result" where
  "IdpService_new load params server_name now =
     (let session_store = SessionStore_new (idp_session_ttl_seconds params) now
      in case WebhookClient_new (il_load_tls load) params of
           Err e \<Rightarrow> Err e
         | Ok webhook_client \<Rightarrow>
             (case il_encoding_key load (idp_jwt_private_key params) of
                Err e \<Rightarrow> Err e
              | Ok encoding_key \<Rightarrow>
                  (let decoding_keys =
                         (case idp_jwt_public_key params of
                            Some path \<Rightarrow> (case il_decoding_keys load [path] of Ok keys \<Rightarrow> keys | Err _ \<Rightarrow> [])
                          | None \<Rightarrow> []);
                       jwks_payload =
                         (case idp_jwt_public_key params of
                            Some path \<Rightarrow>
                              (case il_pem_contents load path of
                                 Some der \<Rightarrow> map_option (\<lambda>key. jwks_of (il_base64 load key)) (raw_public_key der)
                               | None \<Rightarrow> None)
                          | None \<Rightarrow> None)
                   in Ok (\<lparr> is_params = params, is_encoding_key = encoding_key, is_decoding_keys = decoding_keys,
                            is_server_name = server_name, is_jwks_payload = jwks_payload,
                            is_webhook_client = webhook_client \<rparr>, session_store))))"

definition response_ok :: "string \<Rightarrow> Response" where
  "response_ok body = \<lparr> resp_status = 200, resp_headers = [(''content-type'', ''application/json'')], resp_body = full_body body \<rparr>"

definition response_err :: "nat \<Rightarrow> string \<Rightarrow> Response" where
  "response_err status msg = \<lparr> resp_status = status, resp_headers = [(''content-type'', ''text/plain'')], resp_body = full_body msg \<rparr>"

text \<open>
  What a call finds outside: the libraries, the instants of the store operations, what a new session
  draws, the Unix time, a fresh token id, and the race for the cleanup of the revocation list.
\<close>

record ('sk, 'key) IdpEnv =
  ie_encode :: "string option \<Rightarrow> Claims \<Rightarrow> 'sk \<Rightarrow> string option"   \<comment> \<open>\<open>kid\<close>, claims, key\<close>
  ie_decode :: "'key decoder"
  ie_cn :: "string \<Rightarrow> string option"
  ie_webhook :: WebhookLib
  ie_login_html :: string
  ie_create :: CreateEnv
  ie_t_poll :: Instant
  ie_t_info :: Instant
  ie_t_verify :: Instant
  ie_t_confirm :: Instant
  ie_unix :: u64
  ie_uuid :: string
  ie_now_cleanup :: u64
  ie_won :: bool

definition sign_jwt :: "('sk, 'key) IdpEnv \<Rightarrow> Claims \<Rightarrow> 'sk \<Rightarrow> string option" where
  "sign_jwt env claims key = ie_encode env (Some ''praeco-key-1'') claims key"

text \<open>The claims as they are signed: the expiry set, the id assigned. \<open>usize\<close> addition wraps.\<close>

definition stamp_claims :: "('sk, 'key) IdpService \<Rightarrow> ('sk, 'key) IdpEnv \<Rightarrow> Claims \<Rightarrow> Claims" where
  "stamp_claims idp env claims =
     claims\<lparr> claim_exp := ie_unix env + idp_token_expiry_seconds (is_params idp),
             claim_jti := (case claim_jti claims of None \<Rightarrow> Some (ie_uuid env) | Some j \<Rightarrow> Some j) \<rparr>"

definition login_cookie :: "IdpParams \<Rightarrow> string \<Rightarrow> string" where
  "login_cookie params token =
     idp_cookie_name params @ ''='' @ token @ ''; HttpOnly; Secure; SameSite=Lax; Path=/; Max-Age=''
       @ show_nat (unat (idp_token_expiry_seconds params))
     @ (case idp_cookie_domain params of
          Some domain \<Rightarrow> (if starts_with ''__Host-'' (idp_cookie_name params) then [] else ''; Domain='' @ domain)
        | None \<Rightarrow> [])"

definition clear_cookie :: "IdpParams \<Rightarrow> string" where
  "clear_cookie params =
     idp_cookie_name params @ ''=; Path=/; Expires=Thu, 01 Jan 1970 00:00:00 GMT; Max-Age=0; HttpOnly; SameSite=Lax''
     @ (case idp_cookie_domain params of
          Some domain \<Rightarrow> (if \<not> starts_with ''__Host-'' (idp_cookie_name params) then ''; Domain='' @ domain else [])
        | None \<Rightarrow> [])"

datatype IdpFuture =
    Ready Response
  | WebhookWait Request Claims "string option" "string option" bool   \<comment> \<open>session, code, token endpoint\<close>
  | Panicked

text \<open>A response with a cookie: the builder fails on a value that is no header value.\<close>

definition cookie_response :: "string \<Rightarrow> string \<Rightarrow> IdpFuture" where
  "cookie_response cookie body =
     (case header_value cookie of
        Some v \<Rightarrow>
          Ready \<lparr> resp_status = 200, resp_headers = [(''set-cookie'', v), (''content-type'', ''application/json'')],
                  resp_body = full_body body \<rparr>
      | None \<Rightarrow> Panicked)"

definition generate_jwt_cookie_response :: "('sk, 'key) IdpService \<Rightarrow> ('sk, 'key) IdpEnv \<Rightarrow> Claims \<Rightarrow> IdpFuture" where
  "generate_jwt_cookie_response idp env claims =
     (case sign_jwt env (stamp_claims idp env claims) (is_encoding_key idp) of
        None \<Rightarrow> Ready (response_err 500 ''JWT Error'')
      | Some token \<Rightarrow>
          cookie_response (login_cookie (is_params idp) token)
            (''{\"status\":\"confirmed\",\"redirect\":\"'' @ idp_redirect_after_login (is_params idp) @ ''\"}''))"

text \<open>The OIDs of the webhook replace those of the certificate; a failure is refused or ignored as configured.\<close>

definition resolve_oids :: "('sk, 'key) IdpService \<Rightarrow> Claims \<Rightarrow> (string list, WebhookError) result option \<Rightarrow> Claims option" where
  "resolve_oids idp claims dynamic_oids =
     (case dynamic_oids of
        None \<Rightarrow> Some claims
      | Some (Ok oids) \<Rightarrow> Some (claims\<lparr> claim_oids := oids \<rparr>)
      | Some (Err _) \<Rightarrow> (if idp_on_webhook_failure (is_params idp) \<noteq> ''fallback_to_cert'' then None else Some claims))"

fun confirm_error_response :: "ConfirmError \<Rightarrow> Response" where
  "confirm_error_response InvalidUserCode = response_err 400 ''Invalid confirmation user code''"
| "confirm_error_response AlreadyConfirmed = response_err 409 ''Session already confirmed''"
| "confirm_error_response ConfirmNotFound = response_err 404 ''Session not found or expired''"
| "confirm_error_response ConfirmExpired = response_err 404 ''Session not found or expired''"

definition handle_auth_confirm ::
  "('sk, 'key) IdpService \<Rightarrow> ('sk, 'key) IdpEnv \<Rightarrow> string \<Rightarrow> string option \<Rightarrow> Claims
     \<Rightarrow> (string list, WebhookError) result option \<Rightarrow> SessionStore \<Rightarrow> Response \<times> SessionStore" where
  "handle_auth_confirm idp env sid user_code claims dynamic_oids st =
     (case resolve_oids idp claims dynamic_oids of
        None \<Rightarrow> (response_err 503 ''Claims resolution failed'', st)
      | Some claims' \<Rightarrow>
          (case confirm_session (ie_t_confirm env) sid user_code claims' st of
             (Ok _, st') \<Rightarrow> (response_ok ''{\"status\":\"confirmed\"}'', st')
           | (Err e, st') \<Rightarrow> (confirm_error_response e, st')))"

definition handle_auth_token ::
  "('sk, 'key) IdpService \<Rightarrow> ('sk, 'key) IdpEnv \<Rightarrow> Claims \<Rightarrow> (string list, WebhookError) result option \<Rightarrow> Response" where
  "handle_auth_token idp env claims dynamic_oids =
     (case resolve_oids idp claims dynamic_oids of
        None \<Rightarrow> response_err 503 ''Claims resolution failed''
      | Some claims' \<Rightarrow>
          (case sign_jwt env (stamp_claims idp env claims') (is_encoding_key idp) of
             Some token \<Rightarrow> response_ok (''{\"token\":\"'' @ token @ ''\"}'')
           | None \<Rightarrow> response_err 500 ''JWT Error''))"

section \<open>Requests\<close>

definition query_param :: "string \<Rightarrow> string \<Rightarrow> string option" where
  "query_param key query =
     first_some (\<lambda>kv. case split_once CHR ''='' kv of Some (k, v) \<Rightarrow> (if k = key then Some v else None) | None \<Rightarrow> None)
       (split_on CHR ''&'' query)"

definition text_header :: "string \<Rightarrow> HeaderMap \<Rightarrow> string option" where
  "text_header name headers =
     (case hm_get name headers of Some v \<Rightarrow> (if is_visible_ascii v then Some v else None) | None \<Rightarrow> None)"

definition or_else :: "'a option \<Rightarrow> 'a option \<Rightarrow> 'a option" where
  "or_else a b = (case a of Some x \<Rightarrow> Some x | None \<Rightarrow> b)"

definition first_of :: "'a list \<Rightarrow> 'a option" where
  "first_of xs = (case xs of [] \<Rightarrow> None | x # _ \<Rightarrow> Some x)"

definition query_of :: "Request \<Rightarrow> string" where
  "query_of req = (case uri_query (req_uri req) of Some q \<Rightarrow> q | None \<Rightarrow> [])"

definition device_aud :: "IdpParams \<Rightarrow> string option \<Rightarrow> string option" where
  "device_aud params requested_aud =
     or_else (case requested_aud of Some a \<Rightarrow> (if a \<in> set (idp_allowed_audiences params) then Some a else None) | None \<Rightarrow> None)
       (first_of (idp_allowed_audiences params))"

definition mtls_claims :: "('sk, 'key) IdpService \<Rightarrow> ('sk, 'key) IdpEnv \<Rightarrow> Request \<Rightarrow> Claims option" where
  "mtls_claims idp env req =
     (case ext_client_pem (req_ext req) of
        None \<Rightarrow> None
      | Some pem \<Rightarrow>
          Some \<lparr> claim_sub = (case ext_client_san (req_ext req) of
                               Some san \<Rightarrow> san
                             | None \<Rightarrow> (case ie_cn env pem of Some cn \<Rightarrow> cn | None \<Rightarrow> ''device'')),
                 claim_iss = idp_issuer (is_params idp),
                 claim_aud = device_aud (is_params idp) (query_param ''aud'' (query_of req)),
                 claim_exp = 0,
                 claim_oids = (case ext_client_oids (req_ext req) of Some oids \<Rightarrow> oids | None \<Rightarrow> []),
                 claim_jti = None \<rparr>)"

definition idp_jwks :: "('sk, 'key) IdpService \<Rightarrow> Response" where
  "idp_jwks idp =
     (case is_jwks_payload idp of
        Some jwks \<Rightarrow> \<lparr> resp_status = 200, resp_headers = [(''content-type'', ''application/jwk-set+json'')], resp_body = full_body jwks \<rparr>
      | None \<Rightarrow> response_err 404 ''JWKS not configured'')"

definition idp_login_page :: "('sk, 'key) IdpEnv \<Rightarrow> Response" where
  "idp_login_page env =
     \<lparr> resp_status = 200,
       resp_headers = [(''content-type'', ''text/html; charset=utf-8''), (''cache-control'', ''no-store, no-cache, must-revalidate'')],
       resp_body = full_body (ie_login_html env) \<rparr>"

definition idp_login ::
  "('sk, 'key) IdpService \<Rightarrow> ('sk, 'key) IdpEnv \<Rightarrow> Request \<Rightarrow> SessionStore \<Rightarrow> Response \<times> SessionStore" where
  "idp_login idp env req st =
     (let requested_aud = query_param ''aud'' (query_of req);
          allowed = idp_allowed_audiences (is_params idp)
      in if (case requested_aud of Some a \<Rightarrow> allowed \<noteq> [] \<and> a \<notin> set allowed | None \<Rightarrow> False)
         then (response_err 400 ''Requested audience is not in allowed_audiences'', st)
         else
           (case create_session (ie_create env) (map_option socket_ip (ext_socket_addr (req_ext req)))
                   (or_else requested_aud (first_of allowed)) st of
              (Ok info, st') \<Rightarrow>
                (response_ok (''{\"session\":\"'' @ si_session_id info @ ''\",\"poll_secret\":\"'' @ si_poll_secret info
                   @ ''\",\"user_code\":\"'' @ si_user_code info @ ''\"}''), st')
            | (Err RateLimited, st') \<Rightarrow>
                (response_err 429 ''Rate limit exceeded. Please wait before creating a new login session.'', st')
            | (Err CapacityExceeded, st') \<Rightarrow> (response_err 503 ''Server busy: maximum active sessions reached.'', st')))"

definition idp_status ::
  "('sk, 'key) IdpService \<Rightarrow> ('sk, 'key) IdpEnv \<Rightarrow> Request \<Rightarrow> SessionStore \<Rightarrow> IdpFuture \<times> SessionStore" where
  "idp_status idp env req st =
     (case query_param ''session'' (query_of req) of
        None \<Rightarrow> (Ready (response_err 400 ''Missing session parameter''), st)
      | Some sid \<Rightarrow>
          (case or_else (query_param ''poll_secret'' (query_of req)) (text_header ''x-poll-secret'' (req_headers req)) of
             None \<Rightarrow> (Ready (response_err 401 ''Missing poll_secret parameter or X-Poll-Secret header''), st)
           | Some secret \<Rightarrow>
               (case get_and_consume (ie_t_poll env) sid secret st of
                  (Ok Pending, st') \<Rightarrow> (Ready (response_ok ''{\"status\":\"pending\"}''), st')
                | (Ok (Confirmed claims), st') \<Rightarrow> (generate_jwt_cookie_response idp env claims, st')
                | (Err PollUnauthorized, st') \<Rightarrow> (Ready (response_err 401 ''Invalid poll secret''), st')
                | (Err PollNotFound, st') \<Rightarrow> (Ready (response_err 404 ''Session not found or expired''), st'))))"

definition idp_session_info :: "('sk, 'key) IdpEnv \<Rightarrow> Request \<Rightarrow> SessionStore \<Rightarrow> Response" where
  "idp_session_info env req st =
     (case query_param ''session'' (query_of req) of
        None \<Rightarrow> response_err 400 ''Missing session parameter''
      | Some sid \<Rightarrow>
          (case get_session_user_code (ie_t_info env) sid st of
             Some code \<Rightarrow> response_ok (''{\"user_code\":\"'' @ code @ ''\"}'')
           | None \<Rightarrow> response_err 404 ''Session not found or expired''))"

definition user_code_of :: "Request \<Rightarrow> string option" where
  "user_code_of req = or_else (query_param ''code'' (query_of req)) (text_header ''x-user-code'' (req_headers req))"

definition idp_confirm ::
  "('sk, 'key) IdpService \<Rightarrow> ('sk, 'key) IdpEnv \<Rightarrow> Request \<Rightarrow> SessionStore \<Rightarrow> IdpFuture \<times> SessionStore" where
  "idp_confirm idp env req st =
     (case query_param ''session'' (query_of req) of
        None \<Rightarrow> (Ready (response_err 400 ''Missing session parameter''), st)
      | Some sid \<Rightarrow>
          (case mtls_claims idp env req of
             None \<Rightarrow> (Ready (response_err 401 ''mTLS required to confirm session''), st)
           | Some claims \<Rightarrow>
               (case verify_session_code (ie_t_verify env) sid (user_code_of req) st of
                  (Err e, st') \<Rightarrow> (Ready (confirm_error_response e), st')
                | (Ok _, st') \<Rightarrow>
                    (case is_webhook_client idp of
                       Some wh \<Rightarrow>
                         (case fetch_claims (ie_webhook env) wh (claim_sub claims) (claim_oids claims) of
                            Ok wreq \<Rightarrow> (WebhookWait wreq claims (Some sid) (user_code_of req) False, st')
                          | Err e \<Rightarrow> apfst Ready (handle_auth_confirm idp env sid (user_code_of req) claims (Some (Err e)) st'))
                     | None \<Rightarrow> apfst Ready (handle_auth_confirm idp env sid (user_code_of req) claims None st')))))"

definition idp_token :: "('sk, 'key) IdpService \<Rightarrow> ('sk, 'key) IdpEnv \<Rightarrow> Request \<Rightarrow> IdpFuture" where
  "idp_token idp env req =
     (case mtls_claims idp env req of
        None \<Rightarrow> Ready (response_err 401 ''mTLS required'')
      | Some claims \<Rightarrow>
          (case is_webhook_client idp of
             Some wh \<Rightarrow>
               (case fetch_claims (ie_webhook env) wh (claim_sub claims) (claim_oids claims) of
                  Ok wreq \<Rightarrow> WebhookWait wreq claims None None True
                | Err e \<Rightarrow> Ready (handle_auth_token idp env claims (Some (Err e))))
           | None \<Rightarrow> Ready (handle_auth_token idp env claims None)))"

section \<open>Revocation\<close>

definition revoke_cookie :: "string \<Rightarrow> HeaderMap \<Rightarrow> string option" where
  "revoke_cookie cookie_name headers =
     first_some
       (\<lambda>v. if is_visible_ascii v
            then first_some (\<lambda>c. strip_prefix (cookie_name @ ''='') (trim c)) (split_on CHR '';'' v)
            else None)
       (hm_get_all ''cookie'' headers)"

definition revoke_validation :: Validation where
  "revoke_validation =
     \<lparr> val_iss = None, val_aud = None, val_validate_aud = False, val_validate_exp = False, val_leeway = 60 \<rparr>"

text \<open>The loop over the keys stops at the first key that decodes the token to claims with an id.\<close>

fun revocable :: "('sk, 'key) IdpEnv \<Rightarrow> string \<Rightarrow> 'key list \<Rightarrow> (string \<times> Claims) option" where
  "revocable env token [] = None"
| "revocable env token (key # keys) =
     (case ie_decode env token key revoke_validation (ie_unix env) of
        Some claims \<Rightarrow> (case claim_jti claims of Some jti \<Rightarrow> Some (jti, claims) | None \<Rightarrow> revocable env token keys)
      | None \<Rightarrow> revocable env token keys)"

definition env_revoke :: "('sk, 'key) IdpEnv \<Rightarrow> string \<Rightarrow> u64 \<Rightarrow> JwtRevocationStore \<Rightarrow> JwtRevocationStore" where
  "env_revoke env jti exp rv = revoke (ie_unix env) (ie_now_cleanup env) (ie_won env) jti exp rv"

definition revoke_token ::
  "('sk, 'key) IdpService \<Rightarrow> ('sk, 'key) IdpEnv \<Rightarrow> Request \<Rightarrow> JwtRevocationStore \<Rightarrow> bool \<times> JwtRevocationStore" where
  "revoke_token idp env req rv =
     (case or_else (bearer_token (req_headers req)) (revoke_cookie (idp_cookie_name (is_params idp)) (req_headers req)) of
        None \<Rightarrow> (False, rv)
      | Some token \<Rightarrow>
          (case revocable env token (is_decoding_keys idp) of
             None \<Rightarrow> (False, rv)
           | Some (jti, claims) \<Rightarrow>
               (True, env_revoke env jti
                  (if claim_exp claims > 0 then claim_exp claims else ie_unix env + idp_token_expiry_seconds (is_params idp)) rv)))"

definition idp_revoke ::
  "('sk, 'key) IdpService \<Rightarrow> ('sk, 'key) IdpEnv \<Rightarrow> Request \<Rightarrow> JwtRevocationStore \<Rightarrow> IdpFuture \<times> JwtRevocationStore" where
  "idp_revoke idp env req rv =
     (case revoke_token idp env req rv of
        (revoked_any, rv1) \<Rightarrow>
          (let finish = (\<lambda>revoked_any rv'.
                 (cookie_response (clear_cookie (is_params idp))
                    (if revoked_any then ''{\"status\":\"revoked\"}'' else ''{\"status\":\"cleared\"}''), rv'))
           in case query_param ''jti'' (query_of req) of
                None \<Rightarrow> finish revoked_any rv1
              | Some jti \<Rightarrow>
                  (if mtls_claims idp env req = None
                   then (Ready (response_err 401 ''Unauthorized: mTLS required to revoke explicit JTI''), rv1)
                   else if jti \<noteq> [] \<and> length jti \<le> 256
                   then finish True (env_revoke env jti (ie_unix env + idp_token_expiry_seconds (is_params idp)) rv1)
                   else finish revoked_any rv1)))"

section \<open>The service call\<close>

type_synonym idp_state = "SessionStore \<times> JwtRevocationStore"

definition idp_call ::
  "('sk, 'key) IdpService \<Rightarrow> ('sk, 'key) IdpEnv \<Rightarrow> Request \<Rightarrow> idp_state \<Rightarrow> IdpFuture \<times> idp_state" where
  "idp_call idp env req s =
     (case s of (st, rv) \<Rightarrow>
       (let path = uri_path (req_uri req); meth = req_method req
        in if meth = ''GET'' \<and> path = ''/.well-known/jwks.json'' then (Ready (idp_jwks idp), s)
           else if meth = ''GET'' \<and> path = ''/auth/login_page'' then (Ready (idp_login_page env), s)
           else if meth = ''POST'' \<and> path = ''/auth/login''
           then (case idp_login idp env req st of (resp, st') \<Rightarrow> (Ready resp, st', rv))
           else if meth = ''GET'' \<and> path = ''/auth/status''
           then (case idp_status idp env req st of (fut, st') \<Rightarrow> (fut, st', rv))
           else if meth = ''GET'' \<and> path = ''/auth/session_info'' then (Ready (idp_session_info env req st), s)
           else if meth = ''POST'' \<and> path = ''/auth/confirm''
           then (case idp_confirm idp env req st of (fut, st') \<Rightarrow> (fut, st', rv))
           else if meth = ''POST'' \<and> path = ''/auth/token'' then (idp_token idp env req, s)
           else if meth = ''POST'' \<and> path = ''/auth/revoke''
           then (case idp_revoke idp env req rv of (fut, rv') \<Rightarrow> (fut, st, rv'))
           else (Ready (response_err 404 ''Not Found''), s)))"

text \<open>\<open>IdpFuture::poll\<close> once the webhook has answered; a waiting confirmation always has its session.\<close>

definition idp_future_poll ::
  "('sk, 'key) IdpService \<Rightarrow> ('sk, 'key) IdpEnv \<Rightarrow> (string list, WebhookError) result \<Rightarrow> IdpFuture \<Rightarrow> SessionStore
     \<Rightarrow> Response option \<times> SessionStore" where
  "idp_future_poll idp env dynamic_oids fut st =
     (case fut of
        Ready resp \<Rightarrow> (Some resp, st)
      | WebhookWait _ claims sid code is_token_endpoint \<Rightarrow>
          (if is_token_endpoint then (Some (handle_auth_token idp env claims (Some dynamic_oids)), st)
           else (case sid of
                   Some sid \<Rightarrow> apfst Some (handle_auth_confirm idp env sid code claims (Some dynamic_oids) st)
                 | None \<Rightarrow> (None, st)))
      | Panicked \<Rightarrow> (None, st))"

section \<open>Confirmation needs a certificate\<close>

text \<open>What an operation may add to the confirmed sessions of a store.\<close>

definition confirms_only :: "(string \<Rightarrow> SessionEntry \<Rightarrow> Claims \<Rightarrow> bool) \<Rightarrow> SessionStore \<Rightarrow> SessionStore \<Rightarrow> bool" where
  "confirms_only P st st' \<longleftrightarrow>
     (\<forall>sid e c. dm_get (ss_sessions st') sid = Some e \<and> sn_status e = Confirmed c \<longrightarrow>
        (\<exists>e0. dm_get (ss_sessions st) sid = Some e0 \<and> sn_status e0 = Confirmed c) \<or> P sid e c)"

lemma confirms_keeps: "keeps st st' \<Longrightarrow> dm_wf (ss_sessions st) \<Longrightarrow> confirms_only P st st'"
  unfolding keeps_def confirms_only_def by fastforce

lemma confirms_after_keeps:
  assumes "keeps st st1" "dm_wf (ss_sessions st)" "confirms_only P st1 st2"
  shows "confirms_only P st st2"
proof -
  have "confirms_only (\<lambda>_ _ _. False) st st1" using confirms_keeps assms(1,2) .
  then show ?thesis using assms(3) unfolding confirms_only_def by meson
qed

lemma apfst_eqD: "apfst f p = (a, b) \<Longrightarrow> b = snd p"
  by (cases p) simp

lemma confirms_refl: "confirms_only P st st"
  unfolding confirms_only_def by blast

lemma confirms_same_sessions: "ss_sessions st' = ss_sessions st \<Longrightarrow> confirms_only P st st'"
  by (simp add: confirms_only_def)

lemma keeps_wf: "keeps st st' \<Longrightarrow> dm_wf (ss_sessions st) \<Longrightarrow> dm_wf (ss_sessions st')"
  by (simp add: keeps_def)

lemma keeps_trans: "keeps st st1 \<Longrightarrow> keeps st1 st2 \<Longrightarrow> keeps st st2"
  unfolding keeps_def by fastforce

lemma keeps_refl: "keeps st st"
  by (simp add: keeps_def)

lemma keeps_same_sessions: "ss_sessions st' = ss_sessions st \<Longrightarrow> keeps st st'"
  by (simp add: keeps_def)

lemma keeps_maybe_cleanup: "keeps st (maybe_cleanup_expired env st)"
  using keeps_trans [OF keeps_same_sessions keeps_force, of "st\<lparr> ss_last_cleanup := cs_t_cleanup env \<rparr>" st "cs_t_cleanup env"]
  by (simp add: maybe_cleanup_expired_def keeps_refl)

lemma keeps_rate_check: "keeps st (snd (rate_check env ip st))"
proof -
  have "keeps st (s\<lparr> ss_ip_rate_limits := m \<rparr>)" if "keeps st s" for s m
    by (rule keeps_trans [OF that keeps_same_sessions]) simp
  then show ?thesis
    by (simp add: rate_check_def Let_def case_prod_beta keeps_refl keeps_force split: option.splits)
qed

lemma confirms_create:
  assumes "dm_wf (ss_sessions st)"
  shows "confirms_only P st (snd (create_session env ip aud st))"
proof -
  define st1 where "st1 = snd (rate_check env (map_option canonical_client_ip ip) (maybe_cleanup_expired env st))"
  have k: "keeps st st1" unfolding st1_def by (rule keeps_trans [OF keeps_maybe_cleanup keeps_rate_check])
  have k2: "keeps st (cleanup_expired_force t st1)" for t by (rule keeps_trans [OF k keeps_force])
  have ins: "confirms_only P st (snd (insert_session env aud a s))" if "keeps st s" for s a
  proof (rule confirms_after_keeps [OF that assms])
    show "confirms_only P s (snd (insert_session env aud a s))"
      by (auto simp: confirms_only_def insert_session_def new_entry_def Let_def dm.get_insert split: if_splits)
  qed
  show ?thesis
    using confirms_keeps [OF k assms] confirms_keeps [OF k2 assms] ins [OF k] ins [OF k2]
    by (auto simp: create_session_def Let_def st1_def case_prod_beta split: result.splits)
qed

lemma keeps_verify_session_code: "keeps st (snd (verify_session_code now sid code st))"
proof -
  obtain r st1 where v: "verify_check now sid code st = (r, st1)" by fastforce
  show ?thesis
    using keeps_verify [OF v] keeps_trans [OF keeps_verify [OF v] keeps_remove]
    by (simp add: verify_session_code_def v split: VerifyOutcome.splits)
qed

lemma keeps_poll: "keeps st (snd (get_and_consume now sid secret st))"
  by (auto simp: get_and_consume_def poll_take_def keeps_refl keeps_remove
      split: PollOutcome.splits option.splits SessionStatus.splits prod.splits)

lemma verify_ok_matches:
  assumes "verify_session_code now sid code st = (Ok u, st')"
  shows "st' = st \<and> (\<exists>e. dm_get (ss_sessions st) sid = Some e \<and> code_matches code e)"
  using assms
  by (auto simp: verify_session_code_def verify_check_def Let_def split: option.splits if_splits VerifyOutcome.splits prod.splits)

lemma confirms_attach:
  assumes "dm_get (ss_sessions st) sid = Some e0" "code_matches code e0"
    "\<And>e. dm_get (ss_sessions st) sid = Some e0 \<Longrightarrow> code_matches code e \<Longrightarrow> P sid e (with_aud (sn_aud e) claims)"
  shows "confirms_only P st (snd (confirm_attach sid claims st))"
proof -
  have "code_matches code (e0\<lparr> sn_status := s \<rparr>)" for s
    using assms(2) by (simp add: code_matches_def split: option.splits)
  from assms(3) [OF assms(1) this] have "P sid (e0\<lparr> sn_status := s \<rparr>) (with_aud (sn_aud e0) claims)" for s
    by simp
  then show ?thesis
    using assms(1) by (auto simp: confirms_only_def confirm_attach_def dm.get_insert split: if_splits)
qed

lemma confirms_confirm:
  assumes "dm_wf (ss_sessions st)" "\<And>e. code_matches code e \<Longrightarrow> P sid e (with_aud (sn_aud e) claims)"
  shows "confirms_only P st (snd (confirm_session now sid code claims st))"
proof (cases "verify_session_code now sid code st")
  case (Pair r st1)
  show ?thesis
  proof (cases r)
    case (Err e)
    have "keeps st st1" using keeps_verify_session_code [of st now sid code] Pair by simp
    then show ?thesis using Pair Err confirms_keeps [OF _ assms(1)] by (simp add: confirm_session_def)
  next
    case (Ok u)
    from verify_ok_matches [OF Pair [unfolded Ok]] obtain e0
      where "st1 = st" "dm_get (ss_sessions st) sid = Some e0" "code_matches code e0" by blast
    then show ?thesis using Pair Ok confirms_attach [of st sid e0 code P claims] assms(2) by (simp add: confirm_session_def)
  qed
qed

text \<open>A session confirmed by a request of a device: its claims are those of the certificate, with the OIDs
  of the webhook if there is one, and the request sent the code of the session.\<close>

definition by_certificate ::
  "('sk, 'key) IdpService \<Rightarrow> ('sk, 'key) IdpEnv \<Rightarrow> Request \<Rightarrow> string \<Rightarrow> SessionEntry \<Rightarrow> Claims \<Rightarrow> bool" where
  "by_certificate idp env req sid e c \<longleftrightarrow>
     query_param ''session'' (query_of req) = Some sid \<and> code_matches (user_code_of req) e
     \<and> (\<exists>cert oids. mtls_claims idp env req = Some cert \<and> c = with_aud (sn_aud e) (cert\<lparr> claim_oids := oids \<rparr>))"

lemma resolve_oidsD: "resolve_oids idp cert dyn = Some c \<Longrightarrow> \<exists>oids. c = cert\<lparr> claim_oids := oids \<rparr>"
  by (auto simp: resolve_oids_def split: option.splits result.splits if_splits intro: exI [of _ "claim_oids cert"])

lemma confirms_auth_confirm:
  assumes "dm_wf (ss_sessions st)" "query_param ''session'' (query_of req) = Some sid" "mtls_claims idp env req = Some cert"
  shows "confirms_only (by_certificate idp env req) st (snd (handle_auth_confirm idp env2 sid (user_code_of req) cert dyn st))"
proof (cases "resolve_oids idp cert dyn")
  case None
  then show ?thesis by (simp add: handle_auth_confirm_def confirms_refl)
next
  case (Some c)
  then obtain oids where "c = cert\<lparr> claim_oids := oids \<rparr>" using resolve_oidsD by blast
  then have "confirms_only (by_certificate idp env req) st (snd (confirm_session (ie_t_confirm env2) sid (user_code_of req) c st))"
    using assms by (intro confirms_confirm) (auto simp: by_certificate_def)
  then show ?thesis using Some by (auto simp: handle_auth_confirm_def split: prod.splits result.splits)
qed

lemma confirms_idp_confirm:
  assumes "dm_wf (ss_sessions st)"
  shows "confirms_only (by_certificate idp env req) st (snd (idp_confirm idp env req st))"
proof (cases "query_param ''session'' (query_of req)")
  case None
  then show ?thesis by (simp add: idp_confirm_def confirms_refl)
next
  case sid: (Some sid)
  show ?thesis
  proof (cases "mtls_claims idp env req")
    case None
    then show ?thesis using sid by (simp add: idp_confirm_def confirms_refl)
  next
    case cert: (Some cert)
    obtain r st1 where v: "verify_session_code (ie_t_verify env) sid (user_code_of req) st = (r, st1)" by fastforce
    then have k: "keeps st st1" using keeps_verify_session_code [of st "ie_t_verify env" sid "user_code_of req"] by simp
    note step = confirms_after_keeps [OF k assms confirms_auth_confirm [OF keeps_wf [OF k assms] sid cert]]
    show ?thesis
      using confirms_keeps [OF k assms] step sid cert v by (simp add: idp_confirm_def split: result.splits option.splits)
  qed
qed


section \<open>The webhook\<close>

text \<open>An answer of the webhook that gives no OIDs.\<close>

definition webhook_failed :: "WebhookLib \<Rightarrow> bool \<Rightarrow> (Response, string) result \<Rightarrow> bool" where
  "webhook_failed lib elapsed answer \<longleftrightarrow>
     elapsed \<or> (case answer of
        Err _ \<Rightarrow> True
      | Ok resp \<Rightarrow> \<not> is_success (resp_status resp) \<or> length (body_bytes (resp_body resp)) > MAX_WEBHOOK_BODY_SIZE)"

text \<open>
  A webhook that is configured must answer: unless the configuration falls back to the certificate, a
  timeout, a failed request, a status that is no success or a body beyond the limit issues no token and
  confirms no session. The limited body of \<open>http_body_util\<close> is assumed to fail beyond its limit.
\<close>

theorem webhook_fails_closed:
  assumes "\<forall>limit body. length (body_bytes body) > limit \<longrightarrow> \<not> is_ok (wl_collect lib limit body)"
    and "webhook_failed lib elapsed answer" "idp_on_webhook_failure (is_params idp) \<noteq> ''fallback_to_cert''"
  shows "idp_future_poll idp env (webhook_timed lib elapsed answer) (WebhookWait wreq claims (Some sid) code tok) st
    = (Some (response_err 503 ''Claims resolution failed''), st)"
proof -
  have small: "length (body_bytes body) \<le> MAX_WEBHOOK_BODY_SIZE" if "wl_collect lib MAX_WEBHOOK_BODY_SIZE body = Ok bytes" for body bytes
    using assms(1) [THEN spec, of MAX_WEBHOOK_BODY_SIZE, THEN spec, of body] that by auto
  have "\<not> is_ok (webhook_timed lib elapsed answer)"
    using assms(2)
    by (cases answer) (auto simp: webhook_failed_def webhook_timed_def webhook_work_def dest: small split: result.splits)
  then obtain e where "webhook_timed lib elapsed answer = Err e" by (cases "webhook_timed lib elapsed answer") auto
  then show ?thesis
    using assms(3) by (simp add: idp_future_poll_def handle_auth_token_def handle_auth_confirm_def resolve_oids_def)
qed

text \<open>
  The check that plain HTTP is used for the local host only compares a prefix of the URL: hosts whose
  names merely begin like the local one pass it, and the OIDs then travel in clear text.
\<close>

theorem webhook_url_prefix_gap:
  "webhook_url_ok ''http://localhost.example.com/claims'' \<and> webhook_url_ok ''http://127.0.0.1.example.com/claims''
   \<and> \<not> webhook_url_ok ''http://example.com/claims''"
  by code_simp

section \<open>Audiences and cookies\<close>

text \<open>
  With an audience list, a login is refused unless it asks for one of the list. With an empty list every
  audience is accepted and becomes the audience of the session, hence of the token.
\<close>

theorem login_audience:
  assumes "query_param ''aud'' (query_of req) = Some a" "is_ok (fst (create_session (ie_create env) (map_option socket_ip (ext_socket_addr (req_ext req))) (Some a) st))"
  shows "if idp_allowed_audiences (is_params idp) \<noteq> [] \<and> a \<notin> set (idp_allowed_audiences (is_params idp))
    then idp_login idp env req st = (response_err 400 ''Requested audience is not in allowed_audiences'', st)
    else resp_status (fst (idp_login idp env req st)) = 200
      \<and> (\<exists>e. dm_get (ss_sessions (snd (idp_login idp env req st))) (cs_session_id (ie_create env)) = Some e \<and> sn_aud e = Some a)"
proof -
  let ?c = "create_session (ie_create env) (map_option socket_ip (ext_socket_addr (req_ext req))) (Some a) st"
  have "\<exists>e. dm_get (ss_sessions (snd ?c)) (cs_session_id (ie_create env)) = Some e \<and> sn_aud e = Some a"
    using assms(2)
    by (auto simp: create_session_def Let_def insert_session_def new_entry_def dm.get_insert split: prod.splits result.splits if_splits)
  moreover obtain info st' where "?c = (Ok info, st')" using assms(2) by (cases ?c; cases "fst ?c") auto
  ultimately show ?thesis
    using assms(1) by (simp add: idp_login_def Let_def or_else_def response_ok_def)
qed

text \<open>
  Browsers accept a cookie with the prefix \<open>__Host-\<close> only if it is marked \<open>Secure\<close>, has the path \<open>/\<close> and
  no domain (RFC 6265bis).
\<close>

definition cookie_attrs :: "string \<Rightarrow> string list" where
  "cookie_attrs cookie = map trim (tl (split_on CHR '';'' cookie))"

definition browser_accepts :: "string \<Rightarrow> bool" where
  "browser_accepts cookie \<longleftrightarrow>
     (starts_with ''__Host-'' cookie \<longrightarrow>
        ''Secure'' \<in> set (cookie_attrs cookie) \<and> ''Path=/'' \<in> set (cookie_attrs cookie)
        \<and> list_all (\<lambda>a. \<not> starts_with ''Domain='' a) (cookie_attrs cookie))"

lemma split_semi:
  "split_on CHR '';'' ''; HttpOnly; Secure; SameSite=Lax; Path=/; Max-Age='' =
     [[], '' HttpOnly'', '' Secure'', '' SameSite=Lax'', '' Path=/'', '' Max-Age='']"
  "split_on CHR '';'' ''=; Path=/; Expires=Thu, 01 Jan 1970 00:00:00 GMT; Max-Age=0; HttpOnly; SameSite=Lax'' =
     [''='', '' Path=/'', '' Expires=Thu, 01 Jan 1970 00:00:00 GMT'', '' Max-Age=0'', '' HttpOnly'', '' SameSite=Lax'']"
  by (code_simp, code_simp)

lemma trimmed_attrs:
  "map trim ['' HttpOnly'', '' Secure'', '' SameSite=Lax'', '' Path=/''] = [''HttpOnly'', ''Secure'', ''SameSite=Lax'', ''Path=/'']"
  "map trim ['' Path=/'', '' Expires=Thu, 01 Jan 1970 00:00:00 GMT'', '' Max-Age=0'', '' HttpOnly'', '' SameSite=Lax'']
     = [''Path=/'', ''Expires=Thu, 01 Jan 1970 00:00:00 GMT'', ''Max-Age=0'', ''HttpOnly'', ''SameSite=Lax'']"
  by (code_simp, code_simp)

lemma split_on_mid: "d \<notin> set w \<Longrightarrow> split_on d (w @ s) = (w @ hd (split_on d s)) # tl (split_on d s)"
  by (induction w) (auto split: list.splits)

lemma split_on_tail: "d \<notin> set t \<Longrightarrow> split_on d (s @ t) = butlast (split_on d s) @ [last (split_on d s) @ t]"
  by (induction s) (auto simp: split_on_id split: list.splits)

definition plain_char :: "char \<Rightarrow> bool" where
  "plain_char c \<longleftrightarrow> 33 \<le> byte_of c \<and> byte_of c < 127 \<and> byte_of c \<noteq> 59"

lemma trim_start_plain: "plain_char c \<Longrightarrow> trim_start (c # s) = c # s"
  by (subst trim_start.simps) (auto simp: plain_char_def is_ascii_ws_def is_wide_ws_def split: list.splits)

lemma trim_rev_plain: "plain_char c \<Longrightarrow> trim_start_rev (c # s) = c # s"
  by (subst trim_start_rev.simps) (auto simp: plain_char_def is_ascii_ws_def is_wide_ws_def split: list.splits)

lemma trim_plain:
  assumes "list_all plain_char s"
  shows "trim s = s"
proof (cases s rule: rev_cases)
  case Nil
  then show ?thesis by (simp add: trim_def trim_start.simps trim_start_rev.simps)
next
  case (snoc t z)
  have "trim_start s = s" using assms by (cases s) (simp_all add: trim_start_plain trim_start.simps [of "[]"])
  then show ?thesis using assms trim_rev_plain [of z "rev t"] by (simp add: trim_def snoc)
qed

lemma trim_space: "trim (CHR '' '' # s) = trim s"
  by (simp add: trim_def trim_start.simps [of "CHR '' '' # s"] is_ascii_ws_def)

lemma show_nat_plain_chars: "list_all plain_char (show_nat n)"
  unfolding show_nat_def
proof (induction "10 :: nat" n rule: show_radix.induct)
  case (1 n)
  have "plain_char (digit_char d)" if "d < 10" for d
    using that by (simp add: plain_char_def)
  then show ?case using 1 by (simp add: show_radix.simps [of 10 n])
qed


definition host_name :: "IdpParams \<Rightarrow> bool" where
  "host_name params \<longleftrightarrow> starts_with ''__Host-'' (idp_cookie_name params) \<and> list_all plain_char (idp_cookie_name params)"

lemma plain_no_semi: "list_all plain_char w \<Longrightarrow> CHR '';'' \<notin> set w"
  by (auto simp: list_all_iff plain_char_def)

lemma max_age_attr: "trim ('' Max-Age='' @ show_nat n) = ''Max-Age='' @ show_nat n"
proof -
  have "list_all plain_char (''Max-Age='' @ show_nat n)"
    unfolding list_all_append by (intro conjI show_nat_plain_chars) code_simp
  then show ?thesis using trim_space [of "''Max-Age='' @ show_nat n"] trim_plain by simp
qed

lemma login_cookie_attrs:
  assumes "host_name params" "list_all plain_char token"
  shows "cookie_attrs (login_cookie params token)
    = [''HttpOnly'', ''Secure'', ''SameSite=Lax'', ''Path=/'', ''Max-Age='' @ show_nat (unat (idp_token_expiry_seconds params))]"
proof -
  let ?w = "idp_cookie_name params @ ''='' @ token" and ?n = "show_nat (unat (idp_token_expiry_seconds params))"
  have w: "CHR '';'' \<notin> set ?w" using assms plain_no_semi by (simp add: host_name_def)
  have n: "CHR '';'' \<notin> set ?n" by (rule plain_no_semi [OF show_nat_plain_chars])
  have "login_cookie params token = ?w @ (''; HttpOnly; Secure; SameSite=Lax; Path=/; Max-Age='' @ ?n)"
    using assms(1) by (simp add: login_cookie_def host_name_def split: option.splits)
  then have "tl (split_on CHR '';'' (login_cookie params token))
     = ['' HttpOnly'', '' Secure'', '' SameSite=Lax'', '' Path=/''] @ ['' Max-Age='' @ ?n]"
    by (simp only: split_on_mid [OF w] split_on_tail [OF n] split_semi) simp
  then have "cookie_attrs (login_cookie params token)
     = map trim ['' HttpOnly'', '' Secure'', '' SameSite=Lax'', '' Path=/''] @ [trim ('' Max-Age='' @ ?n)]"
    by (simp add: cookie_attrs_def)
  then show ?thesis unfolding trimmed_attrs max_age_attr by simp
qed

lemma clear_cookie_attrs:
  assumes "host_name params"
  shows "cookie_attrs (clear_cookie params)
    = [''Path=/'', ''Expires=Thu, 01 Jan 1970 00:00:00 GMT'', ''Max-Age=0'', ''HttpOnly'', ''SameSite=Lax'']"
proof -
  have w: "CHR '';'' \<notin> set (idp_cookie_name params)" using assms plain_no_semi by (simp add: host_name_def)
  have "clear_cookie params = idp_cookie_name params @ ''=; Path=/; Expires=Thu, 01 Jan 1970 00:00:00 GMT; Max-Age=0; HttpOnly; SameSite=Lax''"
    using assms by (simp add: clear_cookie_def host_name_def split: option.splits)
  then show ?thesis
    unfolding cookie_attrs_def by (simp only: split_on_mid [OF w] split_semi list.sel trimmed_attrs)
qed

text \<open>
  For a cookie name with the prefix \<open>__Host-\<close>, the default, the cookie of a login meets the rules of the
  prefix whatever domain is configured. The cookie with which a revocation clears it does not: it lacks
  \<open>Secure\<close>, so browsers ignore it and keep the token.
\<close>

theorem host_cookie_login_and_clear:
  assumes "host_name params" "list_all plain_char token"
  shows "browser_accepts (login_cookie params token) \<and> \<not> browser_accepts (clear_cookie params)"
proof -
  have "starts_with ''__Host-'' (clear_cookie params)"
    using assms(1) unfolding host_name_def starts_with_iff clear_cookie_def by force
  moreover have "\<not> starts_with ''Domain='' (''Max-Age='' @ t)" for t by simp
  ultimately show ?thesis
    unfolding browser_accepts_def login_cookie_attrs [OF assms] clear_cookie_attrs [OF assms(1)] by simp
qed


section \<open>Examples\<close>

text \<open>A library that signs and accepts one token, for the claims of one device.\<close>

definition demo_cert_claims :: Claims where
  "demo_cert_claims =
     \<lparr> claim_sub = ''dev.example'', claim_iss = ''praeco'', claim_aud = Some ''app'', claim_exp = 0, claim_oids = [''1''], claim_jti = None \<rparr>"

definition demo_issued :: Claims where
  "demo_issued = demo_cert_claims\<lparr> claim_exp := 4600, claim_jti := Some ''u1'' \<rparr>"

definition demo_encode :: "string option \<Rightarrow> Claims \<Rightarrow> nat \<Rightarrow> string option" where
  "demo_encode kid claims key = (if claims = demo_issued \<and> key = 7 then Some ''h.p.s'' else None)"

definition demo_decode_issued :: "nat decoder" where
  "demo_decode_issued token key validation now =
     (if token = ''h.p.s'' \<and> key = 7
         \<and> (case val_iss validation of None \<Rightarrow> True | Some l \<Rightarrow> ''praeco'' \<in> set l)
         \<and> (val_validate_aud validation \<longrightarrow> (case val_aud validation of None \<Rightarrow> False | Some l \<Rightarrow> ''app'' \<in> set l))
         \<and> (val_validate_exp validation \<longrightarrow> now \<le> 4600)
      then Some demo_issued else None)"

definition demo_idp_params :: IdpParams where
  "demo_idp_params =
     \<lparr> idp_jwt_private_key = ''k.pem'', idp_token_expiry_seconds = 3600, idp_session_ttl_seconds = 120, idp_cookie_name = ''__Host-jwt'',
       idp_cookie_domain = None, idp_redirect_after_login = ''/'', idp_debug_show_session_id = None, idp_issuer = ''praeco'',
       idp_allowed_audiences = [''app''], idp_jwt_public_key = None, idp_claims_webhook_url = None, idp_claims_webhook_timeout_ms = 1000,
       idp_on_webhook_failure = ''reject'', idp_claims_webhook_client_cert = None, idp_claims_webhook_client_key = None,
       idp_claims_webhook_ca_cert = None \<rparr>"

definition demo_idp :: "(nat, nat) IdpService" where
  "demo_idp =
     \<lparr> is_params = demo_idp_params, is_encoding_key = 7, is_decoding_keys = [7], is_server_name = ''idp'', is_jwks_payload = None,
       is_webhook_client = None \<rparr>"

definition demo_webhook_lib :: WebhookLib where
  "demo_webhook_lib =
     \<lparr> wl_to_vec = (\<lambda>_ _. Ok []), wl_parse_uri = (\<lambda>u. Ok \<lparr> uri_scheme = None, uri_authority = None, uri_path = u, uri_query = None \<rparr>),
       wl_collect = (\<lambda>limit body. if length (body_bytes body) \<le> limit then Ok (body_bytes body) else Err ''length limit exceeded''),
       wl_from_slice = (\<lambda>_. Ok [''2'']) \<rparr>"

definition demo_idp_env :: "(nat, nat) IdpEnv" where
  "demo_idp_env =
     \<lparr> ie_encode = demo_encode, ie_decode = demo_decode_issued, ie_cn = (\<lambda>_. None), ie_webhook = demo_webhook_lib, ie_login_html = [],
       ie_create = demo_create_env 7 ''s1'' ''p1'', ie_t_poll = 9, ie_t_info = 9, ie_t_verify = 8, ie_t_confirm = 8, ie_unix = 1000,
       ie_uuid = ''u1'', ie_now_cleanup = 1000, ie_won = True \<rparr>"

definition demo_idp_request :: "string \<Rightarrow> string \<Rightarrow> string \<Rightarrow> Request" where
  "demo_idp_request meth path query =
     \<lparr> req_method = meth, req_uri = \<lparr> uri_scheme = None, uri_authority = None, uri_path = path, uri_query = Some query \<rparr>, req_headers = [],
       req_ext = no_extensions\<lparr> ext_client_pem := Some ''pem'', ext_client_san := Some ''dev.example'', ext_client_oids := Some [''1''] \<rparr>,
       req_body = [] \<rparr>"

definition demo_confirm :: Request where
  "demo_confirm = demo_idp_request ''POST'' ''/auth/confirm'' ''session=s1&code=234abz''"

lemma demo_confirm_parts:
  "query_param ''session'' ''session=s1&code=234abz'' = Some ''s1''" "user_code_of demo_confirm = Some ''234abz''"
  "mtls_claims demo_idp demo_idp_env demo_confirm = Some demo_cert_claims"
  by (code_simp, code_simp, code_simp)

lemma demo_store_entry: "dm_get (ss_sessions demo_store) ''s1'' = Some demo_entry" "ss_ttl demo_store = secs 2"
  by (simp_all add: demo_store_eq dm_exec)

lemma demo_entry_fields: "sn_created_at demo_entry = 7" "sn_status demo_entry = Pending" "sn_poll_secret demo_entry = ''p1''"
  "sn_aud demo_entry = Some ''app''"
  by (simp_all add: demo_entry_def new_entry_def)

lemma demo_confirm_call:
  "idp_call demo_idp demo_idp_env demo_confirm (demo_store, revocation_new) =
     (Ready (response_ok ''{\"status\":\"confirmed\"}''),
      demo_store\<lparr> ss_sessions := dm_insert ''s1'' (demo_entry\<lparr> sn_status := Confirmed demo_cert_claims \<rparr>) (ss_sessions demo_store) \<rparr>,
      revocation_new)"
proof -
  have "verify_session_code 8 ''s1'' (Some ''234abz'') demo_store = (Ok (), demo_store)"
    by (simp add: verify_session_code_def verify_check_def demo_store_entry demo_entry_fields demo_matches)
  moreover have "with_aud (Some ''app'') demo_cert_claims = demo_cert_claims" by (simp add: with_aud_def demo_cert_claims_def)
  ultimately have "idp_confirm demo_idp demo_idp_env demo_confirm demo_store = (Ready (response_ok ''{\"status\":\"confirmed\"}''),
      demo_store\<lparr> ss_sessions := dm_insert ''s1'' (demo_entry\<lparr> sn_status := Confirmed demo_cert_claims \<rparr>) (ss_sessions demo_store) \<rparr>)"
    using demo_confirm_parts
    by (simp add: idp_confirm_def query_of_def demo_confirm_def demo_idp_request_def demo_idp_env_def demo_idp_def handle_auth_confirm_def
        resolve_oids_def confirm_session_def confirm_attach_def demo_store_entry demo_entry_fields)
  then show ?thesis
    by (simp add: idp_call_def Let_def demo_confirm_def demo_idp_request_def)
qed


theorem webhook_fails_closed_witness:
  "idp_future_poll demo_idp demo_idp_env (webhook_timed demo_webhook_lib False (Ok (response_err 500 [])))
      (WebhookWait demo_confirm demo_cert_claims (Some ''s1'') (Some ''234abz'') False) demo_store
    = (Some (response_err 503 ''Claims resolution failed''), demo_store)"
  by (rule webhook_fails_closed)
     (simp_all add: demo_webhook_lib_def webhook_failed_def is_success_def response_err_def demo_idp_def demo_idp_params_def)

theorem host_cookie_login_and_clear_witness:
  "browser_accepts (login_cookie demo_idp_params ''h.p.s'') \<and> \<not> browser_accepts (clear_cookie demo_idp_params)"
  by (rule host_cookie_login_and_clear) (code_simp, code_simp)

theorem login_audience_witness:
  "idp_login demo_idp demo_idp_env (demo_idp_request ''POST'' ''/auth/login'' ''aud=other'') (SessionStore_new 2 0)
    = (response_err 400 ''Requested audience is not in allowed_audiences'', SessionStore_new 2 0)"
proof -
  have "query_param ''aud'' (query_of (demo_idp_request ''POST'' ''/auth/login'' ''aud=other'')) = Some ''other''" by code_simp
  moreover have "is_ok (fst (create_session (ie_create demo_idp_env) (map_option socket_ip (ext_socket_addr (req_ext
      (demo_idp_request ''POST'' ''/auth/login'' ''aud=other'')))) (Some ''other'') (SessionStore_new 2 0)))"
    by (simp add: demo_idp_env_def demo_idp_request_def no_extensions_def create_session_def rate_check_def maybe_cleanup_expired_def
        SessionStore_new_def demo_create_env_def insert_session_def CLEANUP_THROTTLE_INTERVAL_def DEFAULT_MAX_ACTIVE_SESSIONS_def dm_exec Let_def)
  ultimately show ?thesis
    using login_audience [of "demo_idp_request ''POST'' ''/auth/login'' ''aud=other''" "''other''" demo_idp_env "SessionStore_new 2 0" demo_idp]
    by (simp add: demo_idp_def demo_idp_params_def)
qed

end
