(* ===== verification/Idp_Flow.thy ===== *)
theory Idp_Flow
  imports Idp
begin

text \<open>
  The identity provider and the JWT layer together: a token the provider issues, as the answer of the
  token endpoint or as the cookie of a login, passes the layer and carries the claims of the device; a
  token revoked at the provider is refused by the layer until it expires.
\<close>

section \<open>Signing and decoding\<close>

definition valid_for :: "Validation \<Rightarrow> u64 \<Rightarrow> Claims \<Rightarrow> bool" where
  "valid_for v now claims \<longleftrightarrow>
     (case val_iss v of None \<Rightarrow> True | Some l \<Rightarrow> claim_iss claims \<in> set l)
     \<and> (val_validate_aud v \<longrightarrow> (case (val_aud v, claim_aud claims) of (Some l, Some a) \<Rightarrow> a \<in> set l | _ \<Rightarrow> False))
     \<and> (val_validate_exp v \<longrightarrow> now \<le> claim_exp claims)"

text \<open>
  What jsonwebtoken documents of a token signed with the private key of \<open>pk\<close>: it is a compact
  serialization, it decodes with \<open>pk\<close> to the signed claims wherever they are valid, and no key decodes it
  to other claims.
\<close>

definition sign_law :: "(string option \<Rightarrow> Claims \<Rightarrow> 'sk \<Rightarrow> string option) \<Rightarrow> 'key decoder \<Rightarrow> 'sk \<Rightarrow> 'key \<Rightarrow> bool" where
  "sign_law encode decode sk pk \<longleftrightarrow>
     (\<forall>kid claims token. encode kid claims sk = Some token \<longrightarrow>
        list_all plain_char token
        \<and> (\<forall>v now. valid_for v now claims \<longrightarrow> decode token pk v now = Some claims)
        \<and> (\<forall>key v now c. decode token key v now = Some c \<longrightarrow> c = claims))"

lemma sign_lawD:
  assumes "sign_law encode decode sk pk" "encode kid claims sk = Some token"
  shows "list_all plain_char token" "valid_for v now claims \<Longrightarrow> decode token pk v now = Some claims"
    "decode token key v now = Some c \<Longrightarrow> c = claims"
  using assms unfolding sign_law_def by blast+

lemma signed_verifies:
  assumes "sign_law encode decode sk pk" "encode kid claims sk = Some token" "pk \<in> set keys"
    "valid_for (jwt_validation iss aud) now claims"
  shows "verify_jwt decode now token keys iss aud = Some claims"
proof -
  let ?r = "try_keys decode token (jwt_validation iss aud) now keys"
  have "decode token pk (jwt_validation iss aud) now = Some claims" by (rule sign_lawD(2) [OF assms(1,2,4)])
  then obtain c where c: "?r = Some c" using assms(3) try_keys_None [of decode token "jwt_validation iss aud" now keys] by fastforce
  with try_keys_Some obtain key where "decode token key (jwt_validation iss aud) now = Some c" by metis
  then have "c = claims" by (rule sign_lawD(3) [OF assms(1,2)])
  then show ?thesis using c by (simp add: verify_jwt_def)
qed

definition admitted :: "'key JwtAuthService \<Rightarrow> Claims \<Rightarrow> Request \<Rightarrow> Request" where
  "admitted svc claims req =
     req\<lparr> req_ext := (req_ext req)\<lparr> ext_claims := Some claims,
            ext_roles_shared := Some (oid_roles (jwt_oid_mapping svc) (claim_oids claims)) \<rparr> \<rparr>"

lemma jwt_call_admits:
  assumes "jwt_token svc (req_headers req) = Some token" "je_joined env" "claim_jti claims = Some jti"
    "verify_jwt (je_decode env) (je_now_verify env) token (jwt_decoding_keys svc) (jwt_expected_issuer svc) (jwt_expected_audience svc) = Some claims"
    "dm_get (revoked rv) jti = None"
  shows "\<exists>rv'. jwt_call svc env req rv reg = (Allowed (admitted svc claims req), rv', reg)"
  using assms by (simp add: jwt_call_def is_revoked_def jwt_forward_def Let_def admitted_def)

text \<open>A layer that trusts the provider: it has its key, its issuer and the audience of the token, and its
  clock is not past the expiry.\<close>

definition trusts :: "'key JwtAuthService \<Rightarrow> 'key JwtEnv \<Rightarrow> 'key \<Rightarrow> Claims \<Rightarrow> bool" where
  "trusts svc env pk claims \<longleftrightarrow>
     pk \<in> set (jwt_decoding_keys svc) \<and> je_joined env \<and> je_now_verify env \<le> claim_exp claims
     \<and> (setting_list (jwt_expected_issuer svc) = [] \<or> claim_iss claims \<in> set (setting_list (jwt_expected_issuer svc)))
     \<and> (setting_list (jwt_expected_audience svc) = []
        \<or> claim_aud claims \<in> Some ` set (setting_list (jwt_expected_audience svc)))"

lemma trusts_valid:
  "trusts svc env pk claims \<Longrightarrow> valid_for (jwt_validation (jwt_expected_issuer svc) (jwt_expected_audience svc)) (je_now_verify env) claims"
  by (auto simp: trusts_def valid_for_def jwt_validation_def Let_def)

lemma issued_admitted:
  assumes "sign_law (ie_encode env) (je_decode jenv) (is_encoding_key idp) pk"
    "sign_jwt env (stamp_claims idp env claims) (is_encoding_key idp) = Some token"
    "trusts svc jenv pk (stamp_claims idp env claims)" "claim_jti claims = None" "dm_get (revoked rv) (ie_uuid env) = None"
    "jwt_token svc (req_headers req) = Some token"
  shows "\<exists>rv'. jwt_call svc jenv req rv reg = (Allowed (admitted svc (stamp_claims idp env claims) req), rv', reg)"
proof -
  have "verify_jwt (je_decode jenv) (je_now_verify jenv) token (jwt_decoding_keys svc) (jwt_expected_issuer svc) (jwt_expected_audience svc)
      = Some (stamp_claims idp env claims)"
    using assms(2,3) trusts_valid [OF assms(3)] by (intro signed_verifies [OF assms(1)]) (auto simp: sign_jwt_def trusts_def)
  then show ?thesis
    using assms(3-6) by (intro jwt_call_admits [of _ _ token _ _ "ie_uuid env"]) (auto simp: stamp_claims_def trusts_def)
qed

section \<open>The token endpoint\<close>

lemma plain_trim: "list_all plain_char token \<Longrightarrow> trim token = token"
  by (rule trim_plain)

lemma plain_visible: "list_all plain_char token \<Longrightarrow> is_visible_ascii token"
  by (auto simp: is_visible_ascii_def plain_char_def list_all_iff)

lemma strip_prefix_append: "strip_prefix p (p @ s) = Some s"
  by (auto simp: strip_prefix_def starts_with_iff)

lemma bearer_of:
  assumes "list_all plain_char token" "hm_get ''authorization'' headers = Some (''Bearer '' @ token)"
  shows "bearer_token headers = Some token"
proof -
  have "is_visible_ascii (''Bearer '' @ token)"
    using plain_visible [OF assms(1)] by (simp add: is_visible_ascii_def)
  then show ?thesis
    using assms plain_trim strip_prefix_append [of "''Bearer ''" token] by (simp add: bearer_token_def)
qed

lemma resolve_oids_cases:
  "resolve_oids idp cert dyn = Some c \<Longrightarrow> \<exists>oids. c = cert\<lparr> claim_oids := oids \<rparr> \<and> (oids = claim_oids cert \<or> dyn = Some (Ok oids))"
  by (auto simp: resolve_oids_def split: option.splits result.splits if_splits intro: exI [of _ "claim_oids cert"])

lemma token_poll:
  assumes "req_method req = ''POST''" "uri_path (req_uri req) = ''/auth/token''" "idp_call idp env req s = (fut, s')"
    "idp_future_poll idp env2 answer fut st = (Some resp, st')" "resp_status resp = 200"
  shows "\<exists>cert oids env' token. mtls_claims idp env req = Some cert \<and> env' \<in> {env, env2}
    \<and> (oids = claim_oids cert \<or> answer = Ok oids)
    \<and> sign_jwt env' (stamp_claims idp env' (cert\<lparr> claim_oids := oids \<rparr>)) (is_encoding_key idp) = Some token
    \<and> resp = response_ok (''{\"token\":\"'' @ token @ ''\"}'')"
proof -
  have tok: "\<exists>oids token. (oids = claim_oids cert \<or> dyn = Some (Ok oids)) \<and> sign_jwt e (stamp_claims idp e (cert\<lparr> claim_oids := oids \<rparr>)) (is_encoding_key idp) = Some token
      \<and> handle_auth_token idp e cert dyn = response_ok (''{\"token\":\"'' @ token @ ''\"}'')"
    if "resp_status (handle_auth_token idp e cert dyn) = 200" for e cert dyn
    using that resolve_oids_cases [of idp cert dyn]
    by (fastforce simp: handle_auth_token_def response_err_def split: option.splits)
  have fut: "fut = idp_token idp env req" using assms(1-3) by (cases s) (simp add: idp_call_def Let_def)
  show ?thesis
  proof (cases "mtls_claims idp env req")
    case None
    then show ?thesis using assms(4,5) by (auto simp: fut idp_token_def idp_future_poll_def response_err_def)
  next
    case (Some cert)
    obtain e dyn where e: "e \<in> {env, env2}" "resp = handle_auth_token idp e cert dyn" "\<And>l. dyn = Some (Ok l) \<Longrightarrow> answer = Ok l"
    proof (cases fut)
      case (Ready r)
      then have "\<exists>dyn. r = handle_auth_token idp env cert dyn \<and> (\<forall>l. dyn \<noteq> Some (Ok l))"
        using Some fut by (fastforce simp: idp_token_def split: option.splits result.splits)
      then show ?thesis using that Ready assms(4) by (auto simp: idp_future_poll_def)
    next
      case (WebhookWait w c si co tk)
      then have "c = cert \<and> tk" using Some fut by (auto simp: idp_token_def split: option.splits result.splits)
      then show ?thesis using that [of env2 "Some answer"] WebhookWait assms(4) by (simp add: idp_future_poll_def)
    next
      case Panicked
      then show ?thesis using assms(4) by (simp add: idp_future_poll_def)
    qed
    from tok [OF assms(5) [unfolded e(2)]] obtain oids token
      where "oids = claim_oids cert \<or> dyn = Some (Ok oids)" "sign_jwt e (stamp_claims idp e (cert\<lparr> claim_oids := oids \<rparr>)) (is_encoding_key idp) = Some token"
        "resp = response_ok (''{\"token\":\"'' @ token @ ''\"}'')" unfolding e(2) by blast
    then show ?thesis using e(1,3) Some by blast
  qed
qed

lemma mtls_jti: "mtls_claims idp env req = Some cert \<Longrightarrow> claim_jti cert = None"
  by (auto simp: mtls_claims_def split: option.splits)

text \<open>C10: 
  A token of the token endpoint works: the response holds a token, and a request with that bearer token
  passes every JWT layer that trusts the provider, until it expires or is revoked, with the subject,
  issuer and audience of the certificate, the OIDs of the certificate or of the webhook, and the roles
  of those OIDs.
\<close>

theorem issued_token_accepted:
  assumes "sign_law (ie_encode env) (je_decode jenv) (is_encoding_key idp) pk" "ie_encode env2 = ie_encode env"
    and "req_method req = ''POST''" "uri_path (req_uri req) = ''/auth/token''" "idp_call idp env req s = (fut, s')"
    "idp_future_poll idp env2 answer fut st = (Some resp, st')" "resp_status resp = 200"
    and "dm_get (revoked rv) (ie_uuid env) = None" "dm_get (revoked rv) (ie_uuid env2) = None"
  shows "\<exists>cert oids env' token. mtls_claims idp env req = Some cert \<and> env' \<in> {env, env2}
    \<and> (oids = claim_oids cert \<or> answer = Ok oids) \<and> resp = response_ok (''{\"token\":\"'' @ token @ ''\"}'')
    \<and> (let claims = stamp_claims idp env' (cert\<lparr> claim_oids := oids \<rparr>)
       in \<forall>req2. trusts svc jenv pk claims \<and> hm_get ''authorization'' (req_headers req2) = Some (''Bearer '' @ token) \<longrightarrow>
            (\<exists>rv'. jwt_call svc jenv req2 rv reg = (Allowed (admitted svc claims req2), rv', reg)))"
proof -
  obtain cert oids env' token where t: "mtls_claims idp env req = Some cert" "env' \<in> {env, env2}"
    and oids: "oids = claim_oids cert \<or> answer = Ok oids" and t':
    "sign_jwt env' (stamp_claims idp env' (cert\<lparr> claim_oids := oids \<rparr>)) (is_encoding_key idp) = Some token"
    "resp = response_ok (''{\"token\":\"'' @ token @ ''\"}'')"
    using token_poll [OF assms(3-7)] by blast
  have law: "sign_law (ie_encode env') (je_decode jenv) (is_encoding_key idp) pk" using assms(1,2) t(2) by auto
  have fresh: "dm_get (revoked rv) (ie_uuid env') = None" using assms(8,9) t(2) by auto
  have plain: "list_all plain_char token" using sign_lawD(1) [OF law] t'(1) by (simp add: sign_jwt_def)
  have jti: "claim_jti (cert\<lparr> claim_oids := oids \<rparr>) = None" using mtls_jti [OF t(1)] by simp
  let ?claims = "stamp_claims idp env' (cert\<lparr> claim_oids := oids \<rparr>)"
  have "\<exists>rv'. jwt_call svc jenv req2 rv reg = (Allowed (admitted svc ?claims req2), rv', reg)"
    if "trusts svc jenv pk ?claims" "hm_get ''authorization'' (req_headers req2) = Some (''Bearer '' @ token)" for req2
  proof (rule issued_admitted [OF law t'(1) that(1) jti fresh])
    show "jwt_token svc (req_headers req2) = Some token" using bearer_of [OF plain that(2)] by (simp add: jwt_token_def)
  qed
  then show ?thesis using t oids t'(2) unfolding Let_def by blast
qed

section \<open>The cookie of a login\<close>

text \<open>What a browser sends back: the pair at the front of the cookie.\<close>

definition cookie_pair :: "string \<Rightarrow> string" where
  "cookie_pair set_cookie = hd (split_on CHR '';'' set_cookie)"

lemma login_cookie_pair:
  assumes "list_all plain_char (idp_cookie_name params)" "list_all plain_char token"
  shows "cookie_pair (login_cookie params token) = idp_cookie_name params @ ''='' @ token"
proof -
  let ?w = "idp_cookie_name params @ ''='' @ token"
  have "CHR '';'' \<notin> set ?w" using assms plain_no_semi by simp
  then have "split_on CHR '';'' (?w @ CHR '';'' # t) = ?w # split_on CHR '';'' t" for t by (rule split_on_append)
  moreover have "\<exists>t. login_cookie params token = ?w @ CHR '';'' # t" by (simp add: login_cookie_def)
  ultimately show ?thesis unfolding cookie_pair_def by auto
qed

lemma cookie_of:
  assumes "list_all plain_char name" "list_all plain_char token" "hm_get_all ''cookie'' headers = [name @ ''='' @ token]"
  shows "cookie_token name headers = Some token"
proof -
  have plain: "list_all plain_char (name @ ''='' @ token)"
    using assms by (simp add: plain_char_def)
  have "split_on CHR '';'' (name @ ''='' @ token) = [name @ ''='' @ token]"
    by (rule split_on_id [OF plain_no_semi [OF plain]])
  then show ?thesis
    using plain_visible [OF plain] trim_plain [OF plain] trim_plain [OF assms(2)] strip_prefix_append [of "name @ ''=''" token]
    by (simp add: cookie_token_def assms(3))
qed

lemma no_bearer: "hm_get ''authorization'' headers = None \<Longrightarrow> bearer_token headers = None"
  by (simp add: bearer_token_def)

text \<open>
  The cookie of a login works: when a poll with the right secret takes a confirmed session, the response
  sets a cookie, and a request that sends it back passes every JWT layer that reads this cookie and
  trusts the provider, with the claims the device confirmed.
\<close>

theorem login_cookie_accepted:
  assumes "sign_law (ie_encode env) (je_decode jenv) (is_encoding_key idp) pk"
    and "req_method req = ''GET''" "uri_path (req_uri req) = ''/auth/status''"
    and "query_param ''session'' (query_of req) = Some sid" "query_param ''poll_secret'' (query_of req) = Some secret"
    and "get_and_consume (ie_t_poll env) sid secret st = (Ok (Confirmed claims), st')" "claim_jti claims = None"
    and "idp_call idp env req (st, rv) = (Ready resp, s')" "resp_status resp = 200"
    and "list_all plain_char (idp_cookie_name (is_params idp))" "jwt_cookie_fallback svc = Some (idp_cookie_name (is_params idp))"
    and "trusts svc jenv pk (stamp_claims idp env claims)" "dm_get (revoked rv2) (ie_uuid env) = None"
  shows "\<exists>v. hm_get ''set-cookie'' (resp_headers resp) = Some v
    \<and> (\<forall>req2. hm_get ''authorization'' (req_headers req2) = None \<and> hm_get_all ''cookie'' (req_headers req2) = [cookie_pair v] \<longrightarrow>
         (\<exists>rv'. jwt_call svc jenv req2 rv2 reg = (Allowed (admitted svc (stamp_claims idp env claims) req2), rv', reg)))"
proof -
  have "generate_jwt_cookie_response idp env claims = Ready resp"
    using assms(2-6,8) by (simp add: idp_call_def Let_def idp_status_def or_else_def)
  then obtain token where token: "sign_jwt env (stamp_claims idp env claims) (is_encoding_key idp) = Some token"
    and cookie: "hm_get ''set-cookie'' (resp_headers resp) = Some (login_cookie (is_params idp) token)"
    using assms(9)
    by (auto simp: generate_jwt_cookie_response_def cookie_response_def header_value_def hm_get_def response_err_def split: option.splits if_splits)
  have plain: "list_all plain_char token" using sign_lawD(1) [OF assms(1)] token by (simp add: sign_jwt_def)
  have "\<exists>rv'. jwt_call svc jenv req2 rv2 reg = (Allowed (admitted svc (stamp_claims idp env claims) req2), rv', reg)"
    if "hm_get ''authorization'' (req_headers req2) = None"
      "hm_get_all ''cookie'' (req_headers req2) = [cookie_pair (login_cookie (is_params idp) token)]" for req2
  proof (rule issued_admitted [OF assms(1) token assms(12,7,13)])
    show "jwt_token svc (req_headers req2) = Some token"
      using that cookie_of [OF assms(10) plain] no_bearer login_cookie_pair [OF assms(10) plain] assms(11)
      by (simp add: jwt_token_def)
  qed
  then show ?thesis using cookie by blast
qed

section \<open>Revocation\<close>

lemma revocable_signed:
  assumes "sign_law encode (ie_decode env) sk pk" "encode kid claims sk = Some token" "claim_jti claims = Some jti" "pk \<in> set keys"
  shows "revocable env token keys = Some (jti, claims)"
  using assms(4)
proof (induction keys)
  case (Cons key keys)
  have "valid_for revoke_validation (ie_unix env) claims" by (simp add: valid_for_def revoke_validation_def)
  then have pk: "ie_decode env token pk revoke_validation (ie_unix env) = Some claims" by (rule sign_lawD(2) [OF assms(1,2)])
  show ?case
  proof (cases "ie_decode env token key revoke_validation (ie_unix env)")
    case None
    then have "key \<noteq> pk" using pk by auto
    then show ?thesis using None Cons by simp
  next
    case (Some c)
    from sign_lawD(3) [OF assms(1,2) this] show ?thesis using Some assms(3) by simp
  qed
qed simp

lemma revoked_until_blocks:
  assumes "revoked_until jti e rv" "je_now_check env < e" "claim_jti claims = Some jti"
    and "jwt_token svc (req_headers req) = Some token"
    and "\<And>key v now c. je_decode env token key v now = Some c \<Longrightarrow> c = claims"
  shows "fst (jwt_call svc env req rv reg) = Blocked (unauthorized_response (jwt_redirect_on_failure svc))"
proof -
  let ?v = "verify_jwt (je_decode env) (je_now_verify env) token (jwt_decoding_keys svc) (jwt_expected_issuer svc) (jwt_expected_audience svc)"
  have v: "c = claims" if "?v = Some c" for c
    using that try_keys_Some assms(5) unfolding verify_jwt_def by metis
  obtain e' where "dm_get (revoked rv) jti = Some e'" "e \<le> e'"
    using assms(1) by (auto simp: revoked_until_def split: option.splits)
  then have r: "is_revoked (je_now_check env) jti rv = (True, rv)" using assms(2) by (simp add: is_revoked_def)
  show ?thesis
  proof (cases "je_joined env \<and> ?v \<noteq> None")
    case True
    then have "?v = Some claims" using v by auto
    then show ?thesis using True assms(3,4) r by (simp add: jwt_call_def jwt_reject_def)
  next
    case False
    then show ?thesis using assms(4) by (auto simp: jwt_call_def jwt_reject_def)
  qed
qed



section \<open>Examples\<close>

lemma demo_sign_law: "sign_law demo_encode demo_decode_issued 7 7"
proof -
  have "list_all plain_char ''h.p.s''" by code_simp
  then show ?thesis
    by (auto simp: sign_law_def demo_encode_def demo_decode_issued_def valid_for_def demo_issued_def demo_cert_claims_def
        split: if_splits option.splits)
qed

definition demo_layer :: "nat JwtAuthService" where
  "demo_layer = demo_jwt\<lparr> jwt_cookie_fallback := Some ''__Host-jwt'', jwt_expected_audience := ''app'' \<rparr>"

definition demo_layer_env :: "u64 \<Rightarrow> nat JwtEnv" where
  "demo_layer_env now = (demo_jwt_env now)\<lparr> je_decode := demo_decode_issued \<rparr>"

definition demo_bearer :: "string \<Rightarrow> Request" where
  "demo_bearer token = demo_request ''GET'' ''/a''\<lparr> req_headers := [(''authorization'', ''Bearer '' @ token)] \<rparr>"

lemma demo_settings: "setting_list ''praeco'' = [''praeco'']" "setting_list ''app'' = [''app'']"
  by (code_simp, code_simp)

lemma demo_trusts:
  "claim_iss c = ''praeco'' \<Longrightarrow> claim_aud c = Some ''app'' \<Longrightarrow> claim_exp c = 4600 \<Longrightarrow> trusts demo_layer (demo_layer_env 2000) 7 c"
  by (simp add: trusts_def demo_layer_def demo_layer_env_def demo_jwt_def demo_jwt_env_def demo_settings)

definition demo_token_request :: Request where
  "demo_token_request = demo_idp_request ''POST'' ''/auth/token'' ''aud=app''"

lemma demo_cert: "mtls_claims demo_idp demo_idp_env demo_token_request = Some demo_cert_claims"
  by code_simp

lemma demo_stamp: "stamp_claims demo_idp demo_idp_env demo_cert_claims = demo_issued"
  by (simp add: stamp_claims_def demo_idp_env_def demo_idp_def demo_idp_params_def demo_issued_def demo_cert_claims_def)

lemma demo_token_call:
  "idp_call demo_idp demo_idp_env demo_token_request (demo_store, revocation_new)
     = (Ready (response_ok (''{\"token\":\"'' @ ''h.p.s'' @ ''\"}'')), demo_store, revocation_new)"
proof -
  have "sign_jwt demo_idp_env demo_issued 7 = Some ''h.p.s''" by (simp add: sign_jwt_def demo_idp_env_def demo_encode_def)
  then have "handle_auth_token demo_idp demo_idp_env demo_cert_claims None = response_ok (''{\"token\":\"'' @ ''h.p.s'' @ ''\"}'')"
    by (simp add: handle_auth_token_def resolve_oids_def demo_stamp) (simp add: demo_idp_def)
  then have "idp_token demo_idp demo_idp_env demo_token_request = Ready (response_ok (''{\"token\":\"'' @ ''h.p.s'' @ ''\"}''))"
    using demo_cert by (simp add: idp_token_def) (simp add: demo_idp_def)
  then show ?thesis by (simp add: idp_call_def Let_def demo_token_request_def demo_idp_request_def)
qed

theorem issued_token_accepted_witness:
  "\<exists>token claims rv'.
     idp_call demo_idp demo_idp_env demo_token_request (demo_store, revocation_new)
       = (Ready (response_ok (''{\"token\":\"'' @ token @ ''\"}'')), demo_store, revocation_new)
     \<and> jwt_call demo_layer (demo_layer_env 2000) (demo_bearer token) revocation_new []
       = (Allowed (admitted demo_layer claims (demo_bearer token)), rv', [])
     \<and> claim_sub claims = ''dev.example'' \<and> claim_oids claims = [''1'']"
proof -
  let ?resp = "response_ok (''{\"token\":\"'' @ ''h.p.s'' @ ''\"}'')"
  have law: "sign_law (ie_encode demo_idp_env) (je_decode (demo_layer_env 2000)) (is_encoding_key demo_idp) 7"
    using demo_sign_law by (simp add: demo_idp_env_def demo_layer_env_def demo_idp_def)
  have meth: "req_method demo_token_request = ''POST''" "uri_path (req_uri demo_token_request) = ''/auth/token''"
    by (simp_all add: demo_token_request_def demo_idp_request_def)
  have poll: "idp_future_poll demo_idp demo_idp_env (Err WebhookTimeout) (Ready ?resp) demo_store = (Some ?resp, demo_store)"
    by (simp add: idp_future_poll_def)
  have ok: "resp_status ?resp = 200" by (simp add: response_ok_def)
  have fresh: "dm_get (revoked revocation_new) (ie_uuid demo_idp_env) = None" by (simp add: revocation_new_def)
  from issued_token_accepted [OF law refl meth demo_token_call poll ok fresh fresh, of demo_layer "[]"]
  obtain cert oids token where t: "mtls_claims demo_idp demo_idp_env demo_token_request = Some cert" "oids = claim_oids cert"
    "?resp = response_ok (''{\"token\":\"'' @ token @ ''\"}'')"
    and acc: "\<And>req2. trusts demo_layer (demo_layer_env 2000) 7 (stamp_claims demo_idp demo_idp_env (cert\<lparr> claim_oids := oids \<rparr>))
       \<Longrightarrow> hm_get ''authorization'' (req_headers req2) = Some (''Bearer '' @ token) \<Longrightarrow>
       \<exists>rv'. jwt_call demo_layer (demo_layer_env 2000) req2 revocation_new []
         = (Allowed (admitted demo_layer (stamp_claims demo_idp demo_idp_env (cert\<lparr> claim_oids := oids \<rparr>)) req2), rv', [])"
    unfolding Let_def by auto
  have c: "stamp_claims demo_idp demo_idp_env (cert\<lparr> claim_oids := oids \<rparr>) = demo_issued"
    using t(1,2) demo_cert demo_stamp by simp
  have "trusts demo_layer (demo_layer_env 2000) 7 demo_issued"
    by (rule demo_trusts) (simp_all add: demo_issued_def demo_cert_claims_def)
  moreover have "hm_get ''authorization'' (req_headers (demo_bearer token)) = Some (''Bearer '' @ token)"
    by (simp add: demo_bearer_def hm_get_def)
  moreover have "claim_sub demo_issued = ''dev.example''" "claim_oids demo_issued = [''1'']"
    by (simp_all add: demo_issued_def demo_cert_claims_def)
  ultimately show ?thesis using acc [of "demo_bearer token"] demo_token_call t(3) unfolding c by metis
qed


definition demo_status :: Request where
  "demo_status = demo_idp_request ''GET'' ''/auth/status'' ''session=s1&poll_secret=p1''"

definition demo_confirmed :: SessionStore where
  "demo_confirmed = demo_store\<lparr> ss_sessions := [(''s1'', demo_entry\<lparr> sn_status := Confirmed demo_cert_claims \<rparr>)] \<rparr>"

definition demo_cookie_request :: Request where
  "demo_cookie_request = demo_request ''GET'' ''/a''\<lparr> req_headers := [(''cookie'', ''__Host-jwt=h.p.s'')] \<rparr>"

lemma demo_consume:
  "get_and_consume 9 ''s1'' ''p1'' demo_confirmed = (Ok (Confirmed demo_cert_claims), remove_session ''s1'' demo_confirmed)"
  by (simp add: get_and_consume_def poll_check_def poll_take_def demo_confirmed_def demo_store_eq dm_exec demo_entry_fields constant_time_eq_iff)

lemma demo_cookie:
  "login_cookie demo_idp_params ''h.p.s'' = ''__Host-jwt=h.p.s; HttpOnly; Secure; SameSite=Lax; Path=/; Max-Age=3600''"
proof -
  have "char_of (51 :: nat) = CHR ''3''" "char_of (54 :: nat) = CHR ''6''" "char_of (48 :: nat) = CHR ''0''"
    by (code_simp, code_simp, code_simp)
  then have "show_nat 3600 = ''3600''" by (simp add: show_nat_def show_radix.simps)
  then show ?thesis by (simp add: login_cookie_def demo_idp_params_def)
qed

lemma demo_status_call:
  "idp_call demo_idp demo_idp_env demo_status (demo_confirmed, revocation_new)
     = (Ready \<lparr> resp_status = 200,
          resp_headers = [(''set-cookie'', ''__Host-jwt=h.p.s; HttpOnly; Secure; SameSite=Lax; Path=/; Max-Age=3600''), (''content-type'', ''application/json'')],
          resp_body = full_body (''{\"status\":\"confirmed\",\"redirect\":\"'' @ ''/'' @ ''\"}'') \<rparr>,
        remove_session ''s1'' demo_confirmed, revocation_new)"
proof -
  have q: "query_param ''session'' (query_of demo_status) = Some ''s1''" "query_param ''poll_secret'' (query_of demo_status) = Some ''p1''"
    by (code_simp, code_simp)
  have v: "is_visible_ascii ''__Host-jwt=h.p.s; HttpOnly; Secure; SameSite=Lax; Path=/; Max-Age=3600''" by code_simp
  have "sign_jwt demo_idp_env demo_issued 7 = Some ''h.p.s''" by (simp add: sign_jwt_def demo_idp_env_def demo_encode_def)
  moreover have "is_encoding_key demo_idp = 7" "is_params demo_idp = demo_idp_params" "idp_redirect_after_login demo_idp_params = ''/''"
    by (simp_all add: demo_idp_def demo_idp_params_def)
  ultimately have g: "generate_jwt_cookie_response demo_idp demo_idp_env demo_cert_claims = Ready \<lparr> resp_status = 200,
          resp_headers = [(''set-cookie'', ''__Host-jwt=h.p.s; HttpOnly; Secure; SameSite=Lax; Path=/; Max-Age=3600''), (''content-type'', ''application/json'')],
          resp_body = full_body (''{\"status\":\"confirmed\",\"redirect\":\"'' @ ''/'' @ ''\"}'') \<rparr>"
    unfolding generate_jwt_cookie_response_def demo_stamp by (simp add: demo_cookie cookie_response_def header_value_def v)
  have "ie_t_poll demo_idp_env = 9" by (simp add: demo_idp_env_def)
  moreover have "req_method demo_status = ''GET''" "uri_path (req_uri demo_status) = ''/auth/status''"
    by (simp_all add: demo_status_def demo_idp_request_def)
  ultimately show ?thesis
    by (simp add: idp_call_def Let_def idp_status_def q or_else_def demo_consume g)
qed

theorem login_cookie_accepted_witness:
  "\<exists>rv'. jwt_call demo_layer (demo_layer_env 2000) demo_cookie_request revocation_new []
     = (Allowed (admitted demo_layer demo_issued demo_cookie_request), rv', [])"
proof -
  have law: "sign_law (ie_encode demo_idp_env) (je_decode (demo_layer_env 2000)) (is_encoding_key demo_idp) 7"
    using demo_sign_law by (simp add: demo_idp_env_def demo_layer_env_def demo_idp_def)
  have q: "query_param ''session'' (query_of demo_status) = Some ''s1''" "query_param ''poll_secret'' (query_of demo_status) = Some ''p1''"
    by (code_simp, code_simp)
  have req: "req_method demo_status = ''GET''" "uri_path (req_uri demo_status) = ''/auth/status''"
    by (simp_all add: demo_status_def demo_idp_request_def)
  have poll: "get_and_consume (ie_t_poll demo_idp_env) ''s1'' ''p1'' demo_confirmed
      = (Ok (Confirmed demo_cert_claims), remove_session ''s1'' demo_confirmed)" using demo_consume by (simp add: demo_idp_env_def)
  have jti: "claim_jti demo_cert_claims = None" by (simp add: demo_cert_claims_def)
  have name: "list_all plain_char (idp_cookie_name (is_params demo_idp))" by code_simp
  have layer: "jwt_cookie_fallback demo_layer = Some (idp_cookie_name (is_params demo_idp))"
    by (simp add: demo_layer_def demo_idp_def demo_idp_params_def)
  have trust: "trusts demo_layer (demo_layer_env 2000) 7 (stamp_claims demo_idp demo_idp_env demo_cert_claims)"
    unfolding demo_stamp by (rule demo_trusts) (simp_all add: demo_issued_def demo_cert_claims_def)
  have fresh: "dm_get (revoked revocation_new) (ie_uuid demo_idp_env) = None" by (simp add: revocation_new_def)
  have pair: "cookie_pair ''__Host-jwt=h.p.s; HttpOnly; Secure; SameSite=Lax; Path=/; Max-Age=3600'' = ''__Host-jwt=h.p.s''" by code_simp
  from login_cookie_accepted [OF law req q poll jti demo_status_call _ name layer trust fresh, of "[]"] pair
  show ?thesis by (simp add: hm_get_def hm_get_all_def demo_cookie_request_def demo_stamp)
qed


end
