(* ===== verification/Routing.thy ===== *)
theory Routing
  imports Grpc_Web Admin Access_Rules
begin

text \<open>
  The router service, \<open>server/src/middleware/router/mod.rs\<close>: construction with its route table, the health
  check, and the path of a request from the URI check over route lookup, access control, header
  preparation and buffering to the handler of the route's backend.

  \<open>route_request\<close> is the part of \<open>call\<close> up to the dispatch; \<open>router_call\<close> adds the handlers of the theories
  \<open>Http_Proxy\<close>, \<open>Grpc_Web\<close> and \<open>Admin\<close>. The route lookup is the \<open>matchit\<close> library, a parameter: a router
  is given by the insertions made into it, and \<open>lookup_law\<close> states what the library documents.
\<close>

section \<open>Construction\<close>

text \<open>A lookup gives the inserted value and the parameter \<open>rest\<close>.\<close>

type_synonym matcher = "(string \<times> nat) list \<Rightarrow> string \<Rightarrow> (nat \<times> string option) option"

record ClientPoolConfig =
  cp_idle_timeout :: "Duration option"
  cp_max_idle_per_host :: "nat option"
  cp_http2_only :: bool
  cp_connect_timeout :: "Duration option"
  cp_tcp_keepalive :: "Duration option"
  cp_tcp_nodelay :: bool
  cp_http2_keep_alive_interval :: "Duration option"
  cp_http2_keep_alive_timeout :: "Duration option"
  cp_http2_keep_alive_while_idle :: bool
  cp_http2_adaptive_window :: bool

definition ClientPoolConfig_default :: ClientPoolConfig where
  "ClientPoolConfig_default =
     \<lparr> cp_idle_timeout = Some (secs 90), cp_max_idle_per_host = Some 1024, cp_http2_only = False,
       cp_connect_timeout = Some (secs 5), cp_tcp_keepalive = Some (secs 60), cp_tcp_nodelay = True,
       cp_http2_keep_alive_interval = Some (secs 30), cp_http2_keep_alive_timeout = Some (secs 10),
       cp_http2_keep_alive_while_idle = True, cp_http2_adaptive_window = True \<rparr>"

definition router_pool_config :: "bool \<Rightarrow> RouterParams \<Rightarrow> ClientPoolConfig" where
  "router_pool_config http2_only params =
     ClientPoolConfig_default
       \<lparr> cp_idle_timeout := Some (secs (unat (rp_idle_timeout_seconds params))), cp_max_idle_per_host := Some 1024,
         cp_http2_only := http2_only,
         cp_connect_timeout := (if rp_connect_timeout_seconds params > 0 then Some (secs (unat (rp_connect_timeout_seconds params))) else None) \<rparr>"

record RouterService =
  rs_client :: ClientPoolConfig
  rs_grpc_client :: ClientPoolConfig
  rs_router :: "(string \<times> nat) list"
  rs_jwt_token :: "string option"

definition wildcard_path :: "string \<Rightarrow> string" where
  "wildcard_path prefix = (if ends_with ''/'' prefix then prefix @ ''{*rest}'' else prefix @ ''/{*rest}'')"

definition route_insertions :: "ParsedRoute list \<Rightarrow> (string \<times> nat) list" where
  "route_insertions routes =
     concat (map (\<lambda>(i, r). [(route_prefix r, i), (wildcard_path (route_prefix r), i)]) (enumerate 0 routes))"

text \<open>\<open>load_tls\<close> builds the client configuration: trust anchors, and certificate and key with client authentication.\<close>

definition RouterService_new ::
  "(string option \<Rightarrow> (string option \<times> string option) \<Rightarrow> (unit, string) result) \<Rightarrow> ('c, 'r) ServerConfig \<Rightarrow> (RouterService, string) result" where
  "RouterService_new load_tls config =
     (case srv_router_params config of
        None \<Rightarrow> Err (srv_name config @ '': Router params missing'')
      | Some params \<Rightarrow>
          (let is_mtls = (rp_authentication params = ClientCert)
           in case load_tls (rp_ssl_root_certificate params)
                     (if is_mtls then (rp_ssl_client_certificate params, rp_ssl_client_key params) else (None, None)) of
                Err e \<Rightarrow> Err e
              | Ok _ \<Rightarrow>
                  Ok \<lparr> rs_client = router_pool_config False params, rs_grpc_client = router_pool_config True params,
                       rs_router = route_insertions (srv_parsed_routes config),
                       rs_jwt_token = (case rp_jwt params of Some t \<Rightarrow> header_value (''Bearer '' @ t) | None \<Rightarrow> None) \<rparr>))"

section \<open>Health check\<close>

definition any_available :: "u64 \<Rightarrow> ParsedRoute list \<Rightarrow> bool" where
  "any_available now routes =
     list_ex (\<lambda>route. list_ex (is_available (cooldown_seconds (route_target route)) now) (upstreams (route_target route))) routes"

definition handle_health_check :: "u64 \<Rightarrow> ('c, 'r) ServerConfig \<Rightarrow> Response" where
  "handle_health_check now config =
     (if srv_parsed_routes config = [] then build_error_response ''{\"score\": 100, \"message\": \"no routes configured\"}'' 200
      else if any_available now (srv_parsed_routes config) then build_error_response ''{\"score\": 100, \"message\": \"nodes available\"}'' 200
      else build_error_response ''{\"score\": 0, \"message\": \"no upstream nodes available\"}'' 503)"

section \<open>The request body\<close>

definition payload_error :: "SrvError \<Rightarrow> bool" where
  "payload_error e \<longleftrightarrow>
     (case e of PayloadTooLarge _ _ \<Rightarrow> True | DecompressionLimitExceeded _ \<Rightarrow> True | _ \<Rightarrow> False)
     \<or> str_contains ''Payload Limit Exceeded'' (srv_error_string e) \<or> str_contains ''Decompressed payload'' (srv_error_string e)"

definition body_error_response :: "SrvError \<Rightarrow> Response" where
  "body_error_response e =
     (if payload_error e then build_error_response ''Payload Too Large'' 413 else build_error_response ''Bad Request'' 400)"

text \<open>\<open>BodyExt::collect\<close>: all bytes, or the first error.\<close>

fun collect_body :: "SrvBody \<Rightarrow> (u8 list, SrvError) result" where
  "collect_body [] = Ok []"
| "collect_body (Err e # fs) = Err e"
| "collect_body (Ok f # fs) = (case collect_body fs of Ok bs \<Rightarrow> Ok (frame_bytes (Ok f) @ bs) | Err e \<Rightarrow> Err e)"

definition content_length_exceeds :: "HeaderMap \<Rightarrow> usize \<Rightarrow> bool" where
  "content_length_exceeds headers limit =
     (case hm_get ''content-length'' headers of
        Some v \<Rightarrow>
          (if is_visible_ascii v
           then (case parse_unsigned (2 ^ 64) v of Some len \<Rightarrow> len > unat limit | None \<Rightarrow> False)
           else False)
      | None \<Rightarrow> False)"

definition can_stream :: "ParsedRoute \<Rightarrow> string \<Rightarrow> HeaderMap \<Rightarrow> bool" where
  "can_stream route meth headers =
     ((\<not> length (upstreams (route_target route)) > 1
       \<or> max_retries (route_target route) = 0
       \<or> (route_backend_type route \<noteq> GrpcPassthrough \<and> \<not> is_idempotent meth)
       \<or> content_length_exceeds headers (max_retry_buffer_bytes (route_target route)))
      \<and> route_backend_type route \<noteq> GrpcTranscoding)"

definition request_body :: "ParsedRoute \<Rightarrow> string \<Rightarrow> HeaderMap \<Rightarrow> SrvBody \<Rightarrow> (RequestBody, Response) result" where
  "request_body route meth headers body =
     (if can_stream route meth headers then Ok (RStream body)
      else if route_backend_type route = GrpcTranscoding
      then (case collect_body body of Ok bs \<Rightarrow> Ok (Buffered bs) | Err e \<Rightarrow> Err (body_error_response e))
      else (case buffer_body_up_to body (max_retry_buffer_bytes (route_target route)) of
              Ok b \<Rightarrow> Ok b
            | Err e \<Rightarrow> Err (body_error_response e)))"

section \<open>Up to the dispatch\<close>

record RouterEnv =
  re_io :: ProxyIo
  re_lookup :: matcher
  re_urlencode :: "string \<Rightarrow> string"
  re_now :: u64

datatype Routed =
    Answered Response
  | ToAdmin Uri HeaderMap
  | Dispatch nat RequestBody HeaderMap Uri "string option"   \<comment> \<open>route, body, headers, URI, \<open>rest\<close>\<close>

definition header_config :: "('c, 'r) ServerConfig \<Rightarrow> HeaderConfig" where
  "header_config cfg =
     \<lparr> hc_protocol = srv_protocol cfg, hc_tunnel_sni = map_option tun_sni_domain (srv_tunnel cfg),
       hc_cert_forwarding = srv_client_cert_forwarding cfg \<rparr>"

definition host_from_authority :: "Uri \<Rightarrow> HeaderMap \<Rightarrow> HeaderMap" where
  "host_from_authority uri headers =
     (if hm_contains_key ''host'' headers then headers
      else (case uri_authority uri of
              Some auth \<Rightarrow> (case header_value auth of Some hv \<Rightarrow> hm_insert ''host'' hv headers | None \<Rightarrow> headers)
            | None \<Rightarrow> headers))"

definition server_name_of :: "('c, 'r) ServerConfig \<Rightarrow> string" where
  "server_name_of cfg = (case srv_static_name cfg of Some n \<Rightarrow> n | None \<Rightarrow> ''unknown'')"

definition route_request ::
  "RouterEnv \<Rightarrow> RouterService \<Rightarrow> ('c, 'r) ServerConfig \<Rightarrow> Request \<Rightarrow> MetricsRegistry \<Rightarrow> Routed \<times> MetricsRegistry" where
  "route_request env svc config req reg =
     (if uri_path (req_uri req) = ''/health'' \<and> req_method req = ''GET''
      then (Answered (handle_health_check (re_now env) config), reg)
      else
        (let headers0 = inject_real_ip (req_ext req) (req_headers req)
         in case sanitize_and_normalize_uri (io_parse (re_io env)) (io_from_parts (re_io env)) (req_uri req) of
              Err e \<Rightarrow> (Answered (build_error_response (''Bad Request: '' @ sanitize_error_msg e) 400), reg)
            | Ok uri \<Rightarrow>
                (case re_lookup env (rs_router svc) (uri_path uri) of
                   None \<Rightarrow> (Answered (build_error_response ''Not Found'' 404), reg)
                 | Some (i, rest) \<Rightarrow>
                     (let route = srv_parsed_routes config ! i
                      in case enforce_rbac uri (req_ext req) (route_allowed_roles route) (srv_compiled_rbac config) (server_name_of config) reg of
                           (Err forbidden, reg') \<Rightarrow> (Answered forbidden, reg')
                         | (Ok _, reg') \<Rightarrow>
                             (if route_backend_type route = AdminBackend then (ToAdmin uri headers0, reg')
                              else
                                (case prepare_proxy_headers (re_urlencode env) (rs_jwt_token svc) (req_ext req) (header_config config)
                                        (host_from_authority uri headers0) of
                                   Err err_resp \<Rightarrow> (Answered err_resp, reg')
                                 | Ok headers \<Rightarrow>
                                     (case request_body route (req_method req) headers (req_body req) of
                                        Err err_resp \<Rightarrow> (Answered err_resp, reg')
                                      | Ok body \<Rightarrow> (Dispatch i body headers uri rest, reg'))))))))"


section \<open>Dispatch\<close>

text \<open>
  The state the handlers change: the nodes of the routes, in the configuration; the schema cache of each
  route; and the servers an administration request sees. The handlers of one call share the libraries of
  \<open>RouterEnv\<close> and, for transcoding, the codec and what the outside does in each turn.
\<close>

record ('c, 'r, 'pool) RouterState =
  rst_config :: "('c, 'r) ServerConfig"
  rst_pools :: "nat \<Rightarrow> 'pool CachedPool"
  rst_admin :: "('c, 'r) AdminState"

record ('pool, 'desc, 'msg) HandlerEnv =
  he_codec :: "('pool, 'desc, 'msg) GrpcCodec"
  he_gw_env :: "nat \<Rightarrow> 'pool GrpcWebEnv"
  he_admin :: AdminEnv
  he_revocations :: JwtRevocationStore

definition set_target :: "nat \<Rightarrow> RouteTarget \<Rightarrow> ('c, 'r) ServerConfig \<Rightarrow> ('c, 'r) ServerConfig" where
  "set_target i t cfg =
     cfg\<lparr> srv_parsed_routes := (srv_parsed_routes cfg)[i := (srv_parsed_routes cfg ! i)\<lparr> route_target := t \<rparr>] \<rparr>"

definition request_timeout :: "('c, 'r) ServerConfig \<Rightarrow> bool" where
  "request_timeout cfg = (case srv_router_params cfg of Some p \<Rightarrow> rp_request_timeout_seconds p > 0 | None \<Rightarrow> False)"

definition out_version :: "Version \<Rightarrow> Version" where
  "out_version v = (if v = HTTP_3 then HTTP_2 else v)"

definition reflection_ttl :: "('c, 'r) ServerConfig \<Rightarrow> Duration" where
  "reflection_ttl cfg = secs (unat (case srv_router_params cfg of Some p \<Rightarrow> rp_grpc_reflection_ttl_seconds p | None \<Rightarrow> 600))"

definition dispatch ::
  "RouterEnv \<Rightarrow> ('pool, 'desc, 'msg) HandlerEnv \<Rightarrow> MetricsRegistry \<Rightarrow> Request \<Rightarrow> Version \<Rightarrow> nat \<Rightarrow> RequestBody \<Rightarrow> HeaderMap \<Rightarrow> Uri \<Rightarrow> string option
     \<Rightarrow> ('c, 'r, 'pool) RouterState \<Rightarrow> ProxyResult \<times> (nat \<times> ProxyRequest) list \<times> ('c, 'r, 'pool) RouterState" where
  "dispatch env henv reg req version i body headers uri rest st =
     (let cfg = rst_config st; route = srv_parsed_routes cfg ! i; target = route_target route;
          client = ext_socket_addr (req_ext req); timeout = request_timeout cfg;
          finish = (\<lambda>(r, ps). (r, ps_sent ps, st\<lparr> rst_config := set_target i (ps_target ps) cfg \<rparr>))
      in case route_backend_type route of
           GrpcTranscoding \<Rightarrow>
             (case handle_grpc_web
                     \<lparr> gwc_codec = he_codec henv, gwc_io = re_io env, gwc_env = he_gw_env henv, gwc_ttl = reflection_ttl cfg,
                       gwc_method = req_method req, gwc_uri = uri, gwc_client = client, gwc_max_retries = 0 \<rparr>
                     target (rst_pools st i) body headers of
                (r, ps, pool) \<Rightarrow>
                  (case r of Some resp \<Rightarrow> Returned (Ok resp) None | None \<Rightarrow> Panicked, ps_sent ps,
                   st\<lparr> rst_config := set_target i (ps_target ps) cfg, rst_pools := (rst_pools st)(i := pool) \<rparr>))
         | GrpcPassthrough \<Rightarrow> finish (handle_grpc_passthrough (re_io env) timeout target body (req_method req) headers uri rest client)
         | Rest \<Rightarrow> finish (handle_http_proxy (re_io env) timeout target body (req_method req) (out_version version) headers uri rest client)
         | AdminBackend \<Rightarrow>
             (case handle_admin_request (he_admin henv) reg (he_revocations henv) uri (req_method req) headers (rst_admin st) of
                (resp, adm) \<Rightarrow> (Returned (Ok resp) None, [], st\<lparr> rst_admin := adm \<rparr>)))"

definition router_call ::
  "RouterEnv \<Rightarrow> ('pool, 'desc, 'msg) HandlerEnv \<Rightarrow> RouterService \<Rightarrow> Request \<Rightarrow> Version \<Rightarrow> MetricsRegistry \<Rightarrow> ('c, 'r, 'pool) RouterState
     \<Rightarrow> ProxyResult \<times> (nat \<times> ProxyRequest) list \<times> MetricsRegistry \<times> ('c, 'r, 'pool) RouterState" where
  "router_call env henv svc req version reg st =
     (case route_request env svc (rst_config st) req reg of
        (Answered resp, reg') \<Rightarrow> (Returned (Ok resp) None, [], reg', st)
      | (ToAdmin uri headers, reg') \<Rightarrow>
          (case handle_admin_request (he_admin henv) reg' (he_revocations henv) uri (req_method req) headers (rst_admin st) of
             (resp, adm) \<Rightarrow> (Returned (Ok resp) None, [], reg', st\<lparr> rst_admin := adm \<rparr>))
      | (Dispatch i body headers uri rest, reg') \<Rightarrow>
          (case dispatch env henv reg' req version i body headers uri rest st of (r, sent, st') \<Rightarrow> (r, sent, reg', st')))"


section \<open>Requests that reach an upstream\<close>

lemma dispatchD:
  assumes "route_request env svc config req reg = (Dispatch i body headers uri rest, reg')"
  shows "sanitize_and_normalize_uri (io_parse (re_io env)) (io_from_parts (re_io env)) (req_uri req) = Ok uri"
    "re_lookup env (rs_router svc) (uri_path uri) = Some (i, rest)"
    "enforce_rbac uri (req_ext req) (route_allowed_roles (srv_parsed_routes config ! i)) (srv_compiled_rbac config) (server_name_of config) reg = (Ok (), reg')"
    "route_backend_type (srv_parsed_routes config ! i) \<noteq> AdminBackend"
    "prepare_proxy_headers (re_urlencode env) (rs_jwt_token svc) (req_ext req) (header_config config)
       (host_from_authority uri (inject_real_ip (req_ext req) (req_headers req))) = Ok headers"
    "request_body (srv_parsed_routes config ! i) (req_method req) headers (req_body req) = Ok body"
  using assms by (auto simp: route_request_def Let_def split: if_splits result.splits option.splits prod.splits)

lemma router_sentD:
  assumes "router_call env henv svc req version reg st = (r, sent, reg', st')" "sent \<noteq> []"
  shows "\<exists>i body headers uri rest. route_request env svc (rst_config st) req reg = (Dispatch i body headers uri rest, reg')
     \<and> dispatch env henv reg' req version i body headers uri rest st = (r, sent, st')"
  using assms by (auto simp: router_call_def split: prod.splits Routed.splits)

lemma proxied_sent:
  assumes "upstreams target \<noteq> []" "io_ok io" "start_proxy flavour io timeout target body meth headers uri rest client = (r, ps)" "x \<in> set (ps_sent ps)"
  shows "\<exists>target_uri. build_upstream_uri (io_parse io) (io_from_parts io) (uris target ! fst x) rest uri = Ok target_uri
     \<and> px_uri (snd x) = target_uri \<and> px_method (snd x) = meth
     \<and> px_headers (snd x) = io_inject io (fl_headers flavour (set_host target_uri headers)) \<and> px_body (snd x) = fst (take_body body)"
  using start_proxy_post [OF assms(1,2) refl, of flavour meth uri rest client timeout body headers] assms(3,4)
  by (auto simp: loop_post_def sent_all_ok_def list_all_iff sent_ok_def proxy_request_def)

definition proxy_flavour :: "RouteBackendType \<Rightarrow> string \<Rightarrow> Version \<Rightarrow> Flavour" where
  "proxy_flavour backend meth version = (if backend = Rest then http_flavour meth (out_version version) else grpc_flavour)"

lemma dispatch_proxied:
  assumes "dispatch env henv reg req version i body headers uri rest st = (r, sent, st')"
    "route_backend_type (srv_parsed_routes (rst_config st) ! i) \<in> {Rest, GrpcPassthrough}"
  shows "\<exists>ps. start_proxy (proxy_flavour (route_backend_type (srv_parsed_routes (rst_config st) ! i)) (req_method req) version) (re_io env)
      (request_timeout (rst_config st)) (route_target (srv_parsed_routes (rst_config st) ! i)) body (req_method req) headers uri rest
      (ext_socket_addr (req_ext req)) = (r, ps) \<and> sent = ps_sent ps"
  using assms
  by (cases "route_backend_type (srv_parsed_routes (rst_config st) ! i)")
     (auto simp: dispatch_def Let_def handle_http_proxy_def handle_grpc_passthrough_def proxy_flavour_def case_prod_beta intro!: exI [of _ "snd p" for p] conjI [OF prod.collapse [symmetric] refl])

text \<open>C6: 
  A request reaches an upstream only with authority: its path was brought to canonical form, the route
  was looked up for that path, and the access rules allowed exactly that path to the roles of the
  connection. On a proxied route it goes to a node of that route, at a URI built from the same canonical
  path, with the method of the client, the prepared headers and the body of the client.
\<close>

theorem router_forwards_authorized:
  assumes "router_call env henv svc req version reg st = (r, sent, reg', st')" "x \<in> set sent"
    and "io_ok (re_io env)" "\<forall>route \<in> set (srv_parsed_routes (rst_config st)). upstreams (route_target route) \<noteq> []"
    and "\<forall>path i rest. re_lookup env (rs_router svc) path = Some (i, rest) \<longrightarrow> i < length (srv_parsed_routes (rst_config st))"
  shows "\<exists>uri i rest headers body. let config = rst_config st; route = srv_parsed_routes config ! i in
    sanitize_and_normalize_uri (io_parse (re_io env)) (io_from_parts (re_io env)) (req_uri req) = Ok uri
    \<and> re_lookup env (rs_router svc) (uri_path uri) = Some (i, rest)
    \<and> fst (enforce_rbac uri (req_ext req) (route_allowed_roles route) (srv_compiled_rbac config) (server_name_of config) reg) = Ok ()
    \<and> prepare_proxy_headers (re_urlencode env) (rs_jwt_token svc) (req_ext req) (header_config config)
        (host_from_authority uri (inject_real_ip (req_ext req) (req_headers req))) = Ok headers
    \<and> request_body route (req_method req) headers (req_body req) = Ok body
    \<and> (route_backend_type route \<in> {Rest, GrpcPassthrough} \<longrightarrow>
         build_upstream_uri (io_parse (re_io env)) (io_from_parts (re_io env)) (uris (route_target route) ! fst x) rest uri = Ok (px_uri (snd x))
         \<and> px_method (snd x) = req_method req \<and> px_body (snd x) = fst (take_body body)
         \<and> px_headers (snd x) = io_inject (re_io env)
               ((if route_backend_type route = Rest then (\<lambda>h. h) else grpc_headers) (set_host (px_uri (snd x)) headers)))"
proof -
  let ?cfg = "rst_config st"
  have "sent \<noteq> []" using assms(2) by auto
  from router_sentD [OF assms(1) this] obtain i body headers uri rest
    where rr: "route_request env svc ?cfg req reg = (Dispatch i body headers uri rest, reg')"
      and d: "dispatch env henv reg' req version i body headers uri rest st = (r, sent, st')" by blast
  note dd = dispatchD [OF rr]
  let ?route = "srv_parsed_routes ?cfg ! i"
  have "i < length (srv_parsed_routes ?cfg)" using assms(5) dd(2) by blast
  then have ne: "upstreams (route_target ?route) \<noteq> []" using assms(4) by simp
  have "build_upstream_uri (io_parse (re_io env)) (io_from_parts (re_io env)) (uris (route_target ?route) ! fst x) rest uri = Ok (px_uri (snd x))
      \<and> px_method (snd x) = req_method req \<and> px_body (snd x) = fst (take_body body)
      \<and> px_headers (snd x) = io_inject (re_io env)
            ((if route_backend_type ?route = Rest then (\<lambda>h. h) else grpc_headers) (set_host (px_uri (snd x)) headers))"
    if "route_backend_type ?route \<in> {Rest, GrpcPassthrough}"
  proof -
    let ?flavour = "proxy_flavour (route_backend_type ?route) (req_method req) version"
    have fl: "fl_headers ?flavour = (if route_backend_type ?route = Rest then (\<lambda>h. h) else grpc_headers)"
      by (simp add: proxy_flavour_def http_flavour_def grpc_flavour_def)
    from dispatch_proxied [OF d that] obtain ps where
      ps: "start_proxy ?flavour (re_io env) (request_timeout ?cfg) (route_target ?route) body (req_method req) headers uri rest
         (ext_socket_addr (req_ext req)) = (r, ps)" and sent: "sent = ps_sent ps" by blast
    from proxied_sent [OF ne assms(3) ps] assms(2) show ?thesis unfolding sent fl by blast
  qed
  then show ?thesis unfolding Let_def using dd by (intro exI [of _ uri] exI [of _ i] exI [of _ rest] exI [of _ headers] exI [of _ body]) simp
qed

section \<open>Route lookup\<close>

text \<open>
  What \<open>matchit\<close> documents for the patterns the router inserts, those without parameters and those that end
  in \<open>{*rest}\<close>: a pattern equal to the path wins; otherwise the catch-all with the longest text before its
  parameter that leaves a non-empty rest. A second insertion of the same pattern fails and is ignored.
\<close>

definition plain_pattern :: "string \<Rightarrow> bool" where
  "plain_pattern p \<longleftrightarrow> CHR ''{'' \<notin> set p \<and> CHR ''}'' \<notin> set p"

definition catch_all :: "string \<Rightarrow> string \<times> nat \<Rightarrow> (string \<times> nat) option" where
  "catch_all path pi =
     (case pi of (p, i) \<Rightarrow>
       (let q = take (length p - 7) p
        in if ends_with ''{*rest}'' p \<and> starts_with q path \<and> q \<noteq> path then Some (q, i) else None))"

fun longest :: "(string \<times> nat) list \<Rightarrow> (string \<times> nat) option" where
  "longest [] = None"
| "longest (x # xs) =
     (case longest xs of
        Some y \<Rightarrow> (if length (fst y) > length (fst x) then Some y else Some x)
      | None \<Rightarrow> Some x)"

definition lookup_spec :: matcher where
  "lookup_spec inserts path =
     (case find (\<lambda>(p, _). p = path \<and> plain_pattern p) inserts of
        Some (_, i) \<Rightarrow> Some (i, None)
      | None \<Rightarrow> map_option (\<lambda>(q, i). (i, Some (drop (length q) path))) (longest (List.map_filter (catch_all path) inserts)))"

definition router_pattern :: "string \<Rightarrow> bool" where
  "router_pattern p \<longleftrightarrow> plain_pattern p \<or> (\<exists>q. plain_pattern q \<and> p = q @ ''{*rest}'')"

definition lookup_law :: "matcher \<Rightarrow> bool" where
  "lookup_law at \<longleftrightarrow> (\<forall>inserts path. list_all (\<lambda>(p, _). router_pattern p) inserts \<longrightarrow> at inserts path = lookup_spec inserts path)"

definition route_base :: "ParsedRoute \<Rightarrow> string" where
  "route_base r = (if ends_with ''/'' (route_prefix r) then route_prefix r else route_prefix r @ ''/'')"

lemma wildcard_base: "wildcard_path (route_prefix r) = route_base r @ ''{*rest}''"
  by (simp add: wildcard_path_def route_base_def)

lemma insertions_iff:
  "(p, i) \<in> set (route_insertions routes) \<longleftrightarrow> i < length routes \<and> (p = route_prefix (routes ! i) \<or> p = route_base (routes ! i) @ ''{*rest}'')"
proof
  assume "(p, i) \<in> set (route_insertions routes)"
  then show "i < length routes \<and> (p = route_prefix (routes ! i) \<or> p = route_base (routes ! i) @ ''{*rest}'')"
    by (auto simp: route_insertions_def in_set_enumerate_eq wildcard_base)
next
  assume i: "i < length routes \<and> (p = route_prefix (routes ! i) \<or> p = route_base (routes ! i) @ ''{*rest}'')"
  then have "(i, routes ! i) \<in> set (enumerate 0 routes)" by (simp add: in_set_enumerate_eq)
  then show "(p, i) \<in> set (route_insertions routes)" using i by (auto simp: route_insertions_def wildcard_base intro!: bexI [of _ "(i, routes ! i)"])
qed

lemma base_plain: "plain_pattern (route_prefix r) \<Longrightarrow> plain_pattern (route_base r)"
  by (auto simp: route_base_def plain_pattern_def)

lemma insertions_patterns:
  assumes "\<forall>r \<in> set routes. plain_pattern (route_prefix r)"
  shows "list_all (\<lambda>(p, _). router_pattern p) (route_insertions routes)"
proof -
  have "router_pattern p" if "(p, i) \<in> set (route_insertions routes)" for p i
    using that assms base_plain unfolding insertions_iff router_pattern_def by (metis nth_mem)
  then show ?thesis by (auto simp: list_all_iff)
qed

lemma catch_all_wild: "catch_all path (q @ ''{*rest}'', i) = (if starts_with q path \<and> q \<noteq> path then Some (q, i) else None)"
proof -
  have "ends_with ''{*rest}'' (q @ ''{*rest}'')" unfolding ends_with_iff by blast
  then show ?thesis by (simp add: catch_all_def)
qed

lemma catch_all_plain: "plain_pattern p \<Longrightarrow> catch_all path (p, i) = None"
proof -
  assume "plain_pattern p"
  then have "\<not> ends_with ''{*rest}'' p" by (auto simp: plain_pattern_def ends_with_iff)
  then show ?thesis by (simp add: catch_all_def)
qed

lemma longest_None: "longest xs = None \<longleftrightarrow> xs = []"
  by (induction xs) (auto split: option.splits)

lemma longest_Some: "longest xs = Some y \<Longrightarrow> y \<in> set xs \<and> (\<forall>x \<in> set xs. length (fst x) \<le> length (fst y))"
proof (induction xs arbitrary: y)
  case (Cons x xs)
  show ?case
  proof (cases "longest xs")
    case None
    then show ?thesis using Cons.prems by (simp add: longest_None)
  next
    case (Some z)
    then show ?thesis using Cons.IH [OF Some] Cons.prems by (auto split: if_splits intro: order.trans)
  qed
qed simp

lemma candidates:
  assumes "\<forall>r \<in> set routes. plain_pattern (route_prefix r)"
  shows "(q, i) \<in> set (List.map_filter (catch_all path) (route_insertions routes))
    \<longleftrightarrow> i < length routes \<and> q = route_base (routes ! i) \<and> starts_with q path \<and> q \<noteq> path"
proof -
  have plain: "catch_all path (route_prefix (routes ! j), j) = None" if "j < length routes" for j
    using that assms by (intro catch_all_plain) simp
  have "(q, i) \<in> set (List.map_filter (catch_all path) (route_insertions routes))
      \<longleftrightarrow> (\<exists>x \<in> set (route_insertions routes). catch_all path x = Some (q, i))"
    by (force simp: List.map_filter_def)
  also have "\<dots> \<longleftrightarrow> (\<exists>j < length routes. catch_all path (route_base (routes ! j) @ ''{*rest}'', j) = Some (q, i))"
  proof
    assume "\<exists>x \<in> set (route_insertions routes). catch_all path x = Some (q, i)"
    then obtain p j where pj: "(p, j) \<in> set (route_insertions routes)" "catch_all path (p, j) = Some (q, i)" by auto
    then have j: "j < length routes" "p = route_prefix (routes ! j) \<or> p = route_base (routes ! j) @ ''{*rest}''"
      unfolding insertions_iff by auto
    then have "p = route_base (routes ! j) @ ''{*rest}''" using pj(2) plain [OF j(1)] by auto
    then show "\<exists>j < length routes. catch_all path (route_base (routes ! j) @ ''{*rest}'', j) = Some (q, i)" using pj(2) j(1) by blast
  next
    assume "\<exists>j < length routes. catch_all path (route_base (routes ! j) @ ''{*rest}'', j) = Some (q, i)"
    then show "\<exists>x \<in> set (route_insertions routes). catch_all path x = Some (q, i)"
      using insertions_iff by blast
  qed
  also have "\<dots> \<longleftrightarrow> i < length routes \<and> q = route_base (routes ! i) \<and> starts_with q path \<and> q \<noteq> path"
    unfolding catch_all_wild by auto
  finally show ?thesis .
qed

text \<open>C35: 
  The most specific route answers: the one whose prefix is the path, and otherwise the one with the
  longest prefix, up to a slash, that the path properly extends. A path below no prefix has no route.
\<close>

theorem most_specific_route:
  assumes "lookup_law at" "\<forall>r \<in> set routes. plain_pattern (route_prefix r)"
  shows "case at (route_insertions routes) path of
      None \<Rightarrow> \<forall>r \<in> set routes. route_prefix r \<noteq> path \<and> (starts_with (route_base r) path \<longrightarrow> route_base r = path)
    | Some (i, None) \<Rightarrow> i < length routes \<and> route_prefix (routes ! i) = path
    | Some (i, Some rest) \<Rightarrow>
        i < length routes \<and> path = route_base (routes ! i) @ rest \<and> rest \<noteq> []
        \<and> (\<forall>r \<in> set routes. route_prefix r \<noteq> path
             \<and> (starts_with (route_base r) path \<and> route_base r \<noteq> path \<longrightarrow> length (route_base r) \<le> length (route_base (routes ! i))))"
proof -
  have spec: "at (route_insertions routes) path = lookup_spec (route_insertions routes) path"
    using assms(1) insertions_patterns [OF assms(2)] unfolding lookup_law_def by blast
  show ?thesis
  proof (cases "find (\<lambda>(p, _). p = path \<and> plain_pattern p) (route_insertions routes)")
    case (Some x)
    obtain p i where x: "x = (p, i)" by (cases x)
    have "(p, i) \<in> set (route_insertions routes)" "p = path" "plain_pattern p"
      using Some x by (auto simp: find_Some_iff in_set_conv_nth)
    then have "i < length routes \<and> route_prefix (routes ! i) = path"
      unfolding insertions_iff by (auto simp: plain_pattern_def)
    then show ?thesis using Some x spec by (simp add: lookup_spec_def)
  next
    case None
    have no_exact: "route_prefix r \<noteq> path" if r: "r \<in> set routes" for r
    proof -
      obtain j where "j < length routes" "routes ! j = r" using r by (auto simp: in_set_conv_nth)
      then have "(route_prefix r, j) \<in> set (route_insertions routes)" by (auto simp: insertions_iff)
      then show ?thesis using None assms(2) r by (fastforce simp: find_None_iff)
    qed
    let ?c = "List.map_filter (catch_all path) (route_insertions routes)"
    have mem: "(route_base r, j) \<in> set ?c" if "j < length routes" "routes ! j = r" "starts_with (route_base r) path" "route_base r \<noteq> path" for r j
      using that candidates [OF assms(2), of "route_base r" j path] by simp
    show ?thesis
    proof (cases "longest ?c")
      case none: None
      then have "?c = []" by (simp add: longest_None)
      then have "\<forall>r \<in> set routes. starts_with (route_base r) path \<longrightarrow> route_base r = path"
        using mem [OF _ refl] by (fastforce simp: in_set_conv_nth)
      then show ?thesis using no_exact None none spec by (simp add: lookup_spec_def)
    next
      case some: (Some y)
      obtain q i where y: "y = (q, i)" by (cases y)
      have l: "(q, i) \<in> set ?c" "\<forall>z \<in> set ?c. length (fst z) \<le> length q" using longest_Some [OF some] y by auto
      then have i: "i < length routes" "q = route_base (routes ! i)" "starts_with q path" "q \<noteq> path"
        using candidates [OF assms(2)] by auto
      then obtain rest where rest: "path = q @ rest" "rest \<noteq> []" unfolding starts_with_iff by auto
      have "length (route_base r) \<le> length q" if r: "r \<in> set routes" "starts_with (route_base r) path" "route_base r \<noteq> path" for r
      proof -
        obtain j where "j < length routes" "routes ! j = r" using r(1) by (auto simp: in_set_conv_nth)
        from mem [OF this r(2,3)] show ?thesis using l(2) by fastforce
      qed
      then show ?thesis using no_exact None some y spec i rest by (simp add: lookup_spec_def)
    qed
  qed
qed

section \<open>Bodies\<close>

lemma collect_body_Ok: "collect_body body = Ok bs \<Longrightarrow> bs = body_bytes body \<and> body_errors body = []"
  by (induction body arbitrary: bs rule: collect_body.induct) (auto simp: body_bytes_def body_errors_def split: result.splits)

lemma take_body_bytes: "body_bytes (fst (take_body (RStream b))) = body_bytes b" "body_bytes (fst (take_body (Buffered bs))) = bs"
  by (simp_all add: buffered_frames_def body_bytes_def)


section \<open>Examples\<close>

definition demo_route :: "string \<Rightarrow> RouteBackendType \<Rightarrow> ParsedRoute" where
  "demo_route prefix backend =
     \<lparr> route_prefix = prefix, route_target = demo_target\<lparr> max_retry_buffer_bytes := 16 \<rparr>, route_allowed_roles = [], route_backend_type = backend \<rparr>"

definition demo_router_config :: "(string, string) ServerConfig" where
  "demo_router_config =
     (demo_server HttpProto NoAuthentication)\<lparr> srv_parsed_routes := [demo_route ''/grpc'' GrpcTranscoding, demo_route ''/api'' Rest],
       srv_compiled_rbac := Some (rbac_from_raw [(''/grpc/pkg.Admin/*'', [UserRole ''Admin''])]) \<rparr>"

definition demo_pool_config :: "bool \<Rightarrow> ClientPoolConfig" where
  "demo_pool_config http2_only =
     \<lparr> cp_idle_timeout = None, cp_max_idle_per_host = None, cp_http2_only = http2_only, cp_connect_timeout = None, cp_tcp_keepalive = None,
       cp_tcp_nodelay = True, cp_http2_keep_alive_interval = None, cp_http2_keep_alive_timeout = None,
       cp_http2_keep_alive_while_idle = True, cp_http2_adaptive_window = True \<rparr>"

definition demo_router :: RouterService where
  "demo_router =
     \<lparr> rs_client = demo_pool_config False, rs_grpc_client = demo_pool_config True,
       rs_router = route_insertions (srv_parsed_routes demo_router_config), rs_jwt_token = None \<rparr>"

definition demo_router_env :: RouterEnv where
  "demo_router_env = \<lparr> re_io = demo_io demo_answers, re_lookup = lookup_spec, re_urlencode = (\<lambda>s. s), re_now = 105 \<rparr>"

definition demo_guest_request :: "string \<Rightarrow> string \<Rightarrow> Request" where
  "demo_guest_request meth path =
     demo_request meth path\<lparr> req_ext := (req_ext (demo_request meth path))\<lparr> ext_roles_shared := Some [guest] \<rparr>, req_body := [Ok (Data [7])] \<rparr>"

lemma demo_lookup_law: "lookup_law lookup_spec"
  by (simp add: lookup_law_def)

theorem most_specific_route_witness:
  "lookup_spec (route_insertions [demo_route ''/'' Rest, demo_route ''/api'' Rest]) ''/api/x'' = Some (1, Some ''x'')
   \<and> length (route_base (demo_route ''/'' Rest)) \<le> length (route_base (demo_route ''/api'' Rest))"
proof
  let ?routes = "[demo_route ''/'' Rest, demo_route ''/api'' Rest]"
  show l: "lookup_spec (route_insertions ?routes) ''/api/x'' = Some (1, Some ''x'')" by code_simp
  have "\<forall>r \<in> set ?routes. plain_pattern (route_prefix r)" by code_simp
  from most_specific_route [OF demo_lookup_law this, of "''/api/x''"] l
  have "\<forall>r \<in> set ?routes. starts_with (route_base r) ''/api/x'' \<and> route_base r \<noteq> ''/api/x'' \<longrightarrow> length (route_base r) \<le> length (route_base (?routes ! 1))"
    by (simp del: One_nat_def)
  moreover have "starts_with (route_base (demo_route ''/'' Rest)) ''/api/x''" "route_base (demo_route ''/'' Rest) \<noteq> ''/api/x''" by (code_simp, code_simp)
  ultimately show "length (route_base (demo_route ''/'' Rest)) \<le> length (route_base (demo_route ''/api'' Rest))" by simp
qed

text \<open>
  A catch-all needs a rest: a route with the prefix \<open>/api\<close> answers for the prefix itself and for everything
  below it, but not for the prefix with a slash at the end.
\<close>

theorem trailing_slash_not_routed:
  "lookup_spec (route_insertions [demo_route ''/api'' Rest]) ''/api'' = Some (0, None)
   \<and> lookup_spec (route_insertions [demo_route ''/api'' Rest]) ''/api/'' = None
   \<and> lookup_spec (route_insertions [demo_route ''/api'' Rest]) ''/api/x'' = Some (0, Some ''x'')"
  by code_simp

text \<open>
  The access rules are checked on the whole path, but a transcoded call is given by its last two segments.
  A rule for a service is therefore passed by with a further segment in front: the request with the path
  of the rule is refused, the longer one is dispatched and calls the same service and method.
\<close>

theorem transcoding_rule_bypass:
  "fst (route_request demo_router_env demo_router demo_router_config (demo_guest_request ''POST'' ''/grpc/pkg.Admin/Drop'') [])
      = Answered (build_error_response ''Forbidden'' 403)
   \<and> (case fst (route_request demo_router_env demo_router demo_router_config (demo_guest_request ''POST'' ''/grpc/x/pkg.Admin/Drop'') []) of
        Dispatch i body headers uri rest \<Rightarrow> i = 0 \<and> gw_target ''POST'' (uri_path uri) = Some (''pkg.Admin'', ''Drop'')
      | _ \<Rightarrow> False)"
  by code_simp



definition demo_call_env :: RouterEnv where
  "demo_call_env = demo_router_env\<lparr> re_io := demo_io (\<lambda>_. Answer 3 demo_answer) \<rparr>"

definition demo_handler_env :: "(unit, unit, u8 list) HandlerEnv" where
  "demo_handler_env =
     \<lparr> he_codec = demo_codec, he_gw_env = gwc_env (demo_web_call demo_answers),
       he_admin = \<lparr> adm_now = 0, adm_uptime = 0, adm_uri_string = uri_path, adm_to_json = (\<lambda>_. None) \<rparr>,
       he_revocations = revocation_new \<rparr>"

definition demo_router_state :: "(string, string, unit) RouterState" where
  "demo_router_state =
     \<lparr> rst_config = demo_router_config, rst_pools = (\<lambda>_. None), rst_admin = \<lparr> adm_global = None, adm_fallback = None \<rparr> \<rparr>"

lemma lookup_spec_range: "lookup_spec inserts path = Some (i, rest) \<Longrightarrow> i \<in> snd ` set inserts"
proof (cases "find (\<lambda>(p, _). p = path \<and> plain_pattern p) inserts")
  case (Some x)
  assume "lookup_spec inserts path = Some (i, rest)"
  then have "i = snd x" using Some by (auto simp: lookup_spec_def split: prod.splits)
  moreover have "x \<in> set inserts" using Some by (auto simp: find_Some_iff in_set_conv_nth)
  ultimately show ?thesis by simp
next
  case None
  assume "lookup_spec inserts path = Some (i, rest)"
  then obtain q where "longest (List.map_filter (catch_all path) inserts) = Some (q, i)" using None by (auto simp: lookup_spec_def)
  then have "(q, i) \<in> set (List.map_filter (catch_all path) inserts)" using longest_Some by blast
  then show ?thesis by (force simp: List.map_filter_def catch_all_def Let_def split: if_splits)
qed

theorem router_forwards_authorized_witness:
  "\<exists>r x reg' st'. router_call demo_call_env demo_handler_env demo_router (demo_guest_request ''GET'' ''/api/./x'') HTTP_11 [] demo_router_state
       = (r, [x], reg', st') \<and> px_method (snd x) = ''GET''"
proof -
  let ?req = "demo_guest_request ''GET'' ''/api/./x''"
  obtain r sent reg' st' where call: "router_call demo_call_env demo_handler_env demo_router ?req HTTP_11 [] demo_router_state = (r, sent, reg', st')"
    by (metis prod_cases4)
  have "case router_call demo_call_env demo_handler_env demo_router ?req HTTP_11 [] demo_router_state of
      (r, sent, reg', st') \<Rightarrow> map fst sent = [0]" by code_simp
  then obtain x where x: "sent = [x]" using call by auto
  have io: "io_ok (re_io demo_call_env)" using demo_io_ok by (simp add: demo_call_env_def)
  have ups: "\<forall>route \<in> set (srv_parsed_routes (rst_config demo_router_state)). upstreams (route_target route) \<noteq> []"
    by (simp add: demo_router_state_def demo_router_config_def demo_route_def demo_upstreams)
  have ids: "snd ` set (rs_router demo_router) = {0, 1}" by code_simp
  have len: "length (srv_parsed_routes (rst_config demo_router_state)) = 2"
    by (simp add: demo_router_state_def demo_router_config_def)
  have look: "re_lookup demo_call_env = lookup_spec" by (simp add: demo_call_env_def demo_router_env_def)
  have rng: "\<forall>path i rest. re_lookup demo_call_env (rs_router demo_router) path = Some (i, rest) \<longrightarrow> i < length (srv_parsed_routes (rst_config demo_router_state))"
  proof (intro allI impI)
    fix path i rest
    assume "re_lookup demo_call_env (rs_router demo_router) path = Some (i, rest)"
    then have "i \<in> {0, 1}" using lookup_spec_range [of "rs_router demo_router" path i rest] unfolding look ids by simp
    then show "i < length (srv_parsed_routes (rst_config demo_router_state))" unfolding len by auto
  qed
  have u: "sanitize_and_normalize_uri (io_parse (re_io demo_call_env)) (io_from_parts (re_io demo_call_env)) (req_uri ?req)
      = Ok (req_uri (demo_guest_request ''GET'' ''/api/x''))" by code_simp
  have l: "re_lookup demo_call_env (rs_router demo_router) (uri_path (req_uri (demo_guest_request ''GET'' ''/api/x''))) = Some (1, Some ''x'')" by code_simp
  have b: "route_backend_type (srv_parsed_routes (rst_config demo_router_state) ! 1) = Rest"
    by (simp add: demo_router_state_def demo_router_config_def demo_route_def)
  have "x \<in> set sent" using x by simp
  from router_forwards_authorized [OF call this io ups rng] obtain uri i rest
    where f: "sanitize_and_normalize_uri (io_parse (re_io demo_call_env)) (io_from_parts (re_io demo_call_env)) (req_uri ?req) = Ok uri"
      "re_lookup demo_call_env (rs_router demo_router) (uri_path uri) = Some (i, rest)"
      "route_backend_type (srv_parsed_routes (rst_config demo_router_state) ! i) \<in> {Rest, GrpcPassthrough} \<longrightarrow> px_method (snd x) = req_method ?req"
    unfolding Let_def by blast
  have "i = 1" using f(1,2) u l by simp
  then have "px_method (snd x) = req_method ?req" using f(3) b by simp
  moreover have "req_method ?req = ''GET''" by (simp add: demo_guest_request_def demo_request_def)
  ultimately show ?thesis using call x by auto
qed

end
