(* ===== verification/Health_Check.thy ===== *)
theory Health_Check
  imports Routing
begin

text \<open>
  The active health checks of \<open>server/src/server.rs\<close> (\<open>spawn_router_health_checks\<close>): which tasks are
  started for a configuration, and one period of such a task. A period of a gRPC node first looks for a
  method called \<open>health\<close> through the reflection service, then calls it and reads the score out of the
  protobuf message; a period of a REST node asks for \<open>/health\<close> and reads the score out of the JSON answer.

  The network, the reflection client, the descriptor pool and the JSON parser are parameters
  (\<open>HealthEnv\<close>). A period whose answer never ends does not return: \<open>health_tick\<close> is then \<^const>\<open>None\<close>.
\<close>

section \<open>Tasks\<close>

record HealthTask =
  ht_route :: nat
  ht_idx :: nat
  ht_is_grpc :: bool
  ht_http2_only :: bool
  ht_base_uri :: string
  ht_rest_uri :: string
  ht_interval :: Duration
  ht_auth_header :: "string option"

definition health_pool_config :: "bool \<Rightarrow> RouterParams \<Rightarrow> ClientPoolConfig" where
  "health_pool_config http2_only params =
     ClientPoolConfig_default
       \<lparr> cp_idle_timeout := Some (secs (unat (rp_idle_timeout_seconds params))), cp_max_idle_per_host := Some 16,
         cp_http2_only := http2_only,
         cp_connect_timeout := (if rp_connect_timeout_seconds params > 0 then Some (secs (unat (rp_connect_timeout_seconds params))) else None) \<rparr>"

definition is_grpc_backend :: "RouteBackendType \<Rightarrow> bool" where
  "is_grpc_backend b \<longleftrightarrow> b = GrpcTranscoding \<or> b = GrpcPassthrough"

text \<open>A node without an authority makes the \<open>unwrap\<close> panic: \<^const>\<open>None\<close>.\<close>

definition health_task :: "Protocol \<Rightarrow> string option \<Rightarrow> nat \<Rightarrow> ParsedRoute \<Rightarrow> nat \<Rightarrow> UpstreamNode \<Rightarrow> HealthTask option" where
  "health_task proto token r route idx node =
     (case uri_authority (node_uri node) of
        None \<Rightarrow> None
      | Some authority \<Rightarrow>
          (let base = unwrap_or (proto_str proto) (uri_scheme (node_uri node)) @ ''://'' @ authority;
               is_grpc = is_grpc_backend (route_backend_type route)
           in Some \<lparr> ht_route = r, ht_idx = idx, ht_is_grpc = is_grpc, ht_http2_only = is_grpc, ht_base_uri = base,
                     ht_rest_uri = base @ ''/health'',
                     ht_interval = secs (unat (active_health_check_interval (route_target route))),
                     ht_auth_header = token \<rparr>))"

definition route_health_tasks :: "Protocol \<Rightarrow> string option \<Rightarrow> nat \<Rightarrow> ParsedRoute \<Rightarrow> HealthTask option list" where
  "route_health_tasks proto token r route =
     (if active_health_check_interval (route_target route) > 0
      then map (\<lambda>(idx, node). health_task proto token r route idx node) (enumerate 0 (upstreams (route_target route)))
      else [])"

fun sequence_opt :: "'a option list \<Rightarrow> 'a list option" where
  "sequence_opt [] = Some []"
| "sequence_opt (None # xs) = None"
| "sequence_opt (Some x # xs) = map_option (Cons x) (sequence_opt xs)"

definition spawn_router_health_checks ::
  "(string option \<Rightarrow> (string option \<times> string option) \<Rightarrow> (unit, string) result) \<Rightarrow> ('c, 'r) ServerConfig \<Rightarrow> HealthTask list option" where
  "spawn_router_health_checks load_tls config =
     (case srv_router_params config of
        None \<Rightarrow> Some []
      | Some params \<Rightarrow>
          (let is_mtls = (rp_authentication params = ClientCert)
           in case load_tls (rp_ssl_root_certificate params)
                     (if is_mtls then (rp_ssl_client_certificate params, rp_ssl_client_key params) else (None, None)) of
                Err e \<Rightarrow> Some []
              | Ok _ \<Rightarrow>
                  (let token = (case rp_jwt params of Some t \<Rightarrow> header_value (''Bearer '' @ t) | None \<Rightarrow> None)
                   in sequence_opt (concat (map (\<lambda>(r, route). route_health_tasks (rp_protocol params) token r route)
                        (enumerate 0 (srv_parsed_routes config)))))))"

section \<open>One period\<close>

datatype HealthBody = BodyBytes "u8 list" | BodyFailed | BodyStalled
datatype HealthSend = HsResponse nat HealthBody | HsError | HsTimeout

text \<open>
  \<open>he_send\<close> is the answer to the request with the five second limit, together with what collecting its
  body under the limit of 64 KiB gives; the five seconds do not cover the collecting. \<open>he_json\<close> is
  \<^const>\<open>None\<close> for invalid JSON and otherwise the unsigned integer under \<open>score\<close>.
\<close>

record HealthRequest =
  hr_method :: string
  hr_uri :: string
  hr_headers :: HeaderMap
  hr_body :: "u8 list"

record 'pool HealthEnv =
  he_build_pool :: "string \<Rightarrow> ('pool, string) result"
  he_services :: "'pool \<Rightarrow> (string \<times> string list) list"
  he_send :: "HealthRequest \<Rightarrow> HealthSend"
  he_json :: "u8 list \<Rightarrow> u64 option option"
  he_now :: u64
  he_clock :: Instant

record 'pool HealthState =
  hs_path :: "string option"          \<comment> \<open>\<open>grpc_health_path\<close>\<close>
  hs_attempts :: nat                  \<comment> \<open>\<open>reflection_attempts\<close>\<close>
  hs_node :: UpstreamNode
  hs_pool :: "'pool CachedPool"

fun find_health_path :: "(string \<times> string list) list \<Rightarrow> string option" where
  "find_health_path [] = None"
| "find_health_path ((full_name, methods) # services) =
     (if ''health'' \<in> set methods then Some (''/'' @ full_name @ ''/health'') else find_health_path services)"

fun varint_loop :: "nat \<Rightarrow> usize \<Rightarrow> u8 list \<Rightarrow> usize" where
  "varint_loop shift score [] = score"
| "varint_loop shift score (b # bs) =
     (let score' = score OR push_bit shift (ucast (b AND 0x7F))
      in if b AND 0x80 = 0 then score'
         else if shift + 7 \<ge> 32 then score' else varint_loop (shift + 7) score' bs)"

definition grpc_health_score :: "u8 list \<Rightarrow> usize \<Rightarrow> bool \<times> usize" where
  "grpc_health_score bytes cur =
     (if length bytes \<ge> 5 then
        (let payload_len = unat (u32_from_be_bytes (take 4 (drop 1 bytes)))
         in if length bytes \<ge> 5 + payload_len then
              (let raw_payload = take payload_len (drop 5 bytes)
               in if length raw_payload \<ge> 2 \<and> raw_payload ! 0 = 0x08
                  then (let score = varint_loop 0 0 (drop 1 raw_payload) in (score > 0, score))
                  else (False, cur))
            else (False, cur))
      else (False, cur))"

definition rest_health_score :: "u64 option option \<Rightarrow> usize \<Rightarrow> bool \<times> usize" where
  "rest_health_score json cur =
     (case json of
        Some (Some score) \<Rightarrow> (score \<noteq> 0, score)
      | _ \<Rightarrow> (False, cur))"

definition check_passed :: "UpstreamNode \<Rightarrow> UpstreamNode" where
  "check_passed node = (if \<not> is_alive node then mark_alive node else node)"

definition check_failed :: "u64 \<Rightarrow> UpstreamNode \<Rightarrow> UpstreamNode" where
  "check_failed now node =
     (let node0 = node\<lparr> current_score := 0 \<rparr>
      in if is_alive node0 then mark_dead now node0 else node0\<lparr> last_failure_time := now \<rparr>)"

definition health_request :: "HealthTask \<Rightarrow> string option \<Rightarrow> HealthRequest" where
  "health_request t path =
     (let auth = (case ht_auth_header t of Some v \<Rightarrow> [(''authorization'', v)] | None \<Rightarrow> [])
      in case path of
           Some p \<Rightarrow>
             \<lparr> hr_method = ''POST'', hr_uri = ht_base_uri t @ p,
               hr_headers = [(''content-type'', ''application/grpc''), (''te'', ''trailers'')] @ auth, hr_body = [0, 0, 0, 0, 0] \<rparr>
         | None \<Rightarrow> \<lparr> hr_method = ''GET'', hr_uri = ht_rest_uri t, hr_headers = auth, hr_body = [] \<rparr>)"

text \<open>The verdict on an answer: whether the score is good, and the score that is stored.\<close>

definition answer_score :: "'pool HealthEnv \<Rightarrow> bool \<Rightarrow> HealthBody \<Rightarrow> usize \<Rightarrow> (bool \<times> usize) option" where
  "answer_score env is_grpc body cur =
     (case body of
        BodyStalled \<Rightarrow> None
      | BodyFailed \<Rightarrow> Some (False, cur)
      | BodyBytes bytes \<Rightarrow>
          Some (if is_grpc then grpc_health_score bytes cur else rest_health_score (he_json env bytes) cur))"

definition probe_node :: "'pool HealthEnv \<Rightarrow> HealthTask \<Rightarrow> string option \<Rightarrow> UpstreamNode \<Rightarrow> UpstreamNode option" where
  "probe_node env t path node =
     (case he_send env (health_request t path) of
        HsResponse status body \<Rightarrow>
          (if status = 200
           then (case answer_score env (ht_is_grpc t) body (current_score node) of
                   None \<Rightarrow> None
                 | Some (score_ok, score) \<Rightarrow>
                     (let node' = node\<lparr> current_score := score \<rparr>
                      in Some (if score_ok then check_passed node' else check_failed (he_now env) node')))
           else Some (check_failed (he_now env) node))
      | HsError \<Rightarrow> Some (check_failed (he_now env) node)
      | HsTimeout \<Rightarrow> Some (check_failed (he_now env) node))"

definition with_probe :: "'pool HealthEnv \<Rightarrow> HealthTask \<Rightarrow> 'pool HealthState \<Rightarrow> 'pool HealthState option" where
  "with_probe env t s = map_option (\<lambda>n. s\<lparr> hs_node := n \<rparr>) (probe_node env t (if ht_is_grpc t then hs_path s else None) (hs_node s))"

definition reflect_node :: "'pool HealthEnv \<Rightarrow> HealthTask \<Rightarrow> 'pool HealthState \<Rightarrow> 'pool HealthState \<times> bool" where
  "reflect_node env t s0 =
     (let s = s0\<lparr> hs_attempts := hs_attempts s0 + 1 \<rparr>
      in case he_build_pool env (ht_base_uri t) of
           Err e \<Rightarrow> (s\<lparr> hs_node := mark_dead (he_now env) (hs_node s) \<rparr>, False)
         | Ok p \<Rightarrow>
             (let path = find_health_path (he_services env p);
                  s1 = s\<lparr> hs_path := path, hs_pool := (case hs_pool s of None \<Rightarrow> Some (p, he_clock env) | Some c \<Rightarrow> Some c) \<rparr>
              in if path = None then (s1\<lparr> hs_node := check_passed (hs_node s1) \<rparr>, False) else (s1, True)))"

definition health_tick :: "'pool HealthEnv \<Rightarrow> HealthTask \<Rightarrow> 'pool HealthState \<Rightarrow> 'pool HealthState option" where
  "health_tick env t s =
     (if ht_is_grpc t then
        (case hs_path s of
           None \<Rightarrow> (case reflect_node env t s of (s', go_on) \<Rightarrow> if go_on then with_probe env t s' else Some s')
         | Some path \<Rightarrow> with_probe env t s)
      else with_probe env t s)"

fun health_run :: "HealthTask \<Rightarrow> 'pool HealthState \<Rightarrow> 'pool HealthEnv list \<Rightarrow> 'pool HealthState option" where
  "health_run t s [] = Some s"
| "health_run t s (env # envs) = (case health_tick env t s of None \<Rightarrow> None | Some s' \<Rightarrow> health_run t s' envs)"


section \<open>Lemmas\<close>

text \<open>The protobuf encoding of an unsigned number.\<close>

fun varint :: "nat \<Rightarrow> u8 list" where
  "varint n = (if n < 128 then [of_nat n] else of_nat (n mod 128 + 128) # varint (n div 128))"

declare varint.simps [simp del]

lemma low_bits: "b < 128 \<Longrightarrow> (of_nat b :: u8) AND 0x7F = of_nat b" for b :: nat
proof -
  assume "b < 128"
  have "(of_nat b :: u8) AND 0x7F = take_bit 7 (of_nat b)" by (simp add: take_bit_eq_mask mask_eq_exp_minus_1)
  also have "\<dots> = of_nat (take_bit 7 b)" by (simp add: of_nat_take_bit)
  finally show ?thesis using \<open>b < 128\<close> by (simp add: take_bit_nat_eq_self)
qed

lemma continued_bits: "b < 128 \<Longrightarrow> (of_nat (b + 128) :: u8) AND 0x7F = of_nat b" for b :: nat
proof -
  assume b: "b < 128"
  have "(of_nat (b + 128) :: u8) AND 0x7F = take_bit 7 (of_nat (b + 128))" by (simp add: take_bit_eq_mask mask_eq_exp_minus_1)
  also have "\<dots> = of_nat (take_bit 7 (b + 128))" by (simp only: of_nat_take_bit)
  also have "take_bit 7 (b + 128) = b" using b by (simp add: take_bit_eq_mod)
  finally show ?thesis .
qed

lemma top_bit: "(of_nat b :: u8) AND 0x80 = 0 \<longleftrightarrow> \<not> odd (b div 128)" for b :: nat
proof -
  have "(of_nat b :: u8) AND 0x80 = 0 \<longleftrightarrow> \<not> bit (of_nat b :: u8) 7"
    using and_exp_eq_0_iff_not_bit [of "of_nat b :: u8" 7] by simp
  also have "bit (of_nat b :: u8) 7 \<longleftrightarrow> bit b 7" by (simp only: bit_of_nat_iff) simp
  finally show ?thesis by (simp add: bit_iff_odd)
qed

lemma ucast_small: "b < 128 \<Longrightarrow> (ucast (of_nat b :: u8) :: usize) = of_nat b" for b :: nat
  by (simp add: unsigned_of_nat take_bit_nat_eq_self)

lemma split_seven: "(of_nat n :: usize) = of_nat (n mod 128) OR push_bit 7 (of_nat (n div 128))"
proof -
  have "n = take_bit 7 n OR push_bit 7 (drop_bit 7 n)"
  proof (rule bit_eqI)
    fix m
    show "bit n m \<longleftrightarrow> bit (take_bit 7 n OR push_bit 7 (drop_bit 7 n)) m" by (cases "m < 7") (auto simp: bit_simps)
  qed
  then have "(of_nat n :: usize) = of_nat (take_bit 7 n OR push_bit 7 (drop_bit 7 n))" by simp
  then show ?thesis by (simp add: of_nat_or_eq push_bit_of_nat take_bit_eq_mod drop_bit_eq_div)
qed

lemma varint_loop_decodes:
  "n < 128 ^ (5 - k) \<Longrightarrow> k \<le> 4 \<Longrightarrow> varint_loop (7 * k) sc (varint n @ rest) = sc OR push_bit (7 * k) (of_nat n)"
proof (induction n arbitrary: k sc rule: varint.induct)
  case (1 n)
  show ?case
  proof (cases "n < 128")
    case True
    then show ?thesis by (simp add: varint.simps [of n] Let_def low_bits top_bit ucast_small)
  next
    case False
    have k: "k \<le> 3" using 1(2,3) False by (cases "k = 4") auto
    then have "(128 :: nat) ^ (5 - k) = 128 * 128 ^ (5 - Suc k)" by (simp flip: power_Suc add: Suc_diff_Suc)
    then have n: "n div 128 < 128 ^ (5 - Suc k)" using 1(2) by (simp add: less_mult_imp_div_less mult.commute)
    have b: "n mod 128 < 128" and odd: "(n mod 128 + 128) div 128 = 1" by simp_all
    have "varint_loop (7 * k) sc (varint n @ rest)
        = varint_loop (7 * Suc k) (sc OR push_bit (7 * k) (of_nat (n mod 128))) (varint (n div 128) @ rest)"
      using False k continued_bits [OF b] top_bit [of "n mod 128 + 128", unfolded odd] ucast_small [OF b]
      by (simp add: varint.simps [of n] Let_def add.commute)
    also have "\<dots> = (sc OR push_bit (7 * k) (of_nat (n mod 128))) OR push_bit (7 * Suc k) (of_nat (n div 128))"
      by (rule 1(1) [OF False n]) (use k in simp)
    also have "\<dots> = sc OR push_bit (7 * k) (of_nat n)"
      unfolding split_seven [of n] push_bit_or push_bit_push_bit by (simp add: or.assoc add.commute)
    finally show ?thesis .
  qed
qed


lemma length_varint: "n < 128 ^ k \<Longrightarrow> 1 \<le> k \<Longrightarrow> 1 \<le> length (varint n) \<and> length (varint n) \<le> k"
proof (induction k arbitrary: n)
  case (Suc k)
  show ?case
  proof (cases "n < 128")
    case True
    then show ?thesis by (simp add: varint.simps)
  next
    case False
    then have k: "1 \<le> k" using Suc.prems(1) by (cases k) auto
    have "n div 128 < 128 ^ k" using Suc.prems(1) by (simp add: less_mult_imp_div_less mult.commute)
    then show ?thesis using Suc.IH [OF _ k] False by (simp add: varint.simps [of n])
  qed
qed simp

lemma check_fields [simp]:
  "is_alive (check_passed n)" "\<not> is_alive (check_failed now n)"
  "last_failure_time (check_failed now n) = now" "current_score (check_failed now n) = 0"
  "current_score (check_passed n) = current_score n"
  by (simp_all add: check_passed_def check_failed_def mark_alive_def mark_dead_def Let_def)

lemma node_inv_frame: "node_inv (n\<lparr> current_score := c \<rparr>) = node_inv n" "node_inv (n\<lparr> last_failure_time := l \<rparr>) = node_inv n"
  by (simp_all add: node_inv_def circuit_state_def)

lemma node_inv_mark: "node_inv (mark_dead now n)" "node_inv (mark_alive n)"
  by (simp_all add: node_inv_def)

lemma node_inv_check: "node_inv n \<Longrightarrow> node_inv (check_passed n)" "node_inv n \<Longrightarrow> node_inv (check_failed now n)"
  by (simp_all add: check_passed_def check_failed_def node_inv_mark node_inv_frame Let_def)

lemmas probe_defs = probe_node_def answer_score_def Let_def

lemma probe_node_inv: "probe_node env t path n = Some n' \<Longrightarrow> node_inv n \<Longrightarrow> node_inv n'"
  by (auto simp: probe_defs node_inv_check node_inv_frame split: HealthSend.splits HealthBody.splits if_splits option.splits prod.splits)

lemma probe_node_dead: "probe_node env t path n = Some n' \<Longrightarrow> \<not> is_alive n' \<Longrightarrow> last_failure_time n' = he_now env \<and> current_score n' = 0"
  by (auto simp: probe_defs split: HealthSend.splits HealthBody.splits if_splits option.splits prod.splits)

text \<open>The two ends of a period: the reflection decides alone, or the node is asked.\<close>

lemma health_tick_cases:
  fixes s :: "'pool HealthState"
  assumes "health_tick env t s = Some s'"
  obtains (reflected) "ht_is_grpc t" "hs_path s = None" "reflect_node env t s = (s', False)"
  | (probed) s1 :: "'pool HealthState" and path where "probe_node env t path (hs_node s1) = Some (hs_node s')" "hs_node s1 = hs_node s"
      "path = (if ht_is_grpc t then hs_path s1 else None)" "ht_is_grpc t \<Longrightarrow> path \<noteq> None"
proof (cases "ht_is_grpc t \<and> hs_path s = None")
  case True
  obtain s1 b where r: "reflect_node env t s = (s1, b)" by (cases "reflect_node env t s")
  show ?thesis
  proof (cases b)
    case False
    then show ?thesis using assms True r by (intro reflected) (auto simp: health_tick_def)
  next
    case go: True
    then have "hs_node s1 = hs_node s" "hs_path s1 \<noteq> None"
      using r by (auto simp: reflect_node_def Let_def split: result.splits if_splits)
    then show ?thesis using assms True r go
      by (intro probed [of "hs_path s1" s1]) (auto simp: health_tick_def with_probe_def)
  qed
next
  case False
  then have "with_probe env t s = Some s'" using assms by (auto simp: health_tick_def split: option.splits)
  then show ?thesis using False by (intro probed [of "if ht_is_grpc t then hs_path s else None" s]) (auto simp: with_probe_def)
qed

lemma reflect_node_inv: "reflect_node env t s = (s', b) \<Longrightarrow> node_inv (hs_node s) \<Longrightarrow> node_inv (hs_node s')"
  by (auto simp: reflect_node_def Let_def node_inv_mark node_inv_check split: result.splits if_splits)

lemma health_tick_inv:
  assumes "health_tick env t s = Some s'" and "node_inv (hs_node s)"
  shows "node_inv (hs_node s')"
  using assms(1)
proof (cases rule: health_tick_cases)
  case reflected
  then show ?thesis using reflect_node_inv assms(2) by blast
next
  case (probed s1 path)
  then show ?thesis using probe_node_inv assms(2) by metis
qed

lemma health_tick_dead:
  assumes "health_tick env t s = Some s'" and "\<not> is_alive (hs_node s')"
  shows "last_failure_time (hs_node s') = he_now env"
  using assms(1)
proof (cases rule: health_tick_cases)
  case reflected
  then show ?thesis using assms(2) by (auto simp: reflect_node_def Let_def split: result.splits if_splits)
next
  case (probed s1 path)
  then show ?thesis using probe_node_dead assms(2) by blast
qed


section \<open>The verdict of a period\<close>

lemma probe_alive_rest:
  assumes "\<not> ht_is_grpc t" and "probe_node env t path n = Some n'"
  shows "is_alive n' \<longleftrightarrow>
    (\<exists>bytes score. he_send env (health_request t path) = HsResponse 200 (BodyBytes bytes)
       \<and> he_json env bytes = Some (Some score) \<and> score \<noteq> 0)"
  using assms
  by (auto simp: probe_defs rest_health_score_def split: HealthSend.splits HealthBody.splits if_splits option.splits prod.splits)

text \<open>What one period of a REST check says: the node is in service exactly if the answer has status 200, its body
  is complete within the limit, and is JSON with a positive score.\<close>

lemma rest_check_alive:
  assumes "\<not> ht_is_grpc t" and "health_tick env t s = Some s'"
  shows "is_alive (hs_node s') \<longleftrightarrow>
    (\<exists>bytes score. he_send env (health_request t None) = HsResponse 200 (BodyBytes bytes)
       \<and> he_json env bytes = Some (Some score) \<and> score \<noteq> 0)"
  using assms(2)
proof (cases rule: health_tick_cases)
  case reflected
  then show ?thesis using assms(1) by simp
next
  case (probed s1 path)
  then have "probe_node env t None (hs_node s) = Some (hs_node s')" using assms(1) by simp
  then show ?thesis by (rule probe_alive_rest [OF assms(1)])
qed


text \<open>The score of a gRPC health answer is read back exactly: for every score below $2^{35}$ the framed
  protobuf message with that score in field 1 yields it, although the code stops after five groups of
  seven bits, and the node counts as healthy exactly if the score is not zero.\<close>

theorem grpc_score_roundtrip:
  assumes "score < 2 ^ 35"
  shows "grpc_health_score (grpc_frame (0x08 # varint score)) cur = (score > 0, of_nat score)"
proof -
  let ?payload = "(0x08 :: u8) # varint score"
  have score: "score < 128 ^ 5" using assms by simp
  have len: "2 \<le> length ?payload" "length ?payload < 2 ^ 32" using length_varint [OF score] by auto
  let ?b = "grpc_frame ?payload" and ?w = "of_nat (length ?payload) :: u32"
  have w: "unat ?w = length ?payload" using len(2) by (simp only: unat_of_nat) simp
  have b: "length ?b = 5 + length ?payload" "take 4 (drop 1 ?b) = to_be_bytes 4 ?w" "drop 5 ?b = ?payload"
    by (simp_all add: grpc_frame_def)
  have be: "u32_from_be_bytes (to_be_bytes 4 ?w) = ?w" by (rule from_to_be_bytes) simp
  have v: "varint_loop 0 0 (varint score) = of_nat score"
    using varint_loop_decodes [of score 0 0 "[]"] score by simp
  have "unat (of_nat score :: usize) = score" using assms by (simp add: unat_of_nat)
  then have "(of_nat score :: usize) > 0 \<longleftrightarrow> score > 0" by (metis unat_gt_0 word_gt_0)
  then show ?thesis
    unfolding grpc_health_score_def b be w using len v by (simp add: Let_def)
qed


text \<open>The five seconds of a check limit the answer's head only. A node that answers with status 200 and
  then never finishes its body stops its check for good: the period does not end, no later period
  happens, and the node stays in the state it had, in service if it was.\<close>

theorem stalled_answer_stops_checks:
  assumes "\<not> ht_is_grpc t" and "he_send env (health_request t None) = HsResponse 200 BodyStalled"
  shows "health_run t s (env # envs) = None"
  using assms by (simp add: health_tick_def with_probe_def probe_node_def answer_score_def)

text \<open>Every other answer, none at all included, ends the period.\<close>

lemma health_tick_returns:
  assumes "\<And>r. he_send env r \<noteq> HsResponse 200 BodyStalled"
  shows "\<exists>s'. health_tick env t s = Some s'"
proof -
  have "\<exists>n'. probe_node env t path n = Some n'" for path n
    using assms [of "health_request t path"]
    by (auto simp: probe_defs split: HealthSend.splits HealthBody.splits prod.splits)
  then have "\<exists>s'. with_probe env t s1 = Some s'" for s1 by (simp add: with_probe_def)
  then show ?thesis by (auto simp: health_tick_def split: option.splits prod.splits)
qed

text \<open>Gateways in front of gateways: a health check against another gateway's own \<open>/health\<close> endpoint puts
  the node in service exactly if that gateway has no routes or some route of it has an available node.\<close>

theorem chained_gateway_health:
  fixes config :: "('c, 'r) ServerConfig"
  assumes "\<not> ht_is_grpc t" and "health_tick env t s = Some s'"
    and "he_send env (health_request t None)
      = HsResponse (resp_status (handle_health_check now config)) (BodyBytes (body_bytes (resp_body (handle_health_check now config))))"
    and json: "he_json env (map of_char ''{\"score\": 100, \"message\": \"no routes configured\"}'') = Some (Some 100)"
      "he_json env (map of_char ''{\"score\": 100, \"message\": \"nodes available\"}'') = Some (Some 100)"
  shows "is_alive (hs_node s') \<longleftrightarrow> srv_parsed_routes config = [] \<or> any_available now (srv_parsed_routes config)"
  unfolding rest_check_alive [OF assms(1,2)] assms(3)
  using json by (auto simp: handle_health_check_def build_error_response_def full_body_def)

section \<open>The tasks of a configuration\<close>

lemma sequence_opt_Some: "sequence_opt xs = Some ys \<longleftrightarrow> xs = map Some ys"
  by (induction xs arbitrary: ys rule: sequence_opt.induct) auto

lemma health_task_ids: "health_task proto token r route i n = Some t \<Longrightarrow> ht_route t = r \<and> ht_idx t = i"
  by (auto simp: health_task_def Let_def split: option.splits)

definition has_authority :: "ParsedRoute \<Rightarrow> bool" where
  "has_authority route = list_all (\<lambda>node. uri_authority (node_uri node) \<noteq> None) (upstreams (route_target route))"

definition checked_nodes :: "nat \<times> ParsedRoute \<Rightarrow> (nat \<times> nat) list" where
  "checked_nodes = (\<lambda>(r, route). if active_health_check_interval (route_target route) > 0
     then map (Pair r) [0..<length (upstreams (route_target route))] else [])"

lemma node_tasks:
  assumes "list_all (\<lambda>node. uri_authority (node_uri node) \<noteq> None) nodes"
  shows "\<exists>ts. map (\<lambda>(idx, node). health_task proto token r route idx node) (enumerate k nodes) = map Some ts
    \<and> map (\<lambda>t. (ht_route t, ht_idx t)) ts = map (Pair r) [k..<k + length nodes]"
  using assms
proof (induction nodes arbitrary: k)
  case (Cons n nodes)
  then obtain ts where ts: "map (\<lambda>(idx, node). health_task proto token r route idx node) (enumerate (Suc k) nodes) = map Some ts"
    "map (\<lambda>t. (ht_route t, ht_idx t)) ts = map (Pair r) [Suc k..<Suc k + length nodes]" by fastforce
  obtain t where t: "health_task proto token r route k n = Some t"
    using Cons.prems by (auto simp: health_task_def Let_def)
  moreover have "[k..<k + length (n # nodes)] = k # [Suc k..<Suc k + length nodes]" by (simp add: upt_conv_Cons del: upt_Suc)
  ultimately show ?case using ts health_task_ids [OF t] by (intro exI [of _ "t # ts"]) (simp del: upt_Suc)
qed simp

lemma route_tasks:
  assumes "has_authority route"
  shows "\<exists>ts. route_health_tasks proto token r route = map Some ts
    \<and> map (\<lambda>t. (ht_route t, ht_idx t)) ts = checked_nodes (r, route)"
  using node_tasks [OF assms [unfolded has_authority_def], of proto token r route 0]
  by (auto simp: route_health_tasks_def checked_nodes_def)

lemma all_tasks:
  assumes "list_all (\<lambda>(r, route). has_authority route) ps"
  shows "\<exists>ts. concat (map (\<lambda>(r, route). route_health_tasks proto token r route) ps) = map Some ts
    \<and> map (\<lambda>t. (ht_route t, ht_idx t)) ts = concat (map checked_nodes ps)"
  using assms
proof (induction ps)
  case (Cons p ps)
  obtain r route where p: "p = (r, route)" by (cases p)
  obtain ts1 ts2 where "route_health_tasks proto token r route = map Some ts1"
    "map (\<lambda>t. (ht_route t, ht_idx t)) ts1 = checked_nodes (r, route)"
    "concat (map (\<lambda>(r, route). route_health_tasks proto token r route) ps) = map Some ts2"
    "map (\<lambda>t. (ht_route t, ht_idx t)) ts2 = concat (map checked_nodes ps)"
    using Cons route_tasks [of route proto token r] p by auto
  then show ?case unfolding p by (intro exI [of _ "ts1 @ ts2"]) simp
qed simp

text \<open>Every node of every route with a check interval gets exactly one check task, in the order of the
  configuration, and nodes of other routes get none.\<close>

theorem health_tasks_cover:
  assumes "srv_router_params config = Some params" and "\<And>ca pair. load_tls ca pair = Ok ()"
    and "list_all has_authority (srv_parsed_routes config)"
  shows "\<exists>tasks. spawn_router_health_checks load_tls config = Some tasks
    \<and> map (\<lambda>t. (ht_route t, ht_idx t)) tasks = concat (map checked_nodes (enumerate 0 (srv_parsed_routes config)))"
proof -
  have "list_all (\<lambda>(r, route). has_authority route) (enumerate 0 (srv_parsed_routes config))"
    using assms(3) by (auto simp: list_all_iff in_set_enumerate_eq)
  from all_tasks [OF this] show ?thesis
    using assms(1,2) by (auto simp: spawn_router_health_checks_def sequence_opt_Some Let_def)
qed

section \<open>Examples\<close>

definition demo_task :: "bool \<Rightarrow> HealthTask" where
  "demo_task is_grpc =
     \<lparr> ht_route = 0, ht_idx = 0, ht_is_grpc = is_grpc, ht_http2_only = is_grpc, ht_base_uri = ''http://b'', ht_rest_uri = ''http://b/health'',
       ht_interval = 5, ht_auth_header = None \<rparr>"

definition demo_health_env :: "HealthSend \<Rightarrow> unit HealthEnv" where
  "demo_health_env answer =
     \<lparr> he_build_pool = (\<lambda>_. Err ''refused''), he_services = (\<lambda>_. []), he_send = (\<lambda>_. answer),
       he_json = (\<lambda>b. if b = map of_char ''{\"score\": 100, \"message\": \"no routes configured\"}''
                          \<or> b = map of_char ''{\"score\": 100, \"message\": \"nodes available\"}'' then Some (Some 100) else None),
       he_now = 100, he_clock = 0 \<rparr>"

definition demo_health_state :: "UpstreamNode \<Rightarrow> unit HealthState" where
  "demo_health_state node = \<lparr> hs_path = None, hs_attempts = 0, hs_node = node, hs_pool = None \<rparr>"

lemma demo_node_inv: "node_inv (demo_node h)"
  by (simp add: demo_node_def UpstreamNode_new_def node_inv_def circuit_state_def)


theorem grpc_score_roundtrip_witness: "grpc_health_score (grpc_frame (0x08 # varint 300)) 0 = (True, 300)"
  using grpc_score_roundtrip [of 300 0] by simp

theorem stalled_answer_stops_checks_witness:
  "health_run (demo_task False) (demo_health_state (demo_node ''b:1''))
     [demo_health_env (HsResponse 200 BodyStalled), demo_health_env HsTimeout] = None"
  using stalled_answer_stops_checks [of "demo_task False" "demo_health_env (HsResponse 200 BodyStalled)"]
  by (simp add: demo_task_def demo_health_env_def)

definition demo_idle_config :: "(string, string) ServerConfig" where
  "demo_idle_config = demo_server HttpProto NoAuthentication"

theorem chained_gateway_health_witness:
  "\<exists>s'. health_tick (demo_health_env (HsResponse (resp_status (handle_health_check 0 demo_idle_config))
       (BodyBytes (body_bytes (resp_body (handle_health_check 0 demo_idle_config)))))) (demo_task False) (demo_health_state (demo_node ''b:1'')) = Some s'
     \<and> is_alive (hs_node s')"
proof -
  let ?r = "handle_health_check 0 demo_idle_config"
  let ?env = "demo_health_env (HsResponse (resp_status ?r) (BodyBytes (body_bytes (resp_body ?r))))"
  have send: "he_send ?env x = HsResponse (resp_status ?r) (BodyBytes (body_bytes (resp_body ?r)))" for x
    by (simp only: demo_health_env_def HealthEnv.select_convs)
  have "\<exists>s'. health_tick ?env (demo_task False) (demo_health_state (demo_node ''b:1'')) = Some s'"
    by (rule health_tick_returns) (simp only: send HealthSend.inject HealthBody.distinct simp_thms not_False_eq_True)
  then obtain s' where s': "health_tick ?env (demo_task False) (demo_health_state (demo_node ''b:1'')) = Some s'" by blast
  have "srv_parsed_routes demo_idle_config = []" by (simp add: demo_idle_config_def demo_server_def)
  then show ?thesis using chained_gateway_health [OF _ s' send] s'
    by (auto simp: demo_task_def demo_health_env_def)
qed

definition demo_checked_config :: "(string, string) ServerConfig" where
  "demo_checked_config =
     demo_idle_config\<lparr>
       srv_router_params := Some \<lparr> rp_protocol = HttpProto, rp_authentication = NoAuthentication, rp_ssl_root_certificate = None, rp_jwt = None,
         rp_ssl_client_certificate = None, rp_ssl_client_key = None, rp_connect_timeout_seconds = 5, rp_request_timeout_seconds = 5,
         rp_idle_timeout_seconds = 5, rp_grpc_reflection_timeout_seconds = 5, rp_grpc_reflection_ttl_seconds = 5 \<rparr>,
       srv_parsed_routes := [demo_route ''/a'' Rest, (demo_route ''/b'' Rest)\<lparr> route_target := demo_target\<lparr> active_health_check_interval := 5 \<rparr> \<rparr>] \<rparr>"

theorem health_tasks_cover_witness:
  "\<exists>tasks. spawn_router_health_checks (\<lambda>_ _. Ok ()) demo_checked_config = Some tasks
     \<and> map (\<lambda>t. (ht_route t, ht_idx t)) tasks = [(1, 0), (1, 1), (1, 2)]"
proof -
  have nodes: "concat (map checked_nodes (enumerate 0 (srv_parsed_routes demo_checked_config))) = [(1, 0), (1, 1), (1, 2)]"
    and auth: "list_all has_authority (srv_parsed_routes demo_checked_config)" by (code_simp, code_simp)
  obtain params where "srv_router_params demo_checked_config = Some params" by (simp add: demo_checked_config_def)
  from health_tasks_cover [OF this _ auth, of "\<lambda>_ _. Ok ()"] show ?thesis unfolding nodes by simp
qed

end
