(* ===== verification/Light_Layers.thy ===== *)
theory Light_Layers
  imports Health_Check
begin

text \<open>
  The layers that only observe or decorate, and the echo service, all under \<open>server/src/middleware/\<close>:
  \<open>security_headers.rs\<close>, \<open>alt_svc.rs\<close>, \<open>trace_id.rs\<close>, \<open>counter.rs\<close>, \<open>timing.rs\<close>, \<open>delay.rs\<close>, \<open>logger.rs\<close> and
  \<open>echo.rs\<close>. Each layer is given by what it does to the request before the inner service runs and to the
  answer after it; the theory \<open>Service_Stack\<close> wraps services with them.

  A log line is a value of \<open>LogLine\<close>; how its parts are rendered as text is not modelled.
\<close>

section \<open>Security headers and Alt-Svc\<close>

definition insert_if_valid :: "string \<Rightarrow> string \<Rightarrow> HeaderMap \<Rightarrow> HeaderMap" where
  "insert_if_valid name value h = (case header_value value of Some v \<Rightarrow> hm_insert name v h | None \<Rightarrow> h)"

definition security_headers_response :: "SecurityHeadersConfig \<Rightarrow> Response \<Rightarrow> Response" where
  "security_headers_response config response =
     (let h0 = resp_headers response;
          h1 = insert_if_valid ''content-security-policy'' (content_security_policy config) h0;
          h2 = insert_if_valid ''strict-transport-security'' (strict_transport_security config) h1;
          h3 = insert_if_valid ''x-content-type-options'' (x_content_type_options config) h2;
          h4 = insert_if_valid ''x-frame-options'' (x_frame_options config) h3;
          h5 = insert_if_valid ''referrer-policy'' (referrer_policy config) h4
      in response\<lparr> resp_headers := h5 \<rparr>)"

definition alt_svc_value :: "u16 \<Rightarrow> string" where
  "alt_svc_value port = ''h3=\":'' @ show_nat (unat port) @ ''\" ; ma=86400''"

definition alt_svc_response :: "u16 \<Rightarrow> Response \<Rightarrow> Response" where
  "alt_svc_response port response =
     response\<lparr> resp_headers := hm_insert ''alt-svc'' (alt_svc_value port) (resp_headers response) \<rparr>"

section \<open>Trace identifiers\<close>

text \<open>The span context of the runtime, if valid, as its trace id, span id and flags; two fresh UUIDs.\<close>

record TraceEnv =
  te_current :: "(string \<times> string \<times> u8) option"
  te_uuid1 :: string
  te_uuid2 :: string

definition hex_lower :: "nat \<Rightarrow> char" where
  "hex_lower n = (if n < 10 then char_of (48 + n) else char_of (87 + n))"

definition hex02 :: "u8 \<Rightarrow> string" where
  "hex02 b = [hex_lower (unat b div 16), hex_lower (unat b mod 16)]"

definition header_str :: "string \<Rightarrow> HeaderMap \<Rightarrow> string option" where
  "header_str name h = (case hm_get name h of Some v \<Rightarrow> (if is_visible_ascii v then Some v else None) | None \<Rightarrow> None)"

definition generated_trace_id :: "TraceEnv \<Rightarrow> string" where
  "generated_trace_id env =
     (case te_current env of
        Some (trace, span, flags) \<Rightarrow> ''00-'' @ trace @ ''-'' @ span @ ''-'' @ hex02 flags
      | None \<Rightarrow> ''00-'' @ te_uuid1 env @ ''-'' @ take 16 (te_uuid2 env) @ ''-01'')"

definition resolve_trace_id :: "TraceEnv \<Rightarrow> HeaderMap \<Rightarrow> string" where
  "resolve_trace_id env h =
     (case header_str ''traceparent'' h of
        Some v \<Rightarrow> v
      | None \<Rightarrow> (case header_str ''x-trace-id'' h of Some v \<Rightarrow> v | None \<Rightarrow> generated_trace_id env))"

definition trace_id_request :: "TraceEnv \<Rightarrow> Request \<Rightarrow> Request" where
  "trace_id_request env req =
     (let trace_id = resolve_trace_id env (req_headers req);
          h0 = req_headers req;
          h1 = (if hm_contains_key ''traceparent'' h0 then h0 else insert_if_valid ''traceparent'' trace_id h0);
          h2 = (if hm_contains_key ''x-trace-id'' h1 then h1 else insert_if_valid ''x-trace-id'' trace_id h1)
      in req\<lparr> req_ext := (req_ext req)\<lparr> ext_trace_id := Some trace_id \<rparr>, req_headers := h2 \<rparr>)"

section \<open>Log lines\<close>

datatype LogLevel = LogInfo | LogWarn | LogError

datatype LogLine =
    RequestLine string string string "SocketAddr option" "UserRole list option"   \<comment> \<open>server, method, URI, address, roles\<close>
  | ResponseLine LogLevel string nat HeaderMap
  | CorsBlockedLine string string
  | ErrorLine string SrvError
  | TookLine string Duration
  | ProcessedLine string u64

definition sensitive_headers :: "string list" where
  "sensitive_headers = [''set-cookie'', ''cookie'', ''authorization'']"

definition redact_header :: "string \<Rightarrow> HeaderMap \<Rightarrow> HeaderMap" where
  "redact_header name h = (if hm_contains_key name h then hm_insert name ''[REDACTED]'' h else h)"

definition sanitize_headers :: "HeaderMap \<Rightarrow> HeaderMap" where
  "sanitize_headers headers = fold redact_header sensitive_headers headers"

text \<open>
  \<open>str::to_lowercase\<close> compared with an ASCII string: besides the ASCII letters only the Kelvin sign (the bytes
  E2 84 AA) has an ASCII lower case.
\<close>

fun fold_kelvin :: "string \<Rightarrow> string" where
  "fold_kelvin (a # b # c # s) =
     (if a = CHR 0xE2 \<and> b = CHR 0x84 \<and> c = CHR 0xAA then CHR ''k'' # fold_kelvin s else a # fold_kelvin (b # c # s))"
| "fold_kelvin s = s"

definition sensitive_keys :: "string list" where
  "sensitive_keys = [''session'', ''token'', ''jwt'', ''secret'', ''poll_secret'']"

definition is_sensitive_key :: "string \<Rightarrow> bool" where
  "is_sensitive_key k \<longleftrightarrow> to_ascii_lowercase (fold_kelvin k) \<in> set sensitive_keys"

definition sanitize_pair :: "string \<Rightarrow> string" where
  "sanitize_pair pair =
     (case split_once CHR ''='' pair of
        Some (k, _) \<Rightarrow> (if is_sensitive_key k then k @ ''=[REDACTED]'' else pair)
      | None \<Rightarrow> pair)"

fun join_with :: "string \<Rightarrow> string list \<Rightarrow> string" where
  "join_with sep [] = []"
| "join_with sep [x] = x"
| "join_with sep (x # y # xs) = x @ sep @ join_with sep (y # xs)"

text \<open>\<open>Uri\<close>'s \<open>Display\<close> without a query: scheme, authority and path.\<close>

definition display_uri :: "Uri \<Rightarrow> string" where
  "display_uri uri =
     (case uri_scheme uri of Some s \<Rightarrow> s @ ''://'' | None \<Rightarrow> []) @ (case uri_authority uri of Some a \<Rightarrow> a | None \<Rightarrow> [])
     @ uri_path uri"

definition sanitize_uri :: "Uri \<Rightarrow> string" where
  "sanitize_uri uri =
     (case uri_query uri of
        Some query \<Rightarrow> uri_path uri @ ''?'' @ join_with ''&'' (map sanitize_pair (split_on CHR ''&'' query))
      | None \<Rightarrow> display_uri uri)"

definition logger_call :: "string \<Rightarrow> Request \<Rightarrow> LogLine" where
  "logger_call server_name req =
     RequestLine server_name (req_method req) (sanitize_uri (req_uri req)) (ext_socket_addr (req_ext req))
       (case ext_roles_shared (req_ext req) of
          Some roles \<Rightarrow> Some roles
        | None \<Rightarrow> (case ext_roles_legacy (req_ext req) of Some roles \<Rightarrow> Some roles | None \<Rightarrow> None))"

definition logger_poll :: "string \<Rightarrow> Request \<Rightarrow> (Response, SrvError) result \<Rightarrow> LogLine list" where
  "logger_poll server_name req response =
     (case response of
        Err err \<Rightarrow> [ErrorLine server_name err]
      | Ok res \<Rightarrow>
          (let status = resp_status res;
               origin = hm_get ''origin'' (req_headers req);
               preflight_failed = (req_method req = ''OPTIONS'' \<and> origin \<noteq> None \<and> status = 200
                  \<and> hm_get ''access-control-allow-origin'' (resp_headers res) = None);
               level = (if 500 \<le> status \<and> status < 600 then LogError
                        else if 400 \<le> status \<and> status < 500 \<or> preflight_failed then LogWarn else LogInfo)
           in (if preflight_failed
               then [CorsBlockedLine server_name (case header_str ''origin'' (req_headers req) of Some v \<Rightarrow> v | None \<Rightarrow> ''unknown'')]
               else [])
              @ [ResponseLine level server_name status (sanitize_headers (resp_headers res))]))"

section \<open>Counting, timing and delay\<close>

text \<open>A poll of the inner future gives a result or is pending; a count is logged for the first and every 500th request.\<close>

definition counting_poll :: "string \<Rightarrow> 'r option \<Rightarrow> u64 \<Rightarrow> 'r option \<times> u64 \<times> LogLine list" where
  "counting_poll server_name polled count =
     (case polled of
        None \<Rightarrow> (None, count, [])
      | Some result \<Rightarrow>
          (let new = count + 1
           in (Some result, new, if new = 1 \<or> new mod 500 = 0 then [ProcessedLine server_name new] else [])))"

definition timing_poll :: "string \<Rightarrow> Instant \<Rightarrow> Instant \<Rightarrow> 'r option \<Rightarrow> 'r option \<times> LogLine list" where
  "timing_poll server_name start now polled =
     (case polled of None \<Rightarrow> (None, []) | Some result \<Rightarrow> (Some result, [TookLine server_name (now - start)]))"

record DelayService =
  dl_delay :: Duration
  dl_sleep :: "Instant option"    \<comment> \<open>when the running sleep ends\<close>

definition delay_poll_ready :: "Instant \<Rightarrow> bool \<Rightarrow> DelayService \<Rightarrow> bool \<times> DelayService" where
  "delay_poll_ready now inner_ready svc =
     (let deadline = (case dl_sleep svc of None \<Rightarrow> now + dl_delay svc | Some d \<Rightarrow> d)
      in if now < deadline then (False, svc\<lparr> dl_sleep := Some deadline \<rparr>)
         else (inner_ready, svc\<lparr> dl_sleep := None \<rparr>))"

definition delay_clone :: "DelayService \<Rightarrow> DelayService" where
  "delay_clone svc = svc\<lparr> dl_sleep := None \<rparr>"

fun delay_polls :: "DelayService \<Rightarrow> (Instant \<times> bool) list \<Rightarrow> bool list" where
  "delay_polls svc [] = []"
| "delay_polls svc ((now, inner_ready) # polls) =
     (case delay_poll_ready now inner_ready svc of (r, svc') \<Rightarrow> r # delay_polls svc' polls)"

section \<open>The echo service\<close>

text \<open>
  \<open>String::from_utf8_lossy\<close>: the length of the well-formed character at the front, or of the longest prefix that
  could begin one; such a prefix becomes the replacement character.
\<close>

definition is_cont :: "u8 \<Rightarrow> bool" where
  "is_cont b \<longleftrightarrow> 0x80 \<le> b \<and> b \<le> 0xBF"

definition second_ok :: "u8 \<Rightarrow> u8 \<Rightarrow> bool" where
  "second_ok a b =
     (if a = 0xE0 then 0xA0 \<le> b \<and> b \<le> 0xBF
      else if a = 0xED then 0x80 \<le> b \<and> b \<le> 0x9F
      else if a = 0xF0 then 0x90 \<le> b \<and> b \<le> 0xBF
      else if a = 0xF4 then 0x80 \<le> b \<and> b \<le> 0x8F
      else is_cont b)"

definition seq_width :: "u8 \<Rightarrow> nat" where
  "seq_width a =
     (if a < 0x80 then 1 else if 0xC2 \<le> a \<and> a \<le> 0xDF then 2 else if 0xE0 \<le> a \<and> a \<le> 0xEF then 3
      else if 0xF0 \<le> a \<and> a \<le> 0xF4 then 4 else 0)"

fun utf8_prefix :: "u8 list \<Rightarrow> bool \<times> nat" where
  "utf8_prefix [] = (False, 0)"
| "utf8_prefix (a # bs) =
     (let w = seq_width a;
          tail = takeWhile is_cont (take (w - 2) (drop 1 bs))
      in if w = 1 then (True, 1)
         else if w = 0 \<or> bs = [] \<or> \<not> second_ok a (hd bs) then (False, 1)
         else (length tail = w - 2, 2 + length tail))"

lemma utf8_prefix_pos: "bs \<noteq> [] \<Longrightarrow> 0 < snd (utf8_prefix bs)"
  by (cases bs) (auto simp: Let_def)

function from_utf8_lossy :: "u8 list \<Rightarrow> u8 list" where
  "from_utf8_lossy bs =
     (if bs = [] then []
      else (case utf8_prefix bs of
              (valid, k) \<Rightarrow> (if valid then take k bs else [0xEF, 0xBF, 0xBD]) @ from_utf8_lossy (drop k bs)))"
  by pat_completeness auto
termination
  by (relation "measure length") (auto simp: prod_eq_iff intro!: diff_less utf8_prefix_pos)

declare from_utf8_lossy.simps [simp del]

definition to_str :: "u8 list \<Rightarrow> string" where
  "to_str bs = map (\<lambda>b. char_of (unat b)) bs"

fun rfind :: "char \<Rightarrow> string \<Rightarrow> nat option" where
  "rfind c [] = None"
| "rfind c (x # xs) = (case rfind c xs of Some i \<Rightarrow> Some (Suc i) | None \<Rightarrow> if x = c then Some 0 else None)"

definition echo_put_body :: "string \<Rightarrow> u8 list \<Rightarrow> u8 list" where
  "echo_put_body server_name body =
     (let trimmed = trim (to_str (from_utf8_lossy body))
      in case rfind (CHR ''}'') trimmed of
           Some pos \<Rightarrow> map of_char (take pos trimmed @ '', \"note\": \"from echo name: '' @ server_name @ ''\" }'')
         | None \<Rightarrow> body)"

definition full_bytes :: "u8 list \<Rightarrow> SrvBody" where
  "full_bytes bs = (if bs = [] then [] else [Ok (Data bs)])"

definition echo_greeting :: "string \<Rightarrow> string \<Rightarrow> string option \<Rightarrow> Response" where
  "echo_greeting server_name path query =
     \<lparr> resp_status = 200, resp_headers = [(''content-type'', ''text/plain'')],
       resp_body = full_body (''Echo '' @ path @ ''! Query: '' @ unwrap_or ''none'' query @ '' from Server: '' @ server_name) \<rparr>"

definition echo_health :: string where
  "echo_health = ''{\"score\": 100, \"message\": \"echo service is alive\"}''"

definition echo_call :: "string \<Rightarrow> Request \<Rightarrow> (Response, SrvError) result" where
  "echo_call server_name req =
     (let meth = req_method req; path = uri_path (req_uri req); query = uri_query (req_uri req)
      in if meth = ''GET'' \<and> path = ''/'' then Ok (echo_greeting server_name path query)
         else if meth = ''GET'' \<and> path = ''/name'' then Ok (echo_greeting server_name path query)
         else if meth = ''GET'' \<and> path = ''/health''
         then Ok \<lparr> resp_status = 200, resp_headers = [(''content-type'', ''application/json'')], resp_body = full_body echo_health \<rparr>
         else if meth = ''GET'' \<and> path = ''/help''
         then Ok \<lparr> resp_status = 200, resp_headers = [],
                   resp_body = full_body (''=====> This is the help page from '' @ server_name @ [CHR 0x0A]) \<rparr>
         else if meth = ''POST'' \<and> path = ''/''
         then (case collect_body (req_body req) of
                 Err e \<Rightarrow> Err e
               | Ok bytes \<Rightarrow>
                   Ok \<lparr> resp_status = 200,
                        resp_headers = [(''content-type'', unwrap_or ''application/octet-stream'' (hm_get ''content-type'' (req_headers req)))],
                        resp_body = full_bytes bytes \<rparr>)
         else if meth = ''PUT'' \<and> path = ''/''
         then (case collect_body (req_body req) of
                 Err e \<Rightarrow> Err e
               | Ok bytes \<Rightarrow>
                   Ok \<lparr> resp_status = 200, resp_headers = [(''content-type'', ''application/json'')],
                        resp_body = full_bytes (echo_put_body server_name bytes) \<rparr>)
         else Ok \<lparr> resp_status = 404, resp_headers = [], resp_body = full_body ''Not Found'' \<rparr>)"


section \<open>What is logged\<close>

lemma split_join_with:
  "xs \<noteq> [] \<Longrightarrow> \<forall>x \<in> set xs. d \<notin> set x \<Longrightarrow> split_on d (join_with [d] xs) = xs"
proof (induction xs rule: induct_list012)
  case (3 x y zs)
  then show ?case using split_on_append [of d x "join_with [d] (y # zs)"] by simp
qed (simp_all add: split_on_id)

lemma split_once_Some: "split_once d s = Some (a, b) \<longleftrightarrow> s = a @ d # b \<and> d \<notin> set a"
proof (induction s arbitrary: a)
  case (Cons c s)
  then show ?case by (cases a) auto
qed simp

lemma sanitize_pair_chars: "d \<notin> set p \<Longrightarrow> d \<notin> set ''=[REDACTED]'' \<Longrightarrow> d \<notin> set (sanitize_pair p)"
  by (auto simp: sanitize_pair_def split_once_Some split: option.splits)

lemma sanitize_pair_value:
  assumes "split_once CHR ''='' (sanitize_pair p) = Some (k, v)" and "is_sensitive_key k"
  shows "v = ''[REDACTED]''"
proof (cases "split_once CHR ''='' p")
  case None
  then show ?thesis using assms(1) by (simp add: sanitize_pair_def)
next
  case (Some kv)
  obtain k' v' where kv: "kv = (k', v')" by (cases kv)
  then have k': "CHR ''='' \<notin> set k'" using Some by (simp add: split_once_Some)
  show ?thesis
  proof (cases "is_sensitive_key k'")
    case True
    then have "sanitize_pair p = k' @ CHR ''='' # ''[REDACTED]''" using Some kv by (simp add: sanitize_pair_def)
    then show ?thesis using assms(1) split_once_append [OF k'] by simp
  next
    case False
    then show ?thesis using Some kv assms by (simp add: sanitize_pair_def)
  qed
qed

text \<open>The request line of the log never shows a secret of the query: every parameter of the logged URI whose name is,
  in any case, one of the sensitive ones has the value \<open>[REDACTED]\<close>, and there are as many parameters as
  in the request.\<close>

theorem logged_query_redacted:
  assumes "uri_query uri = Some query"
  shows "\<exists>logged. sanitize_uri uri = uri_path uri @ ''?'' @ logged
    \<and> length (split_on CHR ''&'' logged) = length (split_on CHR ''&'' query)
    \<and> (\<forall>pair \<in> set (split_on CHR ''&'' logged). \<forall>k v.
         split_once CHR ''='' pair = Some (k, v) \<longrightarrow> is_sensitive_key k \<longrightarrow> v = ''[REDACTED]'')"
proof -
  let ?ps = "map sanitize_pair (split_on CHR ''&'' query)"
  have "CHR ''&'' \<notin> set (sanitize_pair p)" if "p \<in> set (split_on CHR ''&'' query)" for p
    by (rule sanitize_pair_chars [OF split_on_no_delim [OF that]]) simp
  then have "split_on CHR ''&'' (join_with ''&'' ?ps) = ?ps" by (intro split_join_with) auto
  then show ?thesis using assms sanitize_pair_value
    by (intro exI [of _ "join_with ''&'' ?ps"]) (auto simp: sanitize_uri_def)
qed

lemma redact_get_all:
  "hm_get_all m (redact_header n h) = (if m = n \<and> hm_contains_key n h then [''[REDACTED]''] else hm_get_all m h)"
  by (simp add: redact_header_def hm_get_all_insert)

lemma contains_key_get_all: "hm_contains_key n h \<longleftrightarrow> hm_get_all n h \<noteq> []"
  by (induction h) (auto simp: hm_contains_key_def hm_get_all_def)

text \<open>Response headers in the log: cookies and credentials are replaced, whatever their number, and every other
  header is as sent.\<close>

theorem logged_headers_redacted:
  "hm_get_all n (sanitize_headers h)
   = (if n \<in> set sensitive_headers \<and> hm_contains_key n h then [''[REDACTED]''] else hm_get_all n h)"
  by (auto simp: sanitize_headers_def sensitive_headers_def redact_get_all contains_key_get_all)

section \<open>Decorated answers\<close>

lemma insert_if_valid_get:
  "hm_get_all m (insert_if_valid n v h) = (if m = n \<and> is_visible_ascii v then [v] else hm_get_all m h)"
  by (simp add: insert_if_valid_def header_value_def hm_get_all_insert)

definition security_values :: "SecurityHeadersConfig \<Rightarrow> (string \<times> string) list" where
  "security_values c =
     [(''content-security-policy'', content_security_policy c), (''strict-transport-security'', strict_transport_security c),
      (''x-content-type-options'', x_content_type_options c), (''x-frame-options'', x_frame_options c), (''referrer-policy'', referrer_policy c)]"

text \<open>The security layer sets each of its five headers to exactly the configured value, whatever the inner service
  sent under that name, unless the value cannot be a header value; it changes nothing else of the answer.\<close>

theorem security_headers_set:
  "resp_status (security_headers_response c r) = resp_status r \<and> resp_body (security_headers_response c r) = resp_body r
   \<and> hm_get_all n (resp_headers (security_headers_response c r))
     = (case map_of (security_values c) n of
          Some v \<Rightarrow> (if is_visible_ascii v then [v] else hm_get_all n (resp_headers r))
        | None \<Rightarrow> hm_get_all n (resp_headers r))"
  by (simp add: security_headers_response_def Let_def insert_if_valid_get security_values_def)

section \<open>Trace identifiers\<close>

lemma insert_if_valid_hm_get:
  "hm_get m (insert_if_valid n v h) = (if m = n \<and> is_visible_ascii v then Some v else hm_get m h)"
  by (simp add: insert_if_valid_def header_value_def hm_get_insert)

text \<open>Behind the trace layer every request has a trace identifier: the extension is set, both headers are there
  if the identifier can be a header value, and headers the client sent are unchanged.\<close>

theorem trace_id_present:
  assumes "is_visible_ascii (generated_trace_id env)"
  shows "\<exists>trace. ext_trace_id (req_ext (trace_id_request env req)) = Some trace
    \<and> (\<forall>n. hm_get n (req_headers (trace_id_request env req))
        = (case hm_get n (req_headers req) of
             Some v \<Rightarrow> Some v
           | None \<Rightarrow> if n = ''traceparent'' \<or> n = ''x-trace-id'' then Some trace else None))"
proof -
  let ?t = "resolve_trace_id env (req_headers req)"
  have "is_visible_ascii ?t"
    using assms by (auto simp: resolve_trace_id_def header_str_def split: option.splits if_splits)
  then show ?thesis
    by (intro exI [of _ ?t])
      (auto simp: trace_id_request_def Let_def hm_contains_key_get insert_if_valid_hm_get split: option.splits)
qed


definition demo_trace_env :: TraceEnv where
  "demo_trace_env =
     \<lparr> te_current = None, te_uuid1 = ''0af7651916cd43dd8448eb211c80319c'', te_uuid2 = ''b7ad6b7169203331aaaaaaaaaaaaaaaa'' \<rparr>"

theorem trace_id_present_witness:
  "hm_get ''traceparent'' (req_headers (trace_id_request demo_trace_env (demo_request ''GET'' ''/'')))
     = ext_trace_id (req_ext (trace_id_request demo_trace_env (demo_request ''GET'' ''/'')))"
proof -
  have "is_visible_ascii (generated_trace_id demo_trace_env)" by code_simp
  from trace_id_present [OF this, of "demo_request ''GET'' ''/''"] show ?thesis
    by (auto simp: demo_request_def hm_get_def)
qed

text \<open>The identifier need not be a W3C one: what a client sends as \<open>x-trace-id\<close> becomes the \<open>traceparent\<close> header of the
  request as it is.\<close>

theorem x_trace_id_becomes_traceparent:
  "hm_get ''traceparent'' (req_headers (trace_id_request env ((demo_request ''GET'' ''/'')\<lparr> req_headers := [(''x-trace-id'', ''abc'')] \<rparr>)))
     = Some ''abc''"
proof -
  have "is_visible_ascii ''abc''" by code_simp
  then show ?thesis
    by (simp add: trace_id_request_def Let_def resolve_trace_id_def header_str_def hm_get_def hm_contains_key_def
        insert_if_valid_def header_value_def hm_insert_def hm_remove_def)
qed

theorem logged_query_redacted_witness:
  "\<exists>logged. sanitize_uri \<lparr> uri_scheme = None, uri_authority = None, uri_path = ''/poll'', uri_query = Some ''a=1&Token=abc'' \<rparr>
     = ''/poll?'' @ logged \<and> length (split_on CHR ''&'' logged) = 2"
proof -
  have "length (split_on CHR ''&'' ''a=1&Token=abc'') = 2" by simp
  then show ?thesis
    using logged_query_redacted [of "\<lparr> uri_scheme = None, uri_authority = None, uri_path = ''/poll'', uri_query = Some ''a=1&Token=abc'' \<rparr>" "''a=1&Token=abc''"]
    by auto
qed

text \<open>A sensitive name in percent-encoded form is not recognised, and its value is logged.\<close>

theorem encoded_secret_logged:
  "sanitize_uri \<lparr> uri_scheme = None, uri_authority = None, uri_path = ''/poll'', uri_query = Some ''%74oken=abc'' \<rparr> = ''/poll?%74oken=abc''"
  by code_simp

section \<open>Delays\<close>

lemma delay_sleeping:
  assumes "dl_sleep svc = Some d" and "\<forall>p \<in> set polls. fst p < d"
  shows "delay_polls svc (polls @ [(now, True)]) = replicate (length polls) False @ [d \<le> now]"
  using assms(2)
proof (induction polls)
  case Nil
  then show ?case using assms(1) by (auto simp: delay_poll_ready_def)
next
  case (Cons p polls)
  have "delay_poll_ready (fst p) (snd p) svc = (False, svc)"
    using Cons.prems assms(1) by (cases svc) (simp add: delay_poll_ready_def)
  then show ?case using Cons by (cases p) auto
qed

text \<open>The delay is exact: from the first poll on, the service reports not ready to every poll before the
  configured time has passed, however often it is polled, and is ready at the first poll at or after that time
  if the inner service is.\<close>

theorem delay_exact:
  assumes "dl_sleep svc = None" and "0 < dl_delay svc" and "\<forall>p \<in> set polls. fst p < start + dl_delay svc"
  shows "delay_polls svc ((start, r) # polls @ [(now, True)]) = replicate (Suc (length polls)) False @ [start + dl_delay svc \<le> now]"
proof -
  have "delay_poll_ready start r svc = (False, svc\<lparr> dl_sleep := Some (start + dl_delay svc) \<rparr>)"
    using assms(1,2) by (simp add: delay_poll_ready_def)
  then show ?thesis using delay_sleeping [of "svc\<lparr> dl_sleep := Some (start + dl_delay svc) \<rparr>"] assms(3) by simp
qed

theorem delay_exact_witness:
  "delay_polls \<lparr> dl_delay = 5, dl_sleep = None \<rparr> [(10, True), (12, True), (15, True)] = [False, False, True]"
  using delay_exact [of "\<lparr> dl_delay = 5, dl_sleep = None \<rparr>" "[(12, True)]" 10 True 15] by simp

text \<open>An inner service that is not ready when the delay ends makes the whole delay start again.\<close>

theorem delay_restarts:
  "delay_polls \<lparr> dl_delay = 5, dl_sleep = None \<rparr> [(10, True), (15, False), (16, True), (21, True)] = [False, False, False, True]"
  by code_simp

section \<open>The echo service\<close>

lemma full_bytes_bytes [simp]: "body_bytes (full_bytes bs) = bs"
  by (simp add: full_bytes_def)

text \<open>What is posted comes back: a complete body, however it was cut into frames, is answered byte for byte under its
  content type, and a body that breaks off is an error of the service.\<close>

theorem echo_post_exact:
  assumes "req_method req = ''POST''" and "uri_path (req_uri req) = ''/''"
  shows "case echo_call server_name req of
      Ok resp \<Rightarrow> body_errors (req_body req) = [] \<and> body_bytes (resp_body resp) = body_bytes (req_body req)
        \<and> hm_get_all ''content-type'' (resp_headers resp) = [unwrap_or ''application/octet-stream'' (hm_get ''content-type'' (req_headers req))]
    | Err e \<Rightarrow> Err e \<in> set (req_body req)"
proof (cases "collect_body (req_body req)")
  case (Ok bs)
  then show ?thesis using assms collect_body_Ok [OF Ok] by (simp add: echo_call_def Let_def hm_get_all_def)
next
  case (Err e)
  have "collect_body body = Err e \<Longrightarrow> Err e \<in> set body" for body
    by (induction body rule: collect_body.induct) (auto split: result.splits)
  then show ?thesis using assms Err by (simp add: echo_call_def Let_def)
qed

theorem echo_post_exact_witness:
  "case echo_call ''edge'' ((demo_request ''POST'' ''/'')\<lparr> req_body := [Ok (Data [1, 2]), Ok (Data [3])] \<rparr>) of
     Ok resp \<Rightarrow> body_bytes (resp_body resp) = [1, 2, 3] | Err e \<Rightarrow> False"
  using echo_post_exact [of "(demo_request ''POST'' ''/'')\<lparr> req_body := [Ok (Data [1, 2]), Ok (Data [3])] \<rparr>" "''edge''"]
  by (auto simp: demo_request_def split: result.splits)

text \<open>An echo server passes the health check of a gateway in front of it, whatever state the node was in.\<close>

theorem echo_is_healthy:
  assumes "\<not> ht_is_grpc t" and "req_method req = ''GET''" and "uri_path (req_uri req) = ''/health''"
    and "echo_call server_name req = Ok resp"
    and "he_send env (health_request t None) = HsResponse (resp_status resp) (BodyBytes (body_bytes (resp_body resp)))"
    and "he_json env (map of_char echo_health) = Some (Some 100)"
  shows "\<exists>s'. health_tick env t s = Some s' \<and> is_alive (hs_node s')"
proof -
  have "resp_status resp = 200" "body_bytes (resp_body resp) = map of_char echo_health"
    using assms(2,3,4) by (auto simp: echo_call_def full_body_def echo_health_def)
  then have "probe_node env t None (hs_node s) = Some (check_passed ((hs_node s)\<lparr> current_score := 100 \<rparr>))"
    using assms(1,5,6) by (simp add: probe_node_def answer_score_def rest_health_score_def)
  then show ?thesis using assms(1) by (simp add: health_tick_def with_probe_def)
qed

theorem echo_is_healthy_witness:
  "\<exists>s'. health_tick ((demo_health_env (HsResponse 200 (BodyBytes (map of_char echo_health))))\<lparr> he_json := \<lambda>_. Some (Some 100) \<rparr>)
       (demo_task False) (demo_health_state (demo_node ''b:1'')) = Some s' \<and> is_alive (hs_node s')"
proof -
  have "\<exists>resp. echo_call ''edge'' (demo_request ''GET'' ''/health'') = Ok resp \<and> resp_status resp = 200
      \<and> body_bytes (resp_body resp) = map of_char echo_health"
    by (simp add: echo_call_def demo_request_def full_body_def echo_health_def)
  then obtain resp where "echo_call ''edge'' (demo_request ''GET'' ''/health'') = Ok resp" "resp_status resp = 200"
    "body_bytes (resp_body resp) = map of_char echo_health" by blast
  then show ?thesis
    by (intro echo_is_healthy [OF _ _ _ \<open>echo_call ''edge'' (demo_request ''GET'' ''/health'') = Ok resp\<close>])
      (simp_all add: demo_task_def demo_request_def demo_health_env_def)
qed

end
