(* ===== verification/Compression.thy ===== *)
theory Compression
  imports Light_Layers
begin

text \<open>
  The compression of answers and the decompression of requests (\<open>server/src/middleware/compression.rs\<close>).

  The encoders and decoders are library code and a parameter, \<open>Codec\<close>: per encoding, a function from the byte
  chunks (or read errors) that go in to the chunks (or errors) that come out, where the end of the list is the
  end of the stream. \<open>codec_law\<close> states that decoding undoes encoding. Around them the model has the conversion
  of body frames to chunks and back, and the \<open>LimitedReader\<close> that stops a decompression bomb.
\<close>

section \<open>Model\<close>

type_synonym chunks = "(u8 list, string) result list"

record Codec =
  enc :: "string \<Rightarrow> chunks \<Rightarrow> chunks"
  dec :: "string \<Rightarrow> chunks \<Rightarrow> chunks"

text \<open>The data frames as a byte stream; trailers are dropped, an error becomes an I/O error with its text.\<close>

fun data_stream :: "SrvBody \<Rightarrow> chunks" where
  "data_stream [] = []"
| "data_stream (Ok (Data d) # body) = Ok d # data_stream body"
| "data_stream (Ok (Trailers _) # body) = data_stream body"
| "data_stream (Err e # body) = Err (srv_error_string e) # data_stream body"

fun data_frame :: "(string \<Rightarrow> SrvError) \<Rightarrow> (u8 list, string) result \<Rightarrow> (Frame, SrvError) result" where
  "data_frame conv (Ok d) = Ok (Data d)"
| "data_frame conv (Err msg) = Err (conv msg)"

text \<open>\<open>ReaderStream\<close>: an empty read ends the stream, an error is yielded and ends it.\<close>

fun reader_stream :: "chunks \<Rightarrow> chunks" where
  "reader_stream [] = []"
| "reader_stream (Err msg # reads) = [Err msg]"
| "reader_stream (Ok d # reads) = (if d = [] then [] else Ok d # reader_stream reads)"

definition accept_encoding :: "HeaderMap \<Rightarrow> string" where
  "accept_encoding h = unwrap_or [] (header_str ''accept-encoding'' h)"

definition compression_algo :: "string \<Rightarrow> HeaderMap \<Rightarrow> string option" where
  "compression_algo accept_header h =
     (let already_encoded = hm_contains_key ''content-encoding'' h;
          is_grpc = (case header_str ''content-type'' h of Some ct \<Rightarrow> starts_with ''application/grpc'' ct | None \<Rightarrow> False)
      in if already_encoded \<or> is_grpc then None
         else if str_contains ''gzip'' accept_header then Some ''gzip''
         else if str_contains ''br'' accept_header then Some ''br''
         else None)"

definition compression_response :: "Codec \<Rightarrow> string \<Rightarrow> Response \<Rightarrow> Response" where
  "compression_response codec accept_header resp =
     (case compression_algo accept_header (resp_headers resp) of
        None \<Rightarrow> resp
      | Some encoding \<Rightarrow>
          resp\<lparr> resp_headers := hm_insert ''content-encoding'' (if encoding = ''gzip'' then ''gzip'' else ''br'')
                   (hm_remove ''content-length'' (resp_headers resp)),
                resp_body := map (data_frame Other) (reader_stream (enc codec encoding (data_stream (resp_body resp)))) \<rparr>)"

definition limit_message :: string where
  "limit_message = ''Decompressed payload exceeds maximum allowed size''"

text \<open>One read: the argument is what the decoder gives if it is asked; with nothing remaining it is not.\<close>

definition limited_poll_read :: "nat \<Rightarrow> (u8 list, string) result \<Rightarrow> (u8 list, string) result \<times> nat" where
  "limited_poll_read remaining inner =
     (if remaining = 0 then (Err limit_message, 0)
      else (case inner of
              Ok d \<Rightarrow> (if length d > remaining then (Err limit_message, 0) else (Ok d, remaining - length d))
            | Err msg \<Rightarrow> (Err msg, remaining)))"

text \<open>The reads of a stream under the limit, up to the end or the first error; at the end the decoder reads empty.\<close>

fun limited_reads :: "nat \<Rightarrow> chunks \<Rightarrow> chunks" where
  "limited_reads remaining [] = (case limited_poll_read remaining (Ok []) of (r, _) \<Rightarrow> [r])"
| "limited_reads remaining (c # reads) =
     (case limited_poll_read remaining c of
        (Err msg, _) \<Rightarrow> [Err msg]
      | (Ok d, remaining') \<Rightarrow> Ok d # limited_reads remaining' reads)"

definition decompression_error :: "usize \<Rightarrow> string \<Rightarrow> SrvError" where
  "decompression_error max_bytes msg =
     (if str_contains limit_message msg then DecompressionLimitExceeded max_bytes else Other msg)"

definition decompressed_body :: "Codec \<Rightarrow> usize \<Rightarrow> string \<Rightarrow> SrvBody \<Rightarrow> SrvBody" where
  "decompressed_body codec max_bytes encoding body =
     map (data_frame (decompression_error max_bytes))
       (reader_stream (limited_reads (unat max_bytes) (dec codec encoding (data_stream body))))"

definition decompression_request :: "Codec \<Rightarrow> usize \<Rightarrow> Request \<Rightarrow> Request" where
  "decompression_request codec max_bytes req =
     (let encoding = unwrap_or [] (header_str ''content-encoding'' (req_headers req))
      in if encoding = ''gzip'' \<or> encoding = ''br''
         then req\<lparr> req_body := decompressed_body codec max_bytes encoding (req_body req),
                   req_headers := hm_remove ''content-length'' (hm_remove ''content-encoding'' (req_headers req)) \<rparr>
         else req)"

section \<open>Chunks\<close>

fun chunk_bytes :: "(u8 list, string) result \<Rightarrow> u8 list" where
  "chunk_bytes (Ok d) = d"
| "chunk_bytes (Err _) = []"

definition chunks_bytes :: "chunks \<Rightarrow> u8 list" where
  "chunks_bytes cs = concat (map chunk_bytes cs)"

definition clean :: "chunks \<Rightarrow> bool" where
  "clean cs = list_all (\<lambda>c. case c of Ok d \<Rightarrow> d \<noteq> [] | Err _ \<Rightarrow> False) cs"

text \<open>What the library documents: a clean input is encoded and decoded without errors or empty reads, and
  decoding the encoded bytes, however they are cut into chunks, gives the input.\<close>

definition codec_law :: "Codec \<Rightarrow> bool" where
  "codec_law codec \<longleftrightarrow>
     (\<forall>e \<in> {''gzip'', ''br''}. \<forall>cs. list_all is_ok cs \<longrightarrow>
        clean (enc codec e cs)
        \<and> (\<forall>ds. list_all is_ok ds \<longrightarrow> chunks_bytes ds = chunks_bytes (enc codec e cs) \<longrightarrow>
             clean (dec codec e ds) \<and> chunks_bytes (dec codec e ds) = chunks_bytes cs))"

lemma codec_lawD:
  assumes "codec_law codec" and "e = ''gzip'' \<or> e = ''br''" and "list_all is_ok cs"
  shows "clean (enc codec e cs)"
    and "list_all is_ok ds \<Longrightarrow> chunks_bytes ds = chunks_bytes (enc codec e cs) \<Longrightarrow>
      clean (dec codec e ds) \<and> chunks_bytes (dec codec e ds) = chunks_bytes cs"
proof -
  have "e \<in> {''gzip'', ''br''}" using assms(2) by simp
  note l = assms(1) [unfolded codec_law_def, rule_format, OF this assms(3)]
  show "clean (enc codec e cs)" using l by (rule conjunct1)
  show "list_all is_ok ds \<Longrightarrow> chunks_bytes ds = chunks_bytes (enc codec e cs) \<Longrightarrow>
      clean (dec codec e ds) \<and> chunks_bytes (dec codec e ds) = chunks_bytes cs" using l by simp
qed

lemma chunks_simps [simp]:
  "chunks_bytes [] = []" "chunks_bytes (c # cs) = chunk_bytes c @ chunks_bytes cs"
  by (simp_all add: chunks_bytes_def)

lemma data_stream_bytes: "chunks_bytes (data_stream body) = body_bytes body"
  by (induction body rule: data_stream.induct) auto

lemma data_stream_ok: "list_all is_ok (data_stream body) \<longleftrightarrow> list_all is_ok body"
  by (induction body rule: data_stream.induct) auto

lemma reader_stream_clean: "clean cs \<Longrightarrow> reader_stream cs = cs"
  by (induction cs rule: reader_stream.induct) (auto simp: clean_def)

lemma frames_bytes [simp]: "body_bytes (map (data_frame conv) cs) = chunks_bytes cs"
proof (induction cs)
  case (Cons c cs)
  then show ?case by (cases c) auto
qed simp

lemma frames_ok: "list_all is_ok (map (data_frame conv) cs) \<longleftrightarrow> list_all is_ok cs"
proof (induction cs)
  case (Cons c cs)
  then show ?case by (cases c) auto
qed simp

lemma clean_ok: "clean cs \<Longrightarrow> list_all is_ok cs"
  by (induction cs) (auto simp: clean_def split: result.splits)

section \<open>The limit\<close>

lemma limited_reads_bounded: "length (chunks_bytes (limited_reads n cs)) \<le> n"
  by (induction n cs rule: limited_reads.induct)
    (auto simp: limited_poll_read_def split: result.splits prod.splits if_splits intro: le_trans)


lemma reader_stream_bytes: "length (chunks_bytes (reader_stream cs)) \<le> length (chunks_bytes cs)"
  by (induction cs rule: reader_stream.induct) auto

lemma reader_stream_clean_end:
  "clean cs \<Longrightarrow> reader_stream (cs @ [Ok []]) = cs" "clean cs \<Longrightarrow> reader_stream (cs @ [Err m]) = cs @ [Err m]"
  by (induction cs rule: reader_stream.induct) (auto simp: clean_def)

lemma limited_reads_small: "clean cs \<Longrightarrow> length (chunks_bytes cs) < n \<Longrightarrow> limited_reads n cs = cs @ [Ok []]"
proof (induction cs arbitrary: n)
  case (Cons c cs)
  obtain d where c: "c = Ok d" and cs: "clean cs" using Cons.prems(1) by (cases c) (auto simp: clean_def)
  have "limited_poll_read n c = (Ok d, n - length d)" "length (chunks_bytes cs) < n - length d"
    using Cons.prems(2) c by (auto simp: limited_poll_read_def)
  then show ?case using Cons.IH cs c by simp
qed (simp add: limited_poll_read_def)

lemma limited_reads_large:
  "clean cs \<Longrightarrow> n \<le> length (chunks_bytes cs) \<Longrightarrow>
    \<exists>pre rest. limited_reads n cs = pre @ [Err limit_message] \<and> clean pre \<and> chunks_bytes cs = chunks_bytes pre @ rest"
proof (induction cs arbitrary: n)
  case (Cons c cs)
  obtain d where c: "c = Ok d" "d \<noteq> []" and cs: "clean cs" using Cons.prems(1) by (cases c) (auto simp: clean_def)
  show ?case
  proof (cases "n = 0 \<or> length d > n")
    case True
    then have "limited_reads n (c # cs) = [] @ [Err limit_message]" using c by (auto simp: limited_poll_read_def)
    then show ?thesis by (intro exI [of _ "[]"] exI [of _ "chunks_bytes (c # cs)"]) (simp add: clean_def del: limited_reads.simps)
  next
    case False
    then have read: "limited_poll_read n c = (Ok d, n - length d)" using c by (simp add: limited_poll_read_def)
    have "n - length d \<le> length (chunks_bytes cs)" using Cons.prems(2) False c by auto
    from Cons.IH [OF cs this] obtain pre rest where "limited_reads (n - length d) cs = pre @ [Err limit_message]" "clean pre"
      "chunks_bytes cs = chunks_bytes pre @ rest" by blast
    then show ?thesis using read c by (intro exI [of _ "Ok d # pre"] exI [of _ rest]) (simp add: clean_def)
  qed
qed (simp add: limited_poll_read_def clean_def)

lemma limit_message_contained: "str_contains limit_message limit_message"
  by code_simp

text \<open>No bomb gets through: whatever the decoder produces, the body behind the decompression layer never has more
  bytes than the configured limit.\<close>

theorem decompression_bounded:
  "length (body_bytes (decompressed_body codec max_bytes encoding body)) \<le> unat max_bytes"
  using le_trans [OF reader_stream_bytes limited_reads_bounded] by (simp add: decompressed_body_def)

lemma decompressed_small:
  assumes "clean (dec codec encoding (data_stream body))"
    and "length (chunks_bytes (dec codec encoding (data_stream body))) < unat max_bytes"
  shows "list_all is_ok (decompressed_body codec max_bytes encoding body)
    \<and> body_bytes (decompressed_body codec max_bytes encoding body) = chunks_bytes (dec codec encoding (data_stream body))"
proof -
  have "reader_stream (limited_reads (unat max_bytes) (dec codec encoding (data_stream body))) = dec codec encoding (data_stream body)"
    using limited_reads_small [OF assms] reader_stream_clean_end(1) [OF assms(1)] by simp
  then show ?thesis using clean_ok [OF assms(1)] frames_ok by (simp add: decompressed_body_def)
qed


section \<open>The two layers together\<close>

lemma algo_cases: "compression_algo a h = Some e \<Longrightarrow> e = ''gzip'' \<or> e = ''br''"
  by (auto simp: compression_algo_def Let_def split: if_splits)

lemma compression_body:
  assumes "codec_law codec" and "compression_algo a (resp_headers resp) = Some e" and "list_all is_ok (resp_body resp)"
  defines "body \<equiv> resp_body (compression_response codec a resp)"
  shows "list_all is_ok body" and "body_bytes body = chunks_bytes (enc codec e (data_stream (resp_body resp)))"
proof -
  have "clean (enc codec e (data_stream (resp_body resp)))"
    using codec_lawD(1) [OF assms(1) algo_cases [OF assms(2)]] assms(3) by (simp add: data_stream_ok)
  then show "list_all is_ok body" "body_bytes body = chunks_bytes (enc codec e (data_stream (resp_body resp)))"
    using assms(2) reader_stream_clean clean_ok frames_ok by (simp_all add: body_def compression_response_def)
qed

text \<open>What one gateway compresses another decompresses: when the answer of a service is compressed and its body, cut
  into frames in any way, is sent as a request with the same content encoding, the service behind the decompression
  layer reads the original bytes, provided they are fewer than the limit. The request no longer carries a
  content encoding or a length.\<close>

theorem compression_roundtrip:
  assumes "codec_law codec" and "compression_algo a (resp_headers resp) = Some e" and "list_all is_ok (resp_body resp)"
    and "length (body_bytes (resp_body resp)) < unat max_bytes"
    and "list_all is_ok (req_body req)" and "body_bytes (req_body req) = body_bytes (resp_body (compression_response codec a resp))"
    and "hm_get ''content-encoding'' (req_headers req) = hm_get ''content-encoding'' (resp_headers (compression_response codec a resp))"
  shows "body_bytes (req_body (decompression_request codec max_bytes req)) = body_bytes (resp_body resp)
    \<and> list_all is_ok (req_body (decompression_request codec max_bytes req))
    \<and> hm_get ''content-encoding'' (req_headers (decompression_request codec max_bytes req)) = None
    \<and> hm_get ''content-length'' (req_headers (decompression_request codec max_bytes req)) = None"
proof -
  have e: "e = ''gzip'' \<or> e = ''br''" by (rule algo_cases [OF assms(2)])
  then have "hm_get ''content-encoding'' (req_headers req) = Some e"
    using assms(2,7) by (auto simp: compression_response_def hm_get_insert)
  moreover have "is_visible_ascii e" using e by (elim disjE) (simp, code_simp)+
  ultimately have head: "header_str ''content-encoding'' (req_headers req) = Some e" by (simp add: header_str_def)
  have "chunks_bytes (data_stream (req_body req)) = chunks_bytes (enc codec e (data_stream (resp_body resp)))"
    using assms(6) compression_body(2) [OF assms(1,2,3)] by (simp add: data_stream_bytes)
  then have d: "clean (dec codec e (data_stream (req_body req)))"
    "chunks_bytes (dec codec e (data_stream (req_body req))) = body_bytes (resp_body resp)"
    using codec_lawD(2) [OF assms(1) e, of "data_stream (resp_body resp)" "data_stream (req_body req)"] assms(3,5)
    by (simp_all add: data_stream_ok data_stream_bytes)
  then have "list_all is_ok (decompressed_body codec max_bytes e (req_body req))
      \<and> body_bytes (decompressed_body codec max_bytes e (req_body req)) = body_bytes (resp_body resp)"
    using decompressed_small [OF d(1)] assms(4) by simp
  then show ?thesis using e head
    by (simp add: decompression_request_def unwrap_or_def hm_get_remove)
qed


section \<open>Examples\<close>

text \<open>A codec that stores: its law holds.\<close>

definition one_chunk :: "chunks \<Rightarrow> chunks" where
  "one_chunk cs = (if chunks_bytes cs = [] then [] else [Ok (chunks_bytes cs)])"

definition stored_codec :: Codec where
  "stored_codec = \<lparr> enc = (\<lambda>_. one_chunk), dec = (\<lambda>_. one_chunk) \<rparr>"

lemma stored_codec_law: "codec_law stored_codec"
  by (simp add: codec_law_def stored_codec_def one_chunk_def clean_def)


definition demo_plain :: Response where
  "demo_plain = \<lparr> resp_status = 200, resp_headers = [(''content-length'', ''2'')], resp_body = [Ok (Data [7]), Ok (Data [8])] \<rparr>"

theorem compression_roundtrip_witness:
  "body_bytes (req_body (decompression_request stored_codec 10
     ((demo_request ''POST'' ''/'')\<lparr> req_headers := [(''content-encoding'', ''gzip'')], req_body := [Ok (Data [7, 8])] \<rparr>))) = [7, 8]"
proof -
  let ?req = "(demo_request ''POST'' ''/'')\<lparr> req_headers := [(''content-encoding'', ''gzip'')], req_body := [Ok (Data [7, 8])] \<rparr>"
  have a: "compression_algo ''gzip'' (resp_headers demo_plain) = Some ''gzip''" by code_simp
  have b: "body_bytes (resp_body (compression_response stored_codec ''gzip'' demo_plain)) = [7, 8]"
    "hm_get ''content-encoding'' (resp_headers (compression_response stored_codec ''gzip'' demo_plain)) = Some ''gzip''"
    by (code_simp, code_simp)
  have plain: "list_all is_ok (resp_body demo_plain)" "body_bytes (resp_body demo_plain) = [7, 8]" by (simp_all add: demo_plain_def)
  have "length (body_bytes (resp_body demo_plain)) < unat (10 :: usize)" by (simp add: plain(2))
  from compression_roundtrip [OF stored_codec_law a plain(1) this, of ?req] show ?thesis
    unfolding b plain(2) by (simp add: hm_get_def)
qed

text \<open>
  Three things the code does that its comments or HTTP do not say. A body that expands to exactly the limit is
  refused as exceeding it, because the reader is asked once more for the end of the stream. A client that
  refuses gzip by giving it the weight 0 gets gzip. A header that merely contains the letters \<open>br\<close> selects Brotli.
\<close>

theorem exact_limit_refused:
  "decompressed_body stored_codec 2 ''gzip'' [Ok (Data [1, 2])]
     = [Ok (Data [1, 2]), Err (DecompressionLimitExceeded 2)]"
  by code_simp

theorem refused_encoding_used:
  "compression_algo ''gzip;q=0, identity'' [] = Some ''gzip'' \<and> compression_algo ''vibrato'' [] = Some ''br''"
  by code_simp

end
