(* ===== verification/Service_Stack.thy ===== *)
theory Service_Stack
  imports Compression Concurrency_Limit Rate_Limiter Ip_Filter Body_Limit Idp
begin

text \<open>
  The service of a server, \<open>build_service_stack\<close> and \<open>apply_layers\<close> of \<open>server/src/server.rs\<close>: the base service wrapped
  in the configured layers, the first of the list outermost, in the path sanitizer unless the list has one, and
  in the span that counts requests.

  A service is a function of what a call finds outside (\<open>StackEnv\<close>: clocks, libraries, scheduling), of the
  request and of the state the layers share (\<open>World\<close>). A layer that keeps state finds it under its position in the
  list. What the layers do is defined in their own theories. The \<open>CorsLayer\<close> belongs to a library: whether it answers
  a request itself and what it adds to an answer are parameters. A call that waits for a permit of the concurrency
  limit gets it or is refused, which is a parameter here and the subject of the theory \<open>Concurrency_Limit\<close>.
\<close>

section \<open>Services\<close>

record 'b World =
  w_metrics :: MetricsRegistry
  w_revoked :: JwtRevocationStore
  w_simple :: "nat \<Rightarrow> KeyedSimpleEntry KeyedStore"
  w_bucket :: "nat \<Rightarrow> KeyedBucketEntry KeyedStore"
  w_counts :: "nat \<Rightarrow> u64"
  w_log :: "LogLine list"
  w_base :: 'b                  \<comment> \<open>the state of the base service\<close>

datatype 'a AnyOr = Any | These "'a list"

record CorsLayer =
  cors_origins :: "string AnyOr"
  cors_methods :: "string AnyOr"
  cors_headers :: "string AnyOr"
  cors_credentials :: bool

record ('key, 'r) StackEnv =
  se_parse_pq :: pq_parser
  se_from_parts :: uri_builder
  se_re_match :: "'r \<Rightarrow> string \<Rightarrow> bool"
  se_jwt :: "'key JwtEnv"
  se_trace :: TraceEnv
  se_limiter :: "nat \<Rightarrow> CallEnv"
  se_permit :: "nat \<Rightarrow> bool"
  se_times :: "nat \<Rightarrow> Instant \<times> Instant"
  se_codec :: Codec
  se_cors_answer :: "CorsLayer \<Rightarrow> Request \<Rightarrow> Response option"
  se_cors_response :: "CorsLayer \<Rightarrow> Request \<Rightarrow> Response \<Rightarrow> Response"

type_synonym ('key, 'r, 'b) service =
  "('key, 'r) StackEnv \<Rightarrow> Request \<Rightarrow> 'b World \<Rightarrow> (Response, SrvError) result \<times> 'b World"

definition gated ::
  "(('key, 'r) StackEnv \<Rightarrow> Request \<Rightarrow> 'b World \<Rightarrow> gate \<times> 'b World) \<Rightarrow> ('key, 'r, 'b) service \<Rightarrow> ('key, 'r, 'b) service" where
  "gated g inner env req w =
     (case g env req w of
        (Allowed req', w') \<Rightarrow> inner env req' w'
      | (Blocked resp, w') \<Rightarrow> (Ok resp, w'))"

definition finished ::
  "(('key, 'r) StackEnv \<Rightarrow> Request \<Rightarrow> (Response, SrvError) result \<Rightarrow> 'b World \<Rightarrow> (Response, SrvError) result \<times> 'b World)
     \<Rightarrow> ('key, 'r, 'b) service \<Rightarrow> ('key, 'r, 'b) service" where
  "finished f inner env req w = (case inner env req w of (r, w') \<Rightarrow> f env req r w')"

definition map_ok :: "(Response \<Rightarrow> Response) \<Rightarrow> (Response, SrvError) result \<Rightarrow> (Response, SrvError) result" where
  "map_ok f r = (case r of Ok resp \<Rightarrow> Ok (f resp) | Err e \<Rightarrow> Err e)"

section \<open>The layers as functions on services\<close>

definition metered :: "(MetricsRegistry \<Rightarrow> gate \<times> MetricsRegistry) \<Rightarrow> 'b World \<Rightarrow> gate \<times> 'b World" where
  "metered g w = (case g (w_metrics w) of (r, reg) \<Rightarrow> (r, w\<lparr> w_metrics := reg \<rparr>))"

definition sanitizer_layer :: "string \<Rightarrow> ('key, 'r, 'b) service \<Rightarrow> ('key, 'r, 'b) service" where
  "sanitizer_layer name =
     gated (\<lambda>env req. metered (path_sanitizer_call (se_parse_pq env) (se_from_parts env) name req))"

definition inspection_layer :: "'r CompiledAllowedPathes \<Rightarrow> string \<Rightarrow> ('key, 'r, 'b) service \<Rightarrow> ('key, 'r, 'b) service" where
  "inspection_layer rules name = gated (\<lambda>env req. metered (inspection_call (se_re_match env) rules name req))"

definition ip_filter_layer :: "IpFilter \<Rightarrow> ('key, 'r, 'b) service \<Rightarrow> ('key, 'r, 'b) service" where
  "ip_filter_layer f = gated (\<lambda>env req. metered (ip_filter_call f req))"

definition jwt_layer :: "'key JwtAuthService \<Rightarrow> ('key, 'r, 'b) service \<Rightarrow> ('key, 'r, 'b) service" where
  "jwt_layer svc =
     gated (\<lambda>env req w. case jwt_call svc (se_jwt env) req (w_revoked w) (w_metrics w) of
              (g, st, reg) \<Rightarrow> (g, w\<lparr> w_revoked := st, w_metrics := reg \<rparr>))"

definition simple_layer :: "nat \<Rightarrow> Duration RateLimiterService \<Rightarrow> ('key, 'r, 'b) service \<Rightarrow> ('key, 'r, 'b) service" where
  "simple_layer i svc =
     gated (\<lambda>env req w. case simple_limiter_call svc (se_limiter env i) req (w_simple w i) (w_metrics w) of
              (g, st, reg) \<Rightarrow> (g, w\<lparr> w_simple := (w_simple w)(i := st), w_metrics := reg \<rparr>))"

definition bucket_layer :: "nat \<Rightarrow> BucketConfig RateLimiterService \<Rightarrow> ('key, 'r, 'b) service \<Rightarrow> ('key, 'r, 'b) service" where
  "bucket_layer i svc =
     gated (\<lambda>env req w. case bucket_limiter_call svc (se_limiter env i) req (w_bucket w i) (w_metrics w) of
              (g, st, reg) \<Rightarrow> (g, w\<lparr> w_bucket := (w_bucket w)(i := st), w_metrics := reg \<rparr>))"

definition concurrency_layer :: "nat \<Rightarrow> ('key, 'r, 'b) service \<Rightarrow> ('key, 'r, 'b) service" where
  "concurrency_layer i = gated (\<lambda>env req w. (if se_permit env i then Allowed req else Blocked build_503_response, w))"

definition cors_layer :: "CorsLayer \<Rightarrow> ('key, 'r, 'b) service \<Rightarrow> ('key, 'r, 'b) service" where
  "cors_layer c inner env req w =
     (case se_cors_answer env c req of
        Some resp \<Rightarrow> (Ok resp, w)
      | None \<Rightarrow> finished (\<lambda>env req r w. (map_ok (se_cors_response env c req) r, w)) inner env req w)"

text \<open>The body of a limited request is the wrapped one; the framing never panics (\<open>grpc_framing_equivalence\<close>).\<close>

definition limited_request :: "Request \<Rightarrow> LimitedBody \<Rightarrow> Request" where
  "limited_request req lb = req\<lparr> req_body := unwrap_or [] (limited_frames lb (req_body req)) \<rparr>"

definition max_payload_layer :: "usize \<Rightarrow> ('key, 'r, 'b) service \<Rightarrow> ('key, 'r, 'b) service" where
  "max_payload_layer max_bytes inner env req w =
     (case max_payload_call max_bytes req of
        Inl resp \<Rightarrow> (Ok resp, w)
      | Inr (req', lb) \<Rightarrow>
          finished (\<lambda>env req r w. (max_payload_outcome r, w)) inner env (limited_request req' lb) w)"

definition trace_layer :: "('key, 'r, 'b) service \<Rightarrow> ('key, 'r, 'b) service" where
  "trace_layer inner env req w = inner env (trace_id_request (se_trace env) req) w"

definition decompression_layer :: "usize \<Rightarrow> ('key, 'r, 'b) service \<Rightarrow> ('key, 'r, 'b) service" where
  "decompression_layer max_bytes inner env req w = inner env (decompression_request (se_codec env) max_bytes req) w"

definition compression_layer :: "('key, 'r, 'b) service \<Rightarrow> ('key, 'r, 'b) service" where
  "compression_layer =
     finished (\<lambda>env req r w. (map_ok (compression_response (se_codec env) (accept_encoding (req_headers req))) r, w))"

definition security_layer :: "SecurityHeadersConfig \<Rightarrow> ('key, 'r, 'b) service \<Rightarrow> ('key, 'r, 'b) service" where
  "security_layer c = finished (\<lambda>env req r w. (map_ok (security_headers_response c) r, w))"

definition alt_svc_layer :: "u16 \<Rightarrow> ('key, 'r, 'b) service \<Rightarrow> ('key, 'r, 'b) service" where
  "alt_svc_layer port = finished (\<lambda>env req r w. (map_ok (alt_svc_response port) r, w))"

definition write_log :: "LogLine list \<Rightarrow> 'b World \<Rightarrow> 'b World" where
  "write_log ls w = w\<lparr> w_log := w_log w @ ls \<rparr>"

definition logger_layer :: "string \<Rightarrow> ('key, 'r, 'b) service \<Rightarrow> ('key, 'r, 'b) service" where
  "logger_layer name inner env req w =
     finished (\<lambda>env req r w. (r, write_log (logger_poll name req r) w)) inner env req (write_log [logger_call name req] w)"

definition timing_layer :: "nat \<Rightarrow> string \<Rightarrow> ('key, 'r, 'b) service \<Rightarrow> ('key, 'r, 'b) service" where
  "timing_layer i name =
     finished (\<lambda>env req r w. case se_times env i of
       (start, now) \<Rightarrow> (r, write_log (snd (timing_poll name start now (Some r))) w))"

definition counting_layer :: "nat \<Rightarrow> string \<Rightarrow> ('key, 'r, 'b) service \<Rightarrow> ('key, 'r, 'b) service" where
  "counting_layer i name =
     finished (\<lambda>env req r w. case counting_poll name (Some r) (w_counts w i) of
       (_, n, ls) \<Rightarrow> (r, write_log ls (w\<lparr> w_counts := (w_counts w)(i := n) \<rparr>)))"

section \<open>Building\<close>

datatype StackError =
    LayerError ConfigError
  | ZeroLimit string
  | CorsWildcard
  | CidrFailure CidrError
  | NoCompiledPaths
  | NoStaticName
  | NoParams string
  | BaseFailure string

text \<open>\<open>Duration::from_secs_f32(1.0 / rps as f32)\<close> in nanoseconds, rounded to nearest.\<close>

definition simple_interval :: "u64 \<Rightarrow> Duration" where
  "simple_interval rps = nat (round_half_even (rnd 24 (1 / rnd 24 (of_nat (unat rps))) * 1000000000))"

text \<open>The characters of a token; \<open>Method\<close> and \<open>HeaderName\<close> are parsed from tokens, the latter in lower case.\<close>

definition is_tchar :: "char \<Rightarrow> bool" where
  "is_tchar c \<longleftrightarrow> is_ascii_digit c \<or> 65 \<le> byte_of c \<and> byte_of c \<le> 90 \<or> 97 \<le> byte_of c \<and> byte_of c \<le> 122
     \<or> byte_of c \<in> {0x21, 0x23, 0x24, 0x25, 0x26, 0x27, 0x2A, 0x2B, 0x2D, 0x2E, 0x5E, 0x5F, 0x60, 0x7C, 0x7E}"

definition is_token :: "string \<Rightarrow> bool" where
  "is_token s = (s \<noteq> [] \<and> list_all is_tchar s)"

definition any_or :: "string list \<Rightarrow> string list \<Rightarrow> string AnyOr" where
  "any_or raw parsed = (if list_ex (\<lambda>s. s = ''*'') raw then Any else These parsed)"

definition CorsLayer_new :: "CorsConfig \<Rightarrow> (CorsLayer, StackError) result" where
  "CorsLayer_new cfg =
     (if allow_credentials cfg \<and> list_ex (\<lambda>org. org = ''*'') (allowed_origins cfg) then Err CorsWildcard
      else Ok \<lparr> cors_origins = any_or (allowed_origins cfg) (filter is_visible_ascii (allowed_origins cfg)),
                cors_methods = any_or (allowed_methods cfg) (filter is_token (allowed_methods cfg)),
                cors_headers = any_or (allowed_headers cfg) (map to_ascii_lowercase (filter is_token (allowed_headers cfg))),
                cors_credentials = allow_credentials cfg \<rparr>)"

definition JwtAuthLayer_new ::
  "('c, 'key, 'e, 'r) ConfigEnv \<Rightarrow> JwtAuthConfig \<Rightarrow> string \<Rightarrow> (string \<times> UserRole) list \<Rightarrow> ('key JwtAuthService, StackError) result" where
  "JwtAuthLayer_new cenv cfg name oid_mapping =
     (case load_decoding_keys (env_read_to_string cenv) (env_decoding_from_pem cenv) (jwt_public_keys cfg) of
        Err e \<Rightarrow> Err (LayerError e)
      | Ok keys \<Rightarrow>
          Ok \<lparr> jwt_decoding_keys = keys, jwt_server_name = name, jwt_oid_mapping = oid_mapping,
               jwt_cookie_fallback = cookie_fallback cfg, jwt_redirect_on_failure = redirect_on_failure cfg,
               jwt_expected_issuer = expected_issuer cfg, jwt_expected_audience = expected_audience cfg,
               jwt_revoke_on_paths = revoke_on_paths cfg \<rparr>)"

text \<open>The delay of a \<open>Delay\<close> layer passes before the call (\<open>delay_poll_ready\<close>); the request and the answer pass through it unchanged.\<close>

definition wrap_layer ::
  "('c, 'key, 'e, 'r) ConfigEnv \<Rightarrow> string \<Rightarrow> 'r CompiledAllowedPathes \<Rightarrow> u16 \<Rightarrow> (string \<times> UserRole) list \<Rightarrow> nat \<Rightarrow> MiddlewareLayer
     \<Rightarrow> (('key, 'r, 'b) service \<Rightarrow> ('key, 'r, 'b) service, StackError) result" where
  "wrap_layer cenv name rules port oid_mapping i layer =
     (case layer of
        TraceId \<Rightarrow> Ok trace_layer
      | Timing \<Rightarrow> Ok (timing_layer i name)
      | Counter \<Rightarrow> Ok (counting_layer i name)
      | Logger \<Rightarrow> Ok (logger_layer name)
      | PathSanitizer \<Rightarrow> Ok (sanitizer_layer name)
      | Inspection \<Rightarrow> Ok (inspection_layer rules name)
      | Delay micros \<Rightarrow> Ok (\<lambda>svc. svc)
      | JwtAuth cfg \<Rightarrow>
          (case JwtAuthLayer_new cenv cfg name oid_mapping of Err e \<Rightarrow> Err e | Ok svc \<Rightarrow> Ok (jwt_layer svc))
      | RateLimiterLayer (Simple cfg) \<Rightarrow>
          (if requests_per_second cfg = 0 then Err (ZeroLimit ''requests_per_second'')
           else Ok (simple_layer i \<lparr> rl_config = simple_interval (requests_per_second cfg), rl_key_by = simple_key_by cfg,
                      rl_trust_forwarded_headers = simple_trust_forwarded cfg, rl_server_name = name \<rparr>))
      | RateLimiterLayer (TokenBucket cfg) \<Rightarrow>
          (if max_capacity cfg = 0 \<or> refill cfg = 0 \<or> duration_micros cfg = 0 then Err (ZeroLimit ''TokenBucketRateLimiter'')
           else Ok (bucket_layer i \<lparr> rl_config = \<lparr> bc_capacity = max_capacity cfg, bc_refill_tokens = refill cfg,
                                                bc_interval = unat (duration_micros cfg) * 1000 \<rparr>,
                      rl_key_by = bucket_key_by cfg, rl_trust_forwarded_headers = bucket_trust_forwarded cfg, rl_server_name = name \<rparr>))
      | ConcurrencyLimit cfg \<Rightarrow>
          (if max_concurrent_requests cfg = 0 then Err (ZeroLimit ''max_concurrent_requests'') else Ok (concurrency_layer i))
      | Compression \<Rightarrow> Ok compression_layer
      | Decompression max_bytes \<Rightarrow> Ok (decompression_layer max_bytes)
      | MaxPayload max_bytes \<Rightarrow> Ok (max_payload_layer max_bytes)
      | AltSvc \<Rightarrow> Ok (alt_svc_layer port)
      | Cors cfg \<Rightarrow> (case CorsLayer_new cfg of Err e \<Rightarrow> Err e | Ok c \<Rightarrow> Ok (cors_layer c))
      | SecurityHeaders cfg \<Rightarrow> Ok (security_layer cfg)
      | IpFilterLayer cfg \<Rightarrow>
          (case from_cidr_strings (cfg_allow_cidrs cfg) (cfg_deny_cidrs cfg) (cfg_trust_forwarded cfg) name of
             Err e \<Rightarrow> Err (CidrFailure e) | Ok f \<Rightarrow> Ok (ip_filter_layer f)))"

fun apply_layers ::
  "('c, 'key, 'e, 'r) ConfigEnv \<Rightarrow> string \<Rightarrow> 'r CompiledAllowedPathes \<Rightarrow> u16 \<Rightarrow> (string \<times> UserRole) list \<Rightarrow> nat \<Rightarrow> MiddlewareLayer list
     \<Rightarrow> ('key, 'r, 'b) service \<Rightarrow> (('key, 'r, 'b) service, StackError) result" where
  "apply_layers cenv name rules port oid_mapping i [] svc = Ok svc"
| "apply_layers cenv name rules port oid_mapping i (layer # layers) svc =
     (case apply_layers cenv name rules port oid_mapping (Suc i) layers svc of
        Err e \<Rightarrow> Err e
      | Ok inner \<Rightarrow>
          (case wrap_layer cenv name rules port oid_mapping i layer of Err e \<Rightarrow> Err e | Ok wrap \<Rightarrow> Ok (wrap inner)))"

definition traced :: "string \<Rightarrow> ('key, 'r, 'b) service \<Rightarrow> ('key, 'r, 'b) service" where
  "traced name inner env req w = inner env req (w\<lparr> w_metrics := inc_total_requests name (w_metrics w) \<rparr>)"

definition assemble_stack ::
  "('c, 'key, 'e, 'r) ConfigEnv \<Rightarrow> ('c, 'r) ServerConfig \<Rightarrow> string \<Rightarrow> 'r CompiledAllowedPathes \<Rightarrow> MiddlewareLayer list
     \<Rightarrow> ('key, 'r, 'b) service \<Rightarrow> (('key, 'r, 'b) service, StackError) result" where
  "assemble_stack cenv config name rules layers base =
     (case apply_layers cenv name rules (unwrap_or 0 (srv_port config)) (srv_oid_mapping config) 0 layers base of
        Err e \<Rightarrow> Err e
      | Ok applied \<Rightarrow> Ok (traced name (if PathSanitizer \<in> set layers then applied else sanitizer_layer name applied)))"

text \<open>The services that are not modelled as functions of a \<open>World\<close>, as functions of what they are built from.\<close>

record ('c, 'key, 'r, 'sk, 'b) BaseLib =
  bl_load_tls :: "string option \<Rightarrow> (string option \<times> string option) \<Rightarrow> (unit, string) result"
  bl_idp_load :: "('sk, 'key) IdpLoad"
  bl_now :: Instant
  bl_router :: "RouterService \<Rightarrow> ('c, 'r) ServerConfig \<Rightarrow> ('key, 'r, 'b) service"
  bl_admin :: "('c, 'r) ServerConfig \<Rightarrow> ('key, 'r, 'b) service"
  bl_idp :: "('sk, 'key) IdpService \<times> SessionStore \<Rightarrow> ('key, 'r, 'b) service"
  bl_serve_dir :: "string \<Rightarrow> ('key, 'r, 'b) service"

definition base_service ::
  "('c, 'key, 'r, 'sk, 'b) BaseLib \<Rightarrow> ('c, 'r) ServerConfig \<Rightarrow> string \<Rightarrow> (('key, 'r, 'b) service, StackError) result" where
  "base_service lib config name =
     (case srv_service config of
        Echo \<Rightarrow> Ok (\<lambda>env req w. (echo_call name req, w))
      | Router \<Rightarrow>
          (case RouterService_new (bl_load_tls lib) config of Err e \<Rightarrow> Err (BaseFailure e) | Ok svc \<Rightarrow> Ok (bl_router lib svc config))
      | AdminService \<Rightarrow> Ok (bl_admin lib config)
      | Idp \<Rightarrow>
          (case srv_idp_params config of
             None \<Rightarrow> Err (NoParams ''IdpParams'')
           | Some params \<Rightarrow>
               (case IdpService_new (bl_idp_load lib) params name (bl_now lib) of
                  Err e \<Rightarrow> Err (BaseFailure e) | Ok svc \<Rightarrow> Ok (bl_idp lib svc)))
      | StaticFiles \<Rightarrow>
          (case srv_static_files_root config of
             None \<Rightarrow> Err (NoParams ''StaticFilesParams'') | Some dir \<Rightarrow> Ok (bl_serve_dir lib dir)))"

definition build_service_stack ::
  "('c, 'key, 'r, 'sk, 'b) BaseLib \<Rightarrow> ('c, 'key, 'e, 'r) ConfigEnv \<Rightarrow> ('c, 'r) ServerConfig \<Rightarrow> (('key, 'r, 'b) service, StackError) result" where
  "build_service_stack lib cenv config =
     (case build_middleware_layers cenv (srv_layers config) of
        Err e \<Rightarrow> Err (LayerError e)
      | Ok layers \<Rightarrow>
          (case srv_compiled_allowed_pathes config of
             None \<Rightarrow> Err NoCompiledPaths
           | Some rules \<Rightarrow>
               (case srv_static_name config of
                  None \<Rightarrow> Err NoStaticName
                | Some name \<Rightarrow>
                    (case base_service lib config name of
                       Err e \<Rightarrow> Err e
                     | Ok base \<Rightarrow> assemble_stack cenv config name rules layers base))))"

section \<open>What reaches the base service\<close>

text \<open>
  A service obeys a relation between the states of the base service on the requests of a predicate. A layer
  touches the state of the base service only by calling the inner service, so it hands the property on; a layer
  that checks requests turns a stronger predicate inside into a weaker one outside.
\<close>

definition obeys ::
  "(('key, 'r) StackEnv \<Rightarrow> Request \<Rightarrow> bool) \<Rightarrow> (('key, 'r) StackEnv \<Rightarrow> 'b \<Rightarrow> 'b \<Rightarrow> bool) \<Rightarrow> ('key, 'r, 'b) service \<Rightarrow> bool" where
  "obeys P R s \<longleftrightarrow> (\<forall>env req w. P env req \<longrightarrow> R env (w_base w) (w_base (snd (s env req w))))"

lemma obeysI: "(\<And>env req w. P env req \<Longrightarrow> R env (w_base w) (w_base (snd (s env req w)))) \<Longrightarrow> obeys P R s"
  by (simp add: obeys_def)

lemma obeysD: "obeys P R s \<Longrightarrow> P env req \<Longrightarrow> R env (w_base w) (w_base (snd (s env req w)))"
  by (simp add: obeys_def)

lemma obeys_finished:
  assumes "obeys P R s" and "\<And>env req r w. w_base (snd (f env req r w)) = w_base w"
  shows "obeys P R (finished f s)"
  using assms by (auto simp: obeys_def finished_def split: prod.splits) (metis snd_conv)

lemma obeys_gated:
  fixes s :: "('key, 'r, 'b) service"
  assumes "obeys Q R s" and "\<And>env b. R env b b" and "\<And>env req w. w_base (snd (g env req w)) = w_base w"
    and "\<And>env req w req'. P env req \<Longrightarrow> fst (g env req w) = Allowed req' \<Longrightarrow> Q env req'"
  shows "obeys P R (gated g s)"
proof (rule obeysI)
  fix env req and w :: "'b World"
  assume P: "P env req"
  obtain d w' where g: "g env req w = (d, w')" by (cases "g env req w")
  have w': "w_base w' = w_base w" using assms(3) [of env req w] g by simp
  show "R env (w_base w) (w_base (snd (gated g s env req w)))"
  proof (cases d)
    case (Allowed req')
    then have "Q env req'" using assms(4) [OF P, of w req'] g by simp
    then show ?thesis using obeysD [OF assms(1), of env req' w'] Allowed g w' by (simp add: gated_def)
  next
    case (Blocked resp)
    then show ?thesis using g w' assms(2) by (simp add: gated_def)
  qed
qed


lemma metered_base [simp]: "w_base (snd (metered g w)) = w_base w"
  by (simp add: metered_def split: prod.splits)

lemma fst_metered [simp]: "fst (metered g w) = fst (g (w_metrics w))"
  by (simp add: metered_def split: prod.splits)

text \<open>
  A predicate on requests that every layer keeps: it looks only at the URI and at the identity in the
  extensions, survives the sanitizer, and survives a token layer of the configuration.
\<close>

definition same_identity :: "Request \<Rightarrow> Request \<Rightarrow> bool" where
  "same_identity req req' \<longleftrightarrow> req_uri req' = req_uri req \<and> ext_claims (req_ext req') = ext_claims (req_ext req)
     \<and> ext_roles_shared (req_ext req') = ext_roles_shared (req_ext req)"

locale request_predicate =
  fixes P :: "('key, 'r) StackEnv \<Rightarrow> Request \<Rightarrow> bool"
    and tokens_ok :: "'key JwtAuthService \<Rightarrow> bool"
    and R :: "('key, 'r) StackEnv \<Rightarrow> 'b \<Rightarrow> 'b \<Rightarrow> bool"
  assumes stays: "P env req \<Longrightarrow> same_identity req req' \<Longrightarrow> P env req'"
    and sanitized: "P env req \<Longrightarrow> fst (path_sanitizer_call (se_parse_pq env) (se_from_parts env) name req reg) = Allowed req' \<Longrightarrow> P env req'"
    and authenticated: "P env req \<Longrightarrow> tokens_ok svc \<Longrightarrow> fst (jwt_call svc (se_jwt env) req st reg) = Allowed req' \<Longrightarrow> P env req'"
    and idle: "R env b b"
begin

lemma keeps_gated:
  assumes "obeys P R s" and "\<And>env req w. w_base (snd (g env req w)) = w_base w"
    and "\<And>env req w req'. fst (g env req w) = Allowed req' \<Longrightarrow> req' = req"
  shows "obeys P R (gated g s)"
proof (rule obeys_gated [OF assms(1) idle assms(2)])
  show "P env req'" if "P env req" "fst (g env req w) = Allowed req'" for env req w req'
    using that(1) assms(3) [OF that(2)] by simp
qed

lemma keeps_request:
  assumes "obeys P R s" and "\<And>env req. same_identity req (f env req)"
  shows "obeys P R (\<lambda>env req w. s env (f env req) w)"
  using assms stays by (auto simp: obeys_def)

lemma keeps_sanitizer: "obeys P R s \<Longrightarrow> obeys P R (sanitizer_layer name s)"
  unfolding sanitizer_layer_def by (erule obeys_gated [OF _ idle]) (auto intro: sanitized)

lemma keeps_jwt: "obeys P R s \<Longrightarrow> tokens_ok svc \<Longrightarrow> obeys P R (jwt_layer svc s)"
  unfolding jwt_layer_def
  by (erule obeys_gated [OF _ idle]) (auto simp: case_prod_beta intro: authenticated)

lemma keeps_max_payload: "obeys P R s \<Longrightarrow> obeys P R (max_payload_layer m s)"
proof (rule obeysI)
  fix env req and w :: "'b World"
  assume s: "obeys P R s" and P: "P env req"
  show "R env (w_base w) (w_base (snd (max_payload_layer m s env req w)))"
  proof (cases "max_payload_call m req")
    case (Inl resp)
    then show ?thesis by (simp add: max_payload_layer_def idle)
  next
    case (Inr p)
    then obtain lb where p: "p = (req, lb)" by (auto simp: max_payload_call_def split: if_splits)
    have "P env (limited_request req lb)" by (rule stays [OF P]) (simp add: same_identity_def limited_request_def)
    then have "R env (w_base w) (w_base (snd (finished (\<lambda>env req r w. (max_payload_outcome r, w)) s env (limited_request req lb) w)))"
      by (intro obeysD [OF obeys_finished [OF s]]) auto
    then show ?thesis using Inr p by (simp add: max_payload_layer_def)
  qed
qed

lemma keeps_cors: "obeys P R s \<Longrightarrow> obeys P R (cors_layer c s)"
proof (rule obeysI)
  fix env req and w :: "'b World"
  assume s: "obeys P R s" and P: "P env req"
  have "R env (w_base w) (w_base (snd (finished (\<lambda>env req r w. (map_ok (se_cors_response env c req) r, w)) s env req w)))"
    by (intro obeysD [OF obeys_finished [OF s]] P) auto
  then show "R env (w_base w) (w_base (snd (cors_layer c s env req w)))"
    by (simp add: cors_layer_def idle split: option.splits)
qed

lemma keeps_logger: "obeys P R s \<Longrightarrow> obeys P R (logger_layer name s)"
proof (rule obeysI)
  fix env req and w :: "'b World"
  assume s: "obeys P R s" and P: "P env req"
  have "obeys P R (finished (\<lambda>env req r w. (r, write_log (logger_poll name req r) w)) s)"
    by (rule obeys_finished [OF s]) (simp add: write_log_def)
  from obeysD [OF this P, of "write_log [logger_call name req] w"]
  show "R env (w_base w) (w_base (snd (logger_layer name s env req w)))" by (simp add: logger_layer_def write_log_def)
qed

lemma keeps_simple: "obeys P R s \<Longrightarrow> obeys P R (simple_layer i svc s)"
  unfolding simple_layer_def
  by (erule keeps_gated) (auto simp: case_prod_beta simple_limiter_call_def Let_def split: result.splits prod.splits)

lemma keeps_bucket: "obeys P R s \<Longrightarrow> obeys P R (bucket_layer i svc s)"
  unfolding bucket_layer_def
  by (erule keeps_gated) (auto simp: case_prod_beta bucket_limiter_call_def Let_def split: result.splits prod.splits)

lemma keeps_concurrency: "obeys P R s \<Longrightarrow> obeys P R (concurrency_layer i s)"
  unfolding concurrency_layer_def by (erule keeps_gated) (auto split: if_splits)

lemma keeps_inspection: "obeys P R s \<Longrightarrow> obeys P R (inspection_layer rules name s)"
  unfolding inspection_layer_def by (erule keeps_gated) (auto simp: inspection_call_def split: result.splits if_splits)

lemma keeps_ip_filter: "obeys P R s \<Longrightarrow> obeys P R (ip_filter_layer f s)"
  unfolding ip_filter_layer_def by (erule keeps_gated) (auto simp: ip_filter_call_def split: result.splits)

lemma keeps_trace: "obeys P R s \<Longrightarrow> obeys P R (trace_layer s)"
  using keeps_request [of s "\<lambda>env. trace_id_request (se_trace env)"]
  by (simp add: trace_layer_def [abs_def] same_identity_def trace_id_request_def Let_def)

lemma keeps_decompression: "obeys P R s \<Longrightarrow> obeys P R (decompression_layer m s)"
  using keeps_request [of s "\<lambda>env. decompression_request (se_codec env) m"]
  by (simp add: decompression_layer_def [abs_def] same_identity_def decompression_request_def Let_def)

lemma keeps_answer:
  "obeys P R s \<Longrightarrow> obeys P R (compression_layer s)" "obeys P R s \<Longrightarrow> obeys P R (security_layer c s)"
  "obeys P R s \<Longrightarrow> obeys P R (alt_svc_layer port s)" "obeys P R s \<Longrightarrow> obeys P R (timing_layer i name s)"
  "obeys P R s \<Longrightarrow> obeys P R (counting_layer i name s)"
  unfolding compression_layer_def security_layer_def alt_svc_layer_def timing_layer_def counting_layer_def
  by (erule obeys_finished; simp add: write_log_def split: prod.splits)+

lemmas keeps = keeps_simple keeps_bucket keeps_concurrency keeps_inspection keeps_ip_filter keeps_trace keeps_decompression
  keeps_answer keeps_logger keeps_cors keeps_max_payload keeps_sanitizer

lemma keeps_wrap:
  assumes "wrap_layer cenv name rules port oidm i l = Ok wrap" and "obeys P R s"
    and "\<And>c svc. l = JwtAuth c \<Longrightarrow> JwtAuthLayer_new cenv c name oidm = Ok svc \<Longrightarrow> tokens_ok svc"
  shows "obeys P R (wrap s)"
proof (cases l)
  case (JwtAuth c)
  then obtain svc where "JwtAuthLayer_new cenv c name oidm = Ok svc" "wrap = jwt_layer svc"
    using assms(1) by (auto simp: wrap_layer_def split: result.splits)
  then show ?thesis using keeps_jwt [OF assms(2)] assms(3) JwtAuth by simp
next
  case (RateLimiterLayer rl)
  then show ?thesis using assms(1,2) by (cases rl) (auto simp: wrap_layer_def intro: keeps split: if_splits)
qed (use assms(1,2) in \<open>auto simp: wrap_layer_def intro: keeps split: if_splits result.splits\<close>)

lemma keeps_apply:
  "apply_layers cenv name rules port oidm i layers s = Ok svc \<Longrightarrow> obeys P R s \<Longrightarrow>
    (\<And>c svc. JwtAuth c \<in> set layers \<Longrightarrow> JwtAuthLayer_new cenv c name oidm = Ok svc \<Longrightarrow> tokens_ok svc) \<Longrightarrow> obeys P R svc"
proof (induction layers arbitrary: i svc)
  case (Cons l layers)
  then obtain inner wrap where "apply_layers cenv name rules port oidm (Suc i) layers s = Ok inner"
    "wrap_layer cenv name rules port oidm i l = Ok wrap" "svc = wrap inner"
    by (auto split: result.splits)
  moreover have "obeys P R inner"
    by (rule Cons.IH [OF calculation(1) Cons.prems(2)]) (rule Cons.prems(3), simp_all)
  moreover have "tokens_ok svc" if "l = JwtAuth c" "JwtAuthLayer_new cenv c name oidm = Ok svc" for c svc
    using Cons.prems(3) [of c svc] that by simp
  ultimately show ?case using keeps_wrap [of cenv name rules port oidm i l wrap inner] by simp
qed simp

lemma keeps_traced: "obeys P R s \<Longrightarrow> obeys P R (traced name s)"
proof (rule obeysI)
  fix env req and w :: "'b World"
  assume "obeys P R s" and "P env req"
  from obeysD [OF this, of "w\<lparr> w_metrics := inc_total_requests name (w_metrics w) \<rparr>"]
  show "R env (w_base w) (w_base (snd (traced name s env req w)))" by (simp add: traced_def)
qed

end

lemma apply_layers_split:
  "apply_layers cenv name rules port oidm i (pre @ l # post) s = Ok svc \<Longrightarrow>
    \<exists>inner wrap. apply_layers cenv name rules port oidm (Suc (i + length pre)) post s = Ok inner
      \<and> wrap_layer cenv name rules port oidm (i + length pre) l = Ok wrap
      \<and> apply_layers cenv name rules port oidm i pre (wrap inner) = Ok svc"
proof (induction pre arbitrary: i svc)
  case (Cons p pre)
  then obtain outer wrap' where "apply_layers cenv name rules port oidm (Suc i) (pre @ l # post) s = Ok outer"
    "wrap_layer cenv name rules port oidm i p = Ok wrap'" "svc = wrap' outer"
    by (auto split: result.splits)
  then show ?case using Cons.IH [of "Suc i" outer] by auto
qed (auto split: result.splits)

section \<open>Canonical paths\<close>

text \<open>What the URI library documents: a string of a path and a query is cut at its question mark, and the parts of a URI
  are put together as they are. A parsed URI has no delimiter in its path.\<close>

definition uri_lib :: "pq_parser \<Rightarrow> uri_builder \<Rightarrow> bool" where
  "uri_lib parse_pq from_parts \<longleftrightarrow>
     (\<forall>p q r. starts_with ''/'' p \<longrightarrow> set p \<inter> {CHR ''?'', CHR ''#''} = {} \<longrightarrow> CHR ''#'' \<notin> set (case q of None \<Rightarrow> [] | Some s \<Rightarrow> s) \<longrightarrow>
        parse_pq (p @ (case q of None \<Rightarrow> [] | Some s \<Rightarrow> CHR ''?'' # s)) = Ok r \<longrightarrow> r = (p, q))
     \<and> (\<forall>u v. from_parts u = Ok v \<longrightarrow> v = u)"

definition uri_ok :: "Uri \<Rightarrow> bool" where
  "uri_ok uri \<longleftrightarrow> set (uri_path uri) \<inter> {CHR ''?'', CHR ''#''} = {} \<and> CHR ''#'' \<notin> set (case uri_query uri of None \<Rightarrow> [] | Some s \<Rightarrow> s)"

definition plain_uri :: "('key, 'r) StackEnv \<Rightarrow> Request \<Rightarrow> bool" where
  "plain_uri env req \<longleftrightarrow> uri_lib (se_parse_pq env) (se_from_parts env) \<and> uri_ok (req_uri req)"

definition canonical_uri :: "('key, 'r) StackEnv \<Rightarrow> Request \<Rightarrow> bool" where
  "canonical_uri env req \<longleftrightarrow> plain_uri env req \<and> canonical_path (uri_path (req_uri req))"

lemma uri_libD:
  assumes "uri_lib parse_pq from_parts" and "starts_with ''/'' p" and "set p \<inter> {CHR ''?'', CHR ''#''} = {}"
    and "CHR ''#'' \<notin> set (case q of None \<Rightarrow> [] | Some s \<Rightarrow> s)"
    and "parse_pq (p @ (case q of None \<Rightarrow> [] | Some s \<Rightarrow> CHR ''?'' # s)) = Ok r"
  shows "r = (p, q)"
  by (rule assms(1) [unfolded uri_lib_def, THEN conjunct1, THEN spec, THEN spec, THEN spec, THEN mp, THEN mp, THEN mp, THEN mp, OF assms(2-5)])

lemma sanitizer_canonical:
  assumes "plain_uri env req"
    and "fst (path_sanitizer_call (se_parse_pq env) (se_from_parts env) name req reg) = Allowed req'"
  shows "canonical_uri env req'"
proof -
  let ?parse = "se_parse_pq env" and ?parts = "se_from_parts env" and ?uri = "req_uri req"
  have lib: "uri_lib ?parse ?parts" and uri: "uri_ok ?uri" using assms(1) by (simp_all add: plain_uri_def)
  obtain u where u: "sanitize_and_normalize_uri ?parse ?parts ?uri = Ok u" "req' = req\<lparr> req_uri := u \<rparr>"
    using assms(2) by (auto simp: path_sanitizer_call_def split: result.splits)
  then obtain q where q: "sanitize_and_normalize_path (uri_path ?uri) = Ok q"
    by (auto simp: sanitize_and_normalize_uri_def split: result.splits)
  have can: "canonical_path q" by (rule sanitize_canonical_path [OF q])
  have del: "set q \<inter> {CHR ''?'', CHR ''#''} = {}" using sanitize_no_delimiter [OF q] uri by (auto simp: uri_ok_def)
  obtain p' q' where pq: "?parse (q @ (case uri_query ?uri of None \<Rightarrow> [] | Some s \<Rightarrow> CHR ''?'' # s)) = Ok (p', q')"
    and fp: "?parts (?uri\<lparr> uri_path := p', uri_query := q' \<rparr>) = Ok u"
    using u(1) q by (auto simp: sanitize_and_normalize_uri_def Let_def split: result.splits option.splits)
  have "(p', q') = (q, uri_query ?uri)"
    by (rule uri_libD [OF lib canonical_starts_with [OF can] del _ pq]) (use uri in \<open>simp add: uri_ok_def\<close>)
  then have "u = ?uri\<lparr> uri_path := q \<rparr>" using lib fp by (auto simp: uri_lib_def)
  then show ?thesis using u(2) lib can del uri by (simp add: canonical_uri_def plain_uri_def uri_ok_def)
qed

lemma jwt_allowed_uri: "fst (jwt_call svc jenv req st reg) = Allowed req' \<Longrightarrow> req_uri req' = req_uri req"
  by (auto simp: jwt_call_def jwt_reject_def jwt_forward_def Let_def split: option.splits prod.splits bool.splits if_splits)

interpretation plain: request_predicate plain_uri "\<lambda>_. True" "\<lambda>env b b'. b = b' \<or> R env b b'" for R
proof
  fix env :: "('a, 'b) StackEnv" and req req' name reg
  assume "plain_uri env req" "fst (path_sanitizer_call (se_parse_pq env) (se_from_parts env) name req reg) = Allowed req'"
  from sanitizer_canonical [OF this] show "plain_uri env req'" by (simp add: canonical_uri_def)
qed (auto simp: plain_uri_def same_identity_def dest: jwt_allowed_uri)

interpretation canonical: request_predicate canonical_uri "\<lambda>_. True" "\<lambda>env b b'. b = b' \<or> R env b b'" for R
proof
  fix env :: "('a, 'b) StackEnv" and req req' name reg
  assume "canonical_uri env req" and ok: "fst (path_sanitizer_call (se_parse_pq env) (se_from_parts env) name req reg) = Allowed req'"
  then have "plain_uri env req" by (simp add: canonical_uri_def)
  from sanitizer_canonical [OF this ok] show "canonical_uri env req'" .
qed (auto simp: canonical_uri_def plain_uri_def same_identity_def dest: jwt_allowed_uri)


definition recorder :: "(('key, 'r) StackEnv \<Rightarrow> Request \<Rightarrow> (Response, SrvError) result) \<Rightarrow> ('key, 'r, Request list) service" where
  "recorder answer env req w = (answer env req, w\<lparr> w_base := w_base w @ [req] \<rparr>)"

lemma recorder_obeys: "obeys P (\<lambda>env b b'. b = b' \<or> (\<exists>req. b' = b @ [req] \<and> P env req)) (recorder answer)"
  by (auto simp: obeys_def recorder_def)

lemma assemble_canonical:
  assumes "assemble_stack cenv config name rules layers base = Ok stack"
    and "obeys canonical_uri (\<lambda>env b b'. b = b' \<or> R env b b') base"
  shows "obeys plain_uri (\<lambda>env b b'. b = b' \<or> R env b b') stack"
proof -
  let ?R = "\<lambda>env b b'. b = b' \<or> R env b b'" and ?apply = "apply_layers cenv name rules (unwrap_or 0 (srv_port config)) (srv_oid_mapping config)"
  have guard: "obeys plain_uri ?R (sanitizer_layer name s)" if "obeys canonical_uri ?R s" for s
    unfolding sanitizer_layer_def using that by (rule obeys_gated) (auto intro: sanitizer_canonical)
  obtain applied where applied: "?apply 0 layers base = Ok applied"
    and stack: "stack = traced name (if PathSanitizer \<in> set layers then applied else sanitizer_layer name applied)"
    using assms(1) by (auto simp: assemble_stack_def split: result.splits)
  show ?thesis
  proof (cases "PathSanitizer \<in> set layers")
    case False
    have "obeys canonical_uri ?R applied" by (rule canonical.keeps_apply [OF applied assms(2)]) simp
    from plain.keeps_traced [OF guard [OF this]] show ?thesis using False stack by simp
  next
    case True
    then obtain pre post where "layers = pre @ PathSanitizer # post" by (auto simp: in_set_conv_decomp)
    then obtain inner where i: "?apply (Suc (length pre)) post base = Ok inner" "?apply 0 pre (sanitizer_layer name inner) = Ok applied"
      using apply_layers_split [of cenv name rules _ _ 0 pre PathSanitizer post base applied] applied by (auto simp: wrap_layer_def)
    have "obeys canonical_uri ?R inner" by (rule canonical.keeps_apply [OF i(1) assms(2)]) simp
    then have "obeys plain_uri ?R applied" by (intro plain.keeps_apply [OF i(2)] guard) simp_all
    from plain.keeps_traced [OF this] show ?thesis using True stack by simp
  qed
qed

text \<open>C4: Whatever layers are configured, in whatever order, and whether or not the sanitizer is among them: the base
  service of a server is called at most once per request, and only with a canonical path.\<close>

theorem base_gets_canonical_paths:
  assumes "assemble_stack cenv config name rules layers (recorder answer) = Ok stack"
    and "uri_lib (se_parse_pq env) (se_from_parts env)" and "uri_ok (req_uri req)"
  shows "w_base (snd (stack env req w)) = w_base w
    \<or> (\<exists>req'. w_base (snd (stack env req w)) = w_base w @ [req'] \<and> canonical_path (uri_path (req_uri req')))"
proof -
  have "plain_uri env req" using assms(2,3) by (simp add: plain_uri_def)
  from obeysD [OF assemble_canonical [OF assms(1) recorder_obeys] this, of w]
  show ?thesis by (auto simp: canonical_uri_def)
qed

section \<open>Identity\<close>

definition verified_identity ::
  "'key JwtAuthService \<Rightarrow> ('key \<Rightarrow> string \<Rightarrow> Claims \<Rightarrow> bool) \<Rightarrow> ('key, 'r) StackEnv \<Rightarrow> Request \<Rightarrow> bool" where
  "verified_identity svc sig_ok env req \<longleftrightarrow>
     (\<exists>token claims. (\<exists>key \<in> set (jwt_decoding_keys svc). sig_ok key token claims)
        \<and> (setting_list (jwt_expected_issuer svc) = [] \<or> claim_iss claims \<in> set (setting_list (jwt_expected_issuer svc)))
        \<and> (setting_list (jwt_expected_audience svc) = [] \<or> claim_aud claims = None
             \<or> claim_aud claims \<in> Some ` set (setting_list (jwt_expected_audience svc)))
        \<and> unat (je_now_verify (se_jwt env)) \<le> unat (claim_exp claims) + 60
        \<and> ext_claims (req_ext req) = Some claims
        \<and> ext_roles_shared (req_ext req) = Some (oid_roles (jwt_oid_mapping svc) (claim_oids claims)))"

definition lawful_tokens :: "('key \<Rightarrow> string \<Rightarrow> Claims \<Rightarrow> bool) \<Rightarrow> ('key, 'r) StackEnv \<Rightarrow> Request \<Rightarrow> bool" where
  "lawful_tokens sig_ok env req = decode_law (je_decode (se_jwt env)) sig_ok"

lemma jwt_allowed_verified:
  assumes "decode_law (je_decode (se_jwt env)) sig_ok" and "fst (jwt_call svc (se_jwt env) req st reg) = Allowed req'"
  shows "verified_identity svc sig_ok env req'"
proof -
  obtain token claims where claims: "verify_jwt (je_decode (se_jwt env)) (je_now_verify (se_jwt env)) token (jwt_decoding_keys svc)
        (jwt_expected_issuer svc) (jwt_expected_audience svc) = Some claims"
    and ext: "ext_claims (req_ext req') = Some claims"
      "ext_roles_shared (req_ext req') = Some (oid_roles (jwt_oid_mapping svc) (claim_oids claims))"
    using assms(2)
    by (auto simp: jwt_call_def jwt_reject_def jwt_forward_def Let_def split: option.splits if_splits prod.splits bool.splits)
  then show ?thesis using verify_jwt_sound [OF assms(1) claims] unfolding verified_identity_def by blast
qed

lemma verified_same:
  "ext_claims (req_ext req') = ext_claims (req_ext req) \<Longrightarrow> ext_roles_shared (req_ext req') = ext_roles_shared (req_ext req) \<Longrightarrow>
    verified_identity svc sig_ok env req' = verified_identity svc sig_ok env req"
  by (simp only: verified_identity_def)

interpretation lawful: request_predicate "lawful_tokens sig_ok" "\<lambda>_. True" "\<lambda>env b b'. b = b' \<or> R env b b'" for sig_ok R
  by unfold_locales (auto simp: lawful_tokens_def)

interpretation identity: request_predicate "\<lambda>env req. lawful_tokens sig_ok env req \<and> verified_identity svc sig_ok env req"
  "\<lambda>s. s = svc" "\<lambda>env b b'. b = b' \<or> R env b b'" for sig_ok svc R
proof
  fix env :: "('a, 'b) StackEnv" and req req' s st reg
  assume "lawful_tokens sig_ok env req \<and> verified_identity svc sig_ok env req" "s = svc"
    "fst (jwt_call s (se_jwt env) req st reg) = Allowed req'"
  then show "lawful_tokens sig_ok env req' \<and> verified_identity svc sig_ok env req'"
    using jwt_allowed_verified [of env sig_ok svc req st reg req'] by (simp add: lawful_tokens_def)
next
  fix env :: "('a, 'b) StackEnv" and req req' name reg
  assume "lawful_tokens sig_ok env req \<and> verified_identity svc sig_ok env req"
    "fst (path_sanitizer_call (se_parse_pq env) (se_from_parts env) name req reg) = Allowed req'"
  then show "lawful_tokens sig_ok env req' \<and> verified_identity svc sig_ok env req'"
    using verified_same [of req' req svc sig_ok env] by (auto simp: lawful_tokens_def path_sanitizer_call_def split: result.splits)
next
  fix env :: "('a, 'b) StackEnv" and req req'
  assume "lawful_tokens sig_ok env req \<and> verified_identity svc sig_ok env req" "same_identity req req'"
  then show "lawful_tokens sig_ok env req' \<and> verified_identity svc sig_ok env req'"
    using verified_same [of req' req svc sig_ok env] by (simp add: lawful_tokens_def same_identity_def)
qed simp

lemma built_jwt_config:
  assumes "build_middleware_layers cenv ls = Ok layers" and "JwtAuth c \<in> set layers"
  shows "jwt_config ls = Some c"
proof -
  obtain built where b: "list_all2 (\<lambda>n l. build_layer cenv ls n = Ok l) (layers_enabled ls) built"
    and same: "''SecurityHeaders'' \<in> set (layers_enabled ls) \<Longrightarrow> layers = built"
    and more: "''SecurityHeaders'' \<notin> set (layers_enabled ls) \<Longrightarrow>
        \<exists>i c. layers = take i built @ SecurityHeaders c # drop i built \<and> (\<forall>l \<in> set (take i built). is_observer l)"
    by (rule build_layers_OkE [OF assms(1)]) blast
  have "JwtAuth c \<in> set built"
  proof (cases "''SecurityHeaders'' \<in> set (layers_enabled ls)")
    case True
    then show ?thesis using same assms(2) by simp
  next
    case False
    then show ?thesis using more assms(2) by (auto dest: in_set_takeD in_set_dropD)
  qed
  then obtain n where n: "build_layer cenv ls n = Ok (JwtAuth c)" using list_all2_mem2 [OF b] by blast
  then have "n = ''JwtAuth'' \<or> n = ''JWT''" using build_layer_name by fastforce
  then show ?thesis using n build_layer_named(3,4) by blast
qed

lemma assemble_identity:
  assumes "assemble_stack cenv config name rules layers base = Ok stack"
    and "build_middleware_layers cenv (srv_layers config) = Ok layers" and "JwtAuth cfg \<in> set layers"
    and "obeys (\<lambda>env req. lawful_tokens sig_ok env req \<and> verified_identity svc sig_ok env req) (\<lambda>env b b'. b = b' \<or> R env b b') base"
    and "JwtAuthLayer_new cenv cfg name (srv_oid_mapping config) = Ok svc"
  shows "obeys (lawful_tokens sig_ok) (\<lambda>env b b'. b = b' \<or> R env b b') stack"
proof -
  let ?R = "\<lambda>env b b'. b = b' \<or> R env b b'" and ?apply = "apply_layers cenv name rules (unwrap_or 0 (srv_port config)) (srv_oid_mapping config)"
  let ?P = "\<lambda>env req. lawful_tokens sig_ok env req \<and> verified_identity svc sig_ok env req"
  have one: "s = svc" if "JwtAuth c \<in> set layers" "JwtAuthLayer_new cenv c name (srv_oid_mapping config) = Ok s" for c s
    using built_jwt_config [OF assms(2) that(1)] built_jwt_config [OF assms(2,3)] that(2) assms(5) by simp
  obtain pre post where layers: "layers = pre @ JwtAuth cfg # post" using assms(3) by (auto simp: in_set_conv_decomp)
  obtain applied where applied: "?apply 0 layers base = Ok applied"
    and stack: "stack = traced name (if PathSanitizer \<in> set layers then applied else sanitizer_layer name applied)"
    using assms(1) by (auto simp: assemble_stack_def split: result.splits)
  obtain inner where i: "?apply (Suc (length pre)) post base = Ok inner" "?apply 0 pre (jwt_layer svc inner) = Ok applied"
    using apply_layers_split [of cenv name rules "unwrap_or 0 (srv_port config)" "srv_oid_mapping config" 0 pre "JwtAuth cfg" post base applied]
      applied layers assms(5)
    by (auto simp: wrap_layer_def)
  have "obeys ?P ?R inner" by (rule identity.keeps_apply [OF i(1) assms(4)]) (use one layers in auto)
  then have "obeys (lawful_tokens sig_ok) ?R (jwt_layer svc inner)"
    unfolding jwt_layer_def
    by (rule obeys_gated) (auto simp: case_prod_beta lawful_tokens_def intro: jwt_allowed_verified)
  then have "obeys (lawful_tokens sig_ok) ?R applied" by (rule lawful.keeps_apply [OF i(2)]) simp
  then show ?thesis using stack lawful.keeps_traced [of sig_ok R] lawful.keeps_sanitizer [of sig_ok R] by (auto split: if_splits)
qed

text \<open>Authentication cannot be bypassed by the composition of layers: on a server whose layer list contains the token layer, at
  whatever place, the base service is called at most once per request and only with an identity that comes from
  a token signed with a configured key, from an allowed issuer, for an allowed audience and not expired
  beyond the leeway; the roles the access control sees are exactly those the token's OIDs map to.\<close>

theorem base_gets_verified_identity:
  assumes "assemble_stack cenv config name rules layers (recorder answer) = Ok stack"
    and "build_middleware_layers cenv (srv_layers config) = Ok layers" and "JwtAuth cfg \<in> set layers"
    and "JwtAuthLayer_new cenv cfg name (srv_oid_mapping config) = Ok svc"
    and "decode_law (je_decode (se_jwt env)) sig_ok"
  shows "w_base (snd (stack env req w)) = w_base w
    \<or> (\<exists>req'. w_base (snd (stack env req w)) = w_base w @ [req'] \<and> verified_identity svc sig_ok env req')"
proof -
  have "lawful_tokens sig_ok env req" using assms(5) by (simp add: lawful_tokens_def)
  from obeysD [OF assemble_identity [OF assms(1,2,3) recorder_obeys assms(4)] this, of w] show ?thesis by auto
qed

section \<open>The router behind its layers\<close>

text \<open>The router as a base service; its state has the requests sent to upstreams. \<open>lost\<close> is what the caller sees of a call that panics
  or never ends.\<close>

definition router_base ::
  "RouterEnv \<Rightarrow> ('pool, 'desc, 'msg) HandlerEnv \<Rightarrow> RouterService \<Rightarrow> Version \<Rightarrow> SrvError
     \<Rightarrow> ('key, 'r, ('c, 'r, 'pool) RouterState \<times> (nat \<times> ProxyRequest) list) service" where
  "router_base renv henv rs version lost env req w =
     (case router_call renv henv rs req version (w_metrics w) (fst (w_base w)) of
        (r, sent, reg, st) \<Rightarrow>
          (case r of Returned res _ \<Rightarrow> res | _ \<Rightarrow> Err lost,
           w\<lparr> w_metrics := reg, w_base := (st, snd (w_base w) @ sent) \<rparr>))"

text \<open>What the router does to its state for a request: it sends nothing, or the access rules allow the request.\<close>

definition routed_authorized ::
  "RouterEnv \<Rightarrow> RouterService \<Rightarrow> ('c, 'r, 'pool) RouterState \<Rightarrow> Request \<Rightarrow> bool" where
  "routed_authorized renv rs st req \<longleftrightarrow>
     (\<exists>uri i rest reg. sanitize_and_normalize_uri (io_parse (re_io renv)) (io_from_parts (re_io renv)) (req_uri req) = Ok uri
        \<and> re_lookup renv (rs_router rs) (uri_path uri) = Some (i, rest)
        \<and> fst (enforce_rbac uri (req_ext req) (route_allowed_roles (srv_parsed_routes (rst_config st) ! i))
               (srv_compiled_rbac (rst_config st)) (server_name_of (rst_config st)) reg) = Ok ())"

lemma router_base_obeys:
  fixes henv :: "('pool, 'desc, 'msg) HandlerEnv" and P :: "('key, 'r) StackEnv \<Rightarrow> Request \<Rightarrow> bool"
  shows "obeys P (\<lambda>env b b'. b = b' \<or> (\<exists>sent. snd b' = snd b @ sent \<and> (sent = [] \<or> (\<exists>req. P env req \<and> routed_authorized renv rs (fst b) req))))
     (router_base renv henv rs version lost :: ('key, 'r, ('c, 'r, 'pool) RouterState \<times> (nat \<times> ProxyRequest) list) service)"
proof (rule obeysI, rule disjI2)
  fix env req and w :: "(('c, 'r, 'pool) RouterState \<times> (nat \<times> ProxyRequest) list) World"
  assume P: "P env req"
  obtain r sent reg st where call: "router_call renv henv rs req version (w_metrics w) (fst (w_base w)) = (r, sent, reg, st)"
    by (metis prod_cases4)
  have "routed_authorized renv rs (fst (w_base w)) req" if "sent \<noteq> []"
    using router_sentD [OF call that] dispatchD(1-3) unfolding routed_authorized_def by (metis fst_conv)
  then show "\<exists>sent. snd (w_base (snd (router_base renv henv rs version lost env req w))) = snd (w_base w) @ sent
      \<and> (sent = [] \<or> (\<exists>req. P env req \<and> routed_authorized renv rs (fst (w_base w)) req))"
    using P by (intro exI [of _ sent]) (auto simp: router_base_def call)
qed


section \<open>Security headers on every answer\<close>

lemma observer_answer:
  assumes "wrap_layer cenv name rules port oidm i l = Ok wrap" and "is_observer l"
  shows "\<exists>req' w'. fst (wrap s env req w) = fst (s env req' w')"
proof -
  consider "wrap = trace_layer" | "wrap = logger_layer name" | "wrap = timing_layer i name" | "wrap = counting_layer i name"
    using assms by (auto simp: is_observer_def wrap_layer_def)
  then show ?thesis
  proof cases
    case 1
    have "fst (wrap s env req w) = fst (s env (trace_id_request (se_trace env) req) w)" by (simp add: 1 trace_layer_def)
    then show ?thesis by blast
  next
    case 2
    have "fst (wrap s env req w) = fst (s env req (write_log [logger_call name req] w))"
      by (simp add: 2 logger_layer_def finished_def case_prod_beta)
    then show ?thesis by blast
  next
    case 3
    have "fst (wrap s env req w) = fst (s env req w)" by (simp add: 3 timing_layer_def finished_def case_prod_beta)
    then show ?thesis by blast
  next
    case 4
    have "fst (wrap s env req w) = fst (s env req w)" by (simp add: 4 counting_layer_def finished_def case_prod_beta)
    then show ?thesis by blast
  qed
qed

lemma observer_answers:
  "apply_layers cenv name rules port oidm i pre s = Ok svc \<Longrightarrow> \<forall>l \<in> set pre. is_observer l \<Longrightarrow>
    \<exists>req' w'. fst (svc env req w) = fst (s env req' w')"
proof (induction pre arbitrary: i svc req w)
  case (Cons l pre)
  then obtain inner wrap where inner: "apply_layers cenv name rules port oidm (Suc i) pre s = Ok inner"
    and wrap: "wrap_layer cenv name rules port oidm i l = Ok wrap" "svc = wrap inner"
    by (auto split: result.splits)
  obtain req1 w1 where "fst (svc env req w) = fst (inner env req1 w1)"
    using observer_answer [OF wrap(1), of inner env req w] Cons.prems(2) wrap(2) by auto
  moreover obtain req2 w2 where "fst (inner env req1 w1) = fst (s env req2 w2)"
    using Cons.IH [OF inner, of req1 w1] Cons.prems(2) by auto
  ultimately show ?case by auto
qed auto

lemma layers_answer:
  assumes "build_middleware_layers cenv ls = Ok layers" and "''SecurityHeaders'' \<notin> set (layers_enabled ls)"
    and "apply_layers cenv name rules port oidm 0 layers base = Ok applied" and "fst (applied env req w) = Ok resp"
  shows "\<exists>c resp'. SecurityHeaders c \<in> set layers \<and> resp = security_headers_response c resp'"
proof -
  obtain built i c where l: "layers = take i built @ SecurityHeaders c # drop i built" "\<forall>l \<in> set (take i built). is_observer l"
    using build_layers_OkE [OF assms(1)] assms(2) by metis
  obtain inner where "apply_layers cenv name rules port oidm 0 (take i built) (security_layer c inner) = Ok applied"
    using apply_layers_split [of cenv name rules port oidm 0 "take i built" "SecurityHeaders c" "drop i built" base applied] assms(3)
    unfolding l(1) by (auto simp: wrap_layer_def)
  from observer_answers [OF this l(2), of env req w] assms(4)
  obtain req' w' where "fst (security_layer c inner env req' w') = Ok resp" by auto
  then show ?thesis using l(1)
    by (auto simp: security_layer_def finished_def map_ok_def case_prod_beta split: result.splits)
qed

lemma security_headers_get:
  "(n, v) \<in> set (security_values c) \<Longrightarrow> is_visible_ascii v \<Longrightarrow>
    hm_get_all n (resp_headers (security_headers_response c r)) = [v]"
  by (auto simp: security_headers_response_def Let_def insert_if_valid_get security_values_def)

lemma stack_answer:
  assumes "assemble_stack cenv config name rules layers base = Ok stack" and "fst (stack env req w) = Ok resp"
  shows "\<exists>applied. apply_layers cenv name rules (unwrap_or 0 (srv_port config)) (srv_oid_mapping config) 0 layers base = Ok applied
    \<and> ((\<exists>req' w'. fst (applied env req' w') = Ok resp)
       \<or> PathSanitizer \<notin> set layers \<and> (\<exists>e. sanitize_and_normalize_uri (se_parse_pq env) (se_from_parts env) (req_uri req) = Err e
            \<and> resp = build_bad_request_response (sanitize_error_msg e)))"
proof -
  obtain applied where a: "apply_layers cenv name rules (unwrap_or 0 (srv_port config)) (srv_oid_mapping config) 0 layers base = Ok applied"
    and stack: "stack = traced name (if PathSanitizer \<in> set layers then applied else sanitizer_layer name applied)"
    using assms(1) by (auto simp: assemble_stack_def split: result.splits)
  show ?thesis
  proof (cases "PathSanitizer \<in> set layers")
    case True
    then have "\<exists>req' w'. fst (applied env req' w') = Ok resp" using assms(2) by (auto simp: stack traced_def)
    then show ?thesis using a by blast
  next
    case False
    show ?thesis
    proof (cases "sanitize_and_normalize_uri (se_parse_pq env) (se_from_parts env) (req_uri req)")
      case (Ok u)
      then have "\<exists>req' w'. fst (applied env req' w') = Ok resp"
        using assms(2) False by (auto simp: stack traced_def sanitizer_layer_def gated_def metered_def path_sanitizer_call_def)
      then show ?thesis using a by blast
    next
      case (Err e)
      then show ?thesis
        using assms(2) False a by (auto simp: stack traced_def sanitizer_layer_def gated_def metered_def path_sanitizer_call_def)
    qed
  qed
qed


section \<open>A server\<close>

definition demo_pem_decode :: "string decoder" where
  "demo_pem_decode token key validation now = (if key = ''key.pem'' then demo_decode token 7 validation now else None)"

definition demo_sig_ok :: "string \<Rightarrow> string \<Rightarrow> Claims \<Rightarrow> bool" where
  "demo_sig_ok key token claims \<longleftrightarrow> key = ''key.pem'' \<and> token = ''tok'' \<and> claims = demo_claims"

lemma demo_pem_law: "decode_law demo_pem_decode demo_sig_ok"
  using demo_decode_law unfolding decode_law_def demo_pem_decode_def demo_sig_ok_def by simp

definition demo_stack_env :: "(string, string) StackEnv" where
  "demo_stack_env =
     \<lparr> se_parse_pq = split_pq, se_from_parts = Ok, se_re_match = demo_match,
       se_jwt = \<lparr> je_decode = demo_pem_decode, je_joined = True, je_now_verify = 1000, je_now_check = 1000, je_now_revoke = 1000,
                 je_now_cleanup = 1000, je_won = True \<rparr>,
       se_trace = demo_trace_env, se_limiter = (\<lambda>_. \<lparr> ce_now = 0, ce_lock1 = True, ce_lock2 = True \<rparr>), se_permit = (\<lambda>_. True),
       se_times = (\<lambda>_. (0, 0)), se_codec = stored_codec, se_cors_answer = (\<lambda>_ _. None), se_cors_response = (\<lambda>_ _ r. r) \<rparr>"

definition demo_world :: "'b \<Rightarrow> 'b World" where
  "demo_world b =
     \<lparr> w_metrics = [], w_revoked = revocation_new, w_simple = (\<lambda>_. store_new 1 0 0), w_bucket = (\<lambda>_. store_new 1 0 0),
       w_counts = (\<lambda>_. 0), w_log = [], w_base = b \<rparr>"

definition demo_stack_config :: "string list \<Rightarrow> (string, string) ServerConfig" where
  "demo_stack_config enabled =
     demo_router_config\<lparr> srv_oid_mapping := [(''1'', UserRole ''Admin'')],
       srv_layers := demo_layers\<lparr> layers_enabled := enabled,
         jwt_config := Some (demo_jwt_config\<lparr> expected_issuer := ''praeco'' \<rparr>) \<rparr> \<rparr>"

definition demo_stack_layers :: "MiddlewareLayer list" where
  "demo_stack_layers =
     [TraceId, Logger, SecurityHeaders SecurityHeadersConfig_default, JwtAuth (demo_jwt_config\<lparr> expected_issuer := ''praeco'' \<rparr>)]"

definition demo_answer_ok :: "('key, 'r) StackEnv \<Rightarrow> Request \<Rightarrow> (Response, SrvError) result" where
  "demo_answer_ok env req = Ok \<lparr> resp_status = 200, resp_headers = [], resp_body = [] \<rparr>"

lemma demo_stack_layers_built:
  "build_middleware_layers demo_env (srv_layers (demo_stack_config [''TraceId'', ''Logger'', ''JwtAuth''])) = Ok demo_stack_layers"
  by code_simp

lemma demo_uri_lib: "uri_lib (se_parse_pq demo_stack_env) (se_from_parts demo_stack_env)"
  unfolding uri_lib_def demo_stack_env_def using split_pq_law by simp

abbreviation demo_enabled :: "string list" where
  "demo_enabled \<equiv> [''TraceId'', ''Logger'', ''JwtAuth'']"

definition demo_token_request :: "string \<Rightarrow> Request" where
  "demo_token_request path = (demo_guest_request ''GET'' path)\<lparr> req_headers := [(''authorization'', ''Bearer tok'')] \<rparr>"

definition demo_auth :: "string JwtAuthService" where
  "demo_auth = \<lparr> jwt_decoding_keys = [''key.pem''], jwt_server_name = ''s'', jwt_oid_mapping = [(''1'', UserRole ''Admin'')],
     jwt_cookie_fallback = None, jwt_redirect_on_failure = None, jwt_expected_issuer = ''praeco'',
     jwt_expected_audience = [], jwt_revoke_on_paths = [''/logout''] \<rparr>"

lemma demo_stack_jwt:
  "JwtAuth (demo_jwt_config\<lparr> expected_issuer := ''praeco'' \<rparr>) \<in> set demo_stack_layers"
  "JwtAuthLayer_new demo_env (demo_jwt_config\<lparr> expected_issuer := ''praeco'' \<rparr>) ''s'' (srv_oid_mapping (demo_stack_config demo_enabled)) = Ok demo_auth"
  "decode_law (je_decode (se_jwt demo_stack_env)) demo_sig_ok"
proof -
  show "JwtAuth (demo_jwt_config\<lparr> expected_issuer := ''praeco'' \<rparr>) \<in> set demo_stack_layers" by (simp add: demo_stack_layers_def)
  show "JwtAuthLayer_new demo_env (demo_jwt_config\<lparr> expected_issuer := ''praeco'' \<rparr>) ''s'' (srv_oid_mapping (demo_stack_config demo_enabled)) =
     Ok demo_auth" by code_simp
  show "decode_law (je_decode (se_jwt demo_stack_env)) demo_sig_ok" using demo_pem_law by (simp add: demo_stack_env_def)
qed

text \<open>The service the layers make of a base service.\<close>

definition demo_service :: "(string, string, 'b) service \<Rightarrow> (string, string, 'b) service" where
  "demo_service base =
     traced ''s'' (sanitizer_layer ''s'' (trace_layer (logger_layer ''s''
       (security_layer SecurityHeadersConfig_default (jwt_layer demo_auth base)))))"

lemma demo_stack_Ok: "assemble_stack demo_env (demo_stack_config demo_enabled) ''s'' demo_rules demo_stack_layers base = Ok (demo_service base)"
  using demo_stack_jwt(2) by (simp add: assemble_stack_def demo_stack_layers_def demo_service_def wrap_layer_def)

lemma demo_runs:
  "length (w_base (snd (demo_service (recorder demo_answer_ok) demo_stack_env (demo_token_request ''/api/./x'') (demo_world [])))) = 1
   \<and> (case fst (demo_service (recorder demo_answer_ok) demo_stack_env (demo_guest_request ''GET'' ''/api/x'') (demo_world [])) of
        Ok resp \<Rightarrow> resp_status resp = 401 | Err e \<Rightarrow> False)"
  by code_simp

theorem base_gets_canonical_paths_witness:
  "\<exists>req'. w_base (snd (demo_service (recorder demo_answer_ok) demo_stack_env (demo_token_request ''/api/./x'') (demo_world []))) = [req']
     \<and> canonical_path (uri_path (req_uri req'))"
proof -
  note n = demo_runs [THEN conjunct1]
  have "uri_ok (req_uri (demo_token_request ''/api/./x''))" by code_simp
  from base_gets_canonical_paths [OF demo_stack_Ok demo_uri_lib this, of demo_answer_ok "demo_world []"] n
  show ?thesis by (auto simp: demo_world_def)
qed

theorem base_gets_verified_identity_witness:
  "\<exists>req'. w_base (snd (demo_service (recorder demo_answer_ok) demo_stack_env (demo_token_request ''/api/./x'') (demo_world []))) = [req']
     \<and> ext_claims (req_ext req') = Some demo_claims"
proof -
  note n = demo_runs [THEN conjunct1]
  from base_gets_verified_identity [OF demo_stack_Ok demo_stack_layers_built demo_stack_jwt, of demo_answer_ok "demo_token_request ''/api/./x''" "demo_world []"] n
  show ?thesis by (auto simp: demo_world_def verified_identity_def demo_sig_ok_def)
qed

abbreviation demo_routing :: "(string, string, (string, string, unit) RouterState \<times> (nat \<times> ProxyRequest) list) service" where
  "demo_routing \<equiv> router_base demo_call_env demo_handler_env demo_router HTTP_11 (Other ''lost'')"



text \<open>The exception occurs: a traversal attempt at a server whose list has no sanitizer is answered without the headers.\<close>

theorem sanitizer_answer_lacks_headers:
  "case fst (demo_service (recorder demo_answer_ok) demo_stack_env (demo_guest_request ''GET'' ''/../x'') (demo_world [])) of
     Ok resp \<Rightarrow> resp_status resp = 400 \<and> hm_get_all ''x-frame-options'' (resp_headers resp) = []
   | Err e \<Rightarrow> False"
  by code_simp

end
