(* ===== verification/Tls_Config.thy ===== *)
theory Tls_Config
  imports Service_Stack
begin

text \<open>
  Certificates: \<open>load_certs\<close>, \<open>load_single_key\<close> and the trust stores of \<open>common/src/lib.rs\<close>; the TLS settings of a listener and
  the identity in a client certificate, \<open>server/src/tls_conf.rs\<close> and \<open>build_rustls_config\<close> of \<open>server/src/server.rs\<close>; and
  the root configuration, \<open>Config::load\<close> and \<open>get_server_ip\<close> of \<open>server/src/configuration.rs\<close>.

  The file system, PEM and X.509 parsing, TOML, globbing and rustls are parameters (\<open>TlsLib\<close>, \<open>LoadLib\<close>). A rustls
  configuration is the record of what the code sets in it.
\<close>

section \<open>Certificates and keys\<close>

type_synonym der = "u8 list"

datatype PrivateKeyDer = Pkcs1 der | Pkcs8 der | Sec1 der

datatype PemItem = Pkcs1Key der | Pkcs8Key der | Sec1Key der | OtherItem

datatype GeneralName = DNSName string | OtherName

record X509Extension =
  xe_oid :: "u64 list option"                   \<comment> \<open>the arcs, unless one does not fit\<close>
  xe_san :: "GeneralName list option"            \<comment> \<open>the names, if it is a subject alternative name\<close>

record ClientVerifier =
  cv_roots :: "der list"
  cv_crls :: "der list"
  cv_allow_unauthenticated :: bool

record 'sk TlsLib =
  tl_read :: "string \<Rightarrow> (u8 list, string) result"
  tl_pem_certs :: "u8 list \<Rightarrow> (der, string) result list"
  tl_pem_items :: "u8 list \<Rightarrow> (PemItem, string) result list"
  tl_load_private_key :: "PrivateKeyDer \<Rightarrow> ('sk, string) result"
  tl_crl_from_pem_file :: "string \<Rightarrow> (der, string) result"
  tl_add_root :: "der \<Rightarrow> (unit, string) result"
  tl_build_verifier :: "ClientVerifier \<Rightarrow> (unit, string) result"
  tl_webpki_roots :: "der list"
  tl_parsable :: "der \<Rightarrow> bool"
  tl_client_auth :: "der list \<Rightarrow> PrivateKeyDer \<Rightarrow> (unit, string) result"
  tl_parse_crl :: "der \<Rightarrow> int option option"      \<comment> \<open>the next update of a CRL that parses\<close>
  tl_parse_cert :: "der \<Rightarrow> X509Extension list option"
  tl_pem_encode :: "der \<Rightarrow> string"

datatype TlsError =
    CannotRead string string
  | InvalidPem string string
  | NoCertificates string
  | NoPrivateKey string
  | BadPrivateKey string
  | NoServerCerts
  | NoClientCerts
  | CaRefused string
  | CrlUnreadable string string
  | VerifierRefused string
  | ClientAuthRefused string

fun collect_ok :: "('a, string) result list \<Rightarrow> ('a list, string) result" where
  "collect_ok [] = Ok []"
| "collect_ok (Err e # rs) = Err e"
| "collect_ok (Ok a # rs) = (case collect_ok rs of Err e \<Rightarrow> Err e | Ok l \<Rightarrow> Ok (a # l))"

definition load_certs :: "'sk TlsLib \<Rightarrow> string \<Rightarrow> (der list, TlsError) result" where
  "load_certs lib path =
     (case tl_read lib path of
        Err e \<Rightarrow> Err (CannotRead path e)
      | Ok data \<Rightarrow>
          (case collect_ok (tl_pem_certs lib data) of
             Err e \<Rightarrow> Err (InvalidPem path e)
           | Ok certs \<Rightarrow> (if certs = [] then Err (NoCertificates path) else Ok certs)))"

fun first_key :: "string \<Rightarrow> (PemItem, string) result list \<Rightarrow> (PrivateKeyDer, TlsError) result" where
  "first_key path [] = Err (NoPrivateKey path)"
| "first_key path (Err e # items) = Err (InvalidPem path e)"
| "first_key path (Ok (Pkcs1Key key) # items) = Ok (Pkcs1 key)"
| "first_key path (Ok (Pkcs8Key key) # items) = Ok (Pkcs8 key)"
| "first_key path (Ok (Sec1Key key) # items) = Ok (Sec1 key)"
| "first_key path (Ok OtherItem # items) = first_key path items"

definition load_single_key :: "'sk TlsLib \<Rightarrow> string \<Rightarrow> (PrivateKeyDer, TlsError) result" where
  "load_single_key lib path =
     (case tl_read lib path of
        Err e \<Rightarrow> Err (CannotRead path e)
      | Ok data \<Rightarrow> first_key path (tl_pem_items lib data))"

record 'sk CertifiedKey =
  ck_certs :: "der list"
  ck_key :: 'sk

definition load_certified_key :: "'sk TlsLib \<Rightarrow> ServerCertConfig \<Rightarrow> ('sk CertifiedKey, TlsError) result" where
  "load_certified_key lib c =
     (case load_certs lib (ssl_certificate c) of
        Err e \<Rightarrow> Err e
      | Ok server_certs \<Rightarrow>
          (case load_single_key lib (ssl_certificate_key c) of
             Err e \<Rightarrow> Err e
           | Ok server_key \<Rightarrow>
               (case tl_load_private_key lib server_key of
                  Err e \<Rightarrow> Err (BadPrivateKey e)
                | Ok signing_key \<Rightarrow> Ok \<lparr> ck_certs = server_certs, ck_key = signing_key \<rparr>)))"

section \<open>Trust for outgoing connections\<close>

text \<open>\<open>add_parsable_certificates\<close> skips what does not parse.\<close>

definition build_root_store :: "'sk TlsLib \<Rightarrow> string option \<Rightarrow> (der list, TlsError) result" where
  "build_root_store lib ca_path =
     (case ca_path of
        Some path \<Rightarrow> (case load_certs lib path of Err e \<Rightarrow> Err e | Ok certs \<Rightarrow> Ok (filter (tl_parsable lib) certs))
      | None \<Rightarrow> Ok (tl_webpki_roots lib))"

definition build_root_store_with_webpki :: "'sk TlsLib \<Rightarrow> string option \<Rightarrow> (der list, TlsError) result" where
  "build_root_store_with_webpki lib ca_path =
     (case ca_path of
        Some path \<Rightarrow>
          (case load_certs lib path of Err e \<Rightarrow> Err e | Ok certs \<Rightarrow> Ok (tl_webpki_roots lib @ filter (tl_parsable lib) certs))
      | None \<Rightarrow> Ok (tl_webpki_roots lib))"

record ClientConfig =
  cc_roots :: "der list"
  cc_identity :: "(der list \<times> PrivateKeyDer) option"

definition build_tls_client_config :: "'sk TlsLib \<Rightarrow> der list \<Rightarrow> string option \<Rightarrow> string option \<Rightarrow> (ClientConfig, TlsError) result" where
  "build_tls_client_config lib root_store cert key =
     (case (cert, key) of
        (Some cert_path, Some key_path) \<Rightarrow>
          (case load_certs lib cert_path of
             Err e \<Rightarrow> Err e
           | Ok certs \<Rightarrow>
               (case load_single_key lib key_path of
                  Err e \<Rightarrow> Err e
                | Ok k \<Rightarrow>
                    (case tl_client_auth lib certs k of
                       Err e \<Rightarrow> Err (ClientAuthRefused e)
                     | Ok _ \<Rightarrow> Ok \<lparr> cc_roots = root_store, cc_identity = Some (certs, k) \<rparr>)))
      | _ \<Rightarrow> Ok \<lparr> cc_roots = root_store, cc_identity = None \<rparr>)"

section \<open>The TLS settings of a listener\<close>

record RustlsServerConfig =
  rc_client_verifier :: "ClientVerifier option"
  rc_resolver :: string                       \<comment> \<open>\<open>DynamicCertResolver\<close>: the server name\<close>
  rc_session_cache :: nat
  rc_alpn :: "string list"

fun add_roots :: "'sk TlsLib \<Rightarrow> der list \<Rightarrow> (unit, TlsError) result" where
  "add_roots lib [] = Ok ()"
| "add_roots lib (ca # cas) = (case tl_add_root lib ca of Err e \<Rightarrow> Err (CaRefused e) | Ok _ \<Rightarrow> add_roots lib cas)"

fun load_client_cas :: "'sk TlsLib \<Rightarrow> ClientCertConfig list \<Rightarrow> (der list \<times> der list, TlsError) result" where
  "load_client_cas lib [] = Ok ([], [])"
| "load_client_cas lib (c # cs) =
     (case load_certs lib (ssl_client_ca c) of
        Err e \<Rightarrow> Err e
      | Ok ca_certs \<Rightarrow>
          (case add_roots lib ca_certs of
             Err e \<Rightarrow> Err e
           | Ok _ \<Rightarrow>
               (case (case ssl_client_crl c of
                        None \<Rightarrow> Ok []
                      | Some crl_path \<Rightarrow>
                          (case tl_crl_from_pem_file lib crl_path of Err e \<Rightarrow> Err (CrlUnreadable crl_path e) | Ok crl \<Rightarrow> Ok [crl])) of
                  Err e \<Rightarrow> Err e
                | Ok crl \<Rightarrow>
                    (case load_client_cas lib cs of
                       Err e \<Rightarrow> Err e
                     | Ok (roots, crls) \<Rightarrow> Ok (ca_certs @ roots, crl @ crls)))))"

definition with_auth :: "AuthenticationMethod \<Rightarrow> bool" where
  "with_auth m = (m = ClientCert \<or> m = OptionalClientCert)"

definition tls_config ::
  "'sk TlsLib \<Rightarrow> string \<Rightarrow> ClientCertConfig list option \<Rightarrow> AuthenticationMethod \<Rightarrow> (RustlsServerConfig, TlsError) result" where
  "tls_config lib server_name client_ca_configs authentication_method =
     (let finish = (\<lambda>v. Ok \<lparr> rc_client_verifier = v, rc_resolver = server_name, rc_session_cache = 1024,
                             rc_alpn = [''h3'', ''h2'', ''http/1.1''] \<rparr>)
      in if with_auth authentication_method then
           (case client_ca_configs of
              None \<Rightarrow> Err NoClientCerts
            | Some client_certs \<Rightarrow>
                (case load_client_cas lib client_certs of
                   Err e \<Rightarrow> Err e
                 | Ok (roots, crls) \<Rightarrow>
                     (let verifier = \<lparr> cv_roots = roots, cv_crls = crls,
                                       cv_allow_unauthenticated = (authentication_method = OptionalClientCert) \<rparr>
                      in case tl_build_verifier lib verifier of
                           Err e \<Rightarrow> Err (VerifierRefused e)
                         | Ok _ \<Rightarrow> finish (Some verifier))))
         else finish None)"

text \<open>\<open>static_name\<close> is set by \<open>finalize\<close>; the \<open>expect\<close> on it is a panic otherwise (\<open>None\<close>).\<close>

definition build_rustls_config :: "'sk TlsLib \<Rightarrow> ('c, 'r) ServerConfig \<Rightarrow> (RustlsServerConfig, TlsError) result option" where
  "build_rustls_config lib config =
     (case srv_server_certs config of
        None \<Rightarrow> Some (Err NoServerCerts)
      | Some server_certs \<Rightarrow>
          (if with_auth (srv_authentication config) \<and> srv_client_certs config = None then Some (Err NoClientCerts)
           else (case srv_static_name config of
                   None \<Rightarrow> None
                 | Some name \<Rightarrow>
                     Some (tls_config lib name (if with_auth (srv_authentication config) then srv_client_certs config else None)
                             (srv_authentication config)))))"

definition warn_if_crl_expired :: "'sk TlsLib \<Rightarrow> int \<Rightarrow> der \<Rightarrow> bool" where
  "warn_if_crl_expired lib now_ts crl_der =
     (case tl_parse_crl lib crl_der of
        None \<Rightarrow> False
      | Some None \<Rightarrow> False
      | Some (Some next_update) \<Rightarrow> \<not> next_update < now_ts)"

section \<open>The root configuration\<close>

record ('c, 'r) Config =
  config_includes :: "string list"
  config_servers :: "('c, 'r) ServerConfig list"
  config_pki_base_oid :: "string option"
  config_parsed_pki_base_oid :: "u64 list option"

definition resolve_certificate :: "('c, 'r) Config \<Rightarrow> string \<Rightarrow> 'c option" where
  "resolve_certificate config server_name =
     Option.bind (List.find (\<lambda>s. srv_static_name s = Some server_name) (config_servers config)) srv_certified_key"

record ('c, 'r) LoadLib =
  ll_read_to_string :: "string \<Rightarrow> (string, string) result"
  ll_from_str :: "string \<Rightarrow> (('c, 'r) Config, string) result"
  ll_value_from_str :: "string \<Rightarrow> (unit, string) result"
  ll_glob :: "string \<Rightarrow> ((string, string) result list, string) result"

datatype LoadError =
    ReadFailed string string
  | ParseFailed string
  | BadGlob string
  | BadOid string
  | ServerInvalid ConfigError

text \<open>\<open>Path::parent\<close> on the reversed text: separators at the end and components \<open>.\<close> do not count.\<close>

fun rtrim_path :: "string \<Rightarrow> string" where
  "rtrim_path [] = []"
| "rtrim_path [c] = [c]"
| "rtrim_path (c # d # t) =
     (if c = CHR ''/'' \<or> c = CHR ''.'' \<and> d = CHR ''/'' then rtrim_path (d # t) else c # d # t)"

definition path_parent :: "string \<Rightarrow> string option" where
  "path_parent s =
     (let r = rtrim_path (rev s)
      in if r = [] \<or> r = ''/'' then None else Some (rev (rtrim_path (dropWhile (\<lambda>c. c \<noteq> CHR ''/'') r))))"

definition path_join :: "string \<Rightarrow> string \<Rightarrow> string" where
  "path_join base p = (if base = [] \<or> last base = CHR ''/'' then base @ p else base @ ''/'' @ p)"

definition include_pattern :: "string \<Rightarrow> string \<Rightarrow> string" where
  "include_pattern config_file pattern =
     (if starts_with ''/'' pattern then pattern else path_join (unwrap_or [] (path_parent config_file)) pattern)"

fun include_paths :: "('c, 'r) LoadLib \<Rightarrow> (string, string) result list \<Rightarrow> (('c, 'r) ServerConfig list, LoadError) result" where
  "include_paths lib [] = Ok []"
| "include_paths lib (Err e # ps) = include_paths lib ps"
| "include_paths lib (Ok path # ps) =
     (case ll_read_to_string lib path of
        Err e \<Rightarrow> Err (ReadFailed path e)
      | Ok toml \<Rightarrow>
          (case ll_value_from_str lib toml of
             Err e \<Rightarrow> Err (ParseFailed e)
           | Ok _ \<Rightarrow>
               (case ll_from_str lib toml of
                  Err e \<Rightarrow> Err (ParseFailed e)
                | Ok fragment \<Rightarrow>
                    (case include_paths lib ps of Err e \<Rightarrow> Err e | Ok servers \<Rightarrow> Ok (config_servers fragment @ servers)))))"

fun process_includes :: "('c, 'r) LoadLib \<Rightarrow> string \<Rightarrow> string list \<Rightarrow> (('c, 'r) ServerConfig list, LoadError) result" where
  "process_includes lib config_file [] = Ok []"
| "process_includes lib config_file (pattern # patterns) =
     (case ll_glob lib (include_pattern config_file pattern) of
        Err e \<Rightarrow> Err (BadGlob e)
      | Ok paths \<Rightarrow>
          (case include_paths lib paths of
             Err e \<Rightarrow> Err e
           | Ok servers \<Rightarrow>
               (case process_includes lib config_file patterns of Err e \<Rightarrow> Err e | Ok more_servers \<Rightarrow> Ok (servers @ more_servers))))"

fun parse_arcs :: "string list \<Rightarrow> (u64 list, LoadError) result" where
  "parse_arcs [] = Ok []"
| "parse_arcs (s # ss) =
     (case parse_unsigned (2 ^ 64) s of
        None \<Rightarrow> Err (BadOid s)
      | Some n \<Rightarrow> (case parse_arcs ss of Err e \<Rightarrow> Err e | Ok arcs \<Rightarrow> Ok (of_nat n # arcs)))"

definition parse_base_oid :: "string option \<Rightarrow> u64 list option \<Rightarrow> (u64 list option, LoadError) result" where
  "parse_base_oid pki_base_oid parsed =
     (case pki_base_oid of
        None \<Rightarrow> Ok parsed
      | Some oid_str \<Rightarrow> (case parse_arcs (split_on CHR ''.'' oid_str) of Err e \<Rightarrow> Err e | Ok arcs \<Rightarrow> Ok (Some arcs)))"

fun finalize_all :: "('c, 'd, 'e, 'r) ConfigEnv \<Rightarrow> ('c, 'r) ServerConfig list \<Rightarrow> (('c, 'r) ServerConfig list, LoadError) result" where
  "finalize_all cenv [] = Ok []"
| "finalize_all cenv (s # ss) =
     (case finalize cenv s of
        Err e \<Rightarrow> Err (ServerInvalid e)
      | Ok s' \<Rightarrow> (case finalize_all cenv ss of Err e \<Rightarrow> Err e | Ok ss' \<Rightarrow> Ok (s' # ss')))"

definition Config_load :: "('c, 'r) LoadLib \<Rightarrow> ('c, 'd, 'e, 'r) ConfigEnv \<Rightarrow> string \<Rightarrow> (('c, 'r) Config, LoadError) result" where
  "Config_load lib cenv config_file =
     (case ll_read_to_string lib config_file of
        Err e \<Rightarrow> Err (ReadFailed config_file e)
      | Ok toml_str \<Rightarrow>
          (case ll_from_str lib toml_str of
             Err e \<Rightarrow> Err (ParseFailed e)
           | Ok config \<Rightarrow>
               (case process_includes lib config_file (config_includes config) of
                  Err e \<Rightarrow> Err e
                | Ok included \<Rightarrow>
                    (case parse_base_oid (config_pki_base_oid config) (config_parsed_pki_base_oid config) of
                       Err e \<Rightarrow> Err e
                     | Ok arcs \<Rightarrow>
                         (case finalize_all cenv (config_servers config @ included) of
                            Err e \<Rightarrow> Err e
                          | Ok servers \<Rightarrow> Ok (config\<lparr> config_servers := servers, config_parsed_pki_base_oid := arcs \<rparr>))))))"

subsection \<open>The address of a listener\<close>

text \<open>\<open>SocketAddr::from_str\<close>: an IPv4 address, or an IPv6 address in brackets with an optional scope, and a port.\<close>

definition read_port :: "string \<Rightarrow> (u16 \<times> string) option" where
  "read_port s =
     (case read_given_char CHR '':'' s of
        None \<Rightarrow> None
      | Some t \<Rightarrow> map_option (\<lambda>(n, rest). (of_nat n, rest)) (read_number 10 (length t) True 65536 t))"

definition read_scope :: "string \<Rightarrow> u32 \<times> string" where
  "read_scope s =
     (case read_given_char CHR ''%'' s of
        None \<Rightarrow> (0, s)
      | Some t \<Rightarrow> (case read_number 10 (length t) True (2 ^ 32) t of None \<Rightarrow> (0, s) | Some (n, rest) \<Rightarrow> (of_nat n, rest)))"

definition parse_socket_addr :: "string \<Rightarrow> SocketAddr option" where
  "parse_socket_addr s =
     (case Option.bind (read_ipv4_addr s) (\<lambda>(a, r). map_option (\<lambda>(p, r'). (SocketV4 a p, r')) (read_port r)) of
        Some (addr, rest) \<Rightarrow> (if rest = [] then Some addr else None)
      | None \<Rightarrow>
          (case Option.bind (read_given_char CHR ''['' s) (\<lambda>t. Option.bind (read_ipv6_addr t) (\<lambda>(a, r).
                  (case read_scope r of (scope, r1) \<Rightarrow>
                     Option.bind (read_given_char CHR '']'' r1) (\<lambda>r2. map_option (\<lambda>(p, r3). (SocketV6 a p 0 scope, r3)) (read_port r2))))) of
             Some (addr, rest) \<Rightarrow> (if rest = [] then Some addr else None)
           | None \<Rightarrow> None))"

datatype BindError = IpMissing | PortMissing | NoLocalIp | InvalidAddress string

definition get_server_ip :: "IpAddr option \<Rightarrow> ('c, 'r) ServerConfig \<Rightarrow> (SocketAddr, BindError) result" where
  "get_server_ip local_ip config =
     (case srv_ip config of
        None \<Rightarrow> Err IpMissing
      | Some ip \<Rightarrow>
          (case srv_port config of
             None \<Rightarrow> Err PortMissing
           | Some port \<Rightarrow>
               (case (if ip = ''local'' then map_option ip_to_string local_ip else Some ip) of
                  None \<Rightarrow> Err NoLocalIp
                | Some ip_str \<Rightarrow>
                    (let text = ip_str @ '':'' @ show_nat (unat port)
                     in case parse_socket_addr text of None \<Rightarrow> Err (InvalidAddress text) | Some addr \<Rightarrow> Ok addr))))"

section \<open>The identity in a client certificate\<close>

text \<open>The iterator after the base: \<open>None\<close> if it differs.\<close>

fun after_base :: "u64 list \<Rightarrow> u64 list \<Rightarrow> u64 list option" where
  "after_base [] oid_iter = Some oid_iter"
| "after_base (base_part # base) [] = None"
| "after_base (base_part # base) (cert_part # oid_iter) = (if cert_part \<noteq> base_part then None else after_base base oid_iter)"

definition dotted :: "u64 list \<Rightarrow> string" where
  "dotted arcs = join_with ''.'' (map (\<lambda>u. show_nat (unat u)) arcs)"

definition extension_suffix :: "u64 list \<Rightarrow> X509Extension \<Rightarrow> string option" where
  "extension_suffix base ext =
     (case xe_oid ext of
        None \<Rightarrow> None
      | Some oid_iter \<Rightarrow>
          (case after_base base oid_iter of
             None \<Rightarrow> None
           | Some suffix_parts \<Rightarrow> (if suffix_parts = [] then None else Some (dotted suffix_parts))))"

definition extract_oids_from_cert :: "'sk TlsLib \<Rightarrow> ('c, 'r) Config option \<Rightarrow> der \<Rightarrow> string list" where
  "extract_oids_from_cert lib global cert_der =
     (case global of
        None \<Rightarrow> []
      | Some config \<Rightarrow>
          (case config_parsed_pki_base_oid config of
             None \<Rightarrow> []
           | Some base \<Rightarrow>
               (if base = [] then []
                else (case tl_parse_cert lib cert_der of
                        None \<Rightarrow> []
                      | Some exts \<Rightarrow> List.map_filter (extension_suffix base) exts))))"

fun first_dns_name :: "GeneralName list \<Rightarrow> string option" where
  "first_dns_name [] = None"
| "first_dns_name (DNSName domain # names) = Some domain"
| "first_dns_name (OtherName # names) = first_dns_name names"

definition san_step :: "string option \<Rightarrow> X509Extension \<Rightarrow> string option" where
  "san_step san_dns ext =
     (case xe_san ext of
        None \<Rightarrow> san_dns
      | Some names \<Rightarrow> (case first_dns_name names of None \<Rightarrow> san_dns | Some domain \<Rightarrow> Some domain))"

definition extract_cert_san_and_pem :: "'sk TlsLib \<Rightarrow> der \<Rightarrow> string option \<times> string option" where
  "extract_cert_san_and_pem lib cert_der =
     (Some (tl_pem_encode lib cert_der),
      case tl_parse_cert lib cert_der of None \<Rightarrow> None | Some exts \<Rightarrow> foldl san_step None exts)"

record ClientIdentityMetadata =
  cim_oids :: "string list"
  cim_pem :: "string option"
  cim_san :: "string option"

definition extract_client_metadata :: "'sk TlsLib \<Rightarrow> ('c, 'r) Config option \<Rightarrow> der list option \<Rightarrow> ClientIdentityMetadata" where
  "extract_client_metadata lib global certs =
     (case certs of
        Some (leaf # chain) \<Rightarrow>
          (case extract_cert_san_and_pem lib leaf of
             (pem, san) \<Rightarrow> \<lparr> cim_oids = extract_oids_from_cert lib global leaf, cim_pem = pem, cim_san = san \<rparr>)
      | _ \<Rightarrow> \<lparr> cim_oids = [], cim_pem = None, cim_san = None \<rparr>)"

text \<open>The handler of a TLS connection, made from the certificates the handshake verified.\<close>

definition tls_connection_handler ::
  "'sk TlsLib \<Rightarrow> ('c, 'r) Config option \<Rightarrow> SocketAddr \<Rightarrow> der list option \<Rightarrow> (string \<times> UserRole) list \<Rightarrow> ConnectionHandler" where
  "tls_connection_handler lib global peer_addr peer_certificates oid_mapping =
     (let client_meta = extract_client_metadata lib global peer_certificates
      in connection_handler_new peer_addr (cim_oids client_meta) (cim_pem client_meta) (cim_san client_meta) oid_mapping)"

section \<open>Object identifiers as text\<close>

lemma dec_value_append: "dec_value acc (s @ t) = Option.bind (dec_value acc s) (\<lambda>a. dec_value a t)"
  by (induction s arbitrary: acc) auto

lemma digit_facts:
  assumes "d < 10"
  shows "is_ascii_digit (digit_char d)" "byte_of (digit_char d) - 48 = d" "digit_char d \<noteq> CHR ''+''" "digit_char d \<noteq> CHR ''.''"
  using assms by (auto simp: is_ascii_digit_def char_of_eq_iff take_bit_eq_mod)

lemma dec_value_show: "dec_value 0 (show_nat n) = Some n"
  unfolding show_nat_def
proof (induction "10 :: nat" n rule: show_radix.induct)
  case (1 n)
  show ?case
  proof (cases "n < 10")
    case True
    then show ?thesis using digit_facts [of n] by (simp add: show_radix.simps [of 10 n] del: digit_char.simps)
  next
    case False
    then show ?thesis
      using 1 digit_facts [of "n mod 10"] by (simp add: show_radix.simps [of 10 n] dec_value_append del: digit_char.simps)
  qed
qed

lemma show_nat_chars: "c \<in> set (show_nat n) \<Longrightarrow> c \<noteq> CHR ''+'' \<and> c \<noteq> CHR ''.''" "show_nat n \<noteq> []"
proof -
  show "c \<in> set (show_nat n) \<Longrightarrow> c \<noteq> CHR ''+'' \<and> c \<noteq> CHR ''.''"
    unfolding show_nat_def
  proof (induction "10 :: nat" n rule: show_radix.induct)
    case (1 n)
    then show ?case
      using digit_facts [of n] digit_facts [of "n mod 10"]
      by (cases "n < 10") (auto simp: show_radix.simps [of 10 n] simp del: digit_char.simps)
  qed
  show "show_nat n \<noteq> []" by (simp add: show_nat_def show_radix.simps [of 10 n])
qed

lemma parse_show: "n < b \<Longrightarrow> parse_unsigned b (show_nat n) = Some n"
  using show_nat_chars(1) [of _ n] show_nat_chars(2) [of n] dec_value_show [of n]
  by (cases "show_nat n") (auto simp: parse_unsigned_def Let_def)

lemma split_dotted: "arcs \<noteq> [] \<Longrightarrow> split_on CHR ''.'' (dotted arcs) = map (\<lambda>u. show_nat (unat u)) arcs"
proof (induction arcs rule: induct_list012)
  case (2 u)
  have "CHR ''.'' \<notin> set (show_nat (unat u))" using show_nat_chars(1) by blast
  then show ?case by (simp add: dotted_def split_on_id)
next
  case (3 u v arcs)
  have "CHR ''.'' \<notin> set (show_nat (unat u))" using show_nat_chars(1) by blast
  then show ?case using 3(2) by (simp add: dotted_def split_on_append)
qed simp

lemma parse_arcs_show: "parse_arcs (map (\<lambda>u. show_nat (unat u)) arcs) = Ok arcs"
proof (induction arcs)
  case (Cons u arcs)
  have "unat u < 2 ^ LENGTH(64)" by (rule unsigned_less)
  then have "unat u < 2 ^ 64" by simp
  then show ?case using Cons by (simp add: parse_show)
qed simp

text \<open>The dotted text of an identifier reads back as the identifier: what the configuration names and what the
  certificate code prints are the same identifiers, and two different suffixes never have the same text.\<close>

theorem oid_text_roundtrip:
  assumes "arcs \<noteq> []"
  shows "parse_base_oid (Some (dotted arcs)) old = Ok (Some arcs)
    \<and> (\<forall>arcs'. arcs' \<noteq> [] \<longrightarrow> dotted arcs' = dotted arcs \<longrightarrow> arcs' = arcs)"
proof -
  have p: "parse_arcs (split_on CHR ''.'' (dotted a)) = Ok a" if "a \<noteq> []" for a
    by (simp only: split_dotted [OF that] parse_arcs_show)
  have "arcs' = arcs" if "arcs' \<noteq> []" "dotted arcs' = dotted arcs" for arcs'
    using trans [OF p [OF that(1), unfolded that(2), symmetric] p [OF assms]] by (simp only: result.inject)
  then show ?thesis using p [OF assms] by (simp add: parse_base_oid_def)
qed

section \<open>Roles of a certificate\<close>

lemma after_base_Some: "after_base base oid = Some rest \<longleftrightarrow> oid = base @ rest"
  by (induction base oid rule: after_base.induct) auto

lemma oid_roles_member:
  "role \<noteq> guest \<Longrightarrow> role \<in> set (oid_roles mapping oids) \<longleftrightarrow> (\<exists>oid \<in> set oids. map_of mapping oid = Some role)"
proof -
  assume r: "role \<noteq> guest"
  let ?f = "\<lambda>oid. case map_of mapping oid of Some role \<Rightarrow> role | None \<Rightarrow> guest"
  have "role \<in> set (oid_roles mapping oids) \<longleftrightarrow> role \<in> ?f ` set oids" using r by (auto simp: oid_roles_def Let_def filter_empty_conv)
  also have "\<dots> \<longleftrightarrow> (\<exists>oid \<in> set oids. ?f oid = role)" by auto
  also have "\<dots> \<longleftrightarrow> (\<exists>oid \<in> set oids. map_of mapping oid = Some role)" using r by (auto split: option.splits)
  finally show ?thesis .
qed

lemma extension_suffix_Some:
  "extension_suffix base ext = Some suffix \<longleftrightarrow> (\<exists>rest. xe_oid ext = Some (base @ rest) \<and> rest \<noteq> [] \<and> suffix = dotted rest)"
proof (cases "xe_oid ext")
  case (Some oid)
  show ?thesis
  proof (cases "after_base base oid")
    case None
    then have "\<nexists>rest. oid = base @ rest" by (simp flip: after_base_Some)
    then show ?thesis using Some None by (simp add: extension_suffix_def)
  next
    case (Some rest)
    then have "oid = base @ rest" by (simp add: after_base_Some)
    then show ?thesis using Some \<open>xe_oid ext = Some oid\<close> by (auto simp: extension_suffix_def)
  qed
qed (simp add: extension_suffix_def)

lemma map_filter_member: "y \<in> set (List.map_filter f xs) \<longleftrightarrow> (\<exists>x \<in> set xs. f x = Some y)"
  by (induction xs) (auto simp: List.map_filter_simps split: option.splits)

lemma suffixes_member:
  "suffix \<in> set (List.map_filter (extension_suffix base) exts)
    \<longleftrightarrow> (\<exists>ext \<in> set exts. \<exists>rest. xe_oid ext = Some (base @ rest) \<and> rest \<noteq> [] \<and> suffix = dotted rest)"
  unfolding map_filter_member extension_suffix_Some ..

text \<open>C3: The roles of a connection come from the client's own certificate only: a role other than the guest role is given exactly
  when the first certificate of the chain has an extension below the configured base whose suffix is mapped to the
  role. Whatever else the client sends in the chain does not matter; without a certificate there is only the
  guest role.\<close>

theorem certificate_roles_exact:
  assumes "config_parsed_pki_base_oid config = Some base" and "base \<noteq> []" and "tl_parse_cert lib leaf = Some exts"
    and "role \<noteq> guest"
  shows "(role \<in> set (ch_client_roles (tls_connection_handler lib (Some config) addr (Some (leaf # chain)) mapping)) \<longleftrightarrow>
      (\<exists>ext \<in> set exts. \<exists>rest. xe_oid ext = Some (base @ rest) \<and> rest \<noteq> [] \<and> map_of mapping (dotted rest) = Some role))
    \<and> tls_connection_handler lib (Some config) addr (Some (leaf # chain)) mapping
        = tls_connection_handler lib (Some config) addr (Some [leaf]) mapping
    \<and> ch_client_roles (tls_connection_handler lib (Some config) addr None mapping) = [guest]
    \<and> ch_client_roles (tls_connection_handler lib (Some config) addr (Some []) mapping) = [guest]"
proof -
  have o: "extract_oids_from_cert lib (Some config) leaf = List.map_filter (extension_suffix base) exts"
    using assms(1-3) by (simp add: extract_oids_from_cert_def)
  have leaf: "ch_client_roles (tls_connection_handler lib (Some config) addr (Some (leaf # c)) mapping)
      = oid_roles mapping (List.map_filter (extension_suffix base) exts)" for c
    by (simp add: tls_connection_handler_def connection_handler_new_def extract_client_metadata_def case_prod_beta Let_def o)
  have "role \<in> set (ch_client_roles (tls_connection_handler lib (Some config) addr (Some (leaf # chain)) mapping)) \<longleftrightarrow>
      (\<exists>suffix. (\<exists>ext \<in> set exts. \<exists>rest. xe_oid ext = Some (base @ rest) \<and> rest \<noteq> [] \<and> suffix = dotted rest)
        \<and> map_of mapping suffix = Some role)"
    unfolding leaf oid_roles_member [OF assms(4)] Bex_def suffixes_member ..
  moreover have "tls_connection_handler lib (Some config) addr (Some (leaf # chain)) mapping
      = tls_connection_handler lib (Some config) addr (Some [leaf]) mapping"
    "ch_client_roles (tls_connection_handler lib (Some config) addr None mapping) = [guest]"
    "ch_client_roles (tls_connection_handler lib (Some config) addr (Some []) mapping) = [guest]"
    by (simp_all add: tls_connection_handler_def connection_handler_new_def extract_client_metadata_def oid_roles_def)
  ultimately show ?thesis by blast
qed

section \<open>Trust\<close>

lemma add_roots_Ok: "add_roots lib cas = Ok () \<longleftrightarrow> (\<forall>ca \<in> set cas. tl_add_root lib ca = Ok ())"
  by (induction cas) (auto split: result.splits)

lemma load_client_cas_Ok:
  "load_client_cas lib cs = Ok (roots, crls) \<Longrightarrow>
    (\<forall>c \<in> set cs. \<exists>cas. load_certs lib (ssl_client_ca c) = Ok cas \<and> cas \<noteq> [])
    \<and> set roots = (\<Union>c \<in> set cs. case load_certs lib (ssl_client_ca c) of Ok cas \<Rightarrow> set cas | Err _ \<Rightarrow> {})
    \<and> (\<forall>c \<in> set cs. \<forall>p. ssl_client_crl c = Some p \<longrightarrow> (\<exists>crl \<in> set crls. tl_crl_from_pem_file lib p = Ok crl))"
proof (induction cs arbitrary: roots crls)
  case (Cons c cs)
  then obtain cas crl roots' crls' where c: "load_certs lib (ssl_client_ca c) = Ok cas"
    "(case ssl_client_crl c of None \<Rightarrow> Ok []
      | Some crl_path \<Rightarrow> (case tl_crl_from_pem_file lib crl_path of Err e \<Rightarrow> Err (CrlUnreadable crl_path e) | Ok crl \<Rightarrow> Ok [crl])) = Ok crl"
    "load_client_cas lib cs = Ok (roots', crls')" "roots = cas @ roots'" "crls = crl @ crls'"
    by (auto split: result.splits option.splits)
  have "cas \<noteq> []" using c(1) by (auto simp: load_certs_def split: result.splits if_splits)
  moreover have "\<exists>x \<in> set crl. tl_crl_from_pem_file lib p = Ok x" if "ssl_client_crl c = Some p" for p
    using c(2) that by (auto split: result.splits)
  ultimately show ?case using Cons.IH [OF c(3)] c(1,4,5) by (simp add: bex_Un)
qed simp

text \<open>The TLS settings of a listener ask for a client certificate exactly when the configured authentication does, tolerate
  its absence exactly for the optional method, trust no root but those in the configured files, of which every one
  is present, and check every configured revocation list. If a file is missing or empty there is no listener.\<close>

theorem tls_config_exact:
  assumes "build_rustls_config lib config = Some (Ok tls)"
  shows "case rc_client_verifier tls of
      None \<Rightarrow> srv_authentication config \<notin> {ClientCert, OptionalClientCert}
    | Some v \<Rightarrow> (\<exists>cs. srv_client_certs config = Some cs
        \<and> cv_allow_unauthenticated v = (srv_authentication config = OptionalClientCert)
        \<and> srv_authentication config \<in> {ClientCert, OptionalClientCert}
        \<and> set (cv_roots v) = (\<Union>c \<in> set cs. case load_certs lib (ssl_client_ca c) of Ok cas \<Rightarrow> set cas | Err _ \<Rightarrow> {})
        \<and> (\<forall>c \<in> set cs. \<exists>ca \<in> set (cv_roots v). \<exists>cas. load_certs lib (ssl_client_ca c) = Ok cas \<and> ca \<in> set cas)
        \<and> (\<forall>c \<in> set cs. \<forall>p. ssl_client_crl c = Some p \<longrightarrow> (\<exists>crl \<in> set (cv_crls v). tl_crl_from_pem_file lib p = Ok crl)))"
proof (cases "with_auth (srv_authentication config)")
  case False
  then show ?thesis using assms
    by (auto simp: build_rustls_config_def tls_config_def Let_def with_auth_def split: option.splits)
next
  case True
  then obtain cs roots crls where cs: "srv_client_certs config = Some cs" "load_client_cas lib cs = Ok (roots, crls)"
    "rc_client_verifier tls = Some \<lparr> cv_roots = roots, cv_crls = crls, cv_allow_unauthenticated = (srv_authentication config = OptionalClientCert) \<rparr>"
    using assms by (auto simp: build_rustls_config_def tls_config_def Let_def split: option.splits result.splits if_splits)
  note l = load_client_cas_Ok [OF cs(2)]
  have "\<exists>ca \<in> set roots. \<exists>cas. load_certs lib (ssl_client_ca c) = Ok cas \<and> ca \<in> set cas" if c: "c \<in> set cs" for c
  proof -
    obtain cas where cas: "load_certs lib (ssl_client_ca c) = Ok cas" "cas \<noteq> []" using l c by blast
    then obtain ca where "ca \<in> set cas" by (cases cas) auto
    moreover have "ca \<in> set roots" using l c cas calculation by force
    ultimately show ?thesis using cas by blast
  qed
  then show ?thesis using cs l True by (simp add: with_auth_def)
qed

text \<open>With a CA file configured, the trust of an outgoing connection is confined to that file.\<close>

theorem private_ca_isolated:
  assumes "build_root_store lib (Some path) = Ok roots" and "ca \<in> set roots"
  shows "\<exists>certs. load_certs lib path = Ok certs \<and> ca \<in> set certs"
  using assms by (auto simp: build_root_store_def split: result.splits)

section \<open>Loading\<close>

lemma finalize_all_Ok: "finalize_all cenv ss = Ok ss' \<Longrightarrow> list_all2 (\<lambda>s s'. finalize cenv s = Ok s') ss ss'"
  by (induction ss arbitrary: ss') (auto simp: list_all2_Cons1 split: result.splits)

text \<open>A configuration that loads consists of the servers of the file followed by those of the included files, each of them
  validated; everything else comes from the file itself, whatever an included file says.\<close>

theorem config_load_sound:
  assumes "Config_load lib cenv path = Ok config"
  shows "\<exists>toml raw included. ll_read_to_string lib path = Ok toml \<and> ll_from_str lib toml = Ok raw
    \<and> process_includes lib path (config_includes raw) = Ok included
    \<and> list_all2 (\<lambda>s s'. finalize cenv s = Ok s') (config_servers raw @ included) (config_servers config)
    \<and> parse_base_oid (config_pki_base_oid raw) (config_parsed_pki_base_oid raw) = Ok (config_parsed_pki_base_oid config)
    \<and> config_pki_base_oid config = config_pki_base_oid raw \<and> config_includes config = config_includes raw"
  using assms by (auto simp: Config_load_def split: result.splits dest: finalize_all_Ok)

section \<open>Addresses\<close>

text \<open>An IPv4 address in the configuration is the address the listener binds.\<close>


lemma read_digits_value:
  "dec_value acc s = Some v \<Longrightarrow> k + length s \<le> m \<Longrightarrow> read_digits 10 m k acc s = Some (v, k + length s, [])"
proof (induction s arbitrary: acc k)
  case (Cons c s)
  then have "to_digit 10 c = Some (byte_of c - 48)" by (auto simp: to_digit_def Let_def is_ascii_digit_def split: if_splits)
  then show ?case using Cons by (auto simp: mult.commute split: if_splits)
qed simp

lemma read_port_show: "read_port (CHR '':'' # show_nat (unat port)) = Some (port, [])"
proof -
  have "unat port < 2 ^ LENGTH(16)" by (rule unsigned_less)
  then have "unat port < 65536" by simp
  then show ?thesis
    using read_digits_value [OF dec_value_show, of 0 "unat port" "length (show_nat (unat port))"] show_nat_chars(2) [of "unat port"]
    by (simp add: read_port_def read_given_char_def read_number_def)
qed

lemma read_ipv4_port: "read_ipv4_addr (ipv4_to_string a @ CHR '':'' # s) = Some (a, CHR '':'' # s)"
proof -
  have "no_digit_first (CHR '':'' # s)" by (simp add: no_digit_first_def to_digit_def)
  then have d: "read_number 10 3 False 256 (show_nat (octet 3 a) @ CHR '':'' # s) = Some (octet 3 a, CHR '':'' # s)"
    by (rule read_show_octet [OF octet_bound])
  have four: "(4 :: nat) = Suc (Suc (Suc (Suc 0)))" by simp
  have "read_octets 4 0 0 (ipv4_to_string a @ CHR '':'' # s) =
      Some (((of_nat (octet 0 a) * 256 + of_nat (octet 1 a)) * 256 + of_nat (octet 2 a)) * 256 + of_nat (octet 3 a), CHR '':'' # s)"
    unfolding four ipv4_to_string_def
    by (simp add: read_separator_def read_given_char_def read_show_octet octet_bound d)
  then show ?thesis unfolding octets_word read_ipv4_addr_def .
qed

text \<open>A listener configured with the text of an IPv4 address binds that address and the configured port.\<close>

theorem bound_address_exact:
  assumes "srv_ip config = Some (ip_to_string (V4 a))" and "srv_port config = Some port" and "ip_to_string (V4 a) \<noteq> ''local''"
  shows "get_server_ip local_ip config = Ok (SocketV4 a port)"
  using assms read_ipv4_port [of a "show_nat (unat port)"] read_port_show [of port]
  by (simp add: get_server_ip_def parse_socket_addr_def Let_def)

section \<open>Instances\<close>

definition demo_tls_lib :: "string TlsLib" where
  "demo_tls_lib =
     \<lparr> tl_read = (\<lambda>p. if p = ''missing'' then Err ''not found'' else Ok (map (\<lambda>c. of_nat (of_char c)) p)),
       tl_pem_certs = (\<lambda>d. [Ok d]), tl_pem_items = (\<lambda>d. [Ok OtherItem, Ok (Pkcs8Key d)]), tl_load_private_key = (\<lambda>_. Ok ''key''),
       tl_crl_from_pem_file = (\<lambda>p. Ok []), tl_add_root = (\<lambda>_. Ok ()), tl_build_verifier = (\<lambda>_. Ok ()), tl_webpki_roots = [],
       tl_parsable = (\<lambda>_. True), tl_client_auth = (\<lambda>_ _. Ok ()), tl_parse_crl = (\<lambda>_. Some None),
       tl_parse_cert = (\<lambda>d. Some [\<lparr> xe_oid = Some (2 # 25 # map ucast d), xe_san = None \<rparr>, \<lparr> xe_oid = None, xe_san = Some [OtherName, DNSName ''a''] \<rparr>]),
       tl_pem_encode = (\<lambda>_. ''pem'') \<rparr>"

definition demo_config :: "(string, string) Config" where
  "demo_config = \<lparr> config_includes = [], config_servers = [], config_pki_base_oid = Some ''2.25'', config_parsed_pki_base_oid = Some [2, 25] \<rparr>"

theorem oid_text_roundtrip_witness: "parse_base_oid (Some (dotted [2, 25, 42])) None = Ok (Some [2, 25, 42])"
  using oid_text_roundtrip [of "[2, 25, 42]" None] by simp


theorem certificate_roles_exact_witness:
  "UserRole ''Admin'' \<in> set (ch_client_roles (tls_connection_handler demo_tls_lib (Some demo_config) (SocketV4 0 0) (Some [[42, 7], [1]])
     [(''42.7'', UserRole ''Admin'')]))"
proof -
  have "UserRole ''Admin'' \<noteq> guest" by (simp add: guest_def)
  have c: "config_parsed_pki_base_oid demo_config = Some [2, 25]" "[2, 25 :: u64] \<noteq> []" by (simp_all add: demo_config_def)
  have p: "tl_parse_cert demo_tls_lib [42, 7]
      = Some [\<lparr> xe_oid = Some [2, 25, 42, 7], xe_san = None \<rparr>, \<lparr> xe_oid = None, xe_san = Some [OtherName, DNSName ''a''] \<rparr>]"
    by code_simp
  have d: "dotted [42, 7] = ''42.7''" by code_simp
  show ?thesis
    by (rule certificate_roles_exact [OF c p \<open>UserRole ''Admin'' \<noteq> guest\<close>, THEN conjunct1, THEN iffD2]) (simp add: d)
qed

theorem tls_config_exact_witness:
  "\<exists>tls v. build_rustls_config demo_tls_lib ((demo_server HttpsProto OptionalClientCert)\<lparr> srv_static_name := Some ''edge'' \<rparr>) = Some (Ok tls)
     \<and> rc_client_verifier tls = Some v \<and> cv_allow_unauthenticated v"
proof -
  let ?cfg = "(demo_server HttpsProto OptionalClientCert)\<lparr> srv_static_name := Some ''edge'' \<rparr>"
  have "case build_rustls_config demo_tls_lib ?cfg of Some (Ok tls) \<Rightarrow> rc_client_verifier tls \<noteq> None | _ \<Rightarrow> False" by code_simp
  then obtain tls v where t: "build_rustls_config demo_tls_lib ?cfg = Some (Ok tls)" "rc_client_verifier tls = Some v"
    by (auto split: option.splits result.splits)
  have "srv_authentication ?cfg = OptionalClientCert" by (simp add: demo_server_def)
  then show ?thesis using tls_config_exact [OF t(1)] t by auto
qed

theorem private_ca_isolated_witness:
  "\<exists>certs. load_certs demo_tls_lib ''a'' = Ok certs \<and> [97] \<in> set certs"
  by (rule private_ca_isolated [of _ _ "[[97]]"]) code_simp+

definition demo_load_lib :: "(string, string) LoadLib" where
  "demo_load_lib =
     \<lparr> ll_read_to_string = (\<lambda>p. Ok p),
       ll_from_str = (\<lambda>s. Ok \<lparr> config_includes = (if s = ''/etc/p.toml'' then [''conf.d''] else []), config_servers = [demo_server HttpProto NoAuthentication],
          config_pki_base_oid = (if s = ''/etc/p.toml'' then None else Some ''1.3''), config_parsed_pki_base_oid = None \<rparr>),
       ll_value_from_str = (\<lambda>_. Ok ()), ll_glob = (\<lambda>p. Ok [Ok p]) \<rparr>"

theorem config_load_sound_witness:
  "\<exists>config. Config_load demo_load_lib demo_env ''/etc/p.toml'' = Ok config \<and> length (config_servers config) = 2
     \<and> config_pki_base_oid config = None"
proof -
  have "case Config_load demo_load_lib demo_env ''/etc/p.toml'' of Ok config \<Rightarrow> True | Err e \<Rightarrow> False" by code_simp
  then obtain config where c: "Config_load demo_load_lib demo_env ''/etc/p.toml'' = Ok config" by (auto split: result.splits)
  have i: "process_includes demo_load_lib ''/etc/p.toml'' [''conf.d''] = Ok [demo_server HttpProto NoAuthentication]" by code_simp
  from config_load_sound [OF c] show ?thesis using c i
    by (auto simp: demo_load_lib_def dest: list_all2_lengthD)
qed

theorem bound_address_exact_witness:
  "get_server_ip None (demo_server HttpsProto Jwt) = Ok (SocketV4 0 443)"
proof -
  have "ip_to_string (V4 0) = ''0.0.0.0''" by code_simp
  then show ?thesis using bound_address_exact [of "demo_server HttpsProto Jwt" 0 443 None] by (simp add: demo_server_def)
qed

text \<open>An IPv6 address is not put into brackets, so the listener of a server with the documented address \<open>::\<close> never starts.\<close>

theorem ipv6_listener_refused:
  "get_server_ip None ((demo_server HttpsProto Jwt)\<lparr> srv_ip := Some ''::'' \<rparr>) = Err (InvalidAddress '':::443'')"
proof -
  have n: "show_nat 443 = ''443''" by code_simp
  have "read_ipv4_addr '':::443'' = None"
    by (simp add: read_ipv4_addr_def numeral_eq_Suc read_separator_def read_number_def to_digit_def)
  then have "parse_socket_addr '':::443'' = None" by (simp add: parse_socket_addr_def read_given_char_def)
  then show ?thesis using n by (simp add: get_server_ip_def demo_server_def)
qed

text \<open>A tunnel speaks TLS whatever the protocol of its server says, but the certificate is loaded for the protocol
  \<open>https\<close> only: with the other one the configuration is accepted, the TLS settings are built and no handshake finds a certificate.\<close>

theorem tunnel_without_certificate:
  "case finalize demo_env ((demo_server HttpProto NoAuthentication)\<lparr> srv_tunnel := Some \<lparr> tun_target_url = ''relay'', tun_sni_domain = ''d'',
      tun_client_cert_path = ''c'', tun_client_key_path = ''k'', tun_ca_cert_path = ''a'', tun_max_yamux_streams = None, tun_proxy_protocol = True \<rparr> \<rparr>) of
     Err e \<Rightarrow> False
   | Ok config \<Rightarrow> (case build_rustls_config demo_tls_lib config of Some (Ok tls) \<Rightarrow>
       rc_resolver tls = ''edge'' \<and> resolve_certificate (demo_config\<lparr> config_servers := [config] \<rparr>) ''edge'' = None | _ \<Rightarrow> False)"
  by code_simp

end
