(* ===== verification/Hot_Reload.thy ===== *)
theory Hot_Reload
  imports Tls_Config "HOL-Library.Multiset"
begin

text \<open>
  The supervisor of the servers, \<open>main_async\<close> of \<open>server/src/server.rs\<close>: the start of the enabled servers, the reload of the configuration
  on SIGHUP with its dry run, and the shutdown.

  A server task has the configuration it was started with, the cell (\<open>ArcSwap\<close>) its listeners take the service of a new
  connection from, and its cancellation token. The supervisor shares cell and token with the task; it finds them under the name
  of the server, here as the number of the task. The order in which a hash map is iterated is a parameter.
\<close>

section \<open>State\<close>

record ('c, 'r, 's) ServerTask =
  task_config :: "('c, 'r) ServerConfig"
  task_stack :: 's
  task_cancelled :: bool

record ('c, 'r, 's) MainState =
  ms_global :: "('c, 'r) Config"
  ms_active :: "(string, nat \<times> ('c, 'r) ServerConfig) dashmap"
  ms_tasks :: "('c, 'r, 's) ServerTask list"

record ('c, 'key, 'e, 'r, 'ik, 'sk, 'b) ReloadEnv =
  hr_load :: "('c, 'r) LoadLib"
  hr_config :: "('c, 'key, 'e, 'r) ConfigEnv"
  hr_base :: "('c, 'key, 'r, 'ik, 'b) BaseLib"
  hr_tls :: "'sk TlsLib"

type_synonym ('c, 'r, 's) Built = "(string, ('c, 'r) ServerConfig \<times> 's) dashmap"

section \<open>Start\<close>

definition new_task :: "('c, 'r) ServerConfig \<Rightarrow> 's \<Rightarrow> ('c, 'r, 's) ServerTask" where
  "new_task config svc = \<lparr> task_config = config, task_stack = svc, task_cancelled = False \<rparr>"

definition build_stack ::
  "('c, 'key, 'e, 'r, 'ik, 'sk, 'b) ReloadEnv \<Rightarrow> ('c, 'r) ServerConfig \<Rightarrow> (('key, 'r, 'b) service, StackError) result" where
  "build_stack env config = build_service_stack (hr_base env) (hr_config env) config"

fun start_servers ::
  "('c, 'key, 'e, 'r, 'ik, 'sk, 'b) ReloadEnv \<Rightarrow> ('c, 'r) ServerConfig list \<Rightarrow> ('c, 'r, ('key, 'r, 'b) service) MainState
     \<Rightarrow> ('c, 'r, ('key, 'r, 'b) service) MainState" where
  "start_servers env [] st = st"
| "start_servers env (s # ss) st =
     (if \<not> srv_enabled s then start_servers env ss st
      else (case build_stack env s of
              Err e \<Rightarrow> start_servers env ss st
            | Ok svc \<Rightarrow>
                start_servers env ss
                  (st\<lparr> ms_active := dm_insert (srv_name s) (length (ms_tasks st), s) (ms_active st),
                       ms_tasks := ms_tasks st @ [new_task s svc] \<rparr>)))"

section \<open>Reload\<close>

datatype ReloadError = TlsFailure TlsError | StackFailure StackError

definition tls_checked :: "'sk TlsLib \<Rightarrow> ('c, 'r) ServerConfig \<Rightarrow> (unit, TlsError) result option" where
  "tls_checked lib s =
     (if srv_protocol s = HttpsProto \<or> srv_tunnel s \<noteq> None
      then map_option (\<lambda>r. case r of Ok _ \<Rightarrow> Ok () | Err e \<Rightarrow> Err e) (build_rustls_config lib s)
      else Some (Ok ()))"

fun dry_run ::
  "('c, 'key, 'e, 'r, 'ik, 'sk, 'b) ReloadEnv \<Rightarrow> ('c, 'r) ServerConfig list \<Rightarrow> (string \<times> ReloadError) list \<Rightarrow> ('c, 'r, ('key, 'r, 'b) service) Built
     \<Rightarrow> ((string \<times> ReloadError) list \<times> ('c, 'r, ('key, 'r, 'b) service) Built) option" where
  "dry_run env [] reload_errors built = Some (reload_errors, built)"
| "dry_run env (s # ss) reload_errors built =
     (if \<not> srv_enabled s then dry_run env ss reload_errors built
      else (case tls_checked (hr_tls env) s of
              None \<Rightarrow> None
            | Some (Err e) \<Rightarrow> dry_run env ss (reload_errors @ [(srv_name s, TlsFailure e)]) built
            | Some (Ok _) \<Rightarrow>
                (case build_stack env s of
                   Ok svc \<Rightarrow> dry_run env ss reload_errors (dm_insert (srv_name s) (s, svc) built)
                 | Err e \<Rightarrow> dry_run env ss (reload_errors @ [(srv_name s, StackFailure e)]) built)))"

definition needs_restart :: "(nat \<times> ('c, 'r) ServerConfig) option \<Rightarrow> ('c, 'r) ServerConfig \<Rightarrow> bool" where
  "needs_restart old new_server =
     (case old of
        None \<Rightarrow> True
      | Some (_, old_server) \<Rightarrow>
          srv_ip old_server \<noteq> srv_ip new_server \<or> srv_port old_server \<noteq> srv_port new_server
          \<or> srv_protocol old_server \<noteq> srv_protocol new_server \<or> srv_tunnel old_server \<noteq> srv_tunnel new_server)"

type_synonym ('c, 'r, 's) Swap =
  "(string, nat \<times> ('c, 'r) ServerConfig) dashmap \<times> (string, nat \<times> ('c, 'r) ServerConfig) dashmap \<times> ('c, 'r, 's) ServerTask list"

definition apply_server :: "('c, 'r, 's) Swap \<Rightarrow> string \<times> ('c, 'r) ServerConfig \<times> 's \<Rightarrow> ('c, 'r, 's) Swap" where
  "apply_server = (\<lambda>(active, next_active, tasks) (name, new_server, service_stack).
     (case dm_get active name of
        Some (i, old_server) \<Rightarrow>
          (if needs_restart (Some (i, old_server)) new_server
           then (active, dm_insert name (length tasks, new_server) next_active, tasks @ [new_task new_server service_stack])
           else (dm_remove name active, dm_insert name (i, new_server) next_active, tasks[i := (tasks ! i)\<lparr> task_stack := service_stack \<rparr>]))
      | None \<Rightarrow> (active, dm_insert name (length tasks, new_server) next_active, tasks @ [new_task new_server service_stack])))"

definition cancel_all :: "(string, nat \<times> ('c, 'r) ServerConfig) dashmap \<Rightarrow> ('c, 'r, 's) ServerTask list \<Rightarrow> ('c, 'r, 's) ServerTask list" where
  "cancel_all active tasks = foldl (\<lambda>ts (_, i, _). ts[i := (ts ! i)\<lparr> task_cancelled := True \<rparr>]) tasks active"

definition apply_config ::
  "(('c, 'r, 's) Built \<Rightarrow> ('c, 'r, 's) Built) \<Rightarrow> ('c, 'r) Config \<Rightarrow> ('c, 'r, 's) Built \<Rightarrow> ('c, 'r, 's) MainState \<Rightarrow> ('c, 'r, 's) MainState" where
  "apply_config iter new_config built st =
     (case foldl apply_server (ms_active st, [], ms_tasks st) (iter built) of
        (active, next_active, tasks) \<Rightarrow> \<lparr> ms_global = new_config, ms_active = next_active, ms_tasks = cancel_all active tasks \<rparr>)"

definition handle_sighup ::
  "(('c, 'r, ('key, 'r, 'b) service) Built \<Rightarrow> ('c, 'r, ('key, 'r, 'b) service) Built) \<Rightarrow> ('c, 'key, 'e, 'r, 'ik, 'sk, 'b) ReloadEnv \<Rightarrow> string
     \<Rightarrow> ('c, 'r, ('key, 'r, 'b) service) MainState \<Rightarrow> ('c, 'r, ('key, 'r, 'b) service) MainState option" where
  "handle_sighup iter env config_path st =
     (case Config_load (hr_load env) (hr_config env) config_path of
        Err e \<Rightarrow> Some st
      | Ok new_config \<Rightarrow>
          (case dry_run env (config_servers new_config) [] [] of
             None \<Rightarrow> None
           | Some (reload_errors, built) \<Rightarrow>
               (if reload_errors \<noteq> [] then Some st else Some (apply_config iter new_config built st))))"

section \<open>The supervisor\<close>

definition main_start :: "('c, 'key, 'e, 'r, 'ik, 'sk, 'b) ReloadEnv \<Rightarrow> ('c, 'r) Config \<Rightarrow> ('c, 'r, ('key, 'r, 'b) service) MainState" where
  "main_start env config = start_servers env (config_servers config) \<lparr> ms_global = config, ms_active = [], ms_tasks = [] \<rparr>"

text \<open>The signals of a run, each SIGHUP with what the reload finds outside; \<open>None\<close> is a panic.\<close>

fun main_loop ::
  "string \<Rightarrow> ((('c, 'r, ('key, 'r, 'b) service) Built \<Rightarrow> ('c, 'r, ('key, 'r, 'b) service) Built) \<times> ('c, 'key, 'e, 'r, 'ik, 'sk, 'b) ReloadEnv) list
     \<Rightarrow> ('c, 'r, ('key, 'r, 'b) service) MainState \<Rightarrow> ('c, 'r, ('key, 'r, 'b) service) MainState option" where
  "main_loop config_path [] st = Some st"
| "main_loop config_path ((iter, env) # sighups) st =
     (case handle_sighup iter env config_path st of None \<Rightarrow> None | Some st' \<Rightarrow> main_loop config_path sighups st')"

definition shutdown :: "('c, 'r, 's) MainState \<Rightarrow> ('c, 'r, 's) MainState" where
  "shutdown st = st\<lparr> ms_tasks := cancel_all (ms_active st) (ms_tasks st) \<rparr>"

text \<open>Whether the token of every task is cancelled, for which the accept loop of a plain listener waits.\<close>

definition all_cancelled :: "('c, 'r, 's) MainState \<Rightarrow> bool" where
  "all_cancelled st = list_all task_cancelled (ms_tasks st)"

section \<open>Invariants\<close>

definition ids :: "(string, nat \<times> ('c, 'r) ServerConfig) dashmap \<Rightarrow> nat set" where
  "ids m = {i. \<exists>n c. dm_get m n = Some (i, c)}"

definition live :: "(string, nat \<times> ('c, 'r) ServerConfig) dashmap \<Rightarrow> ('c, 'r, 's) ServerTask list \<Rightarrow> bool" where
  "live m tasks \<longleftrightarrow> dm_wf m \<and> (\<forall>i \<in> ids m. i < length tasks \<and> \<not> task_cancelled (tasks ! i))
     \<and> (\<forall>n n' i c c'. dm_get m n = Some (i, c) \<longrightarrow> dm_get m n' = Some (i, c') \<longrightarrow> n = n')"

definition main_inv :: "('c, 'r, 's) MainState \<Rightarrow> bool" where
  "main_inv st = live (ms_active st) (ms_tasks st)"

definition no_orphans :: "('c, 'r, 's) MainState \<Rightarrow> bool" where
  "no_orphans st \<longleftrightarrow> (\<forall>i < length (ms_tasks st). \<not> task_cancelled (ms_tasks st ! i) \<longrightarrow> i \<in> ids (ms_active st))"

lemma idsI: "dm_get m n = Some (i, c) \<Longrightarrow> i \<in> ids m"
  by (auto simp: ids_def)

lemma ids_empty [simp]: "ids [] = {}"
  by (simp add: ids_def)

lemma ids_insert_new:
  assumes "dm_get m n = None"
  shows "ids (dm_insert n (i, c) m) = insert i (ids m)"
proof (rule set_eqI)
  fix j
  have "j \<in> ids (dm_insert n (i, c) m) \<longleftrightarrow> (\<exists>n' d. (if n' = n then Some (i, c) else dm_get m n') = Some (j, d))"
    by (simp add: ids_def dm.get_insert)
  also have "\<dots> \<longleftrightarrow> j = i \<or> (\<exists>n' d. n' \<noteq> n \<and> dm_get m n' = Some (j, d))" by auto
  also have "\<dots> \<longleftrightarrow> j \<in> insert i (ids m)"
  proof -
    have "n' \<noteq> n \<and> dm_get m n' = Some (j, d) \<longleftrightarrow> dm_get m n' = Some (j, d)" for n' d using assms by auto
    then show ?thesis by (simp add: ids_def)
  qed
  finally show "j \<in> ids (dm_insert n (i, c) m) \<longleftrightarrow> j \<in> insert i (ids m)" .
qed

lemma liveD:
  assumes "live m tasks"
  shows "dm_wf m" and "i \<in> ids m \<Longrightarrow> i < length tasks \<and> \<not> task_cancelled (tasks ! i)"
    and "dm_get m n = Some (i, c) \<Longrightarrow> dm_get m n' = Some (i, c') \<Longrightarrow> n = n'"
  using assms unfolding live_def by blast+

lemma ids_remove:
  assumes "live m tasks" and "dm_get m n = Some (i, c)"
  shows "ids (dm_remove n m) = ids m - {i}"
proof (rule set_eqI)
  fix j
  have "j \<in> ids (dm_remove n m) \<longleftrightarrow> (\<exists>n' d. n' \<noteq> n \<and> dm_get m n' = Some (j, d))"
    using liveD(1) [OF assms(1)] by (auto simp: ids_def dm.get_remove)
  also have "\<dots> \<longleftrightarrow> j \<in> ids m \<and> j \<noteq> i"
  proof -
    have "n' \<noteq> n \<and> dm_get m n' = Some (j, d) \<longleftrightarrow> dm_get m n' = Some (j, d) \<and> j \<noteq> i" for n' d
      using liveD(3) [OF assms(1), of n' j d n c] assms(2) by auto
    then show ?thesis by (simp add: ids_def)
  qed
  finally show "j \<in> ids (dm_remove n m) \<longleftrightarrow> j \<in> ids m - {i}" by simp
qed

lemma live_insert:
  assumes "live m tasks" and "dm_get m n = None" and "i \<notin> ids m" and "i < length tasks" and "\<not> task_cancelled (tasks ! i)"
  shows "live (dm_insert n (i, c) m) tasks"
  unfolding live_def
proof (intro conjI ballI allI impI)
  show "dm_wf (dm_insert n (i, c) m)" by (rule dm.wf_insert [OF liveD(1) [OF assms(1)]])
next
  fix j
  assume "j \<in> ids (dm_insert n (i, c) m)"
  then show "j < length tasks" "\<not> task_cancelled (tasks ! j)"
    using liveD(2) [OF assms(1)] assms(4,5) by (auto simp: ids_insert_new [OF assms(2)])
next
  fix a b j d d'
  assume "dm_get (dm_insert n (i, c) m) a = Some (j, d)" "dm_get (dm_insert n (i, c) m) b = Some (j, d')"
  then show "a = b" using liveD(3) [OF assms(1)] assms(3) idsI [of m] by (auto simp: dm.get_insert split: if_splits)
qed

lemma live_remove: "live m tasks \<Longrightarrow> live (dm_remove n m) tasks"
proof -
  assume l: "live m tasks"
  have g: "dm_get (dm_remove n m) a = Some v \<Longrightarrow> dm_get m a = Some v" for a v
    using liveD(1) [OF l] by (simp add: dm.get_remove split: if_splits)
  then have "ids (dm_remove n m) \<subseteq> ids m" unfolding ids_def by blast
  then show ?thesis using l g dm.wf_remove [OF liveD(1) [OF l]] unfolding live_def by blast
qed

lemma live_tasks:
  assumes "live m tasks" and "length tasks \<le> length tasks'"
    and "\<And>i. i < length tasks \<Longrightarrow> task_cancelled (tasks' ! i) = task_cancelled (tasks ! i)"
  shows "live m tasks'"
proof -
  have "i < length tasks' \<and> \<not> task_cancelled (tasks' ! i)" if "i \<in> ids m" for i
    using liveD(2) [OF assms(1) that] assms(2,3) by auto
  then show ?thesis using assms(1) unfolding live_def by blast
qed

text \<open>While the new configuration is applied: the servers seen so far are in the new table with their new service, the
  tasks of both tables run, and no task is in both.\<close>

definition swap_inv :: "(string \<times> ('c, 'r) ServerConfig \<times> 's) list \<Rightarrow> ('c, 'r, 's) Swap \<Rightarrow> bool" where
  "swap_inv seen = (\<lambda>(active, next_active, tasks).
     live active tasks \<and> live next_active tasks \<and> ids active \<inter> ids next_active = {}
     \<and> (\<forall>n. dm_get next_active n = None \<longleftrightarrow> n \<notin> fst ` set seen)
     \<and> (\<forall>n i c. dm_get next_active n = Some (i, c) \<longrightarrow> (n, c, task_stack (tasks ! i)) \<in> set seen))"

definition covered :: "('c, 'r, 's) Swap \<Rightarrow> bool" where
  "covered = (\<lambda>(active, next_active, tasks).
     \<forall>i < length tasks. \<not> task_cancelled (tasks ! i) \<longrightarrow> i \<in> ids active \<union> ids next_active)"

lemma swap_inv_spawn:
  assumes "swap_inv seen (active, next_active, tasks)" and "n \<notin> fst ` set seen"
  shows "swap_inv (seen @ [(n, c, svc)]) (active, dm_insert n (length tasks, c) next_active, tasks @ [new_task c svc])"
proof -
  let ?tasks = "tasks @ [new_task c svc]" and ?next = "dm_insert n (length tasks, c) next_active"
  have la: "live active tasks" and ln: "live next_active tasks" and dis: "ids active \<inter> ids next_active = {}"
    and keys: "\<And>m. dm_get next_active m = None \<longleftrightarrow> m \<notin> fst ` set seen"
    and vals: "\<And>m i d. dm_get next_active m = Some (i, d) \<Longrightarrow> (m, d, task_stack (tasks ! i)) \<in> set seen"
    using assms(1) by (auto simp: swap_inv_def)
  have new: "dm_get next_active n = None" using keys assms(2) by blast
  have fresh: "length tasks \<notin> ids active" "length tasks \<notin> ids next_active"
    using liveD(2) [OF la] liveD(2) [OF ln] by auto
  have la': "live active ?tasks" by (rule live_tasks [OF la]) (auto simp: nth_append)
  have "live next_active ?tasks" by (rule live_tasks [OF ln]) (auto simp: nth_append)
  then have ln': "live ?next ?tasks" by (rule live_insert [OF _ new fresh(2)]) (simp_all add: new_task_def)
  have "(m, d, task_stack (?tasks ! i)) \<in> set (seen @ [(n, c, svc)])" if "dm_get ?next m = Some (i, d)" for m i d
  proof (cases "m = n")
    case True
    then have "i = length tasks" "d = c" using that by (auto simp: dm.get_insert)
    then show ?thesis using True by (simp add: new_task_def)
  next
    case False
    then have g: "dm_get next_active m = Some (i, d)" using that by (simp add: dm.get_insert)
    then have "i < length tasks" using liveD(2) [OF ln idsI] by blast
    then show ?thesis using vals [OF g] by (simp add: nth_append)
  qed
  moreover have "dm_get ?next m = None \<longleftrightarrow> m \<notin> fst ` set (seen @ [(n, c, svc)])" for m
    using keys by (auto simp: dm.get_insert)
  moreover have "ids active \<inter> ids ?next = {}" using dis fresh(1) by (simp add: ids_insert_new [OF new])
  ultimately show ?thesis using la' ln' unfolding swap_inv_def by blast
qed

lemma swap_inv_keep:
  assumes "swap_inv seen (active, next_active, tasks)" and "n \<notin> fst ` set seen" and "dm_get active n = Some (i, old)"
  shows "swap_inv (seen @ [(n, c, svc)])
    (dm_remove n active, dm_insert n (i, c) next_active, tasks[i := (tasks ! i)\<lparr> task_stack := svc \<rparr>])"
proof -
  let ?tasks = "tasks[i := (tasks ! i)\<lparr> task_stack := svc \<rparr>]" and ?next = "dm_insert n (i, c) next_active"
  have la: "live active tasks" and ln: "live next_active tasks" and dis: "ids active \<inter> ids next_active = {}"
    and keys: "\<And>m. dm_get next_active m = None \<longleftrightarrow> m \<notin> fst ` set seen"
    and vals: "\<And>m i d. dm_get next_active m = Some (i, d) \<Longrightarrow> (m, d, task_stack (tasks ! i)) \<in> set seen"
    using assms(1) by (auto simp: swap_inv_def)
  have new: "dm_get next_active n = None" using keys assms(2) by blast
  have i: "i \<in> ids active" "i < length tasks" "\<not> task_cancelled (tasks ! i)" "i \<notin> ids next_active"
    using idsI [OF assms(3)] liveD(2) [OF la] dis by auto
  have same: "task_cancelled (?tasks ! j) = task_cancelled (tasks ! j)" if "j < length tasks" for j
    using that by (cases "i = j") auto
  have "live active ?tasks" by (rule live_tasks [OF la]) (auto simp: same)
  then have la': "live (dm_remove n active) ?tasks" by (rule live_remove)
  have "live next_active ?tasks" by (rule live_tasks [OF ln]) (auto simp: same)
  then have ln': "live ?next ?tasks" by (rule live_insert [OF _ new i(4)]) (use i in auto)
  have "(m, d, task_stack (?tasks ! j)) \<in> set (seen @ [(n, c, svc)])" if "dm_get ?next m = Some (j, d)" for m j d
  proof (cases "m = n")
    case True
    then have "j = i" "d = c" using that by (auto simp: dm.get_insert)
    then show ?thesis using True i by simp
  next
    case False
    then have g: "dm_get next_active m = Some (j, d)" using that by (simp add: dm.get_insert)
    then have "j \<noteq> i" using i(4) idsI by blast
    then show ?thesis using vals [OF g] by simp
  qed
  moreover have "dm_get ?next m = None \<longleftrightarrow> m \<notin> fst ` set (seen @ [(n, c, svc)])" for m
    using keys by (auto simp: dm.get_insert)
  moreover have "ids (dm_remove n active) \<inter> ids ?next = {}"
    using dis by (auto simp: ids_insert_new [OF new] ids_remove [OF la assms(3)])
  ultimately show ?thesis using la' ln' unfolding swap_inv_def by blast
qed

lemma swap_inv_step:
  assumes "swap_inv seen s" and "fst x \<notin> fst ` set seen"
  shows "swap_inv (seen @ [x]) (apply_server s x)"
proof -
  obtain active next_active tasks where s: "s = (active, next_active, tasks)" by (cases s)
  obtain n c svc where x: "x = (n, c, svc)" by (cases x)
  have n: "n \<notin> fst ` set seen" using assms(2) x by simp
  note sp = swap_inv_spawn [OF assms(1) [unfolded s] n, of c svc]
  show ?thesis
  proof (cases "dm_get active n")
    case None
    then show ?thesis using sp by (simp add: s x apply_server_def)
  next
    case (Some p)
    obtain i old where p: "p = (i, old)" by (cases p)
    show ?thesis using sp swap_inv_keep [OF assms(1) [unfolded s] n Some [unfolded p], of c svc] Some p
      by (simp add: s x apply_server_def)
  qed
qed

lemma swap_inv_fold:
  "distinct (map fst xs) \<Longrightarrow> fst ` set xs \<inter> fst ` set seen = {} \<Longrightarrow> swap_inv seen s \<Longrightarrow> swap_inv (seen @ xs) (foldl apply_server s xs)"
proof (induction xs arbitrary: seen s)
  case (Cons x xs)
  have "swap_inv (seen @ [x]) (apply_server s x)" using Cons.prems by (intro swap_inv_step) auto
  then have "swap_inv ((seen @ [x]) @ xs) (foldl apply_server (apply_server s x) xs)" using Cons.prems by (intro Cons.IH) auto
  then show ?case by simp
qed simp

lemma covered_step:
  assumes "swap_inv seen s" and "fst x \<notin> fst ` set seen" and "covered s"
  shows "covered (apply_server s x)"
proof -
  obtain active next_active tasks where s: "s = (active, next_active, tasks)" by (cases s)
  obtain n c svc where x: "x = (n, c, svc)" by (cases x)
  have la: "live active tasks" and new: "dm_get next_active n = None"
    using assms(1,2) by (auto simp: s x swap_inv_def)
  have cov: "i \<in> ids active \<union> ids next_active" if "i < length tasks" "\<not> task_cancelled (tasks ! i)" for i
    using assms(3) that by (simp add: s covered_def)
  have spawn: "covered (active, dm_insert n (length tasks, c) next_active, tasks @ [new_task c svc])"
    using cov by (auto simp: covered_def ids_insert_new [OF new] nth_append less_Suc_eq)
  have keep: "covered (dm_remove n active, dm_insert n (i, c) next_active, tasks[i := (tasks ! i)\<lparr> task_stack := svc \<rparr>])"
    if "dm_get active n = Some (i, old)" for i old
  proof -
    have "task_cancelled (tasks[i := (tasks ! i)\<lparr> task_stack := svc \<rparr>] ! j) = task_cancelled (tasks ! j)" if "j < length tasks" for j
      using that by (cases "i = j") auto
    then show ?thesis using cov by (auto simp: covered_def ids_insert_new [OF new] ids_remove [OF la that])
  qed
  show ?thesis
  proof (cases "dm_get active n")
    case None
    then show ?thesis using spawn by (simp add: s x apply_server_def)
  next
    case (Some p)
    obtain i old where p: "p = (i, old)" by (cases p)
    show ?thesis using spawn keep [OF Some [unfolded p]] Some p by (simp add: s x apply_server_def)
  qed
qed

lemma covered_fold:
  "distinct (map fst xs) \<Longrightarrow> fst ` set xs \<inter> fst ` set seen = {} \<Longrightarrow> swap_inv seen s \<Longrightarrow> covered s \<Longrightarrow> covered (foldl apply_server s xs)"
proof (induction xs arbitrary: seen s)
  case (Cons x xs)
  have x: "fst x \<notin> fst ` set seen" using Cons.prems by auto
  have "covered (foldl apply_server (apply_server s x) xs)"
    by (rule Cons.IH [OF _ _ swap_inv_step [OF Cons.prems(3) x] covered_step [OF Cons.prems(3) x Cons.prems(4)]]) (use Cons.prems in auto)
  then show ?case by simp
qed simp

lemma cancel_nth:
  "length (cancel_all m tasks) = length tasks"
  "i < length tasks \<Longrightarrow> cancel_all m tasks ! i = (if i \<in> (fst \<circ> snd) ` set m then (tasks ! i)\<lparr> task_cancelled := True \<rparr> else tasks ! i)"
proof -
  show "length (cancel_all m tasks) = length tasks"
    unfolding cancel_all_def by (induction m arbitrary: tasks) (auto simp: case_prod_beta)
  show "i < length tasks \<Longrightarrow> cancel_all m tasks ! i = (if i \<in> (fst \<circ> snd) ` set m then (tasks ! i)\<lparr> task_cancelled := True \<rparr> else tasks ! i)"
    unfolding cancel_all_def
  proof (induction m arbitrary: tasks)
    case (Cons x m)
    obtain n j c where "x = (n, j, c)" by (cases x)
    then show ?case using Cons by (cases "i = j") auto
  qed simp
qed

lemma ids_set: "dm_wf m \<Longrightarrow> ids m = (fst \<circ> snd) ` set m"
  by (force simp: ids_def dm_get_def dm_wf_def image_iff)

lemma cancel_task:
  assumes "dm_wf m" and "i < length tasks"
  shows "cancel_all m tasks ! i = (if i \<in> ids m then (tasks ! i)\<lparr> task_cancelled := True \<rparr> else tasks ! i)"
  using cancel_nth(2) [OF assms(2)] ids_set [OF assms(1)] by simp

text \<open>The order of a hash map.\<close>

definition any_order :: "('a list \<Rightarrow> 'a list) \<Rightarrow> bool" where
  "any_order iter \<longleftrightarrow> (\<forall>xs. mset (iter xs) = mset xs)"

lemma apply_config_correct:
  assumes "main_inv st" and "any_order iter" and "dm_wf built"
  shows "main_inv (apply_config iter cfg built st)" and "no_orphans st \<Longrightarrow> no_orphans (apply_config iter cfg built st)"
    and "dm_get (ms_active (apply_config iter cfg built st)) n = Some (i, c) \<Longrightarrow>
      dm_get built n = Some (c, task_stack (ms_tasks (apply_config iter cfg built st) ! i))"
    and "dm_get (ms_active (apply_config iter cfg built st)) n = None \<longleftrightarrow> dm_get built n = None"
proof -
  let ?s = "(ms_active st, [], ms_tasks st)" and ?st = "apply_config iter cfg built st"
  have m: "mset (iter built) = mset built" using assms(2) by (simp add: any_order_def)
  then have set_b: "set (iter built) = set built" by (rule mset_eq_setD)
  have d: "distinct (map fst (iter built))"
    using assms(3) m unfolding dm_wf_def by (metis mset_map mset_eq_imp_distinct_iff)
  have s0: "swap_inv [] ?s" using assms(1) by (simp add: swap_inv_def main_inv_def) (simp add: live_def)
  obtain active next_active tasks where f: "foldl apply_server ?s (iter built) = (active, next_active, tasks)"
    by (metis prod_cases3)
  have inv: "swap_inv (iter built) (active, next_active, tasks)" using swap_inv_fold [OF d _ s0] f by simp
  have la: "live active tasks" and ln: "live next_active tasks" and dis: "ids active \<inter> ids next_active = {}"
    and keys: "\<And>m. dm_get next_active m = None \<longleftrightarrow> m \<notin> fst ` set (iter built)"
    and vals: "\<And>m i d. dm_get next_active m = Some (i, d) \<Longrightarrow> (m, d, task_stack (tasks ! i)) \<in> set (iter built)"
    using inv by (auto simp: swap_inv_def)
  have st: "ms_active ?st = next_active" "ms_tasks ?st = cancel_all active tasks" by (simp_all add: apply_config_def f)
  have task: "cancel_all active tasks ! j = tasks ! j" if "j \<in> ids next_active" for j
    using cancel_task [OF liveD(1) [OF la], of j tasks] liveD(2) [OF ln that] that dis by auto
  have len: "length (cancel_all active tasks) = length tasks" by (rule cancel_nth(1))
  have "j < length tasks \<and> \<not> task_cancelled (cancel_all active tasks ! j)" if "j \<in> ids next_active" for j
    using task [OF that] liveD(2) [OF ln that] by simp
  then show "main_inv ?st" using ln unfolding main_inv_def st live_def len by blast
  show "dm_get (ms_active ?st) n = None \<longleftrightarrow> dm_get built n = None"
    using keys [of n] unfolding st set_b by (simp add: dm_get_def [of built] map_of_eq_None_iff)
  show "dm_get (ms_active ?st) n = Some (i, c) \<Longrightarrow> dm_get built n = Some (c, task_stack (ms_tasks ?st ! i))"
    using vals [of n i c] task [OF idsI, of n i c] assms(3) unfolding st set_b by (simp add: dm_get_def [of built] dm_wf_def)
  show "no_orphans ?st" if "no_orphans st"
  proof -
    have "covered ?s" using that by (simp add: covered_def no_orphans_def)
    then have "covered (active, next_active, tasks)" using covered_fold [OF d _ s0] f by simp
    then have "j \<in> ids active \<union> ids next_active" if "j < length tasks" "\<not> task_cancelled (tasks ! j)" for j
      using that by (simp add: covered_def)
    moreover have "j \<in> ids active \<Longrightarrow> task_cancelled (cancel_all active tasks ! j)"
      "j \<notin> ids active \<Longrightarrow> cancel_all active tasks ! j = tasks ! j" if "j < length tasks" for j
      using cancel_task [OF liveD(1) [OF la] that] by simp_all
    ultimately show ?thesis unfolding no_orphans_def st len by fastforce
  qed
qed

section \<open>The dry run\<close>

definition buildable :: "('c, 'key, 'e, 'r, 'ik, 'sk, 'b) ReloadEnv \<Rightarrow> ('c, 'r) ServerConfig \<Rightarrow> bool" where
  "buildable env s \<longleftrightarrow> tls_checked (hr_tls env) s = Some (Ok ()) \<and> (\<exists>svc. build_stack env s = Ok svc)"

lemma dry_run_errors: "dry_run env ss errs built = Some (errs', built') \<Longrightarrow> \<exists>more_errs. errs' = errs @ more_errs"
proof (induction ss arbitrary: errs built)
  case (Cons s ss)
  then show ?case by (auto split: if_splits option.splits result.splits) fastforce+
qed simp

lemma dry_run_clean:
  assumes "dry_run env ss [] built = Some (errs, built')"
  shows "errs = [] \<longleftrightarrow> (\<forall>s \<in> set ss. srv_enabled s \<longrightarrow> buildable env s)"
  using assms
proof (induction ss arbitrary: built)
  case (Cons s ss)
  have bad: "errs \<noteq> []" if "dry_run env ss [e] built = Some (errs, built')" for e built
    using dry_run_errors [OF that] by auto
  show ?case
  proof (cases "srv_enabled s")
    case False
    then show ?thesis using Cons by simp
  next
    case True
    show ?thesis using Cons.prems Cons.IH bad True
      by (auto simp: buildable_def split: option.splits result.splits)
  qed
qed simp

lemma dry_run_built:
  assumes "dry_run env ss errs built = Some ([], built')" and "dm_wf built"
  shows "dm_wf built'"
    and "dm_get built' n = Some (c, svc) \<Longrightarrow>
      dm_get built n = Some (c, svc) \<or> c \<in> set ss \<and> srv_enabled c \<and> srv_name c = n \<and> build_stack env c = Ok svc"
    and "dm_get built' n = None \<longleftrightarrow> dm_get built n = None \<and> (\<forall>s \<in> set ss. srv_enabled s \<longrightarrow> srv_name s \<noteq> n)"
proof -
  have no: "dry_run env ss (errs @ [e]) built \<noteq> Some ([], built')" for ss errs e built
    using dry_run_errors [of env ss "errs @ [e]" built "[]" built'] by auto
  have "dm_wf built' \<and> (dm_get built' n = Some (c, svc) \<longrightarrow>
      dm_get built n = Some (c, svc) \<or> c \<in> set ss \<and> srv_enabled c \<and> srv_name c = n \<and> build_stack env c = Ok svc)
    \<and> (dm_get built' n = None \<longleftrightarrow> dm_get built n = None \<and> (\<forall>s \<in> set ss. srv_enabled s \<longrightarrow> srv_name s \<noteq> n))"
    using assms
  proof (induction ss arbitrary: errs built)
    case (Cons s ss)
    show ?case
    proof (cases "srv_enabled s")
      case False
      then have "dry_run env ss errs built = Some ([], built')" using Cons.prems(1) by simp
      from Cons.IH [OF this Cons.prems(2)] False show ?thesis by auto
    next
      case True
      then obtain svc' where b: "build_stack env s = Ok svc'" "dry_run env ss errs (dm_insert (srv_name s) (s, svc') built) = Some ([], built')"
        using Cons.prems(1) no by (auto split: option.splits result.splits)
      from Cons.IH [OF b(2) dm.wf_insert [OF Cons.prems(2)]] b(1) True show ?thesis
        by (auto simp: dm.get_insert split: if_splits)
    qed
  qed simp
  then show "dm_wf built'"
    and "dm_get built' n = Some (c, svc) \<Longrightarrow>
      dm_get built n = Some (c, svc) \<or> c \<in> set ss \<and> srv_enabled c \<and> srv_name c = n \<and> build_stack env c = Ok svc"
    and "dm_get built' n = None \<longleftrightarrow> dm_get built n = None \<and> (\<forall>s \<in> set ss. srv_enabled s \<longrightarrow> srv_name s \<noteq> n)"
    by blast+
qed

lemma dry_run_total: "\<forall>s \<in> set ss. srv_static_name s \<noteq> None \<Longrightarrow> dry_run env ss errs built \<noteq> None"
proof (induction ss arbitrary: errs built)
  case (Cons s ss)
  have "tls_checked (hr_tls env) s \<noteq> None"
    using Cons.prems by (auto simp: tls_checked_def build_rustls_config_def split: option.splits)
  then show ?case using Cons by (auto split: option.splits result.splits)
qed simp

lemma finalize_named: "finalize cenv s = Ok s' \<Longrightarrow> srv_static_name s' = Some (srv_name s)"
  by (auto simp: finalize_def finalize_checks_def Let_def init_parsed_routes_def init_compiled_allowed_pathes_def init_compiled_rbac_def
      split: result.splits prod.splits option.splits if_splits)

lemma loaded_named: "Config_load lib cenv path = Ok cfg \<Longrightarrow> \<forall>s \<in> set (config_servers cfg). srv_static_name s \<noteq> None"
proof -
  assume l: "Config_load lib cenv path = Ok cfg"
  then obtain raw where "finalize_all cenv raw = Ok (config_servers cfg)" by (auto simp: Config_load_def split: result.splits)
  then have "list_all2 (\<lambda>s s'. finalize cenv s = Ok s') raw (config_servers cfg)" by (rule finalize_all_Ok)
  then show ?thesis using finalize_named by (fastforce simp: list_all2_conv_all_nth in_set_conv_nth)
qed

section \<open>Reload and shutdown\<close>

lemma reload_step:
  assumes "main_inv st" and "any_order iter"
  shows "\<exists>st'. handle_sighup iter env path st = Some st' \<and> main_inv st' \<and> (no_orphans st \<longrightarrow> no_orphans st')
    \<and> (case Config_load (hr_load env) (hr_config env) path of
         Err e \<Rightarrow> st' = st
       | Ok cfg \<Rightarrow>
           (if \<forall>s \<in> set (config_servers cfg). srv_enabled s \<longrightarrow> buildable env s
            then ms_global st' = cfg
              \<and> (\<forall>n. dm_get (ms_active st') n \<noteq> None \<longleftrightarrow> (\<exists>s \<in> set (config_servers cfg). srv_enabled s \<and> srv_name s = n))
              \<and> (\<forall>n i c. dm_get (ms_active st') n = Some (i, c) \<longrightarrow>
                   c \<in> set (config_servers cfg) \<and> srv_enabled c \<and> srv_name c = n
                   \<and> \<not> task_cancelled (ms_tasks st' ! i) \<and> build_stack env c = Ok (task_stack (ms_tasks st' ! i)))
            else st' = st))"
proof (cases "Config_load (hr_load env) (hr_config env) path")
  case (Err e)
  then show ?thesis using assms(1) by (simp add: handle_sighup_def)
next
  case (Ok cfg)
  obtain errs built where d: "dry_run env (config_servers cfg) [] [] = Some (errs, built)"
    using dry_run_total [OF loaded_named [OF Ok]] by fastforce
  note clean = dry_run_clean [OF d]
  show ?thesis
  proof (cases "errs = []")
    case False
    then have "handle_sighup iter env path st = Some st" using Ok d by (simp add: handle_sighup_def)
    moreover have nb: "(\<forall>s \<in> set (config_servers cfg). srv_enabled s \<longrightarrow> buildable env s) = False" using False clean by simp
    ultimately show ?thesis using assms(1) unfolding Ok result.case nb if_False by (intro exI [of _ st] conjI impI refl)
  next
    case True
    let ?st = "apply_config iter cfg built st"
    note d' = d [unfolded True]
    note b = dry_run_built [OF d' dm_wf_empty]
    note a = apply_config_correct [OF assms b(1)]
    have "c \<in> set (config_servers cfg) \<and> srv_enabled c \<and> srv_name c = n \<and> \<not> task_cancelled (ms_tasks ?st ! i)
        \<and> build_stack env c = Ok (task_stack (ms_tasks ?st ! i))" if g: "dm_get (ms_active ?st) n = Some (i, c)" for n i c
      using b(2) [OF a(3) [OF g]] liveD(2) [OF a(1) [unfolded main_inv_def] idsI [OF g]] by auto
    moreover have "dm_get (ms_active ?st) n \<noteq> None \<longleftrightarrow> (\<exists>s \<in> set (config_servers cfg). srv_enabled s \<and> srv_name s = n)" for n
      using a(4) [of cfg n] b(3) [of n] by auto
    moreover have "ms_global ?st = cfg" by (simp add: apply_config_def split: prod.splits)
    moreover have "handle_sighup iter env path st = Some ?st" using Ok d True by (simp add: handle_sighup_def)
    moreover have nb: "(\<forall>s \<in> set (config_servers cfg). srv_enabled s \<longrightarrow> buildable env s) = True" using True clean by simp
    ultimately show ?thesis using a(1) [of cfg] a(2) [of cfg] unfolding Ok result.case nb if_True
      by (intro exI [of _ ?st] conjI impI allI) simp_all
  qed
qed


lemma start_server_live:
  assumes "live m tasks" and "dm_get m n = None"
  shows "live (dm_insert n (length tasks, s) m) (tasks @ [new_task s svc])"
proof (rule live_insert [OF live_tasks [OF assms(1)] assms(2)])
  show "length tasks \<notin> ids m" using liveD(2) [OF assms(1)] by auto
qed (auto simp: nth_append new_task_def)

lemma start_servers_correct:
  "live (ms_active st) (ms_tasks st) \<Longrightarrow> no_orphans st \<Longrightarrow> distinct (map srv_name (filter srv_enabled ss)) \<Longrightarrow>
    \<forall>s \<in> set ss. srv_enabled s \<longrightarrow> dm_get (ms_active st) (srv_name s) = None \<Longrightarrow>
    main_inv (start_servers env ss st) \<and> no_orphans (start_servers env ss st)"
proof (induction ss arbitrary: st)
  case Nil
  then show ?case by (simp add: main_inv_def)
next
  case (Cons s ss)
  show ?case
  proof (cases "srv_enabled s \<and> is_ok (build_stack env s)")
    case False
    then have "start_servers env (s # ss) st = start_servers env ss st" by (auto split: result.splits)
    then show ?thesis using Cons by (auto split: if_splits)
  next
    case True
    then obtain svc where svc: "build_stack env s = Ok svc" by (cases "build_stack env s") auto
    let ?st = "st\<lparr> ms_active := dm_insert (srv_name s) (length (ms_tasks st), s) (ms_active st), ms_tasks := ms_tasks st @ [new_task s svc] \<rparr>"
    have new: "dm_get (ms_active st) (srv_name s) = None" using Cons.prems(4) True by simp
    have "live (ms_active ?st) (ms_tasks ?st)" using start_server_live [OF Cons.prems(1) new] by simp
    moreover have "no_orphans ?st"
      using Cons.prems(2) by (auto simp: no_orphans_def ids_insert_new [OF new] nth_append less_Suc_eq)
    moreover have "\<forall>x \<in> set ss. srv_enabled x \<longrightarrow> dm_get (ms_active ?st) (srv_name x) = None"
      using Cons.prems(3,4) True by (auto simp: dm.get_insert image_iff)
    ultimately have "main_inv (start_servers env ss ?st) \<and> no_orphans (start_servers env ss ?st)"
      using Cons.prems(3) True by (intro Cons.IH) auto
    then show ?thesis using True svc by simp
  qed
qed

lemma main_loop_inv:
  "main_loop path sighups st = Some st' \<Longrightarrow> \<forall>(iter, env) \<in> set sighups. any_order iter \<Longrightarrow> main_inv st \<Longrightarrow> no_orphans st \<Longrightarrow>
    main_inv st' \<and> no_orphans st'"
proof (induction sighups arbitrary: st)
  case (Cons x sighups)
  obtain iter env where x: "x = (iter, env)" by (cases x)
  have "any_order iter" using Cons.prems(2) x by simp
  from reload_step [OF Cons.prems(3) this, of env path] obtain st1 where
    "handle_sighup iter env path st = Some st1" "main_inv st1" "no_orphans st \<longrightarrow> no_orphans st1" by blast
  then show ?case using Cons x by simp
qed simp


text \<open>Two enabled servers with one name are both started, but the supervisor keeps the token of the second only: the first
  is never told to stop.\<close>

theorem duplicate_name_never_stopped:
  assumes "config_servers config = [a, b]" and "srv_name a = srv_name b" and "srv_enabled a" and "srv_enabled b"
    and "build_stack env a = Ok svc" and "build_stack env b = Ok svc'"
  shows "length (ms_tasks (shutdown (main_start env config))) = 2 \<and> \<not> all_cancelled (shutdown (main_start env config))"
  using assms by (simp add: main_start_def shutdown_def cancel_all_def all_cancelled_def dm_insert_def new_task_def)

section \<open>What a reload leaves as it was\<close>

lemma apply_server_config:
  "i < length (snd (snd s)) \<Longrightarrow> i < length (snd (snd (apply_server s x)))
    \<and> task_config (snd (snd (apply_server s x)) ! i) = task_config (snd (snd s) ! i)"
proof -
  assume i: "i < length (snd (snd s))"
  obtain active next_active tasks where s: "s = (active, next_active, tasks)" by (cases s)
  obtain n c svc where x: "x = (n, c, svc)" by (cases x)
  have "task_config (tasks[j := (tasks ! j)\<lparr> task_stack := svc \<rparr>] ! i) = task_config (tasks ! i)" for j
    using i s by (cases "j = i") auto
  then show ?thesis using i by (auto simp: s x apply_server_def nth_append split: option.splits)
qed

lemma apply_fold_config:
  "i < length (snd (snd s)) \<Longrightarrow> i < length (snd (snd (foldl apply_server s xs)))
    \<and> task_config (snd (snd (foldl apply_server s xs)) ! i) = task_config (snd (snd s) ! i)"
proof (induction xs arbitrary: s)
  case (Cons x xs)
  from apply_server_config [OF Cons.prems, of x] Cons.IH [of "apply_server s x"] show ?case by simp
qed simp

lemma cancel_config: "i < length ts \<Longrightarrow> task_config (cancel_all m ts ! i) = task_config (ts ! i)"
  using cancel_nth(2) [of i ts m] by simp

text \<open>A listener that is not restarted keeps the configuration it was started with, and a change of the authentication method, of
  the client CAs, of the role mapping or of the connection limits restarts none: its new connections still get the TLS settings,
  the roles and the limits of the old configuration.\<close>

theorem listener_keeps_old_settings:
  assumes "handle_sighup iter env path st = Some st'" and "i < length (ms_tasks st)"
  shows "task_config (ms_tasks st' ! i) = task_config (ms_tasks st ! i)
    \<and> \<not> needs_restart (Some (i, old)) (old\<lparr> srv_authentication := method, srv_client_certs := cas, srv_oid_mapping := roles,
          srv_max_connections := limit, srv_max_connections_per_ip := limit_ip \<rparr>)"
proof -
  have "task_config (ms_tasks (apply_config iter cfg built st) ! i) = task_config (ms_tasks st ! i)" for cfg built
    using apply_fold_config [of i "(ms_active st, [], ms_tasks st)" "iter built"] assms(2)
    by (auto simp: apply_config_def cancel_config split: prod.splits)
  then show ?thesis
    using assms(1) by (auto simp: handle_sighup_def needs_restart_def split: result.splits option.splits if_splits)
qed

section \<open>A run\<close>

definition demo_echo :: "bool \<Rightarrow> (string, string) ServerConfig" where
  "demo_echo enabled =
     (demo_server HttpProto NoAuthentication)\<lparr> srv_service := Echo, srv_enabled := enabled, srv_rev_routes := None,
       srv_layers := demo_layers\<lparr> layers_enabled := [''TraceId''] \<rparr> \<rparr>"

definition demo_base_lib :: "(string, string, string, string, unit) BaseLib" where
  "demo_base_lib =
     \<lparr> bl_load_tls = (\<lambda>_ _. Ok ()), bl_idp_load = \<lparr> il_load_tls = (\<lambda>_. Ok ()), il_encoding_key = (\<lambda>p. Ok p), il_decoding_keys = (\<lambda>ps. Ok ps),
         il_pem_contents = (\<lambda>_. None), il_base64 = (\<lambda>_. []) \<rparr>,
        bl_now = 0, bl_router = (\<lambda>_ _ _ _ w. (Err (Other ''''), w)),
       bl_admin = (\<lambda>_ _ _ w. (Err (Other ''''), w)), bl_idp = (\<lambda>_ _ _ w. (Err (Other ''''), w)), bl_serve_dir = (\<lambda>_ _ _ w. (Err (Other ''''), w)) \<rparr>"

definition demo_reload_env :: "bool \<Rightarrow> (string, string, string, string, string, string, unit) ReloadEnv" where
  "demo_reload_env enabled =
     \<lparr> hr_load = \<lparr> ll_read_to_string = (\<lambda>p. Ok p),
         ll_from_str = (\<lambda>s. Ok \<lparr> config_includes = [], config_servers = [demo_echo enabled], config_pki_base_oid = None, config_parsed_pki_base_oid = None \<rparr>),
         ll_value_from_str = (\<lambda>_. Ok ()), ll_glob = (\<lambda>p. Ok []) \<rparr>,
       hr_config = demo_env, hr_base = demo_base_lib, hr_tls = demo_tls_lib \<rparr>"

definition empty_config :: "(string, string) Config" where
  "empty_config = \<lparr> config_includes = [], config_servers = [], config_pki_base_oid = None, config_parsed_pki_base_oid = None \<rparr>"

lemma demo_reload_builds:
  "case Config_load (hr_load (demo_reload_env True)) (hr_config (demo_reload_env True)) ''p'' of
     Err e \<Rightarrow> False
   | Ok cfg \<Rightarrow> list_all (\<lambda>s. srv_enabled s \<and> srv_name s = ''edge'' \<and> tls_checked (hr_tls (demo_reload_env True)) s = Some (Ok ())
       \<and> is_ok (build_stack (demo_reload_env True) s)) (config_servers cfg) \<and> config_servers cfg \<noteq> []"
  by code_simp



end
