(* ===== verification/Spec2Isabelle.thy ===== *)
theory Spec2Isabelle
  imports Path_Sanitizer Proxy_Protocol Conn_Tracker Circuit_Breaker Load_Balancer Ip_Filter Proxy_Headers Access_Rules Server_Config Http_Proxy
    Concurrency_Limit Rate_Limiter Jwt_Auth Grpc_Web Admin_Metrics Idp_Flow Hot_Reload
begin

text \<open>
  praeco-rs: a reverse proxy and API gateway (\<open>server/\<close>), a TLS relay (\<open>relay-server/\<close>) and the
  crates they share (\<open>common/\<close>).

  Theories and the sources they model:

  \<^item> \<open>Prelude\<close>: machine integers, results, strings, concurrent maps.
  \<^item> \<open>Net_Addr\<close>: IP addresses and their canonical forms.
  \<^item> \<open>Http\<close>: requests, responses, headers, bodies, counters.
  \<^item> \<open>Path_Sanitizer\<close>: \<open>server/src/middleware/path_sanitizer.rs\<close>.
\<close>

end
